(* ===== verification/Prelude.thy ===== *)
theory Prelude
  imports Main "HOL-Library.Word"
begin

text \<open>
  Shared vocabulary of the development: the integer types of \<^verbatim>\<open>lib/stdint.h\<close> as words,
  the outcome of a kernel routine (a value, or one of the ways in which it does not return),
  the \<^verbatim>\<open>ASSERT\<close> macro of \<^verbatim>\<open>kernel/debug.h\<close>, the constants of \<^verbatim>\<open>kernel/global.h\<close>, and the
  generic facts on words and address ranges that the components share.
\<close>

unbundle bit_operations_syntax

section \<open>Integer types and constants\<close>

type_synonym u8 = "8 word"
type_synonym u16 = "16 word"
type_synonym u32 = "32 word"
type_synonym u64 = "64 word"

text \<open>A 32-bit pointer is its address; the null pointer is \<^term>\<open>0 :: u32\<close>.\<close>

abbreviation NULL :: u32 where
  "NULL \<equiv> 0"

definition PG_SIZE :: u32 where
  "PG_SIZE = 4096"

definition DIV_ROUND_UP :: "u32 \<Rightarrow> u32 \<Rightarrow> u32" where
  "DIV_ROUND_UP X STEP = (X + STEP - 1) div STEP"

section \<open>Outcomes\<close>

text \<open>
  A routine that does not return a value ends in one of these ways: \<open>PANIC\<close> is
  \<^verbatim>\<open>panic_spin\<close> (a failed \<^verbatim>\<open>ASSERT\<close> or an explicit \<^verbatim>\<open>PANIC\<close>; \<^verbatim>\<open>NDEBUG\<close> is not defined by
  the makefile), \<open>SPIN\<close> is a loop that never ends, \<open>PAGE_FAULT\<close> is an access through an
  entry that is not present, \<open>OUT_OF_BOUNDS\<close> an access outside the array it names.
\<close>

datatype kerror = PANIC | SPIN | PAGE_FAULT | OUT_OF_BOUNDS

type_synonym 'a res = "kerror + 'a"

definition kbind :: "'a res \<Rightarrow> ('a \<Rightarrow> 'b res) \<Rightarrow> 'b res" where
  "kbind m k = (case m of Inl e \<Rightarrow> Inl e | Inr x \<Rightarrow> k x)"

definition ASSERT :: "bool \<Rightarrow> 'a res \<Rightarrow> 'a res" where
  "ASSERT c k = (if c then k else Inl PANIC)"

text \<open>A loop that may not end is modelled in \<open>option\<close>; \<open>None\<close> is the loop that spins.\<close>

definition of_loop :: "'a option \<Rightarrow> 'a res" where
  "of_loop x = (case x of None \<Rightarrow> Inl SPIN | Some v \<Rightarrow> Inr v)"

text \<open>Repeating a routine over a list of arguments, and a given number of times.\<close>

primrec each_res :: "('a \<Rightarrow> 's \<Rightarrow> 's res) \<Rightarrow> 'a list \<Rightarrow> 's \<Rightarrow> 's res" where
  "each_res f [] s = Inr s"
| "each_res f (x # xs) s = kbind (f x s) (each_res f xs)"

primrec collect_res :: "('s \<Rightarrow> ('a \<times> 's) res) \<Rightarrow> nat \<Rightarrow> 's \<Rightarrow> ('a list \<times> 's) res" where
  "collect_res f 0 s = Inr ([], s)"
| "collect_res f (Suc n) s =
     kbind (f s) (\<lambda>(x, s). kbind (collect_res f n s) (\<lambda>(xs, s). Inr (x # xs, s)))"

named_theorems kres_simps
named_theorems kdefs

lemma kbind_Inr [simp]: "kbind (Inr x) k = k x"
  by (simp add: kbind_def)

lemma kbind_Inl [simp]: "kbind (Inl e) k = Inl e"
  by (simp add: kbind_def)

lemma kbind_assoc: "kbind (kbind m f) g = kbind m (\<lambda>x. kbind (f x) g)"
  by (simp add: kbind_def split: sum.split)

lemma kbind_Inr_right: "kbind m Inr = m"
  by (simp add: kbind_def split: sum.split)

lemma kbind_eq_Inr [kres_simps]: "kbind m k = Inr y \<longleftrightarrow> (\<exists>x. m = Inr x \<and> k x = Inr y)"
  by (simp add: kbind_def split: sum.splits)

lemma kbind_eq_Inl [kres_simps]:
  "kbind m k = Inl e \<longleftrightarrow> m = Inl e \<or> (\<exists>x. m = Inr x \<and> k x = Inl e)"
  by (auto simp: kbind_def split: sum.splits)

lemma ASSERT_True [simp]: "ASSERT True k = k"
  by (simp add: ASSERT_def)

lemma ASSERT_False [simp]: "ASSERT False k = Inl PANIC"
  by (simp add: ASSERT_def)

lemma ASSERT_eq_Inr [kres_simps]: "ASSERT c k = Inr y \<longleftrightarrow> c \<and> k = Inr y"
  by (simp add: ASSERT_def)

lemma kbind_ASSERT: "kbind (ASSERT c k) g = ASSERT c (kbind k g)"
  by (simp add: ASSERT_def)

lemma ASSERT_eq_Inl [kres_simps]: "ASSERT c k = Inl e \<longleftrightarrow> (\<not> c \<and> e = PANIC) \<or> (c \<and> k = Inl e)"
  by (auto simp: ASSERT_def)

lemma of_loop_Some [simp]: "of_loop (Some v) = Inr v"
  by (simp add: of_loop_def)

lemma of_loop_None [simp]: "of_loop None = Inl SPIN"
  by (simp add: of_loop_def)

lemma of_loop_eq_Inr [kres_simps]: "of_loop x = Inr v \<longleftrightarrow> x = Some v"
  by (simp add: of_loop_def split: option.splits)

lemma each_res_append: "each_res f (xs @ ys) s = kbind (each_res f xs s) (each_res f ys)"
  by (induction xs arbitrary: s) (simp_all add: kbind_def split: sum.split)

section \<open>Words as numbers\<close>

text \<open>The address \<open>n\<close> bytes after \<open>p\<close>; pointer arithmetic wraps at 32 bits.\<close>

abbreviation off :: "u32 \<Rightarrow> nat \<Rightarrow> u32" where
  "off p n \<equiv> p + word_of_nat n"

lemma unat_u32_lt [simp]: "unat (x :: u32) < 4294967296"
  using unsigned_less [of x] by simp

lemma unat_u8_lt [simp]: "unat (x :: u8) < 256"
  using unsigned_less [of x] by simp

lemma unat_ucast_u8 [simp]: "unat (ucast (x :: u8) :: u32) = unat x"
  using less_trans [OF unat_u8_lt [of x], of 4294967296] by (simp add: unsigned_ucast_eq take_bit_nat_eq_self)

lemma off_eq_iff:
  assumes "i < 4294967296" "j < 4294967296"
  shows "off p i = off p j \<longleftrightarrow> i = j"
proof -
  have "off p i = off p j \<longleftrightarrow> (word_of_nat i :: u32) = word_of_nat j" by simp
  also have "\<dots> \<longleftrightarrow> i = j"
    using assms by (simp add: word_of_nat_eq_iff take_bit_nat_eq_self)
  finally show ?thesis .
qed

lemma off_Suc: "off p (Suc n) = off (p + 1) n"
  by (simp add: algebra_simps)

lemma unat_word_of_nat_u32: "n < 4294967296 \<Longrightarrow> unat (word_of_nat n :: u32) = n"
  by (simp add: unat_of_nat take_bit_nat_eq_self)

lemma word_of_nat_u32_eq_iff:
  "a < 4294967296 \<Longrightarrow> b < 4294967296 \<Longrightarrow> (word_of_nat a :: u32) = word_of_nat b \<longleftrightarrow> a = b"
  by (simp add: word_of_nat_eq_iff take_bit_nat_eq_self)

lemma unat_add_u32:
  "unat (a :: u32) + unat b < 4294967296 \<Longrightarrow> unat (a + b) = unat a + unat b"
  by (simp add: unat_word_ariths)

lemma unat_Suc_u32: "i < j \<Longrightarrow> unat (i + 1 :: u32) = Suc (unat i)"
proof -
  assume "i < j"
  then have "unat i < unat j" by (simp add: word_less_nat_alt)
  then have "unat i + 1 < 4294967296" using unat_u32_lt [of j] by linarith
  then show ?thesis using unat_add_u32 [of i 1] by simp
qed

lemma unat_mult_u32:
  "unat (a :: u32) * unat b < 4294967296 \<Longrightarrow> unat (a * b) = unat a * unat b"
  by (simp add: unat_word_ariths)

lemma unat_div_u32: "unat ((a :: u32) div b) = unat a div unat b"
  by (simp add: unat_div_distrib)

lemma unat_mod_u32: "unat ((a :: u32) mod b) = unat a mod unat b"
  by (simp add: unat_mod_distrib)

lemma word_of_nat_div_u32: "word_of_nat (unat i div n) = i div word_of_nat n"
  if "n < 4294967296" for i :: u32
proof -
  have "unat (i div word_of_nat n) = unat i div n"
    using that by (simp add: unat_div_u32 unat_word_of_nat_u32)
  then show ?thesis by (simp flip: \<open>unat (i div word_of_nat n) = unat i div n\<close>)
qed

lemma DIV_ROUND_UP_unat:
  assumes "unat X + unat STEP \<le> 4294967296" "0 < unat STEP"
  shows "unat (DIV_ROUND_UP X STEP) = (unat X + unat STEP - 1) div unat STEP"
proof -
  have eq: "X + STEP - 1 = X + (STEP - 1)" by simp
  have s: "unat (STEP - 1) = unat STEP - 1"
    using assms(2) by (metis unat_gt_0 unat_minus_one)
  have "unat (X + STEP - 1) = unat X + (unat STEP - 1)"
    unfolding eq using assms s by (subst unat_add_u32) auto
  then show ?thesis
    using assms(2) by (simp add: DIV_ROUND_UP_def unat_div_u32)
qed

lemma u32_inc_nonzero: "x \<noteq> 0xffffffff \<Longrightarrow> x + 1 \<noteq> 0" for x :: u32
proof
  assume "x \<noteq> 0xffffffff" "x + 1 = 0"
  then have "x = - 1" by (simp add: eq_neg_iff_add_eq_0)
  then show False using \<open>x \<noteq> 0xffffffff\<close> by simp
qed

lemma u32_not_gt_one: "\<not> 1 < x \<Longrightarrow> x \<noteq> 0 \<Longrightarrow> x = 1" for x :: u32
proof -
  assume "\<not> 1 < x" "x \<noteq> 0"
  then have "unat x \<le> 1" "unat x \<noteq> 0" by (simp_all add: word_less_nat_alt unat_eq_zero)
  then have "unat x = unat (1 :: u32)" by simp
  then show "x = 1" by (simp only: unsigned_word_eqI)
qed

lemma clear_set_bit: "bit w n \<Longrightarrow> (w AND NOT (2 ^ n)) OR 2 ^ n = w" for w :: "'a :: len word"
  by (rule bit_word_eqI) (auto simp: bit_simps)

text \<open>The masks of the source as \<^const>\<open>mask\<close>, for reasoning bit by bit.\<close>

lemma ffff_mask: "(0xFFFF :: u32) = mask 16"
  by (simp add: mask_eq_exp_minus_1)

lemma ffff0000_mask: "(0xFFFF0000 :: u32) = push_bit 16 (mask 16)"
  by (simp add: mask_eq_exp_minus_1 push_bit_eq_mult)

end
