(* ===== verification/KString.thy ===== *)
theory KString
  imports Prelude
begin

text \<open>
  The byte and string routines of \<^verbatim>\<open>lib/string.c\<close> over a flat byte memory. Loops with a
  counter are recursion on the counter; loops that run to a terminating NUL byte are
  \<open>option\<close>-valued partial functions (\<open>None\<close> where the C loop never ends), and the theorems
  show that they return on every NUL-terminated string. \<^verbatim>\<open>char\<close> is signed on this target,
  so character comparisons are comparisons of \<open>sint\<close>.
\<close>

type_synonym mem = "u32 \<Rightarrow> u8"

section \<open>The routines\<close>

primrec memset_loop :: "mem \<Rightarrow> u32 \<Rightarrow> u8 \<Rightarrow> nat \<Rightarrow> mem" where
  "memset_loop m dst value 0 = m"
| "memset_loop m dst value (Suc sz) = memset_loop (m(dst := value)) (dst + 1) value sz"

definition memset :: "mem \<Rightarrow> u32 \<Rightarrow> u8 \<Rightarrow> u32 \<Rightarrow> mem res" where
  "memset m dst value sz =
     ASSERT (dst \<noteq> NULL) (Inr (memset_loop m dst value (unat sz)))"

primrec memcpy_loop :: "mem \<Rightarrow> u32 \<Rightarrow> u32 \<Rightarrow> nat \<Rightarrow> mem" where
  "memcpy_loop m dst src 0 = m"
| "memcpy_loop m dst src (Suc sz) = memcpy_loop (m(dst := m src)) (dst + 1) (src + 1) sz"

definition memcpy :: "mem \<Rightarrow> u32 \<Rightarrow> u32 \<Rightarrow> u32 \<Rightarrow> mem res" where
  "memcpy m dst src sz =
     ASSERT (dst \<noteq> NULL \<and> src \<noteq> NULL) (Inr (memcpy_loop m dst src (unat sz)))"

primrec memcmp_loop :: "mem \<Rightarrow> u32 \<Rightarrow> u32 \<Rightarrow> nat \<Rightarrow> int" where
  "memcmp_loop m a b 0 = 0"
| "memcmp_loop m a b (Suc sz) =
     (if m a \<noteq> m b then (if sint (m a) > sint (m b) then 1 else -1)
      else memcmp_loop m (a + 1) (b + 1) sz)"

definition memcmp :: "mem \<Rightarrow> u32 \<Rightarrow> u32 \<Rightarrow> u32 \<Rightarrow> int res" where
  "memcmp m a b sz =
     ASSERT (a \<noteq> NULL \<and> b \<noteq> NULL) (Inr (memcmp_loop m a b (unat sz)))"

partial_function (option) strcpy_loop :: "mem \<Rightarrow> u32 \<Rightarrow> u32 \<Rightarrow> mem option" where
  "strcpy_loop m dst src =
     (let m' = m(dst := m src)
      in if m src \<noteq> 0 then strcpy_loop m' (dst + 1) (src + 1) else Some m')"

definition strcpy :: "mem \<Rightarrow> u32 \<Rightarrow> u32 \<Rightarrow> (u32 \<times> mem) res" where
  "strcpy m dst src =
     ASSERT (dst \<noteq> NULL \<and> src \<noteq> NULL)
       (kbind (of_loop (strcpy_loop m dst src)) (\<lambda>m'. Inr (dst, m')))"

text \<open>\<^verbatim>\<open>while(*p++);\<close> leaves the pointer one past the NUL byte.\<close>

partial_function (option) skip_loop :: "mem \<Rightarrow> u32 \<Rightarrow> u32 option" where
  "skip_loop m p = (if m p \<noteq> 0 then skip_loop m (p + 1) else Some (p + 1))"

definition strlen :: "mem \<Rightarrow> u32 \<Rightarrow> u32 res" where
  "strlen m str =
     ASSERT (str \<noteq> NULL) (kbind (of_loop (skip_loop m str)) (\<lambda>p. Inr (p - str - 1)))"

partial_function (option) strcmp_loop :: "mem \<Rightarrow> u32 \<Rightarrow> u32 \<Rightarrow> int option" where
  "strcmp_loop m a b =
     (if m a \<noteq> 0 \<and> m a = m b then strcmp_loop m (a + 1) (b + 1)
      else Some (if sint (m a) < sint (m b) then -1 else if sint (m a) > sint (m b) then 1 else 0))"

definition strcmp :: "mem \<Rightarrow> u32 \<Rightarrow> u32 \<Rightarrow> int res" where
  "strcmp m a b = ASSERT (a \<noteq> NULL \<and> b \<noteq> NULL) (of_loop (strcmp_loop m a b))"

text \<open>\<^verbatim>\<open>*str == ch\<close> compares a sign-extended \<^verbatim>\<open>char\<close> with a zero-extended \<^verbatim>\<open>uint8_t\<close>.\<close>

definition char_eq :: "u8 \<Rightarrow> u8 \<Rightarrow> bool" where
  "char_eq c ch \<longleftrightarrow> sint c = uint ch"

partial_function (option) strchr_loop :: "mem \<Rightarrow> u32 \<Rightarrow> u8 \<Rightarrow> u32 option" where
  "strchr_loop m str ch =
     (if m str \<noteq> 0
      then (if char_eq (m str) ch then Some str else strchr_loop m (str + 1) ch)
      else Some NULL)"

definition strchr :: "mem \<Rightarrow> u32 \<Rightarrow> u8 \<Rightarrow> u32 res" where
  "strchr m str ch = ASSERT (str \<noteq> NULL) (of_loop (strchr_loop m str ch))"

partial_function (option) strrchr_loop :: "mem \<Rightarrow> u32 \<Rightarrow> u8 \<Rightarrow> u32 \<Rightarrow> u32 option" where
  "strrchr_loop m str ch last_char =
     (if m str \<noteq> 0
      then strrchr_loop m (str + 1) ch (if char_eq (m str) ch then str else last_char)
      else Some last_char)"

definition strrchr :: "mem \<Rightarrow> u32 \<Rightarrow> u8 \<Rightarrow> u32 res" where
  "strrchr m str ch = ASSERT (str \<noteq> NULL) (of_loop (strrchr_loop m str ch NULL))"

definition strcat :: "mem \<Rightarrow> u32 \<Rightarrow> u32 \<Rightarrow> (u32 \<times> mem) res" where
  "strcat m dst src =
     ASSERT (dst \<noteq> NULL \<and> src \<noteq> NULL)
       (kbind (of_loop (skip_loop m dst)) (\<lambda>str.
        kbind (of_loop (strcpy_loop m (str - 1) src)) (\<lambda>m'. Inr (dst, m'))))"

partial_function (option) strchrs_loop :: "mem \<Rightarrow> u32 \<Rightarrow> u8 \<Rightarrow> u32 \<Rightarrow> u32 option" where
  "strchrs_loop m p ch ch_cnt =
     (if m p \<noteq> 0 then strchrs_loop m (p + 1) ch (if char_eq (m p) ch then ch_cnt + 1 else ch_cnt)
      else Some ch_cnt)"

definition strchrs :: "mem \<Rightarrow> u32 \<Rightarrow> u8 \<Rightarrow> u32 res" where
  "strchrs m str ch = ASSERT (str \<noteq> NULL) (of_loop (strchrs_loop m str ch 0))"

section \<open>Address ranges\<close>

text \<open>The \<open>n\<close> bytes from \<open>p\<close> on, as the wrapping pointer arithmetic sees them.\<close>

definition rng :: "u32 \<Rightarrow> nat \<Rightarrow> u32 set" where
  "rng p n = {a. unat (a - p) < n}"

lemma rng_0 [simp]: "rng p 0 = {}"
  by (simp add: rng_def)

lemma unat_pred: "x \<noteq> 0 \<Longrightarrow> unat (x - 1) = unat x - (1::nat)" for x :: u32
  by (rule unat_minus_one)

lemma rng_Suc: "n < 4294967296 \<Longrightarrow> rng p (Suc n) = insert p (rng (p + 1) n)"
proof (rule set_eqI)
  fix a
  assume n: "n < 4294967296"
  show "a \<in> rng p (Suc n) \<longleftrightarrow> a \<in> insert p (rng (p + 1) n)"
  proof (cases "a = p")
    case True
    then show ?thesis by (simp add: rng_def)
  next
    case False
    then have "unat (a - (p + 1)) = unat (a - p) - 1" "0 < unat (a - p)"
      using unat_pred [of "a - p"] by (simp_all add: algebra_simps unat_gt_0)
    with False show ?thesis by (auto simp: rng_def)
  qed
qed

lemma rng_mem_off: "a \<in> rng p n \<longleftrightarrow> (\<exists>i < n. i < 4294967296 \<and> a = off p i)"
proof
  assume "a \<in> rng p n"
  then have "unat (a - p) < n" by (simp add: rng_def)
  moreover have "a = off p (unat (a - p))" by simp
  ultimately show "\<exists>i < n. i < 4294967296 \<and> a = off p i" by fastforce
next
  assume "\<exists>i < n. i < 4294967296 \<and> a = off p i"
  then show "a \<in> rng p n" by (auto simp: rng_def unat_word_of_nat_u32)
qed

lemma off_in_rng: "i < n \<Longrightarrow> i < 4294967296 \<Longrightarrow> off p i \<in> rng p n"
  by (auto simp: rng_mem_off)

lemma rng_start_notin_succ: "n < 4294967296 \<Longrightarrow> p \<notin> rng (p + 1) n"
proof -
  assume "n < 4294967296"
  moreover have "unat (p - (p + 1)) = 4294967295" by (simp add: unsigned_minus_1_eq_mask mask_eq_exp_minus_1)
  ultimately show ?thesis by (simp add: rng_def)
qed

lemma rng_disjoint:
  assumes "n \<le> unat (q - p)" "unat (q - p) + k \<le> 4294967296"
  shows "rng p n \<inter> rng q k = {}"
proof (rule equals0I)
  fix x
  assume "x \<in> rng p n \<inter> rng q k"
  then obtain i j where x: "i < n" "i < 4294967296" "x = off p i" "j < k" "x = off q j"
    by (auto simp: rng_mem_off)
  then have "off p i = off p (unat (q - p) + j)" by (simp add: algebra_simps)
  then have "i = unat (q - p) + j" using x assms by (subst (asm) off_eq_iff) auto
  then show False using x assms by simp
qed

lemma rng_mono: "k \<le> n \<Longrightarrow> rng x k \<subseteq> rng x n"
  by (auto simp: rng_def)

lemma rng_within: "k + n \<le> l \<Longrightarrow> l \<le> 4294967296 \<Longrightarrow> a \<in> rng (off p k) n \<Longrightarrow> a \<in> rng p l"
proof -
  assume "k + n \<le> l" "l \<le> 4294967296" "a \<in> rng (off p k) n"
  then obtain i where i: "i < n" "a = off (off p k) i" by (auto simp: rng_mem_off)
  have "off (off p k) i = off p (k + i)" by (simp add: algebra_simps)
  moreover have "off p (k + i) \<in> rng p l" using i(1) \<open>k + n \<le> l\<close> \<open>l \<le> 4294967296\<close> by (intro off_in_rng) simp_all
  ultimately show ?thesis by (simp only: i(2))
qed

lemma rng_interval: "unat b + n \<le> 4294967296 \<Longrightarrow> x \<in> rng b n \<longleftrightarrow> unat b \<le> unat x \<and> unat x < unat b + n"
proof (cases "b \<le> x")
  case True
  then have "unat (x - b) = unat x - unat b" "unat b \<le> unat x" by (simp_all add: unat_sub word_le_nat_alt)
  then show ?thesis by (auto simp: rng_def)
next
  case False
  assume n: "unat b + n \<le> 4294967296"
  have lt: "unat x < unat b" using False by (simp add: word_le_nat_alt)
  have "unat (x - b) = 4294967296 + unat x - unat b"
    using lt by (simp add: unat_sub_if_size word_size word_le_nat_alt)
  then show ?thesis using lt n by (auto simp: rng_def)
qed

lemma rng_add: "k + n \<le> 4294967296 \<Longrightarrow> rng p (k + n) = rng p k \<union> rng (off p k) n"
proof (intro equalityI subsetI)
  fix x assume le: "k + n \<le> 4294967296" and "x \<in> rng p (k + n)"
  then obtain i where i: "i < k + n" "x = off p i" by (auto simp: rng_mem_off)
  show "x \<in> rng p k \<union> rng (off p k) n"
  proof (cases "i < k")
    case True
    then show ?thesis using i le by (auto simp: rng_mem_off)
  next
    case False
    then have "x = off (off p k) (i - k)" "i - k < n" using i by (simp_all flip: of_nat_add)
    then show ?thesis using off_in_rng [of "i - k" n "off p k"] le by (intro UnI2) simp
  qed
next
  fix x assume le: "k + n \<le> 4294967296" and x: "x \<in> rng p k \<union> rng (off p k) n"
  then show "x \<in> rng p (k + n)" using rng_within [of k n "k + n" x p] rng_mono [of k "k + n" p] by auto
qed

lemma off_notin_rng: "k \<le> j \<Longrightarrow> j < 4294967296 \<Longrightarrow> off p j \<notin> rng p k"
  by (simp add: rng_def unat_word_of_nat_u32)

section \<open>Block operations\<close>

lemma memset_loop_eq:
  "n \<le> 4294967296 \<Longrightarrow> memset_loop m p v n = (\<lambda>a. if a \<in> rng p n then v else m a)"
proof (induction n arbitrary: m p)
  case 0
  then show ?case by simp
next
  case (Suc n)
  then have "memset_loop (m(p := v)) (p + 1) v n =
      (\<lambda>a. if a \<in> rng (p + 1) n then v else (m(p := v)) a)" by simp
  with Suc.prems show ?case by (auto simp: rng_Suc)
qed

lemma memset_eq:
  "p \<noteq> NULL \<Longrightarrow> memset m p v n = Inr (\<lambda>a. if a \<in> rng p (unat n) then v else m a)"
  using unat_u32_lt [of n] by (simp add: memset_def memset_loop_eq less_imp_le)

lemma memcpy_loop_eq:
  assumes "n \<le> 4294967296" "dst = src \<or> n \<le> unat (dst - src)"
  shows "memcpy_loop m dst src n = (\<lambda>a. if a \<in> rng dst n then m (src + (a - dst)) else m a)"
  using assms
proof (induction n arbitrary: m dst src)
  case 0
  then show ?case by simp
next
  case (Suc n)
  have keep: "(m(dst := m src)) (src + 1 + (a - (dst + 1))) = m (src + (a - dst))"
    if a: "a \<in> rng (dst + 1) n" for a
  proof (cases "dst = src")
    case True
    then show ?thesis by simp
  next
    case False
    have "src + (a - dst) \<noteq> dst"
    proof
      assume "src + (a - dst) = dst"
      then have "a - (dst + 1) = (dst - src) - 1" by (simp add: algebra_simps)
      then have "unat (a - (dst + 1)) = unat (dst - src) - 1"
        using False unat_pred [of "dst - src"] by (simp only: right_minus_eq simp_thms)
      moreover have "unat (a - (dst + 1)) < n" using a by (simp add: rng_def)
      ultimately show False using Suc.prems False by linarith
    qed
    then show ?thesis by (simp add: algebra_simps)
  qed
  have "memcpy_loop (m(dst := m src)) (dst + 1) (src + 1) n =
      (\<lambda>a. if a \<in> rng (dst + 1) n then (m(dst := m src)) (src + 1 + (a - (dst + 1)))
           else (m(dst := m src)) a)"
    using Suc.prems by (intro Suc.IH) auto
  with Suc.prems keep show ?case by (auto simp: rng_Suc fun_eq_iff)
qed

section \<open>NUL-terminated strings\<close>

text \<open>\<open>cstr m p xs\<close>: the string \<open>xs\<close> (without its NUL byte) stands at \<open>p\<close>.\<close>

fun cstr :: "mem \<Rightarrow> u32 \<Rightarrow> u8 list \<Rightarrow> bool" where
  "cstr m p [] \<longleftrightarrow> m p = 0"
| "cstr m p (x # xs) \<longleftrightarrow> m p = x \<and> x \<noteq> 0 \<and> cstr m (p + 1) xs"

lemma cstr_unique: "cstr m p xs \<Longrightarrow> cstr m p ys \<Longrightarrow> xs = ys"
proof (induction xs arbitrary: p ys)
  case Nil
  then show ?case by (cases ys) auto
next
  case (Cons x xs)
  then show ?case by (cases ys) auto
qed

lemma cstr_cong:
  assumes "cstr m p xs" "\<And>i. i \<le> length xs \<Longrightarrow> m' (off p i) = m (off p i)"
  shows "cstr m' p xs"
  using assms
proof (induction xs arbitrary: p)
  case Nil
  from Nil.prems(2) [of 0] Nil.prems(1) show ?case by simp
next
  case (Cons x xs)
  have "cstr m' (p + 1) xs"
  proof (rule Cons.IH)
    show "cstr m (p + 1) xs" using Cons.prems(1) by simp
    show "m' (off (p + 1) i) = m (off (p + 1) i)" if "i \<le> length xs" for i
      using Cons.prems(2) [of "Suc i"] that by (simp add: algebra_simps)
  qed
  with Cons.prems(1) Cons.prems(2) [of 0] show ?case by simp
qed

lemma skip_loop_cstr: "cstr m p xs \<Longrightarrow> skip_loop m p = Some (off p (Suc (length xs)))"
proof (induction xs arbitrary: p)
  case Nil
  then show ?case by (simp add: skip_loop.simps)
next
  case (Cons x xs)
  then show ?case by (subst skip_loop.simps) (simp add: algebra_simps)
qed

lemma strlen_cstr:
  "cstr m p xs \<Longrightarrow> p \<noteq> NULL \<Longrightarrow> strlen m p = Inr (word_of_nat (length xs))"
  by (simp add: strlen_def skip_loop_cstr algebra_simps)

text \<open>Comparison of strings as lists, character by character, signed.\<close>

fun str_order :: "u8 list \<Rightarrow> u8 list \<Rightarrow> int" where
  "str_order [] [] = 0"
| "str_order [] (y # ys) = (if 0 < sint y then -1 else 1)"
| "str_order (x # xs) [] = (if sint x < 0 then -1 else 1)"
| "str_order (x # xs) (y # ys) =
     (if x = y then str_order xs ys else if sint x < sint y then -1 else 1)"

lemma sint_inject_u8: "sint x = sint y \<longleftrightarrow> x = y" for x y :: u8
  by (metis signed_word_eqI)

lemma sint_zero_u8: "sint x = 0 \<longleftrightarrow> x = 0" for x :: u8
  using sint_inject_u8 [of x 0] by simp

lemma strcmp_loop_cstr:
  "cstr m a xs \<Longrightarrow> cstr m b ys \<Longrightarrow> strcmp_loop m a b = Some (str_order xs ys)"
proof (induction xs ys arbitrary: a b rule: str_order.induct)
  case 1
  then show ?case by (simp add: strcmp_loop.simps)
next
  case (2 y ys)
  then have "sint y \<noteq> 0" by (simp add: sint_zero_u8)
  with 2 show ?case by (subst strcmp_loop.simps) auto
next
  case (3 x xs)
  then have "sint x \<noteq> 0" by (simp add: sint_zero_u8)
  with 3 show ?case by (subst strcmp_loop.simps) auto
next
  case (4 x xs y ys)
  show ?case
  proof (cases "x = y")
    case True
    with 4 show ?thesis by (subst strcmp_loop.simps) auto
  next
    case False
    then have "sint x \<noteq> sint y" by (simp add: sint_inject_u8)
    with 4 False show ?thesis by (subst strcmp_loop.simps) auto
  qed
qed

lemma str_order_eq_0: "0 \<notin> set xs \<Longrightarrow> 0 \<notin> set ys \<Longrightarrow> str_order xs ys = 0 \<longleftrightarrow> xs = ys"
  by (induction xs ys rule: str_order.induct) auto

lemma cstr_nonzero: "cstr m p xs \<Longrightarrow> 0 \<notin> set xs"
  by (induction xs arbitrary: p) auto

section \<open>Copying strings\<close>

lemma strcpy_loop_eq:
  assumes "cstr m src xs" "length xs < 4294967295"
    and "dst = src \<or> length xs < unat (dst - src)"
  shows "strcpy_loop m dst src = Some (memcpy_loop m dst src (Suc (length xs)))"
  using assms
proof (induction xs arbitrary: m dst src)
  case Nil
  then show ?case by (simp add: strcpy_loop.simps fun_upd_def)
next
  case (Cons x xs)
  let ?m = "m(dst := m src)"
  have c: "cstr ?m (src + 1) xs"
  proof (rule cstr_cong)
    show "cstr m (src + 1) xs" using Cons.prems(1) by simp
    fix i
    assume i: "i \<le> length xs"
    show "?m (off (src + 1) i) = m (off (src + 1) i)"
    proof (cases "dst = src")
      case True
      then show ?thesis by simp
    next
      case False
      have "off (src + 1) i \<noteq> dst"
      proof
        assume "off (src + 1) i = dst"
        then have "dst - src = word_of_nat (Suc i)" by (auto simp: algebra_simps)
        then have "unat (dst - src) = Suc i"
          using i Cons.prems(2) unat_word_of_nat_u32 [of "Suc i"] by simp
        with i Cons.prems(3) False show False by simp
      qed
      then show ?thesis by simp
    qed
  qed
  have "strcpy_loop ?m (dst + 1) (src + 1) =
      Some (memcpy_loop ?m (dst + 1) (src + 1) (Suc (length xs)))"
    using Cons.prems by (intro Cons.IH [OF c]) auto
  with Cons.prems(1) show ?case by (subst strcpy_loop.simps) simp
qed

lemma memcpy_loop_cstr:
  assumes "cstr m src xs" "length xs < 4294967295"
    and "dst = src \<or> length xs < unat (dst - src)"
  shows "cstr (memcpy_loop m dst src (Suc (length xs))) dst xs"
proof -
  let ?m = "memcpy_loop m dst src (Suc (length xs))"
  have eq: "?m (off dst i) = m (off src i)" if "i \<le> length xs" for i
    using that assms by (subst memcpy_loop_eq) (auto simp: off_in_rng)
  have "cstr ?m d ys" if "cstr m s ys" "\<And>i. i \<le> length ys \<Longrightarrow> ?m (off d i) = m (off s i)" for d s ys
    using that
  proof (induction ys arbitrary: d s)
    case Nil
    from Nil.prems(2) [of 0] Nil.prems(1) show ?case by simp
  next
    case (Cons y ys)
    have "cstr ?m (d + 1) ys"
    proof (rule Cons.IH)
      show "cstr m (s + 1) ys" using Cons.prems(1) by simp
      show "?m (off (d + 1) i) = m (off (s + 1) i)" if "i \<le> length ys" for i
        using Cons.prems(2) [of "Suc i"] that by (simp only: off_Suc) simp
    qed
    with Cons.prems(1) Cons.prems(2) [of 0] show ?case by simp
  qed
  with assms(1) eq show ?thesis by blast
qed

section \<open>Searching strings\<close>

text \<open>\<open>find_first\<close>: where the first character matching \<open>ch\<close> stands, or NULL.\<close>

definition find_first :: "u32 \<Rightarrow> u8 \<Rightarrow> u8 list \<Rightarrow> u32" where
  "find_first p ch xs =
     (if \<exists>x \<in> set xs. char_eq x ch then off p (length (takeWhile (\<lambda>x. \<not> char_eq x ch) xs)) else NULL)"

lemma find_first_Nil [simp]: "find_first p ch [] = NULL"
  by (simp add: find_first_def)

lemma find_first_Cons [simp]:
  "find_first p ch (x # xs) = (if char_eq x ch then p else find_first (p + 1) ch xs)"
  by (simp add: find_first_def algebra_simps)

lemma strchr_loop_cstr: "cstr m p xs \<Longrightarrow> strchr_loop m p ch = Some (find_first p ch xs)"
proof (induction xs arbitrary: p)
  case Nil
  then show ?case by (simp add: strchr_loop.simps)
next
  case (Cons x xs)
  then show ?case by (subst strchr_loop.simps) simp
qed

text \<open>\<open>find_last\<close>: where the last character matching \<open>ch\<close> stands, or the default.\<close>

primrec find_last :: "u32 \<Rightarrow> u8 \<Rightarrow> u32 \<Rightarrow> u8 list \<Rightarrow> u32" where
  "find_last p ch d [] = d"
| "find_last p ch d (x # xs) = find_last (p + 1) ch (if char_eq x ch then p else d) xs"

lemma find_last_snoc:
  "find_last p ch d (xs @ [x]) = (if char_eq x ch then off p (length xs) else find_last p ch d xs)"
  by (induction xs arbitrary: p d) (simp_all add: algebra_simps)

lemma strrchr_loop_cstr: "cstr m p xs \<Longrightarrow> strrchr_loop m p ch d = Some (find_last p ch d xs)"
proof (induction xs arbitrary: p d)
  case Nil
  then show ?case by (simp add: strrchr_loop.simps)
next
  case (Cons x xs)
  then show ?case by (subst strrchr_loop.simps) simp
qed

lemma strchrs_loop_cstr:
  "cstr m p xs \<Longrightarrow>
    strchrs_loop m p ch c = Some (c + word_of_nat (length (filter (\<lambda>x. char_eq x ch) xs)))"
proof (induction xs arbitrary: p c)
  case Nil
  then show ?case by (simp add: strchrs_loop.simps)
next
  case (Cons x xs)
  then show ?case by (subst strchrs_loop.simps) (simp add: algebra_simps)
qed

lemma char_eq_ascii: "ch < 128 \<Longrightarrow> char_eq c ch \<longleftrightarrow> c = ch"
proof -
  assume "ch < 128"
  then have "sint ch = uint ch"
    by (simp add: sint_uint signed_take_bit_eq_if_positive bit_iff_odd word_less_def)
      (simp add: take_bit_int_eq_self)
  then show ?thesis
    unfolding char_eq_def by (metis signed_word_eqI)
qed

lemma char_eq_high: "128 \<le> ch \<Longrightarrow> \<not> char_eq c ch"
proof -
  assume "128 \<le> ch"
  then have "128 \<le> uint ch" by (simp add: word_le_def)
  moreover have "sint c < 128" using sint_lt [of c] by simp
  ultimately show ?thesis by (simp add: char_eq_def)
qed

lemma cstr_appendI:
  assumes "cstr m (off p (length xs)) ys" "\<And>i. i < length xs \<Longrightarrow> m (off p i) = xs ! i" "0 \<notin> set xs"
  shows "cstr m p (xs @ ys)"
  using assms
proof (induction xs arbitrary: p)
  case Nil
  then show ?case by simp
next
  case (Cons x xs)
  have "cstr m (p + 1) (xs @ ys)"
  proof (rule Cons.IH)
    show "cstr m (off (p + 1) (length xs)) ys"
      using Cons.prems(1) by (simp add: algebra_simps)
    show "m (off (p + 1) i) = xs ! i" if "i < length xs" for i
      using Cons.prems(2) [of "Suc i"] that by (simp only: off_Suc) simp
    show "0 \<notin> set xs" using Cons.prems(3) by simp
  qed
  with Cons.prems(2) [of 0] Cons.prems(3) show ?case by simp
qed

lemma cstr_nth: "cstr m p xs \<Longrightarrow> i < length xs \<Longrightarrow> m (off p i) = xs ! i"
proof (induction xs arbitrary: p i)
  case Nil
  then show ?case by simp
next
  case (Cons x xs)
  then show ?case by (cases i) (simp, simp only: off_Suc, simp)
qed

section \<open>Properties\<close>

text \<open>
  On two NUL-terminated strings \<^verbatim>\<open>strcmp\<close> returns, and its result is the signed
  character-by-character order of the two strings; it is zero exactly when they are equal.
\<close>
lemma strcmp_correct:
  assumes "cstr m a xs" "cstr m b ys" "a \<noteq> NULL" "b \<noteq> NULL"
  shows "strcmp m a b = Inr (str_order xs ys) \<and> (strcmp m a b = Inr 0 \<longleftrightarrow> xs = ys)"
  using assms str_order_eq_0 [OF assms(1,2) [THEN cstr_nonzero]]
  by (simp add: strcmp_def strcmp_loop_cstr)

text \<open>
  \<^verbatim>\<open>strcat\<close> returns on NUL-terminated strings, leaves the concatenation at the destination,
  returns the destination pointer and changes no byte outside the appended part, provided the
  appended part does not start inside the source string and the result does not wrap around.
\<close>
lemma strcat_correct:
  assumes "cstr m dst xs" "cstr m src ys" "dst \<noteq> NULL" "src \<noteq> NULL"
    and "length xs + length ys < 4294967295"
    and "length ys < unat (off dst (length xs) - src)"
  shows "\<exists>m'. strcat m dst src = Inr (dst, m') \<and> cstr m' dst (xs @ ys) \<and>
    (\<forall>a. a \<notin> rng (off dst (length xs)) (Suc (length ys)) \<longrightarrow> m' a = m a)"
proof -
  let ?d = "off dst (length xs)" and ?m = "memcpy_loop m (off dst (length xs)) src (Suc (length ys))"
  have eq: "?m = (\<lambda>a. if a \<in> rng ?d (Suc (length ys)) then m (src + (a - ?d)) else m a)"
    using assms(5,6) by (intro memcpy_loop_eq) auto
  have keep: "off dst i \<notin> rng ?d (Suc (length ys))" if "i < length xs" for i
  proof
    assume "off dst i \<in> rng ?d (Suc (length ys))"
    then obtain j where "j < Suc (length ys)" "off dst i = off ?d j" by (auto simp: rng_mem_off)
    then have "off dst i = off dst (length xs + j)" by (simp add: algebra_simps)
    then have "i = length xs + j"
      using that assms(5) \<open>j < Suc (length ys)\<close> by (subst (asm) off_eq_iff) auto
    with that show False by simp
  qed
  have "strcpy_loop m ?d src = Some ?m"
    using assms by (intro strcpy_loop_eq) auto
  then have run: "strcat m dst src = Inr (dst, ?m)"
    using assms(1,3,4) by (simp add: strcat_def skip_loop_cstr)
  have "cstr ?m ?d ys"
    using assms by (intro memcpy_loop_cstr) auto
  moreover have "?m (off dst i) = xs ! i" if "i < length xs" for i
    using keep [OF that] cstr_nth [OF assms(1) that] by (simp only: eq if_False)
  ultimately have "cstr ?m dst (xs @ ys)"
    using cstr_nonzero [OF assms(1)] by (intro cstr_appendI) auto
  with run eq show ?thesis by auto
qed

text \<open>
  For a 7-bit character \<^verbatim>\<open>strchr\<close> returns the address of its first occurrence, or NULL when
  the string does not contain it.
\<close>
lemma strchr_correct:
  assumes "cstr m p xs" "p \<noteq> NULL" "ch < 128"
  shows "strchr m p ch =
    Inr (if ch \<in> set xs then off p (length (takeWhile (\<lambda>x. x \<noteq> ch) xs)) else NULL)"
  using assms by (simp add: strchr_def strchr_loop_cstr find_first_def char_eq_ascii)

text \<open>
  A character above 127 is never found by \<^verbatim>\<open>strchr\<close>, not even in a string that contains
  it: the string's signed \<^verbatim>\<open>char\<close> is compared with an unsigned \<^verbatim>\<open>uint8_t\<close>.
\<close>
lemma strchr_high_never_found:
  assumes "cstr m p xs" "p \<noteq> NULL" "128 \<le> ch"
  shows "strchr m p ch = Inr NULL"
  using assms by (simp add: strchr_def strchr_loop_cstr find_first_def char_eq_high)

text \<open>
  \<^verbatim>\<open>memcpy\<close> gives the destination range the bytes the source range held before the call
  and leaves every other byte alone, whenever the destination does not start strictly inside
  the source range (the condition under which a forward copy is a move).
\<close>
lemma memcpy_correct:
  assumes "dst \<noteq> NULL" "src \<noteq> NULL" "dst = src \<or> unat n \<le> unat (dst - src)"
  shows "memcpy m dst src n =
    Inr (\<lambda>a. if a \<in> rng dst (unat n) then m (src + (a - dst)) else m a)"
  using assms unat_u32_lt [of n] by (simp add: memcpy_def memcpy_loop_eq less_imp_le)

end
