(* ===== verification/Bitmap.thy ===== *)
theory Bitmap
  imports KString
begin

text \<open>
  The bitmap of \<^verbatim>\<open>lib/kernel/bitmap.c\<close>: a byte count and a pointer to the bytes, which live in
  the flat byte memory. Every loop of \<^verbatim>\<open>bitmap_scan\<close> is a recursive function; results of
  type \<^verbatim>\<open>int\<close> are 32-bit words, \<^verbatim>\<open>-1\<close> being the word of all ones.
\<close>

section \<open>The routines\<close>

record bitmap =
  btmp_bytes_len :: u32
  bits :: u32

definition bitmap_init :: "mem \<Rightarrow> bitmap \<Rightarrow> mem res" where
  "bitmap_init m btmp = memset m (bits btmp) 0 (btmp_bytes_len btmp)"

definition bitmap_scan_test :: "mem \<Rightarrow> bitmap \<Rightarrow> u32 \<Rightarrow> bool" where
  "bitmap_scan_test m btmp bit_idx =
     (let byte_idx = bit_idx div 8; bit_odd = bit_idx mod 8
      in m (bits btmp + byte_idx) AND push_bit (unat bit_odd) 1 \<noteq> 0)"

text \<open>The first loop: skip the bytes that are all ones.\<close>

function scan_full :: "mem \<Rightarrow> bitmap \<Rightarrow> u32 \<Rightarrow> u32" where
  "scan_full m btmp idx_byte =
     (if m (bits btmp + idx_byte) = 0xff \<and> idx_byte < btmp_bytes_len btmp
      then scan_full m btmp (idx_byte + 1) else idx_byte)"
  by pat_completeness auto
termination
proof (relation "measure (\<lambda>(m, b, i). unat (btmp_bytes_len b) - unat i)")
  fix m :: mem and b :: bitmap and i :: u32
  assume "m (bits b + i) = 0xff \<and> i < btmp_bytes_len b"
  then have lt: "unat i < unat (btmp_bytes_len b)" by (simp add: word_less_nat_alt)
  moreover have "unat (i + 1) = Suc (unat i)"
    using \<open>_ \<and> i < btmp_bytes_len b\<close> by (auto intro: unat_Suc_u32)
  ultimately show "((m, b, i + 1), m, b, i) \<in> measure (\<lambda>(m, b, i). unat (btmp_bytes_len b) - unat i)"
    by simp
qed simp

lemma and_push_bit: "(push_bit n 1 AND w \<noteq> 0) = bit w n" for w :: u8
  by (simp add: and.commute [of _ w] and_exp_eq_0_iff_not_bit)

lemma and_push_bit': "(w AND push_bit n 1 \<noteq> 0) = bit w n" for w :: u8
  by (simp add: and_exp_eq_0_iff_not_bit)

text \<open>The second loop: the first zero bit of a byte; \<open>(uint8_t)(1 << 8)\<close> is zero, so it ends.\<close>

function scan_bit :: "u8 \<Rightarrow> nat \<Rightarrow> nat" where
  "scan_bit v idx_bit =
     (if push_bit idx_bit 1 AND v \<noteq> 0 then scan_bit v (Suc idx_bit) else idx_bit)"
  by pat_completeness auto
termination
proof (relation "measure (\<lambda>(v, n). 8 - n)")
  fix v :: u8 and n :: nat
  assume "push_bit n 1 AND v \<noteq> 0"
  then have "n < 8" using bit_imp_le_length [of v n] by (simp only: and_push_bit) simp
  then show "((v, Suc n), v, n) \<in> measure (\<lambda>(v, n). 8 - n)" by simp
qed simp

declare scan_full.simps [simp del] scan_bit.simps [simp del]

text \<open>The third loop: \<open>bit_left\<close> iterations looking for \<open>cnt\<close> consecutive zero bits.\<close>

primrec scan_run :: "mem \<Rightarrow> bitmap \<Rightarrow> u32 \<Rightarrow> nat \<Rightarrow> u32 \<Rightarrow> u32 \<Rightarrow> u32" where
  "scan_run m btmp cnt 0 next_bit count = -1"
| "scan_run m btmp cnt (Suc bit_left) next_bit count =
     (let count' = (if \<not> bitmap_scan_test m btmp next_bit then count + 1 else 0)
      in if count' = cnt then next_bit - cnt + 1
         else scan_run m btmp cnt bit_left (next_bit + 1) count')"

definition bitmap_scan :: "mem \<Rightarrow> bitmap \<Rightarrow> u32 \<Rightarrow> u32 res" where
  "bitmap_scan m btmp cnt =
     (let idx_byte = scan_full m btmp 0
      in ASSERT (idx_byte < btmp_bytes_len btmp)
          (if idx_byte = btmp_bytes_len btmp then Inr (-1)
           else let idx_bit = scan_bit (m (bits btmp + idx_byte)) 0;
                    bit_idx_start = idx_byte * 8 + word_of_nat idx_bit
                in if cnt = 1 then Inr bit_idx_start
                   else Inr (scan_run m btmp cnt (unat (btmp_bytes_len btmp * 8 - bit_idx_start))
                               (bit_idx_start + 1) 1)))"

definition bitmap_set :: "mem \<Rightarrow> bitmap \<Rightarrow> u32 \<Rightarrow> u8 \<Rightarrow> mem res" where
  "bitmap_set m btmp bit_idx value =
     ASSERT (value = 0 \<or> value = 1)
       (let p = bits btmp + bit_idx div 8; bit_odd = unat (bit_idx mod 8)
        in if value \<noteq> 0 then Inr (m(p := m p OR push_bit bit_odd 1))
           else Inr (m(p := m p AND NOT (push_bit bit_odd 1))))"

section \<open>Bits of a bitmap\<close>

definition bm_bit :: "mem \<Rightarrow> bitmap \<Rightarrow> nat \<Rightarrow> bool" where
  "bm_bit m b i = bit (m (off (bits b) (i div 8))) (i mod 8)"

text \<open>Bitmaps of fewer than \<open>2 ^ 31\<close> bits: the index of every bit is a positive \<^verbatim>\<open>int\<close>.\<close>

definition bm_ok :: "bitmap \<Rightarrow> bool" where
  "bm_ok b \<longleftrightarrow> btmp_bytes_len b < 0x10000000"

abbreviation nbits :: "bitmap \<Rightarrow> nat" where
  "nbits b \<equiv> 8 * unat (btmp_bytes_len b)"

lemma nbits_lt: "bm_ok b \<Longrightarrow> nbits b < 2147483648"
  by (simp add: bm_ok_def word_less_nat_alt)

lemma bitmap_scan_test_bit: "bitmap_scan_test m b i = bm_bit m b (unat i)"
proof -
  have "i div 8 = word_of_nat (unat i div 8)"
    using word_of_nat_div_u32 [of 8 i] by simp
  then show ?thesis
    by (simp add: bitmap_scan_test_def bm_bit_def Let_def and_exp_eq_0_iff_not_bit unat_mod_u32)
qed

text \<open>The byte address of bit \<open>j\<close>; different byte indices are different addresses.\<close>

lemma off_div8_eq: "i < 4294967296 \<Longrightarrow> j < 4294967296 \<Longrightarrow>
    off p (i div 8) = off p (j div 8) \<longleftrightarrow> i div 8 = j div 8"
  by (intro off_eq_iff) auto

definition set_bit_at :: "mem \<Rightarrow> bitmap \<Rightarrow> nat \<Rightarrow> bool \<Rightarrow> mem" where
  "set_bit_at m b i v =
     (let p = off (bits b) (i div 8)
      in m(p := if v then m p OR push_bit (i mod 8) 1 else m p AND NOT (push_bit (i mod 8) 1)))"

lemma bitmap_set_eq:
  "v = 0 \<or> v = 1 \<Longrightarrow> bitmap_set m b i v = Inr (set_bit_at m b (unat i) (v = 1))"
  using word_of_nat_div_u32 [of 8 i]
  by (auto simp: bitmap_set_def set_bit_at_def Let_def unat_mod_u32)

lemma div_mod_8_eq: "i div 8 = j div 8 \<Longrightarrow> i mod 8 = j mod 8 \<Longrightarrow> i = j" for i j :: nat
  by (metis div_mult_mod_eq)

lemma bm_bit_set_bit_at:
  assumes "i < 4294967296" "j < 4294967296"
  shows "bm_bit (set_bit_at m b i v) b j = (if j = i then v else bm_bit m b j)"
proof (cases "j div 8 = i div 8")
  case True
  show ?thesis
  proof (cases "j mod 8 = i mod 8")
    case same: True
    with True have "j = i" by (rule div_mod_8_eq)
    then show ?thesis
      by (simp add: set_bit_at_def bm_bit_def Let_def bit_or_iff bit_and_iff bit_not_iff
          bit_exp_iff)
  next
    case False
    then have "j \<noteq> i" by auto
    with True False show ?thesis
      by (simp add: set_bit_at_def bm_bit_def Let_def bit_or_iff bit_and_iff bit_not_iff
          bit_exp_iff)
  qed
next
  case False
  with assms have "off (bits b) (j div 8) \<noteq> off (bits b) (i div 8)"
    by (simp only: off_div8_eq) simp
  with False show ?thesis by (auto simp: set_bit_at_def bm_bit_def Let_def)
qed

lemma set_bit_at_frame:
  "a \<notin> rng (bits b) n \<Longrightarrow> i < 8 * n \<Longrightarrow> i < 4294967296 \<Longrightarrow> set_bit_at m b i v a = m a"
  using off_in_rng [of "i div 8" n "bits b"] by (auto simp: set_bit_at_def Let_def)

lemma bm_bit_cong:
  "\<forall>a \<in> rng (bits b) n. m' a = m a \<Longrightarrow> i < 8 * n \<Longrightarrow> i < 4294967296 \<Longrightarrow>
    bm_bit m' b i = bm_bit m b i"
  using off_in_rng [of "i div 8" n "bits b"] by (auto simp: bm_bit_def)

lemma bitmap_init_eq:
  "bits b \<noteq> NULL \<Longrightarrow>
    bitmap_init m b = Inr (\<lambda>a. if a \<in> rng (bits b) (unat (btmp_bytes_len b)) then 0 else m a)"
  by (simp add: bitmap_init_def memset_eq)

lemma bm_bit_bitmap_init:
  assumes "bitmap_init m b = Inr m'" "bits b \<noteq> NULL" "i < nbits b" "bm_ok b"
  shows "\<not> bm_bit m' b i"
proof -
  have "off (bits b) (i div 8) \<in> rng (bits b) (unat (btmp_bytes_len b))"
    using assms(3) nbits_lt [OF assms(4)] by (intro off_in_rng) auto
  with assms(1,2) show ?thesis by (auto simp: bitmap_init_eq bm_bit_def)
qed

section \<open>The scanning loops\<close>

lemma byte_full_iff: "v = 0xff \<longleftrightarrow> (\<forall>n < 8. bit v n)" for v :: u8
proof
  assume "v = 0xff"
  then have "v = mask 8" by (simp add: mask_eq_exp_minus_1)
  then show "\<forall>n < 8. bit v n" by (simp add: bit_mask_iff)
next
  assume "\<forall>n < 8. bit v n"
  then have "v = mask 8" by (intro bit_word_eqI) (simp add: bit_mask_iff)
  then show "v = 0xff" by (simp add: mask_eq_exp_minus_1)
qed

lemma scan_bit_least:
  assumes "\<forall>k < n. bit v k"
  shows "(\<forall>k < scan_bit v n. bit v k) \<and> \<not> bit v (scan_bit v n) \<and> n \<le> scan_bit v n"
  using assms
proof (induction v n rule: scan_bit.induct)
  case (1 v n)
  show ?case
  proof (cases "bit v n")
    case True
    then have g: "push_bit n 1 AND v \<noteq> 0" by (simp only: and_push_bit)
    with True "1.prems" have "\<forall>k < Suc n. bit v k" by (simp add: less_Suc_eq)
    with "1.IH" [OF g] have "(\<forall>k < scan_bit v (Suc n). bit v k) \<and>
        \<not> bit v (scan_bit v (Suc n)) \<and> Suc n \<le> scan_bit v (Suc n)" by blast
    with g show ?thesis by (simp add: scan_bit.simps [of v n])
  next
    case False
    then have "\<not> (push_bit n 1 AND v \<noteq> 0)" using and_push_bit [of n v] by blast
    with False "1.prems" show ?thesis by (simp add: scan_bit.simps [of v n])
  qed
qed

lemma scan_full_least:
  assumes "\<forall>k < unat i. m (off (bits b) k) = 0xff" "i \<le> btmp_bytes_len b"
  shows "(\<forall>k < unat (scan_full m b i). m (off (bits b) k) = 0xff) \<and>
    scan_full m b i \<le> btmp_bytes_len b \<and>
    (scan_full m b i < btmp_bytes_len b \<longrightarrow> m (bits b + scan_full m b i) \<noteq> 0xff)"
  using assms
proof (induction m b i rule: scan_full.induct)
  case (1 m b i)
  show ?case
  proof (cases "m (bits b + i) = 0xff \<and> i < btmp_bytes_len b")
    case True
    then have s: "unat (i + 1) = Suc (unat i)" by (auto intro: unat_Suc_u32)
    with True "1.prems"(1) have "\<forall>k < unat (i + 1). m (off (bits b) k) = 0xff"
      by (auto simp: less_Suc_eq)
    moreover from True s have "i + 1 \<le> btmp_bytes_len b"
      by (auto simp: word_le_nat_alt word_less_nat_alt)
    ultimately show ?thesis
      using "1.IH" [OF True] True by (simp add: scan_full.simps [of m b i])
  next
    case False
    with "1.prems" show ?thesis by (subst (1 2 3 4) scan_full.simps) auto
  qed
qed

text \<open>\<open>run_free m b s n\<close>: the \<open>n\<close> bits from \<open>s\<close> on are zero.\<close>

definition run_free :: "mem \<Rightarrow> bitmap \<Rightarrow> nat \<Rightarrow> nat \<Rightarrow> bool" where
  "run_free m b s n \<longleftrightarrow> (\<forall>k < n. \<not> bm_bit m b (s + k))"

lemma run_free_1 [simp]: "run_free m b s (Suc 0) \<longleftrightarrow> \<not> bm_bit m b s"
  by (simp add: run_free_def)

lemma run_free_0 [simp]: "run_free m b s 0"
  by (simp add: run_free_def)

lemma run_free_Suc: "run_free m b s (Suc n) \<longleftrightarrow> run_free m b s n \<and> \<not> bm_bit m b (s + n)"
  by (auto simp: run_free_def less_Suc_eq)

lemma not_run_freeI: "s \<le> i \<Longrightarrow> i < s + n \<Longrightarrow> bm_bit m b i \<Longrightarrow> \<not> run_free m b s n"
  unfolding run_free_def by (auto intro!: exI [of _ "i - s"])

lemma full_bytes_bits:
  assumes "\<forall>k < n. m (off (bits b) k) = 0xff" "i < 8 * n"
  shows "bm_bit m b i"
proof -
  have "m (off (bits b) (i div 8)) = 0xff" using assms by auto
  then show ?thesis unfolding bm_bit_def byte_full_iff by simp
qed

text \<open>The state of the third loop: the length \<open>count\<close> of the zero run that ends before \<open>next_bit\<close>.\<close>

definition run_inv :: "mem \<Rightarrow> bitmap \<Rightarrow> nat \<Rightarrow> nat \<Rightarrow> nat \<Rightarrow> bool" where
  "run_inv m b cnt nx c \<longleftrightarrow>
     c < cnt \<and> c \<le> nx \<and> run_free m b (nx - c) c \<and> (c = nx \<or> bm_bit m b (nx - c - 1)) \<and>
     (\<forall>s. s + cnt \<le> nx \<longrightarrow> \<not> run_free m b s cnt)"

lemma run_inv_init:
  assumes "\<not> bm_bit m b s" "\<forall>k < s. bm_bit m b k" "2 \<le> cnt"
  shows "run_inv m b cnt (Suc s) 1"
proof -
  have "\<not> run_free m b i cnt" if "i + cnt \<le> Suc s" for i
    using that assms(2,3) by (intro not_run_freeI [of i i]) auto
  moreover have "s = 0 \<or> bm_bit m b (s - 1)" using assms(2) by (cases s) auto
  ultimately show ?thesis using assms by (auto simp: run_inv_def)
qed

lemma run_inv_taken:
  assumes "run_inv m b cnt nx c" "bm_bit m b nx"
  shows "run_inv m b cnt (Suc nx) 0"
proof -
  have "\<not> run_free m b s cnt" if "s + cnt \<le> Suc nx" for s
  proof (cases "s + cnt = Suc nx")
    case True
    with assms show ?thesis by (intro not_run_freeI [of s nx]) (auto simp: run_inv_def)
  next
    case False
    with that assms show ?thesis by (simp add: run_inv_def)
  qed
  with assms show ?thesis by (auto simp: run_inv_def)
qed

lemma run_inv_free:
  assumes "run_inv m b cnt nx c" "\<not> bm_bit m b nx" "Suc c \<noteq> cnt"
  shows "run_inv m b cnt (Suc nx) (Suc c)"
proof -
  have "\<not> run_free m b s cnt" if "s + cnt \<le> Suc nx" for s
  proof (cases "s + cnt = Suc nx")
    case True
    with assms show ?thesis
      by (intro not_run_freeI [of s "nx - c - 1"]) (auto simp: run_inv_def)
  next
    case False
    with that assms show ?thesis by (simp add: run_inv_def)
  qed
  with assms show ?thesis by (auto simp: run_inv_def run_free_Suc)
qed

lemma run_inv_found:
  assumes "run_inv m b cnt nx c" "\<not> bm_bit m b nx" "Suc c = cnt"
  shows "run_free m b (Suc nx - cnt) cnt" "(LEAST s. run_free m b s cnt) = Suc nx - cnt"
proof -
  from assms show free: "run_free m b (Suc nx - cnt) cnt"
    by (auto simp: run_inv_def run_free_Suc)
  show "(LEAST s. run_free m b s cnt) = Suc nx - cnt"
  proof (rule Least_equality)
    show "run_free m b (Suc nx - cnt) cnt" by (rule free)
    show "Suc nx - cnt \<le> s" if "run_free m b s cnt" for s
    proof (rule ccontr)
      assume "\<not> Suc nx - cnt \<le> s"
      then have "s + cnt \<le> nx" using assms(1,3) by (auto simp: run_inv_def)
      with that assms(1) show False by (simp add: run_inv_def)
    qed
  qed
qed

lemma scan_run_least:
  assumes "run_inv m b (unat cnt) (unat nx) (unat c)" "unat nx + n < 2147483648"
  shows "scan_run m b cnt n nx c =
    (if \<exists>s. s + unat cnt \<le> unat nx + n \<and> run_free m b s (unat cnt)
     then word_of_nat (LEAST s. run_free m b s (unat cnt)) else -1)"
  using assms
proof (induction n arbitrary: nx c)
  case 0
  then show ?case by (auto simp: run_inv_def)
next
  case (Suc n)
  have nx1: "unat (nx + 1) = Suc (unat nx)"
    using Suc.prems(2) unat_add_u32 [of nx 1] by simp
  have c_lt: "unat c < unat cnt" "0 < unat cnt" using Suc.prems(1) by (auto simp: run_inv_def)
  then have c1: "unat (c + 1) = Suc (unat c)"
    by (intro unat_Suc_u32 [of _ cnt]) (simp add: word_less_nat_alt)
  have bnd: "unat (nx + 1) + n < 2147483648" using Suc.prems(2) nx1 by simp
  show ?case
  proof (cases "bm_bit m b (unat nx)")
    case True
    with Suc.prems(1) have inv: "run_inv m b (unat cnt) (unat (nx + 1)) (unat (0 :: u32))"
      using run_inv_taken by (simp add: nx1)
    from c_lt have "cnt \<noteq> 0" by auto
    with True Suc.IH [OF inv bnd] nx1 show ?thesis
      by (simp add: bitmap_scan_test_bit)
  next
    case free: False
    show ?thesis
    proof (cases "Suc (unat c) = unat cnt")
      case True
      note found = run_inv_found [OF Suc.prems(1) free True]
      from True c1 have "c + 1 = cnt" by (metis word_unat_eq_iff)
      moreover have "nx - cnt + 1 = word_of_nat (Suc (unat nx) - unat cnt)"
        using True Suc.prems(1) by (simp add: run_inv_def of_nat_diff)
      moreover have "\<exists>s. s + unat cnt \<le> unat nx + Suc n \<and> run_free m b s (unat cnt)"
        using found(1) True Suc.prems(1)
        by (intro exI [of _ "Suc (unat nx) - unat cnt"]) (auto simp: run_inv_def)
      ultimately show ?thesis using free found(2) by (simp add: bitmap_scan_test_bit)
    next
      case False
      with Suc.prems(1) free have inv: "run_inv m b (unat cnt) (unat (nx + 1)) (unat (c + 1))"
        using run_inv_free by (simp add: nx1 c1)
      from False c1 have "c + 1 \<noteq> cnt" by metis
      with free Suc.IH [OF inv bnd] nx1 show ?thesis
        by (simp add: bitmap_scan_test_bit)
    qed
  qed
qed

lemma scan_full_start:
  "\<forall>k < unat (scan_full m b 0). m (off (bits b) k) = 0xff" "scan_full m b 0 \<le> btmp_bytes_len b"
  "scan_full m b 0 < btmp_bytes_len b \<Longrightarrow> m (bits b + scan_full m b 0) \<noteq> 0xff"
  using scan_full_least [of 0 m b] by auto

lemma scan_full_lt_iff:
  assumes "bm_ok b"
  shows "scan_full m b 0 < btmp_bytes_len b \<longleftrightarrow> (\<exists>i < nbits b. \<not> bm_bit m b i)"
proof
  let ?i = "scan_full m b 0"
  assume lt: "?i < btmp_bytes_len b"
  with scan_full_start(3) obtain n where "n < 8" "\<not> bit (m (bits b + ?i)) n"
    using byte_full_iff by blast
  then have "\<not> bm_bit m b (8 * unat ?i + n)" by (simp add: bm_bit_def)
  moreover have "8 * unat ?i + n < nbits b"
    using lt \<open>n < 8\<close> by (simp add: word_less_nat_alt)
  ultimately show "\<exists>i < nbits b. \<not> bm_bit m b i" by blast
next
  assume "\<exists>i < nbits b. \<not> bm_bit m b i"
  then have "unat (scan_full m b 0) \<noteq> unat (btmp_bytes_len b)"
    using full_bytes_bits [OF scan_full_start(1) [of m b]] by metis
  with scan_full_start(2) show "scan_full m b 0 < btmp_bytes_len b"
    by (metis order_less_le)
qed

lemma scan_start_least:
  assumes "scan_full m b 0 < btmp_bytes_len b"
  defines "s \<equiv> 8 * unat (scan_full m b 0) + scan_bit (m (bits b + scan_full m b 0)) 0"
  shows "s < nbits b" "\<not> bm_bit m b s" "\<forall>k < s. bm_bit m b k"
proof -
  let ?i = "scan_full m b 0"
  let ?v = "m (bits b + ?i)"
  let ?n = "scan_bit ?v 0"
  have least: "\<forall>k < ?n. bit ?v k" "\<not> bit ?v ?n" using scan_bit_least [of 0 ?v] by auto
  have "\<not> (\<forall>k < 8. bit ?v k)" using scan_full_start(3) [OF assms(1)] byte_full_iff by blast
  with least have n8: "?n < 8" by (meson not_less order_less_le_trans)
  then show "s < nbits b" using assms(1) by (simp add: s_def word_less_nat_alt)
  have bit_s: "bm_bit m b (8 * unat ?i + k) = bit ?v k" if "k < 8" for k
    using that by (simp add: bm_bit_def)
  show "\<not> bm_bit m b s" using least n8 by (simp add: s_def bit_s)
  show "\<forall>k < s. bm_bit m b k"
  proof (intro allI impI)
    fix k
    assume k: "k < s"
    show "bm_bit m b k"
    proof (cases "k < 8 * unat ?i")
      case True
      then show ?thesis by (rule full_bytes_bits [OF scan_full_start(1)])
    next
      case False
      then obtain j where "k = 8 * unat ?i + j" by (metis le_Suc_ex not_less)
      with k n8 least show ?thesis by (simp add: s_def bit_s)
    qed
  qed
qed

text \<open>The scan panics exactly on a full bitmap; the branch that returns -1 for it is dead.\<close>

lemma bitmap_scan_full:
  "bm_ok b \<Longrightarrow> \<forall>i < nbits b. bm_bit m b i \<Longrightarrow> bitmap_scan m b cnt = Inl PANIC"
  using scan_full_lt_iff [of b m] by (simp add: bitmap_scan_def Let_def ASSERT_def)

lemma bitmap_scan_run:
  assumes ok: "bm_ok b" and cnt: "cnt \<noteq> 0" and free: "\<exists>i < nbits b. \<not> bm_bit m b i"
  shows "bitmap_scan m b cnt =
    Inr (if \<exists>s. s + unat cnt \<le> nbits b + 1 \<and> run_free m b s (unat cnt)
         then word_of_nat (LEAST s. run_free m b s (unat cnt)) else -1)"
proof -
  let ?i = "scan_full m b 0"
  let ?n = "scan_bit (m (bits b + ?i)) 0"
  let ?s = "8 * unat ?i + ?n"
  let ?start = "?i * 8 + word_of_nat ?n :: u32"
  have lt: "?i < btmp_bytes_len b" using scan_full_lt_iff [OF ok] free by blast
  note least = scan_start_least [OF lt]
  have s31: "?s < 2147483648" using least(1) nbits_lt [OF ok] by linarith
  have start: "?start = word_of_nat ?s" by (simp add: mult.commute)
  then have us: "unat ?start = ?s" using s31 by (simp only: start unat_word_of_nat_u32)
  have scan: "bitmap_scan m b cnt = (if cnt = 1 then Inr ?start
      else Inr (scan_run m b cnt (unat (btmp_bytes_len b * 8 - ?start)) (?start + 1) 1))"
    using lt less_imp_neq [OF lt] by (simp add: bitmap_scan_def Let_def)
  show ?thesis
  proof (cases "cnt = 1")
    case True
    have "(LEAST s. run_free m b s 1) = ?s"
      using least(2,3) by (intro Least_equality) (auto simp: not_less [symmetric])
    moreover have "\<exists>s. s + 1 \<le> nbits b + 1 \<and> run_free m b s 1"
      using least(1,2) by (intro exI [of _ ?s]) simp
    ultimately show ?thesis using True scan start by simp
  next
    case False
    have "unat cnt \<noteq> 0" "unat cnt \<noteq> 1"
      using cnt False word_unat_eq_iff [of cnt 0] word_unat_eq_iff [of cnt 1] by simp_all
    then have cnt2: "2 \<le> unat cnt" by linarith
    have u1: "unat (?start + 1) = Suc ?s"
      using us s31 unat_add_u32 [of ?start 1] by simp
    have len8: "unat (btmp_bytes_len b * 8) = nbits b"
      using nbits_lt [OF ok] unat_mult_u32 [of "btmp_bytes_len b" 8] by simp
    have left: "unat (btmp_bytes_len b * 8 - ?start) = nbits b - ?s"
      using len8 us least(1) by (subst unat_sub) (simp_all add: word_le_nat_alt)
    have inv: "run_inv m b (unat cnt) (unat (?start + 1)) (unat (1 :: u32))"
      using run_inv_init [OF least(2,3) cnt2] by (simp only: u1) simp
    have "unat (?start + 1) + unat (btmp_bytes_len b * 8 - ?start) = nbits b + 1"
      using u1 left least(1) by simp
    with scan_run_least [OF inv, of "unat (btmp_bytes_len b * 8 - ?start)"] scan False
      nbits_lt [OF ok] show ?thesis by simp
  qed
qed

lemma bitmap_scan_one:
  assumes ok: "bm_ok b" and i: "i < nbits b" "\<not> bm_bit m b i"
  shows "\<exists>j. bitmap_scan m b 1 = Inr j \<and> unat j < nbits b \<and>
    \<not> bm_bit m b (unat j) \<and> (\<forall>k < unat j. bm_bit m b k)"
proof -
  have lt: "scan_full m b 0 < btmp_bytes_len b" using scan_full_lt_iff [OF ok] i by blast
  let ?s = "8 * unat (scan_full m b 0) + scan_bit (m (bits b + scan_full m b 0)) 0"
  note least = scan_start_least [OF lt]
  have "bitmap_scan m b 1 = Inr (word_of_nat ?s)"
    using lt less_imp_neq [OF lt] by (simp add: bitmap_scan_def Let_def mult.commute)
  moreover have "unat (word_of_nat ?s :: u32) = ?s"
    using least(1) nbits_lt [OF ok] by (intro unat_word_of_nat_u32) linarith
  ultimately show ?thesis using least by metis
qed

section \<open>The bitmap as an allocator of single bits\<close>

text \<open>
  What the clients of a bitmap rely on (\<^verbatim>\<open>palloc\<close>, \<^verbatim>\<open>inode_bitmap_alloc\<close> and
  \<^verbatim>\<open>block_bitmap_alloc\<close> all scan for one bit and then set it).
\<close>

locale bit_alloc =
  fixes taken :: "'m \<Rightarrow> 'b \<Rightarrow> nat \<Rightarrow> bool"
    and capacity :: "'b \<Rightarrow> nat"
    and ok :: "'b \<Rightarrow> bool"
    and scan1 :: "'m \<Rightarrow> 'b \<Rightarrow> u32 res"
    and setb :: "'m \<Rightarrow> 'b \<Rightarrow> u32 \<Rightarrow> u8 \<Rightarrow> 'm res"
  assumes capacity_bound: "ok b \<Longrightarrow> capacity b < 2147483648"
    and scan1_full: "ok b \<Longrightarrow> \<forall>i < capacity b. taken m b i \<Longrightarrow> scan1 m b = Inl PANIC"
    and scan1_free: "ok b \<Longrightarrow> i < capacity b \<Longrightarrow> \<not> taken m b i \<Longrightarrow>
      \<exists>j. scan1 m b = Inr j \<and> unat j < capacity b \<and> \<not> taken m b (unat j) \<and>
        (\<forall>k < unat j. taken m b k)"
    and setb_total: "v = 0 \<or> v = 1 \<Longrightarrow> \<exists>m'. setb m b idx v = Inr m'"
    and setb_taken: "setb m b idx v = Inr m' \<Longrightarrow> k < 4294967296 \<Longrightarrow>
      taken m' b k = (if k = unat idx then v = 1 else taken m b k)"
begin

lemma scan1_cases:
  assumes "ok b"
  obtains (full) "\<forall>i < capacity b. taken m b i" "scan1 m b = Inl PANIC"
  | (found) j where "scan1 m b = Inr j" "unat j < capacity b" "\<not> taken m b (unat j)"
      "\<forall>k < unat j. taken m b k"
  using assms scan1_full scan1_free by metis

lemma scan1_not_minus_one: "ok b \<Longrightarrow> scan1 m b = Inr j \<Longrightarrow> j \<noteq> -1"
proof
  assume *: "ok b" "scan1 m b = Inr j" "j = -1"
  then have "unat j < capacity b" by (cases rule: scan1_cases [of b m]) auto
  with * capacity_bound [of b] show False
    by (simp add: unsigned_minus_1_eq_mask mask_eq_exp_minus_1)
qed

lemma alloc_marks_one:
  assumes "ok b" "scan1 m b = Inr j" "setb m b j 1 = Inr m'"
  shows "\<not> taken m b (unat j)" "unat j < capacity b" "taken m' b (unat j)"
    "k < capacity b \<Longrightarrow> k \<noteq> unat j \<Longrightarrow> taken m' b k = taken m b k"
proof -
  show "\<not> taken m b (unat j)" "unat j < capacity b"
    using assms(1,2) by (cases rule: scan1_cases [of b m]; simp)+
  show "taken m' b (unat j)" using setb_taken [OF assms(3), of "unat j"] by simp
  show "taken m' b k = taken m b k" if "k < capacity b" "k \<noteq> unat j"
    using setb_taken [OF assms(3), of k] that capacity_bound [OF assms(1)] by simp
qed

lemma alloc_count:
  assumes "ok b" "scan1 m b = Inr j" "setb m b j 1 = Inr m'"
  shows "Suc (card {i. i < capacity b \<and> \<not> taken m' b i}) = card {i. i < capacity b \<and> \<not> taken m b i}"
proof -
  have eq: "{i. i < capacity b \<and> \<not> taken m b i} = insert (unat j) {i. i < capacity b \<and> \<not> taken m' b i}"
    using alloc_marks_one [OF assms] by blast
  moreover have "unat j \<notin> {i. i < capacity b \<and> \<not> taken m' b i}"
    using alloc_marks_one(3) [OF assms] by simp
  ultimately show ?thesis by simp
qed

lemma free_realloc:
  assumes "ok b" "unat j < capacity b" "\<forall>k < unat j. taken m b k" "setb m b j 0 = Inr m'"
  shows "scan1 m' b = Inr j"
proof -
  have free: "\<not> taken m' b (unat j)" using setb_taken [OF assms(4), of "unat j"] by simp
  have below: "taken m' b k" if "k < unat j" for k
    using setb_taken [OF assms(4), of k] assms(3) that unat_u32_lt [of j]
    by (metis less_trans order_less_irrefl)
  from scan1_free [OF assms(1,2) free] obtain i where i: "scan1 m' b = Inr i"
    "\<not> taken m' b (unat i)" "\<forall>k < unat i. taken m' b k" by blast
  then have "unat i = unat j" using free below by (metis nat_neq_iff)
  with i(1) show ?thesis by (simp add: word_unat_eq_iff)
qed

end

interpretation bm: bit_alloc bm_bit nbits bm_ok "\<lambda>m b. bitmap_scan m b 1" bitmap_set
proof unfold_locales
  fix b :: bitmap and m m' :: mem and i :: nat and idx :: u32 and v :: u8 and k :: nat
  show "bm_ok b \<Longrightarrow> nbits b < 2147483648" by (rule nbits_lt)
  show "bm_ok b \<Longrightarrow> \<forall>i < nbits b. bm_bit m b i \<Longrightarrow> bitmap_scan m b 1 = Inl PANIC"
    by (rule bitmap_scan_full)
  show "\<exists>m'. bitmap_set m b idx v = Inr m'" if "v = 0 \<or> v = 1"
    using that by (simp add: bitmap_set_eq)
  show "bm_bit m' b k = (if k = unat idx then v = 1 else bm_bit m b k)"
    if set: "bitmap_set m b idx v = Inr m'" and k: "k < 4294967296"
  proof -
    have v: "v = 0 \<or> v = 1" using set by (auto simp: bitmap_set_def kres_simps)
    with set have "m' = set_bit_at m b (unat idx) (v = 1)" by (simp add: bitmap_set_eq)
    with k show ?thesis by (simp add: bm_bit_set_bit_at)
  qed
  show "\<exists>j. bitmap_scan m b 1 = Inr j \<and> unat j < nbits b \<and>
      \<not> bm_bit m b (unat j) \<and> (\<forall>k < unat j. bm_bit m b k)"
    if "bm_ok b" "i < nbits b" "\<not> bm_bit m b i"
    using that by (rule bitmap_scan_one)
qed

section \<open>Properties\<close>

text \<open>
  C5: \<^verbatim>\<open>bitmap_scan\<close> on a bitmap with a free bit returns the least start of a run of \<open>cnt\<close> zero
  bits when such a run lies within the bitmap and the one bit behind it, and -1 otherwise.
\<close>
theorem bitmap_scan_least_run:
  assumes "bm_ok b" "cnt \<noteq> 0" "\<exists>i < nbits b. \<not> bm_bit m b i"
  shows "bitmap_scan m b cnt =
    Inr (if \<exists>s. s + unat cnt \<le> nbits b + 1 \<and> run_free m b s (unat cnt)
         then word_of_nat (LEAST s. run_free m b s (unat cnt)) else -1)"
  using assms by (rule bitmap_scan_run)

theorem bitmap_scan_least_run_witness:
  "bitmap_scan (\<lambda>a. if a = 4096 then 5 else 0) \<lparr>btmp_bytes_len = 1, bits = 4096\<rparr> 1 =
    Inr (if \<exists>s. s + unat (1::u32) \<le> nbits \<lparr>btmp_bytes_len = 1, bits = 4096\<rparr> + 1 \<and>
          run_free (\<lambda>a. if a = 4096 then 5 else 0) \<lparr>btmp_bytes_len = 1, bits = 4096\<rparr> s (unat (1::u32))
         then word_of_nat (LEAST s. run_free (\<lambda>a. if a = 4096 then 5 else 0)
                \<lparr>btmp_bytes_len = 1, bits = 4096\<rparr> s (unat (1::u32)))
         else -1)"
proof (rule bitmap_scan_least_run)
  show "\<exists>i < nbits \<lparr>btmp_bytes_len = 1, bits = 4096\<rparr>.
      \<not> bm_bit (\<lambda>a. if a = 4096 then 5 else 0) \<lparr>btmp_bytes_len = 1, bits = 4096\<rparr> i"
    by (intro exI [of _ 1]) (simp add: bm_bit_def bit_numeral_rec)
qed (simp_all add: bm_ok_def)

text \<open>
  \<^verbatim>\<open>bitmap_scan\<close> never returns on a full bitmap: its assertion fails before the
  \<^verbatim>\<open>return -1\<close> behind it, whatever length is asked for.
\<close>
lemma bitmap_scan_full_panics:
  assumes "bm_ok b" "\<forall>i < nbits b. bm_bit m b i"
  shows "bitmap_scan m b cnt = Inl PANIC"
  using assms by (rule bitmap_scan_full)

text \<open>
  The run that \<^verbatim>\<open>bitmap_scan\<close> returns can reach one bit past the end of the bitmap: the third
  loop tests \<^verbatim>\<open>bit_left\<close> bits from \<^verbatim>\<open>bit_idx_start + 1\<close> on, one more than the bitmap has left.
  Asked for nine bits of an empty one-byte bitmap it answers 0 when the next byte in memory is even.
\<close>
lemma bitmap_scan_overruns:
  "bitmap_scan (\<lambda>a. 0) \<lparr>btmp_bytes_len = 1, bits = 4096\<rparr> 9 = Inr 0 \<and>
   nbits \<lparr>btmp_bytes_len = 1, bits = 4096\<rparr> < 9"
proof -
  let ?b = "\<lparr>btmp_bytes_len = 1, bits = 4096\<rparr>" and ?m = "\<lambda>a :: u32. 0 :: u8"
  have z: "\<not> bm_bit ?m ?b i" for i by (simp add: bm_bit_def)
  have run: "run_free ?m ?b s n" for s n by (simp add: run_free_def z)
  have "(LEAST s. run_free ?m ?b s (unat (9::u32))) = 0" by (simp add: run)
  moreover have "\<exists>s. s + unat (9::u32) \<le> nbits ?b + 1 \<and> run_free ?m ?b s (unat (9::u32))"
    by (intro exI [of _ 0]) (simp add: run)
  moreover have "\<exists>i < nbits ?b. \<not> bm_bit ?m ?b i" using z by (intro exI [of _ 0]) simp
  ultimately show ?thesis
    using bitmap_scan_run [of ?b 9 ?m] by (simp add: bm_ok_def)
qed

text \<open>
  \<^verbatim>\<open>bitmap_set\<close> followed by \<^verbatim>\<open>bitmap_scan_test\<close> reads back the value at the bit written and
  the old value at every other bit of the address space, for every index and both values.
\<close>
lemma bitmap_set_test:
  assumes "v = 0 \<or> v = 1"
  shows "\<exists>m'. bitmap_set m b i v = Inr m' \<and>
    (\<forall>j. bitmap_scan_test m' b j = (if j = i then v = 1 else bitmap_scan_test m b j))"
  using assms by (auto simp: bitmap_set_eq bitmap_scan_test_bit bm_bit_set_bit_at word_unat_eq_iff)

end
