(* ===== verification/Interrupt.thy ===== *)
theory Interrupt
  imports Prelude
begin

text \<open>
  \<^verbatim>\<open>kernel/interrupt.c\<close>: the interrupt flag of EFLAGS and the four routines that read and
  change it, the interrupt descriptor table and the handler table, and the programming of the
  8259A controllers. The processor's part of the state is a record that the other components
  extend; port output (\<^verbatim>\<open>lib/kernel/io.h\<close>) is a log of the bytes written.
\<close>

section \<open>Processor state\<close>

record cpu =
  eflags :: u32
  io_log :: "(u16 \<times> u8) list"

definition outb :: "u16 \<Rightarrow> u8 \<Rightarrow> 'a cpu_scheme \<Rightarrow> 'a cpu_scheme" where
  "outb port data s = s\<lparr>io_log := io_log s @ [(port, data)]\<rparr>"

datatype intr_status = INTR_OFF | INTR_ON

definition EFLAGS_IF :: u32 where
  "EFLAGS_IF = 0x200"

definition sti :: "'a cpu_scheme \<Rightarrow> 'a cpu_scheme" where
  "sti s = s\<lparr>eflags := eflags s OR EFLAGS_IF\<rparr>"

definition cli :: "'a cpu_scheme \<Rightarrow> 'a cpu_scheme" where
  "cli s = s\<lparr>eflags := eflags s AND NOT EFLAGS_IF\<rparr>"

definition intr_get_status :: "'a cpu_scheme \<Rightarrow> intr_status" where
  "intr_get_status s = (if EFLAGS_IF AND eflags s \<noteq> 0 then INTR_ON else INTR_OFF)"

definition intr_enable :: "'a cpu_scheme \<Rightarrow> intr_status \<times> 'a cpu_scheme" where
  "intr_enable s = (if intr_get_status s = INTR_ON then (INTR_ON, s) else (INTR_OFF, sti s))"

definition intr_disable :: "'a cpu_scheme \<Rightarrow> intr_status \<times> 'a cpu_scheme" where
  "intr_disable s = (if intr_get_status s = INTR_ON then (INTR_ON, cli s) else (INTR_OFF, s))"

definition intr_set_status :: "intr_status \<Rightarrow> 'a cpu_scheme \<Rightarrow> intr_status \<times> 'a cpu_scheme" where
  "intr_set_status status s = (if status = INTR_ON then intr_enable s else intr_disable s)"

section \<open>Descriptor and handler tables\<close>

text \<open>A handler is its address; \<^verbatim>\<open>IDT_DESC_CNT\<close> is 0x81.\<close>

type_synonym intr_handler = u32

definition IDT_DESC_CNT :: nat where
  "IDT_DESC_CNT = 0x81"

definition SELECTOR_K_CODE :: u16 where
  "SELECTOR_K_CODE = push_bit 3 1 + push_bit 2 0 + 0"

definition IDT_DESC_ATTR_DPL0 :: u8 where
  "IDT_DESC_ATTR_DPL0 = push_bit 7 1 + push_bit 5 0 + 0xE"

definition IDT_DESC_ATTR_DPL3 :: u8 where
  "IDT_DESC_ATTR_DPL3 = push_bit 7 1 + push_bit 5 3 + 0xE"

record gate_desc =
  func_offset_low_word :: u16
  selector :: u16
  dcount :: u8
  attribute :: u8
  func_offset_high_word :: u16

definition make_idt_desc :: "u8 \<Rightarrow> intr_handler \<Rightarrow> gate_desc" where
  "make_idt_desc attr function =
     \<lparr>func_offset_low_word = ucast (function AND 0x0000FFFF),
      selector = SELECTOR_K_CODE,
      dcount = 0,
      attribute = attr,
      func_offset_high_word = ucast (drop_bit 16 (function AND 0xFFFF0000))\<rparr>"

record idt_state = cpu +
  idt :: "gate_desc list"
  idt_table :: "intr_handler list"
  intr_name :: "string list"

text \<open>The names \<^verbatim>\<open>exception_init\<close> stores at 0 to 19 (15 keeps the default).\<close>

definition exception_names :: "(nat \<times> string) list" where
  "exception_names =
    [(0, ''#DE Divide Error''), (1, ''#DB Debug Exception''), (2, ''NMI Interrupt''),
     (3, ''BP Breakpoint Exception''), (4, ''OF Overflow Exception''),
     (5, ''BR BOUND Range Exceeded Exception''), (6, ''UD Invalid Opcode Exception''),
     (7, ''NM Device Not Available Exception''), (8, ''DF Double Fault Exception''),
     (9, ''Coprocessor Segement Overrun''), (10, ''TS Invalid TSS Exception''),
     (11, ''NP Segement Not Present''), (12, ''SS Stack Fault Exception''),
     (13, ''GP General Protection Exception''), (14, ''PF Page-Faule Exception''),
     (16, ''MF x87 fpu Floating-Point Error''), (17, ''AC Alignment Check Exception''),
     (18, ''MC Machine-Check Exception''), (19, ''XF SIMD Floation-Point Exception'')]"

definition exception_init :: "intr_handler \<Rightarrow> 'a idt_state_scheme \<Rightarrow> 'a idt_state_scheme" where
  "exception_init general_intr_handler s =
     s\<lparr>idt_table := replicate IDT_DESC_CNT general_intr_handler,
       intr_name := fold (\<lambda>(i, n) ns. ns[i := n]) exception_names (replicate IDT_DESC_CNT ''unknow'')\<rparr>"

text \<open>
  \<^verbatim>\<open>intr_entry_table\<close> is the array of entry points that \<^verbatim>\<open>kernel.S\<close> emits, read at every
  index below \<^verbatim>\<open>IDT_DESC_CNT\<close>; the last gate is then overwritten with the system call entry.
\<close>

definition idt_desc_init ::
  "(nat \<Rightarrow> intr_handler) \<Rightarrow> intr_handler \<Rightarrow> 'a idt_state_scheme \<Rightarrow> 'a idt_state_scheme" where
  "idt_desc_init intr_entry_table syscall_handler s =
     (let lastindex = IDT_DESC_CNT - 1;
          gates = map (\<lambda>i. make_idt_desc IDT_DESC_ATTR_DPL0 (intr_entry_table i)) [0..<IDT_DESC_CNT]
      in s\<lparr>idt := gates[lastindex := make_idt_desc IDT_DESC_ATTR_DPL3 syscall_handler]\<rparr>)"

definition pic_init :: "'a cpu_scheme \<Rightarrow> 'a cpu_scheme" where
  "pic_init s =
     fold (\<lambda>(port, data). outb port data)
       [(0x20, 0x11), (0x21, 0x20), (0x21, 0x04), (0x21, 0x01),
        (0xa0, 0x11), (0xa1, 0x28), (0xa1, 0x02), (0xa1, 0x01),
        (0x21, 0xf8), (0xa1, 0xbf)] s"

definition register_handler ::
  "u8 \<Rightarrow> intr_handler \<Rightarrow> 'a idt_state_scheme \<Rightarrow> 'a idt_state_scheme res" where
  "register_handler vector_no function s =
     (if unat vector_no < IDT_DESC_CNT
      then Inr (s\<lparr>idt_table := (idt_table s)[unat vector_no := function]\<rparr>)
      else Inl OUT_OF_BOUNDS)"

definition idt_init ::
  "(nat \<Rightarrow> intr_handler) \<Rightarrow> intr_handler \<Rightarrow> intr_handler \<Rightarrow> 'a idt_state_scheme \<Rightarrow> 'a idt_state_scheme" where
  "idt_init intr_entry_table syscall_handler general_intr_handler s =
     pic_init (idt_desc_init intr_entry_table syscall_handler (exception_init general_intr_handler s))"

section \<open>The interrupt flag\<close>

lemma IF_off_cli [simp]: "EFLAGS_IF AND (x AND NOT EFLAGS_IF) = 0"
  by (simp add: bit_eq_iff bit_simps)

lemma IF_on_sti [simp]: "EFLAGS_IF AND (x OR EFLAGS_IF) = EFLAGS_IF"
  by (simp add: bit_eq_iff bit_simps)

lemma intr_get_status_cli [simp]: "intr_get_status (cli s) = INTR_OFF"
  by (simp add: intr_get_status_def cli_def)

lemma intr_get_status_sti [simp]: "intr_get_status (sti s) = INTR_ON"
  by (simp add: intr_get_status_def sti_def) (simp add: EFLAGS_IF_def)

lemma intr_off_iff: "intr_get_status s = INTR_OFF \<longleftrightarrow> \<not> bit (eflags s) 9"
  unfolding intr_get_status_def EFLAGS_IF_def
  using and_exp_eq_0_iff_not_bit [of "eflags s" 9] by (simp add: and.commute)

lemma EFLAGS_IF_exp: "EFLAGS_IF = 2 ^ 9"
  by (simp add: EFLAGS_IF_def)

lemma sti_cli: "bit (eflags s) 9 \<Longrightarrow> sti (cli s) = s"
proof -
  assume "bit (eflags s) 9"
  then have "(eflags s AND NOT EFLAGS_IF) OR EFLAGS_IF = eflags s"
    unfolding EFLAGS_IF_exp by (rule clear_set_bit)
  then show ?thesis by (simp add: sti_def cli_def)
qed

lemma intr_disable_off [simp]: "intr_get_status (snd (intr_disable s)) = INTR_OFF"
  by (cases "intr_get_status s") (simp_all add: intr_disable_def)

lemma fst_intr_disable [simp]: "fst (intr_disable s) = intr_get_status s"
  by (cases "intr_get_status s") (simp_all add: intr_disable_def)

lemma intr_restore [simp]:
  "snd (intr_set_status (intr_get_status s) (snd (intr_disable s))) = s"
proof (cases "intr_get_status s")
  case INTR_ON
  then have "sti (cli s) = s" using intr_off_iff [of s] sti_cli by auto
  with INTR_ON show ?thesis by (simp add: intr_set_status_def intr_enable_def intr_disable_def)
next
  case INTR_OFF
  then show ?thesis by (simp add: intr_set_status_def intr_disable_def)
qed

lemma intr_set_status_status: "intr_get_status (snd (intr_set_status st s)) = st"
  by (cases st; cases "intr_get_status s")
    (simp_all add: intr_set_status_def intr_enable_def intr_disable_def)

section \<open>Gates\<close>

text \<open>How the processor reads a gate: the entry point and the descriptor privilege level.\<close>

definition gate_offset :: "gate_desc \<Rightarrow> u32" where
  "gate_offset g = ucast (func_offset_low_word g) OR push_bit 16 (ucast (func_offset_high_word g))"

definition gate_dpl :: "gate_desc \<Rightarrow> u8" where
  "gate_dpl g = drop_bit 5 (attribute g) AND 3"

lemma gate_offset_make [simp]: "gate_offset (make_idt_desc attr f) = f"
  unfolding gate_offset_def make_idt_desc_def ffff_mask ffff0000_mask
  by (rule bit_word_eqI) (auto simp: bit_simps)

lemma gate_dpl_make [simp]:
  "gate_dpl (make_idt_desc IDT_DESC_ATTR_DPL0 f) = 0"
  "gate_dpl (make_idt_desc IDT_DESC_ATTR_DPL3 f) = 3"
  by (simp_all add: gate_dpl_def make_idt_desc_def IDT_DESC_ATTR_DPL0_def IDT_DESC_ATTR_DPL3_def
      push_bit_eq_mult drop_bit_eq_div)

section \<open>Properties\<close>

text \<open>
  \<^verbatim>\<open>intr_disable\<close> leaves interrupts off and reports the former status, and
  \<^verbatim>\<open>intr_set_status\<close> with that report puts the processor state back exactly, so that critical
  sections nest.
\<close>
lemma intr_disable_restore:
  "intr_get_status (snd (intr_disable s)) = INTR_OFF \<and>
   fst (intr_disable s) = intr_get_status s \<and>
   snd (intr_set_status (fst (intr_disable s)) (snd (intr_disable s))) = s"
  by simp

text \<open>
  After \<^verbatim>\<open>idt_init\<close> the gate of every vector below 0x80 leads to its entry point and is
  closed to user code (DPL 0), and the gate of vector 0x80 leads to \<^verbatim>\<open>syscall_handler\<close> and is
  the only one open to privilege level 3.
\<close>
lemma idt_init_gates:
  "length (idt (idt_init entries sysc gen s)) = IDT_DESC_CNT \<and>
   (\<forall>v < IDT_DESC_CNT.
      gate_offset (idt (idt_init entries sysc gen s) ! v) = (if v = 0x80 then sysc else entries v) \<and>
      gate_dpl (idt (idt_init entries sysc gen s) ! v) = (if v = 0x80 then 3 else 0))"
proof -
  have pic: "idt (pic_init t) = idt t" for t :: "'a idt_state_scheme"
    by (simp add: pic_init_def outb_def)
  show ?thesis
    unfolding idt_init_def pic
    by (auto simp: idt_desc_init_def Let_def IDT_DESC_CNT_def nth_list_update)
qed

end
