(* ===== verification/KList.thy ===== *)
theory KList
  imports Interrupt
begin

text \<open>
  The intrusive doubly linked list of \<^verbatim>\<open>kernel/list.c\<close>, on a heap of list elements indexed by
  their addresses. A \<^verbatim>\<open>struct list\<close> is its address \<open>l\<close>: its \<^verbatim>\<open>head\<close> element is at \<open>l\<close> and its
  \<^verbatim>\<open>tail\<close> element at \<open>l + 8\<close>. The mutating routines run with interrupts disabled and restore
  the status, as in the source. \<open>dlist\<close> relates a heap to the sequence of elements of a list;
  the locale \<open>intrusive_list\<close> states what the clients of the list rely on.
\<close>

section \<open>The routines\<close>

record list_elem =
  prev :: u32
  "next" :: u32

type_synonym lheap = "u32 \<Rightarrow> list_elem"

record lstate = idt_state +
  lheap :: lheap

abbreviation (input) list_head :: "u32 \<Rightarrow> u32" where
  "list_head l \<equiv> l"

abbreviation list_tail :: "u32 \<Rightarrow> u32" where
  "list_tail l \<equiv> l + 8"

definition set_prev :: "u32 \<Rightarrow> u32 \<Rightarrow> lheap \<Rightarrow> lheap" where
  "set_prev p v h = h(p := (h p)\<lparr>prev := v\<rparr>)"

definition set_next :: "u32 \<Rightarrow> u32 \<Rightarrow> lheap \<Rightarrow> lheap" where
  "set_next p v h = h(p := (h p)\<lparr>next := v\<rparr>)"

definition list_init :: "u32 \<Rightarrow> 'a lstate_scheme \<Rightarrow> 'a lstate_scheme" where
  "list_init l s =
     s\<lparr>lheap := set_next (list_tail l) NULL (set_prev (list_tail l) (list_head l)
        (set_next (list_head l) (list_tail l) (set_prev (list_head l) NULL (lheap s))))\<rparr>"

definition link_before :: "u32 \<Rightarrow> u32 \<Rightarrow> lheap \<Rightarrow> lheap" where
  "link_before before elem h =
     (let h1 = set_prev elem (prev (h before)) h;
          h2 = set_next elem before h1;
          h3 = set_next (prev (h2 elem)) elem h2
      in set_prev before elem h3)"

definition list_insert_before :: "u32 \<Rightarrow> u32 \<Rightarrow> 'a lstate_scheme \<Rightarrow> 'a lstate_scheme" where
  "list_insert_before before elem s =
     (let (old_status, s1) = intr_disable s;
          s2 = s1\<lparr>lheap := link_before before elem (lheap s1)\<rparr>
      in snd (intr_set_status old_status s2))"

definition list_push :: "u32 \<Rightarrow> u32 \<Rightarrow> 'a lstate_scheme \<Rightarrow> 'a lstate_scheme" where
  "list_push plist elem s = list_insert_before (next (lheap s (list_head plist))) elem s"

definition list_append :: "u32 \<Rightarrow> u32 \<Rightarrow> 'a lstate_scheme \<Rightarrow> 'a lstate_scheme" where
  "list_append plist elem s = list_insert_before (list_tail plist) elem s"

definition unlink :: "u32 \<Rightarrow> lheap \<Rightarrow> lheap" where
  "unlink pelem h =
     (let h1 = set_next (prev (h pelem)) (next (h pelem)) h
      in set_prev (next (h1 pelem)) (prev (h1 pelem)) h1)"

definition list_remove :: "u32 \<Rightarrow> 'a lstate_scheme \<Rightarrow> 'a lstate_scheme" where
  "list_remove pelem s =
     (let (old_status, s1) = intr_disable s;
          s2 = s1\<lparr>lheap := unlink pelem (lheap s1)\<rparr>
      in snd (intr_set_status old_status s2))"

definition list_pop :: "u32 \<Rightarrow> 'a lstate_scheme \<Rightarrow> u32 \<times> 'a lstate_scheme" where
  "list_pop plist s =
     (let elem = next (lheap s (list_head plist)) in (elem, list_remove elem s))"

partial_function (option) elem_find_loop :: "lheap \<Rightarrow> u32 \<Rightarrow> u32 \<Rightarrow> u32 \<Rightarrow> bool option" where
  "elem_find_loop h tail obj_elem elem =
     (if elem \<noteq> tail
      then (if elem = obj_elem then Some True else elem_find_loop h tail obj_elem (next (h elem)))
      else Some False)"

definition elem_find :: "u32 \<Rightarrow> u32 \<Rightarrow> 'a lstate_scheme \<Rightarrow> bool res" where
  "elem_find plist obj_elem s =
     of_loop (elem_find_loop (lheap s) (list_tail plist) obj_elem (next (lheap s (list_head plist))))"

definition list_empty :: "u32 \<Rightarrow> 'a lstate_scheme \<Rightarrow> bool" where
  "list_empty plist s \<longleftrightarrow> next (lheap s (list_head plist)) = list_tail plist"

partial_function (option) list_len_loop :: "lheap \<Rightarrow> u32 \<Rightarrow> u32 \<Rightarrow> u32 \<Rightarrow> u32 option" where
  "list_len_loop h tail elem len =
     (if elem \<noteq> tail then list_len_loop h tail (next (h elem)) (len + 1) else Some len)"

definition list_len :: "u32 \<Rightarrow> 'a lstate_scheme \<Rightarrow> u32 res" where
  "list_len plist s =
     of_loop (list_len_loop (lheap s) (list_tail plist) (next (lheap s (list_head plist))) 0)"

text \<open>The callback of \<^verbatim>\<open>list_traversal\<close> may change the state; the walk reads the current heap.\<close>

partial_function (option) list_traversal_loop ::
  "(u32 \<Rightarrow> u32 \<Rightarrow> 'a lstate_scheme \<Rightarrow> bool \<times> 'a lstate_scheme) \<Rightarrow> u32 \<Rightarrow> u32 \<Rightarrow> u32 \<Rightarrow> 'a lstate_scheme \<Rightarrow>
    (u32 \<times> 'a lstate_scheme) option" where
  "list_traversal_loop func arg tail elem s =
     (if elem \<noteq> tail
      then (case func elem arg s of (found, s') \<Rightarrow>
              if found then Some (elem, s')
              else list_traversal_loop func arg tail (next (lheap s' elem)) s')
      else Some (NULL, s))"

definition list_traversal ::
  "u32 \<Rightarrow> (u32 \<Rightarrow> u32 \<Rightarrow> 'a lstate_scheme \<Rightarrow> bool \<times> 'a lstate_scheme) \<Rightarrow> u32 \<Rightarrow> 'a lstate_scheme \<Rightarrow>
    (u32 \<times> 'a lstate_scheme) res" where
  "list_traversal plist func arg s =
     (if list_empty plist s then Inr (NULL, s)
      else of_loop (list_traversal_loop func arg (list_tail plist) (next (lheap s (list_head plist))) s))"

section \<open>Interrupt status and the heap\<close>

lemma cli_lheap [simp]: "cli (s\<lparr>lheap := h\<rparr>) = (cli s)\<lparr>lheap := h\<rparr>"
  by (simp add: cli_def)

lemma sti_lheap [simp]: "sti (s\<lparr>lheap := h\<rparr>) = (sti s)\<lparr>lheap := h\<rparr>"
  by (simp add: sti_def)

lemma intr_get_status_lheap [simp]: "intr_get_status (s\<lparr>lheap := h\<rparr>) = intr_get_status s"
  by (simp add: intr_get_status_def)

lemma lheap_intr_disable [simp]: "lheap (snd (intr_disable s)) = lheap s"
  by (simp add: intr_disable_def cli_def)

lemma intr_set_status_lheap:
  "snd (intr_set_status st (s\<lparr>lheap := h\<rparr>)) = (snd (intr_set_status st s))\<lparr>lheap := h\<rparr>"
  by (cases st; cases "intr_get_status s")
    (simp_all add: intr_set_status_def intr_enable_def intr_disable_def)

lemma list_insert_before_eq: "list_insert_before b e s = s\<lparr>lheap := link_before b e (lheap s)\<rparr>"
  by (simp only: list_insert_before_def Let_def case_prod_beta intr_set_status_lheap
      fst_intr_disable intr_restore lheap_intr_disable)

lemma list_remove_eq: "list_remove e s = s\<lparr>lheap := unlink e (lheap s)\<rparr>"
  by (simp only: list_remove_def Let_def case_prod_beta intr_set_status_lheap
      fst_intr_disable intr_restore lheap_intr_disable)

section \<open>Lists in the heap\<close>

text \<open>Consecutive nodes point at each other.\<close>

fun links :: "lheap \<Rightarrow> u32 list \<Rightarrow> bool" where
  "links h [] \<longleftrightarrow> True"
| "links h [x] \<longleftrightarrow> True"
| "links h (x # y # zs) \<longleftrightarrow> next (h x) = y \<and> prev (h y) = x \<and> links h (y # zs)"

definition dlist :: "lheap \<Rightarrow> u32 \<Rightarrow> u32 list \<Rightarrow> bool" where
  "dlist h l xs \<longleftrightarrow>
     distinct (list_head l # xs @ [list_tail l]) \<and> links h (list_head l # xs @ [list_tail l])"

definition nodes :: "u32 \<Rightarrow> u32 list \<Rightarrow> u32 set" where
  "nodes l xs = {list_head l, list_tail l} \<union> set xs"

lemma links_split: "links h (xs @ y # zs) \<longleftrightarrow> links h (xs @ [y]) \<and> links h (y # zs)"
proof (induction xs)
  case Nil
  then show ?case by simp
next
  case (Cons x xs)
  then show ?case by (cases xs) auto
qed

lemma in_set_tlD: "x \<in> set (tl xs) \<Longrightarrow> x \<in> set xs"
  by (cases xs) auto

lemma links_cong:
  assumes "\<And>x. x \<in> set (butlast ns) \<Longrightarrow> next (h' x) = next (h x)"
    and "\<And>x. x \<in> set (tl ns) \<Longrightarrow> prev (h' x) = prev (h x)"
  shows "links h' ns \<longleftrightarrow> links h ns"
  using assms
proof (induction ns rule: induct_list012)
  case (3 x y zs)
  have "links h' (y # zs) \<longleftrightarrow> links h (y # zs)"
  proof (rule "3.IH"(2))
    show "next (h' a) = next (h a)" if "a \<in> set (butlast (y # zs))" for a
      using "3.prems"(1) [of a] that by simp
    show "prev (h' a) = prev (h a)" if "a \<in> set (tl (y # zs))" for a
      using "3.prems"(2) [of a] that by simp
  qed
  with "3.prems"(1) [of x] "3.prems"(2) [of y] show ?case by simp
qed simp_all

lemma link_before_eq:
  assumes "e \<noteq> b" "prev (h b) \<noteq> e" "prev (h b) \<noteq> b"
  shows "link_before b e h =
    (h(e := \<lparr>prev = prev (h b), next = b\<rparr>))
      (prev (h b) := (h (prev (h b)))\<lparr>next := e\<rparr>, b := (h b)\<lparr>prev := e\<rparr>)"
  using assms by (auto simp: link_before_def set_prev_def set_next_def Let_def fun_eq_iff)

lemma links_insert:
  assumes "links h (as @ a # b # bs)" "distinct (as @ a # b # bs)" "e \<notin> set (as @ a # b # bs)"
  shows "links (link_before b e h) (as @ a # e # b # bs)"
proof -
  let ?h = "link_before b e h"
  have l: "links h (as @ [a])" "prev (h b) = a" "next (h a) = b" "links h (b # bs)"
    using assms(1) links_split [of h as a "b # bs"] by auto
  have eq: "?h = (h(e := \<lparr>prev = a, next = b\<rparr>)) (a := (h a)\<lparr>next := e\<rparr>, b := (h b)\<lparr>prev := e\<rparr>)"
    using assms(2,3) l(2) by (subst link_before_eq) auto
  have "links ?h (as @ [a])"
    using l(1) assms(2,3) unfolding eq
    by (subst links_cong [of _ _ h]) (auto dest: in_set_tlD)
  moreover have "links ?h (b # bs)"
    using l(4) assms(2,3) unfolding eq
    by (subst links_cong [of _ _ h]) (auto dest: in_set_butlastD split: if_splits)
  moreover have "next (?h a) = e" "prev (?h e) = a" "next (?h e) = b" "prev (?h b) = e"
    using assms(2,3) unfolding eq by auto
  ultimately show ?thesis
    using links_split [of ?h as a "e # b # bs"] by simp
qed

lemma unlink_eq:
  assumes "prev (h e) \<noteq> e" "next (h e) \<noteq> e" "prev (h e) \<noteq> next (h e)"
  shows "unlink e h =
    h(prev (h e) := (h (prev (h e)))\<lparr>next := next (h e)\<rparr>,
      next (h e) := (h (next (h e)))\<lparr>prev := prev (h e)\<rparr>)"
  using assms by (auto simp: unlink_def set_prev_def set_next_def Let_def fun_eq_iff)

lemma links_delete:
  assumes "links h (as @ a # e # b # bs)" "distinct (as @ a # e # b # bs)"
  shows "links (unlink e h) (as @ a # b # bs)"
proof -
  let ?h = "unlink e h"
  have l: "links h (as @ [a])" "prev (h e) = a" "next (h e) = b" "links h (b # bs)"
    using assms(1) links_split [of h as a "e # b # bs"] by auto
  have eq: "?h = h(a := (h a)\<lparr>next := b\<rparr>, b := (h b)\<lparr>prev := a\<rparr>)"
    using assms(2) l(2,3) by (subst unlink_eq) auto
  have "links ?h (as @ [a])"
    using l(1) assms(2) unfolding eq by (subst links_cong [of _ _ h]) (auto dest: in_set_tlD)
  moreover have "links ?h (b # bs)"
    using l(4) assms(2) unfolding eq
    by (subst links_cong [of _ _ h]) (auto dest: in_set_butlastD split: if_splits)
  moreover have "next (?h a) = b" "prev (?h b) = a"
    using assms(2) unfolding eq by auto
  ultimately show ?thesis
    using links_split [of ?h as a "b # bs"] by simp
qed

text \<open>A list depends on its own nodes only.\<close>

lemma dlist_frame:
  "dlist h l xs \<Longrightarrow> (\<And>x. x \<in> nodes l xs \<Longrightarrow> h' x = h x) \<Longrightarrow> dlist h' l xs"
  unfolding dlist_def nodes_def
  by (subst links_cong [of _ _ h]) (auto dest: in_set_butlastD split: if_splits)

lemma link_before_frame:
  "x \<noteq> e \<Longrightarrow> x \<noteq> b \<Longrightarrow> x \<noteq> prev (h b) \<Longrightarrow> e \<noteq> b \<Longrightarrow> prev (h b) \<noteq> e \<Longrightarrow> prev (h b) \<noteq> b \<Longrightarrow>
    link_before b e h x = h x"
  by (simp add: link_before_eq)

text \<open>The node sequence around a gap, as \<open>links_insert\<close> and \<open>links_delete\<close> want it.\<close>

lemma nodes_around:
  obtains as' a bs' where
    "\<forall>mid. list_head l # (as @ mid @ bs) @ [list_tail l] =
       as' @ a # mid @ hd (bs @ [list_tail l]) # bs'"
proof -
  obtain as' a where as: "list_head l # as = as' @ [a]"
    by (cases "list_head l # as" rule: rev_cases) auto
  obtain b bs' where bs: "bs @ [list_tail l] = b # bs'" by (cases "bs @ [list_tail l]") auto
  have "list_head l # (as @ mid @ bs) @ [list_tail l] =
      (list_head l # as) @ mid @ (bs @ [list_tail l])" for mid by simp
  then show ?thesis using that [of as' a bs'] unfolding as bs by simp
qed

lemma dlist_insert:
  assumes "dlist h l (as @ bs)" "e \<notin> nodes l (as @ bs)" "b = hd (bs @ [list_tail l])"
  shows "dlist (link_before b e h) l (as @ e # bs)"
    and "x \<notin> nodes l (as @ e # bs) \<Longrightarrow> link_before b e h x = h x"
proof -
  obtain as' a bs' where n: "\<forall>mid. list_head l # (as @ mid @ bs) @ [list_tail l] = as' @ a # mid @ b # bs'"
    unfolding assms(3) by (rule nodes_around [of l as bs])
  note seq = n [THEN spec, of "[]", unfolded append_Nil]
    n [THEN spec, of "[e]", unfolded append_Cons append_Nil]
  have d: "distinct (as' @ a # b # bs')" "links h (as' @ a # b # bs')"
    using assms(1) unfolding dlist_def seq by blast+
  have ns: "nodes l (as @ bs) = set (as' @ a # b # bs')"
    unfolding seq(1) [symmetric] nodes_def by auto
  with assms(2) have e: "e \<notin> set (as' @ a # b # bs')" by simp
  have "links (link_before b e h) (as' @ a # e # b # bs')" using d e by (intro links_insert)
  moreover have "distinct (as' @ a # e # b # bs')" using d(1) e by auto
  ultimately show "dlist (link_before b e h) l (as @ e # bs)"
    unfolding dlist_def seq(2) by simp
  have "prev (h b) = a" using d(2) links_split [of h as' a "b # bs'"] by simp
  moreover have "nodes l (as @ e # bs) = set (as' @ a # e # b # bs')"
    unfolding seq(2) [symmetric] nodes_def by auto
  ultimately show "link_before b e h x = h x" if "x \<notin> nodes l (as @ e # bs)"
    using that d(1) e by (intro link_before_frame) auto
qed

lemma dlist_delete:
  assumes "dlist h l (as @ e # bs)"
  shows "dlist (unlink e h) l (as @ bs)"
    and "x \<notin> nodes l (as @ bs) \<Longrightarrow> unlink e h x = h x"
proof -
  define b where "b = hd (bs @ [list_tail l])"
  obtain as' a bs' where n: "\<forall>mid. list_head l # (as @ mid @ bs) @ [list_tail l] = as' @ a # mid @ b # bs'"
    unfolding b_def by (rule nodes_around [of l as bs])
  note seq = n [THEN spec, of "[]", unfolded append_Nil]
    n [THEN spec, of "[e]", unfolded append_Cons append_Nil]
  have d: "distinct (as' @ a # e # b # bs')" "links h (as' @ a # e # b # bs')"
    using assms unfolding dlist_def seq by blast+
  show "dlist (unlink e h) l (as @ bs)"
    using links_delete [OF d(2,1)] d(1) unfolding dlist_def seq(1) by auto
  have "prev (h e) = a" "next (h e) = b" using d(2) links_split [of h as' a "e # b # bs'"] by simp_all
  moreover have "nodes l (as @ bs) = set (as' @ a # b # bs')"
    unfolding seq(1) [symmetric] nodes_def by auto
  ultimately show "unlink e h x = h x" if "x \<notin> nodes l (as @ bs)"
    using that d(1) by (subst unlink_eq) auto
qed

section \<open>The operations on lists in the heap\<close>

lemma dlist_head_next: "dlist h l xs \<Longrightarrow> next (h (list_head l)) = hd (xs @ [list_tail l])"
  by (cases xs) (auto simp: dlist_def)

lemma dlist_init: "dlist (lheap (list_init l s)) l []"
  by (simp add: dlist_def list_init_def set_next_def set_prev_def)

lemma list_init_frame: "x \<noteq> l \<Longrightarrow> x \<noteq> list_tail l \<Longrightarrow> lheap (list_init l s) x = lheap s x"
  by (simp add: list_init_def set_next_def set_prev_def)

lemma dlist_append:
  assumes "dlist (lheap s) l xs" "e \<notin> nodes l xs"
  shows "dlist (lheap (list_append l e s)) l (xs @ [e])"
  using dlist_insert(1) [of "lheap s" l xs "[]"] assms
  by (simp add: list_append_def list_insert_before_eq)

lemma list_append_frame:
  assumes "dlist (lheap s) l xs" "e \<notin> nodes l xs" "x \<notin> nodes l xs" "x \<noteq> e"
  shows "lheap (list_append l e s) x = lheap s x"
  using dlist_insert(2) [of "lheap s" l xs "[]" e "list_tail l" x] assms
  by (simp add: list_append_def list_insert_before_eq nodes_def)

lemma dlist_push:
  assumes "dlist (lheap s) l xs" "e \<notin> nodes l xs"
  shows "dlist (lheap (list_push l e s)) l (e # xs)"
  using dlist_insert(1) [of "lheap s" l "[]" xs] dlist_head_next [OF assms(1)] assms
  by (simp add: list_push_def list_insert_before_eq)

lemma list_push_frame:
  assumes "dlist (lheap s) l xs" "e \<notin> nodes l xs" "x \<notin> nodes l xs" "x \<noteq> e"
  shows "lheap (list_push l e s) x = lheap s x"
  using dlist_insert(2) [of "lheap s" l "[]" xs e _ x] dlist_head_next [OF assms(1)] assms
  by (simp add: list_push_def list_insert_before_eq nodes_def)

lemma dlist_remove:
  assumes "dlist (lheap s) l xs" "e \<in> set xs"
  shows "dlist (lheap (list_remove e s)) l (remove1 e xs)"
proof -
  obtain as bs where xs: "xs = as @ e # bs" "e \<notin> set as" using split_list_first [OF assms(2)] by blast
  then show ?thesis
    using dlist_delete(1) [of "lheap s" l as e bs] assms(1) by (simp add: list_remove_eq remove1_append)
qed

lemma list_remove_frame:
  assumes "dlist (lheap s) l xs" "e \<in> set xs" "x \<notin> nodes l xs"
  shows "lheap (list_remove e s) x = lheap s x"
proof -
  obtain as bs where "xs = as @ e # bs" using split_list [OF assms(2)] by blast
  then show ?thesis
    using dlist_delete(2) [of "lheap s" l as e bs x] assms(1,3) by (simp add: list_remove_eq nodes_def)
qed

lemma list_pop_eq:
  "dlist (lheap s) l (x # xs) \<Longrightarrow> list_pop l s = (x, list_remove x s)"
  using dlist_head_next [of "lheap s" l "x # xs"] by (simp add: list_pop_def Let_def)

lemma dlist_pop:
  "dlist (lheap s) l (x # xs) \<Longrightarrow> fst (list_pop l s) = x \<and> dlist (lheap (snd (list_pop l s))) l xs"
  using dlist_remove [of s l "x # xs" x] by (simp add: list_pop_eq)

lemma list_empty_iff: "dlist (lheap s) l xs \<Longrightarrow> list_empty l s \<longleftrightarrow> xs = []"
  using dlist_head_next [of "lheap s" l xs] by (cases xs) (auto simp: list_empty_def dlist_def)

lemma elem_find_loop_links:
  "links h (x # xs @ [t]) \<Longrightarrow> t \<notin> set (x # xs) \<Longrightarrow>
    elem_find_loop h t e x = Some (e \<in> set (x # xs))"
proof (induction xs arbitrary: x)
  case Nil
  then show ?case by (simp add: elem_find_loop.simps)
next
  case (Cons y ys)
  from Cons.prems have "next (h x) = y" "x \<noteq> t" by auto
  with Cons show ?case by (subst elem_find_loop.simps) auto
qed

lemma links_tl: "links h (x # xs) \<Longrightarrow> links h xs"
  by (cases xs) auto

lemma elem_find_dlist: "dlist (lheap s) l xs \<Longrightarrow> elem_find l e s = Inr (e \<in> set xs)"
proof (cases xs)
  case Nil
  assume "dlist (lheap s) l xs"
  with Nil show ?thesis by (simp add: elem_find_def dlist_def elem_find_loop.simps)
next
  case (Cons x ys)
  assume d: "dlist (lheap s) l xs"
  with Cons have "links (lheap s) (x # ys @ [list_tail l])" "list_tail l \<notin> set (x # ys)"
    by (auto simp: dlist_def)
  then have "elem_find_loop (lheap s) (list_tail l) e x = Some (e \<in> set (x # ys))"
    by (rule elem_find_loop_links)
  with Cons dlist_head_next [OF d] show ?thesis by (simp add: elem_find_def)
qed

lemma list_len_loop_links:
  "links h (x # xs @ [t]) \<Longrightarrow> t \<notin> set (x # xs) \<Longrightarrow>
    list_len_loop h t x n = Some (n + word_of_nat (length (x # xs)))"
proof (induction xs arbitrary: x n)
  case Nil
  then show ?case by (simp add: list_len_loop.simps)
next
  case (Cons y ys)
  from Cons.prems have "next (h x) = y" "x \<noteq> t" by auto
  with Cons show ?case by (subst list_len_loop.simps) (auto simp: algebra_simps)
qed

lemma list_len_dlist: "dlist (lheap s) l xs \<Longrightarrow> list_len l s = Inr (word_of_nat (length xs))"
proof (cases xs)
  case Nil
  assume "dlist (lheap s) l xs"
  with Nil show ?thesis by (simp add: list_len_def dlist_def list_len_loop.simps)
next
  case (Cons x ys)
  assume d: "dlist (lheap s) l xs"
  with Cons have "links (lheap s) (x # ys @ [list_tail l])" "list_tail l \<notin> set (x # ys)"
    by (auto simp: dlist_def)
  then have "list_len_loop (lheap s) (list_tail l) x 0 = Some (0 + word_of_nat (length (x # ys)))"
    by (rule list_len_loop_links)
  with Cons dlist_head_next [OF d] show ?thesis by (simp add: list_len_def)
qed

text \<open>A callback that only tests: the walk returns the first element it accepts.\<close>

lemma list_traversal_loop_links:
  "links (lheap s) (x # xs @ [t]) \<Longrightarrow> t \<notin> set (x # xs) \<Longrightarrow>
    list_traversal_loop (\<lambda>e a s. (P e a, s)) arg t x s =
      Some (case find (\<lambda>e. P e arg) (x # xs) of None \<Rightarrow> NULL | Some e \<Rightarrow> e, s)"
proof (induction xs arbitrary: x)
  case Nil
  then show ?case by (simp add: list_traversal_loop.simps)
next
  case (Cons y ys)
  from Cons.prems have "next (lheap s x) = y" "x \<noteq> t" by auto
  with Cons show ?case by (subst list_traversal_loop.simps) auto
qed

lemma list_traversal_dlist:
  "dlist (lheap s) l xs \<Longrightarrow>
    list_traversal l (\<lambda>e a s. (P e a, s)) arg s =
      Inr (case find (\<lambda>e. P e arg) xs of None \<Rightarrow> NULL | Some e \<Rightarrow> e, s)"
proof (cases xs)
  case Nil
  assume "dlist (lheap s) l xs"
  with Nil show ?thesis by (simp add: list_traversal_def list_empty_iff)
next
  case (Cons x ys)
  assume d: "dlist (lheap s) l xs"
  with Cons have "links (lheap s) (x # ys @ [list_tail l])" "list_tail l \<notin> set (x # ys)"
    by (auto simp: dlist_def)
  note run = list_traversal_loop_links [OF this, of P arg]
  from Cons d have "\<not> list_empty l s" by (simp add: list_empty_iff)
  with Cons dlist_head_next [OF d] run show ?thesis by (simp add: list_traversal_def)
qed

section \<open>The interface of the list\<close>

text \<open>
  What the scheduler, the semaphores and the allocator rely on: which sequence each operation
  leaves, and that it leaves alone every list whose nodes it does not touch.
\<close>

locale intrusive_list =
  fixes is_list :: "'s \<Rightarrow> u32 \<Rightarrow> u32 list \<Rightarrow> bool"
    and app psh :: "u32 \<Rightarrow> u32 \<Rightarrow> 's \<Rightarrow> 's"
    and rem :: "u32 \<Rightarrow> 's \<Rightarrow> 's"
    and pop :: "u32 \<Rightarrow> 's \<Rightarrow> u32 \<times> 's"
    and fnd :: "u32 \<Rightarrow> u32 \<Rightarrow> 's \<Rightarrow> bool res"
  assumes distinct_list: "is_list s l xs \<Longrightarrow> distinct xs"
    and node_not_end: "is_list s l xs \<Longrightarrow> e \<in> set xs \<Longrightarrow> e \<noteq> list_head l \<and> e \<noteq> list_tail l"
    and is_app: "is_list s l xs \<Longrightarrow> e \<notin> nodes l xs \<Longrightarrow> is_list (app l e s) l (xs @ [e])"
    and is_psh: "is_list s l xs \<Longrightarrow> e \<notin> nodes l xs \<Longrightarrow> is_list (psh l e s) l (e # xs)"
    and is_rem: "is_list s l xs \<Longrightarrow> e \<in> set xs \<Longrightarrow> is_list (rem e s) l (remove1 e xs)"
    and pop_rem: "is_list s l (x # xs) \<Longrightarrow> pop l s = (x, rem x s)"
    and fnd_iff: "is_list s l xs \<Longrightarrow> fnd l e s = Inr (e \<in> set xs)"
    and app_other: "is_list s l xs \<Longrightarrow> e \<notin> nodes l xs \<Longrightarrow> is_list s k ys \<Longrightarrow>
      nodes l xs \<inter> nodes k ys = {} \<Longrightarrow> e \<notin> nodes k ys \<Longrightarrow> is_list (app l e s) k ys"
    and psh_other: "is_list s l xs \<Longrightarrow> e \<notin> nodes l xs \<Longrightarrow> is_list s k ys \<Longrightarrow>
      nodes l xs \<inter> nodes k ys = {} \<Longrightarrow> e \<notin> nodes k ys \<Longrightarrow> is_list (psh l e s) k ys"
    and rem_other: "is_list s l xs \<Longrightarrow> e \<in> set xs \<Longrightarrow> is_list s k ys \<Longrightarrow>
      nodes l xs \<inter> nodes k ys = {} \<Longrightarrow> is_list (rem e s) k ys"
begin

lemma is_pop: "is_list s l (x # xs) \<Longrightarrow> fst (pop l s) = x \<and> is_list (snd (pop l s)) l xs"
  using is_rem [of s l "x # xs" x] by (simp add: pop_rem)

lemma app_all:
  "is_list s l xs \<Longrightarrow> distinct es \<Longrightarrow> set es \<inter> nodes l xs = {} \<Longrightarrow>
    is_list (fold (app l) es s) l (xs @ es)"
proof (induction es arbitrary: s xs)
  case Nil
  then show ?case by simp
next
  case (Cons e es)
  then have "is_list (app l e s) l (xs @ [e])" by (intro is_app) auto
  with Cons.prems have "is_list (fold (app l) es (app l e s)) l ((xs @ [e]) @ es)"
    by (intro Cons.IH) (auto simp: nodes_def)
  then show ?case by simp
qed

text \<open>Moving the first element of one list to the front of another, as \<^verbatim>\<open>sema_up\<close> does.\<close>

lemma transfer:
  assumes "is_list s k (x # ys)" "is_list s l xs" "nodes k (x # ys) \<inter> nodes l xs = {}"
  shows "is_list (psh l x (snd (pop k s))) k ys" "is_list (psh l x (snd (pop k s))) l (x # xs)"
proof -
  let ?s = "snd (pop k s)"
  have k: "is_list ?s k ys" using is_pop [OF assms(1)] by blast
  have l: "is_list ?s l xs"
    using rem_other [OF assms(1) _ assms(2,3)] pop_rem [OF assms(1)] by simp
  have x: "x \<notin> nodes l xs" "nodes l xs \<inter> nodes k ys = {}"
    using assms(3) by (auto simp: nodes_def)
  have "x \<notin> nodes k ys" using distinct_list [OF assms(1)] node_not_end [OF assms(1), of x]
    by (auto simp: nodes_def)
  with k l x show "is_list (psh l x ?s) k ys" "is_list (psh l x ?s) l (x # xs)"
    by (auto intro: is_psh psh_other)
qed

end

interpretation lq: intrusive_list
  "\<lambda>s :: 'a lstate_scheme. dlist (lheap s)" list_append list_push list_remove list_pop elem_find
proof unfold_locales
  fix s :: "'a lstate_scheme" and l k e x :: u32 and xs ys :: "u32 list"
  show "dlist (lheap s) l xs \<Longrightarrow> distinct xs" by (simp add: dlist_def)
  show "dlist (lheap s) l xs \<Longrightarrow> e \<in> set xs \<Longrightarrow> e \<noteq> list_head l \<and> e \<noteq> list_tail l"
    by (auto simp: dlist_def)
  show "dlist (lheap s) l xs \<Longrightarrow> e \<notin> nodes l xs \<Longrightarrow> dlist (lheap (list_append l e s)) l (xs @ [e])"
    by (rule dlist_append)
  show "dlist (lheap s) l xs \<Longrightarrow> e \<notin> nodes l xs \<Longrightarrow> dlist (lheap (list_push l e s)) l (e # xs)"
    by (rule dlist_push)
  show "dlist (lheap s) l xs \<Longrightarrow> e \<in> set xs \<Longrightarrow> dlist (lheap (list_remove e s)) l (remove1 e xs)"
    by (rule dlist_remove)
  show "dlist (lheap s) l (x # xs) \<Longrightarrow> list_pop l s = (x, list_remove x s)"
    by (rule list_pop_eq)
  show "dlist (lheap s) l xs \<Longrightarrow> elem_find l e s = Inr (e \<in> set xs)"
    by (rule elem_find_dlist)
  assume l: "dlist (lheap s) l xs" and k: "dlist (lheap s) k ys"
    and disj: "nodes l xs \<inter> nodes k ys = {}"
  show "dlist (lheap (list_append l e s)) k ys" if "e \<notin> nodes l xs" "e \<notin> nodes k ys"
    using that disj by (intro dlist_frame [OF k] list_append_frame [OF l]) auto
  show "dlist (lheap (list_push l e s)) k ys" if "e \<notin> nodes l xs" "e \<notin> nodes k ys"
    using that disj by (intro dlist_frame [OF k] list_push_frame [OF l]) auto
  show "dlist (lheap (list_remove e s)) k ys" if "e \<in> set xs"
    using disj by (intro dlist_frame [OF k] list_remove_frame [OF l that]) auto
qed

text \<open>Popping \<open>n\<close> times in a row.\<close>

primrec list_pops :: "nat \<Rightarrow> u32 \<Rightarrow> 'a lstate_scheme \<Rightarrow> u32 list \<times> 'a lstate_scheme" where
  "list_pops 0 l s = ([], s)"
| "list_pops (Suc n) l s =
     (case list_pop l s of (x, s') \<Rightarrow> case list_pops n l s' of (xs, s'') \<Rightarrow> (x # xs, s''))"

lemma list_pops_all:
  "dlist (lheap s) l xs \<Longrightarrow>
    fst (list_pops (length xs) l s) = xs \<and> dlist (lheap (snd (list_pops (length xs) l s))) l []"
proof (induction xs arbitrary: s)
  case Nil
  then show ?case by simp
next
  case (Cons x xs)
  from lq.is_pop [OF Cons.prems] have "fst (list_pop l s) = x" "dlist (lheap (snd (list_pop l s))) l xs"
    by blast+
  with Cons.IH [of "snd (list_pop l s)"] show ?case by (simp add: split_beta)
qed

section \<open>Properties\<close>

text \<open>
  C6: On a well-formed list the mutating routines implement the sequence operations:
  \<^verbatim>\<open>list_append\<close> adds at the end, \<^verbatim>\<open>list_push\<close> at the front, \<^verbatim>\<open>list_remove\<close> takes one element out,
  \<^verbatim>\<open>list_pop\<close> returns and removes the first one; each keeps the list well formed.
\<close>
theorem list_ops_refine:
  assumes "dlist (lheap s) l (x # xs)" "e \<notin> nodes l (x # xs)" "y \<in> set (x # xs)"
  shows "dlist (lheap (list_append l e s)) l ((x # xs) @ [e]) \<and>
    dlist (lheap (list_push l e s)) l (e # x # xs) \<and>
    dlist (lheap (list_remove y s)) l (remove1 y (x # xs)) \<and>
    fst (list_pop l s) = x \<and> dlist (lheap (snd (list_pop l s))) l xs"
  using lq.is_app [OF assms(1,2)] lq.is_psh [OF assms(1,2)] lq.is_rem [OF assms(1,3)]
    lq.is_pop [OF assms(1)] by blast

definition empty_lstate :: lstate where
  "empty_lstate = \<lparr>eflags = 0, io_log = [], idt = [], idt_table = [], intr_name = [], lheap = (\<lambda>_. \<lparr>prev = 0, next = 0\<rparr>)\<rparr>"

lemma dlist_example: "dlist (lheap (list_append 256 512 (list_init 256 empty_lstate))) 256 [512]"
  using dlist_append [OF dlist_init [of 256 empty_lstate], of 512] by (simp add: nodes_def)

theorem list_ops_refine_witness:
  "dlist (lheap (list_append 256 768 (list_append 256 512 (list_init 256 empty_lstate)))) 256 [512, 768]"
proof -
  have "dlist (lheap (list_append 256 768 (list_append 256 512 (list_init 256 empty_lstate)))) 256 ([512] @ [768])"
    using list_ops_refine [OF dlist_example, of 768 512] by (simp add: nodes_def)
  then show ?thesis by simp
qed

text \<open>
  A list is a first-in first-out queue: whatever distinct elements are appended to a freshly
  initialised list are popped again in the same order, and the list is empty afterwards.
\<close>
lemma list_fifo:
  assumes "distinct es" "l \<notin> set es" "l + 8 \<notin> set es"
  shows "fst (list_pops (length es) l (fold (list_append l) es (list_init l s))) = es \<and>
    dlist (lheap (snd (list_pops (length es) l (fold (list_append l) es (list_init l s))))) l []"
proof -
  have "dlist (lheap (fold (list_append l) es (list_init l s))) l ([] @ es)"
    using assms by (intro lq.app_all dlist_init) (auto simp: nodes_def)
  then show ?thesis using list_pops_all by simp
qed

text \<open>
  C26: The walking routines end on every well-formed list and answer for the whole sequence:
  \<^verbatim>\<open>elem_find\<close> decides membership, \<^verbatim>\<open>list_len\<close> is its length, \<^verbatim>\<open>list_empty\<close> its emptiness and
  \<^verbatim>\<open>list_traversal\<close> with a callback that only tests finds the first element that satisfies it.
\<close>
theorem list_queries:
  assumes "dlist (lheap s) l xs"
  shows "elem_find l e s = Inr (e \<in> set xs) \<and>
    list_len l s = Inr (word_of_nat (length xs)) \<and>
    (list_empty l s \<longleftrightarrow> xs = []) \<and>
    list_traversal l (\<lambda>e a s. (P e a, s)) arg s =
      Inr (case find (\<lambda>e. P e arg) xs of None \<Rightarrow> NULL | Some e \<Rightarrow> e, s)"
  using assms elem_find_dlist list_len_dlist list_empty_iff list_traversal_dlist by blast

theorem list_queries_witness:
  "elem_find 256 512 (list_append 256 512 (list_init 256 empty_lstate)) = Inr True"
  using list_queries [OF dlist_example, of 512 "\<lambda>_ _. False" 0] by simp

text \<open>
  Moving the first element of one list to the front of another, as waking a waiter does,
  leaves exactly that change in both lists when they share no node.
\<close>
lemma list_transfer:
  assumes "dlist (lheap s) k (x # ys)" "dlist (lheap s) l xs" "nodes k (x # ys) \<inter> nodes l xs = {}"
  shows "dlist (lheap (list_push l x (snd (list_pop k s)))) k ys \<and>
    dlist (lheap (list_push l x (snd (list_pop k s)))) l (x # xs)"
  using lq.transfer [OF assms] by blast

end
