(* ===== verification/Paging.thy ===== *)
theory Paging
  imports KList
begin

text \<open>
  Page tables as \<^verbatim>\<open>kernel/memory.c\<close> edits them. Physical memory holding page directories and
  page tables is a map from word addresses to 32-bit entries; \<open>walk\<close> is the two-level
  translation of the processor from CR3 on. The kernel never uses physical addresses for its
  tables: \<^verbatim>\<open>pde_ptr\<close> and \<^verbatim>\<open>pte_ptr\<close> compute virtual addresses inside the window that the last
  directory entry, which points at the directory itself, opens. The theorems show that these
  addresses translate to the entries the processor consults.

  The processor also keeps translations of its own. \<open>stale\<close> holds the pages whose entry has been taken
  away and whose old translation it may still use; \<^verbatim>\<open>invlpg\<close> drops one page from it, loading CR3 all.
  An entry that becomes present needs no such step, because absent entries are not kept. The window is
  never among the stale pages, so that \<open>vload\<close> and \<open>vstore\<close> may follow the tables.
\<close>

section \<open>Translation\<close>

record vmstate = lstate +
  phys :: "u32 \<Rightarrow> u32"
  cr3 :: u32
  stale :: "u32 set"

definition PDE_IDX :: "u32 \<Rightarrow> u32" where
  "PDE_IDX addr = drop_bit 22 (addr AND 0xffc00000)"

definition PTE_IDX :: "u32 \<Rightarrow> u32" where
  "PTE_IDX addr = drop_bit 12 (addr AND 0x003ff000)"

definition PG_P_1 :: u32 where "PG_P_1 = 1"
definition PG_RW_W :: u32 where "PG_RW_W = 2"
definition PG_US_U :: u32 where "PG_US_U = 4"

text \<open>The frame an entry points at, and whether the entry is present.\<close>

definition frame :: "u32 \<Rightarrow> u32" where
  "frame e = e AND 0xfffff000"

definition present :: "u32 \<Rightarrow> bool" where
  "present e \<longleftrightarrow> e AND 0x00000001 \<noteq> 0"

text \<open>Physical addresses of the directory entry and of the table entry for \<open>v\<close>.\<close>

definition pde_addr :: "u32 \<Rightarrow> u32 \<Rightarrow> u32" where
  "pde_addr c v = frame c + PDE_IDX v * 4"

definition pte_addr :: "(u32 \<Rightarrow> u32) \<Rightarrow> u32 \<Rightarrow> u32 \<Rightarrow> u32" where
  "pte_addr ph c v = frame (ph (pde_addr c v)) + PTE_IDX v * 4"

definition walk :: "(u32 \<Rightarrow> u32) \<Rightarrow> u32 \<Rightarrow> u32 \<Rightarrow> u32 option" where
  "walk ph c v =
     (if present (ph (pde_addr c v)) \<and> present (ph (pte_addr ph c v))
      then Some (frame (ph (pte_addr ph c v)) + (v AND 0x00000fff)) else None)"

definition vload :: "u32 \<Rightarrow> 'a vmstate_scheme \<Rightarrow> u32 res" where
  "vload v s = (case walk (phys s) (cr3 s) v of None \<Rightarrow> Inl PAGE_FAULT | Some pa \<Rightarrow> Inr (phys s pa))"

definition vstore :: "u32 \<Rightarrow> u32 \<Rightarrow> 'a vmstate_scheme \<Rightarrow> 'a vmstate_scheme res" where
  "vstore v x s =
     (case walk (phys s) (cr3 s) v of None \<Rightarrow> Inl PAGE_FAULT
      | Some pa \<Rightarrow> Inr (s\<lparr>phys := (phys s)(pa := x)\<rparr>))"

section \<open>The routines\<close>

definition pte_ptr :: "u32 \<Rightarrow> u32" where
  "pte_ptr vaddr = 0xffc00000 + drop_bit 10 (vaddr AND 0xffc00000) + PTE_IDX vaddr * 4"

definition pde_ptr :: "u32 \<Rightarrow> u32" where
  "pde_ptr vaddr = 0xfffff000 + PDE_IDX vaddr * 4"

definition addr_v2p :: "u32 \<Rightarrow> 'a vmstate_scheme \<Rightarrow> u32 res" where
  "addr_v2p vaddr s =
     kbind (vload (pte_ptr vaddr) s) (\<lambda>pte. Inr ((pte AND 0xfffff000) + (vaddr AND 0x00000fff)))"

text \<open>\<^verbatim>\<open>*pte &= ~PG_P_1\<close>, after which the translation the processor may have is out of date.\<close>

definition clear_pte :: "u32 \<Rightarrow> 'a vmstate_scheme \<Rightarrow> 'a vmstate_scheme res" where
  "clear_pte vaddr s =
     kbind (vload (pte_ptr vaddr) s) (\<lambda>pte. vstore (pte_ptr vaddr) (pte AND NOT PG_P_1) (s\<lparr>stale := insert (frame vaddr) (stale s)\<rparr>))"

definition invlpg :: "u32 \<Rightarrow> 'a vmstate_scheme \<Rightarrow> 'a vmstate_scheme" where
  "invlpg m s = s\<lparr>stale := stale s - {frame m}\<rparr>"

section \<open>Fields of an address\<close>

lemma mask_consts:
  "(0xffc00000 :: u32) = push_bit 22 (mask 10)" "(0x003ff000 :: u32) = push_bit 12 (mask 10)"
  "(0xfffff000 :: u32) = push_bit 12 (mask 20)" "(0x00000fff :: u32) = mask 12"
  by (simp_all add: mask_eq_exp_minus_1 push_bit_eq_mult)

lemma PDE_IDX_eq: "PDE_IDX v = drop_bit 22 v"
  unfolding PDE_IDX_def mask_consts
  by (rule bit_word_eqI) (auto simp: bit_simps dest: bit_imp_le_length)

lemma PTE_IDX_eq: "PTE_IDX v = take_bit 10 (drop_bit 12 v)"
  unfolding PTE_IDX_def mask_consts by (rule bit_word_eqI) (auto simp: bit_simps)

lemma frame_eq: "frame e = push_bit 12 (drop_bit 12 e)"
  unfolding frame_def mask_consts by (rule bit_word_eqI) (auto simp: bit_simps)

lemma times4: "x * 4 = push_bit 2 x" for x :: u32
  by (simp add: push_bit_eq_mult mult.commute)

lemma add_or: "(\<And>n. \<not> (bit a n \<and> bit b n)) \<Longrightarrow> a + b = a OR b" for a b :: u32
  by (rule disjunctive_add) auto

lemma pde_ptr_or: "pde_ptr v = push_bit 12 (mask 20) OR push_bit 2 (drop_bit 22 v)"
  unfolding pde_ptr_def PDE_IDX_eq times4 mask_consts
  by (rule add_or) (auto simp: bit_simps dest: bit_imp_le_length)

lemma pte_ptr_or:
  "pte_ptr v = (push_bit 22 (mask 10) OR push_bit 12 (drop_bit 22 v)) OR
     push_bit 2 (take_bit 10 (drop_bit 12 v))"
proof -
  have d: "drop_bit 10 (v AND 0xffc00000) = push_bit 12 (drop_bit 22 v)"
    unfolding mask_consts
    by (rule bit_word_eqI) (auto simp: bit_simps dest: bit_imp_le_length)
  have "(0xffc00000 :: u32) + push_bit 12 (drop_bit 22 v) =
      push_bit 22 (mask 10) OR push_bit 12 (drop_bit 22 v)"
    unfolding mask_consts by (rule add_or) (auto simp: bit_simps dest: bit_imp_le_length)
  then show ?thesis
    unfolding pte_ptr_def PTE_IDX_eq times4 d
    by (simp only:) (rule add_or, auto simp: bit_simps dest: bit_imp_le_length)
qed

text \<open>Index and offset fields of the two window addresses.\<close>

lemma PDE_IDX_window: "PDE_IDX (pde_ptr v) = mask 10" "PDE_IDX (pte_ptr v) = mask 10"
  unfolding PDE_IDX_eq pde_ptr_or pte_ptr_or
  by (rule bit_word_eqI, auto simp: bit_simps dest: bit_imp_le_length)+

lemma PTE_IDX_window: "PTE_IDX (pde_ptr v) = mask 10" "PTE_IDX (pte_ptr v) = PDE_IDX v"
  unfolding PTE_IDX_eq PDE_IDX_eq pde_ptr_or pte_ptr_or
  by (rule bit_word_eqI, auto simp: bit_simps dest: bit_imp_le_length)+

lemma offset_window: "pde_ptr v AND 0x00000fff = PDE_IDX v * 4" "pte_ptr v AND 0x00000fff = PTE_IDX v * 4"
  unfolding PTE_IDX_eq PDE_IDX_eq pde_ptr_or pte_ptr_or times4 mask_consts
  by (rule bit_word_eqI, auto simp: bit_simps dest: bit_imp_le_length)+

lemma frame_frame [simp]: "frame (frame e) = frame e"
  unfolding frame_eq by (rule bit_word_eqI) (auto simp: bit_simps)

section \<open>The self-mapped directory\<close>

text \<open>The last directory entry is present and points at the directory itself.\<close>

definition self_mapped :: "(u32 \<Rightarrow> u32) \<Rightarrow> u32 \<Rightarrow> bool" where
  "self_mapped ph c \<longleftrightarrow> present (ph (frame c + mask 10 * 4)) \<and> frame (ph (frame c + mask 10 * 4)) = frame c"

lemma walk_pde_ptr:
  assumes "self_mapped ph c"
  shows "walk ph c (pde_ptr v) = Some (pde_addr c v)"
  using assms
  by (simp add: self_mapped_def walk_def pde_addr_def pte_addr_def PDE_IDX_window PTE_IDX_window
      offset_window)

lemma walk_pte_ptr:
  assumes "self_mapped ph c"
  shows "walk ph c (pte_ptr v) = (if present (ph (pde_addr c v)) then Some (pte_addr ph c v) else None)"
  using assms
  by (simp add: self_mapped_def walk_def pde_addr_def pte_addr_def PDE_IDX_window PTE_IDX_window
      offset_window)

text \<open>
  Address fields determine the page: two addresses with the same indices are on the same page.
\<close>

lemma frame_offset: "frame v + (v AND 0x00000fff) = v"
proof -
  have "frame v + (v AND 0x00000fff) = frame v OR (v AND 0x00000fff)"
    unfolding frame_eq mask_consts by (rule add_or) (auto simp: bit_simps)
  also have "\<dots> = v"
    unfolding frame_eq mask_consts by (rule bit_word_eqI) (auto simp: bit_simps)
  finally show ?thesis .
qed

lemma bit_below10: "bit w n \<Longrightarrow> drop_bit 10 w = 0 \<Longrightarrow> n < 10" for w :: u32
proof (rule ccontr)
  assume "bit w n" "drop_bit 10 w = 0" and n: "\<not> n < 10"
  from \<open>bit w n\<close> n have "bit (drop_bit 10 w) (n - 10)" by (simp add: bit_drop_bit_eq)
  with \<open>drop_bit 10 w = 0\<close> show False by simp
qed

lemma entry_add: "frame a + idx * 4 = frame a OR push_bit 2 idx" if "drop_bit 10 idx = 0" for idx :: u32
  unfolding frame_eq times4 by (rule add_or) (auto simp: bit_simps dest: bit_below10 [OF _ that])

lemma idx_small: "drop_bit 10 (PDE_IDX v) = 0" "drop_bit 10 (PTE_IDX v) = 0" "drop_bit 10 (mask 10 :: u32) = 0"
  unfolding PDE_IDX_eq PTE_IDX_eq
  by (rule bit_word_eqI, auto simp: bit_simps dest: bit_imp_le_length)+

text \<open>An entry's address determines its table and its index.\<close>

lemma entry_inj:
  assumes "drop_bit 10 i = 0" "drop_bit 10 j = 0" "frame a + i * 4 = frame b + j * 4"
  shows "frame a = frame b \<and> i = j"
proof -
  note hi = bit_below10 [OF _ assms(1)] bit_below10 [OF _ assms(2)]
  have e: "frame a OR push_bit 2 i = frame b OR push_bit 2 j"
    using assms by (simp add: entry_add)
  have "frame a = frame b"
  proof (rule bit_word_eqI)
    fix n assume "n < LENGTH(32)"
    from e have "bit (frame a OR push_bit 2 i) n = bit (frame b OR push_bit 2 j) n" by simp
    then show "bit (frame a) n = bit (frame b) n"
      unfolding frame_eq using hi by (fastforce simp: bit_simps)
  qed
  moreover have "i = j"
  proof (rule bit_word_eqI)
    fix n assume "n < LENGTH(32)"
    from e have "bit (frame a OR push_bit 2 i) (n + 2) = bit (frame b OR push_bit 2 j) (n + 2)" by simp
    then show "bit i n = bit j n"
      unfolding frame_eq using hi [of n] by (cases "n < 10") (auto simp: bit_simps)
  qed
  ultimately show ?thesis by blast
qed

section \<open>Editing the tables\<close>

text \<open>
  Present directory entries point at pairwise different tables. The last one points at the
  directory, so no other table is the directory itself.
\<close>

definition tables_separate :: "(u32 \<Rightarrow> u32) \<Rightarrow> u32 \<Rightarrow> bool" where
  "tables_separate ph c \<longleftrightarrow> self_mapped ph c \<and>
     (\<forall>v w. present (ph (pde_addr c v)) \<and> present (ph (pde_addr c w)) \<and>
        frame (ph (pde_addr c v)) = frame (ph (pde_addr c w)) \<longrightarrow> PDE_IDX v = PDE_IDX w)"

lemma pde_addr_last: "pde_addr c 0xffffffff = frame c + mask 10 * 4"
proof -
  have "PDE_IDX 0xffffffff = mask 10" unfolding PDE_IDX_eq by (simp add: mask_eq_exp_minus_1)
  then show ?thesis by (simp add: pde_addr_def)
qed

lemma separate_last:
  assumes "tables_separate ph c" "present (ph (pde_addr c v))" "frame (ph (pde_addr c v)) = frame c"
  shows "PDE_IDX v = mask 10"
proof -
  have "PDE_IDX v = PDE_IDX 0xffffffff"
    using assms unfolding tables_separate_def self_mapped_def pde_addr_last [symmetric] by metis
  then show ?thesis unfolding PDE_IDX_eq by (simp add: mask_eq_exp_minus_1)
qed

text \<open>Outside the window, the entry of a page is not a directory entry, and belongs to that page only.\<close>

lemma pte_not_pde:
  assumes "tables_separate ph c" "present (ph (pde_addr c v))" "PDE_IDX v \<noteq> mask 10"
  shows "pte_addr ph c v \<noteq> pde_addr c w"
proof
  assume "pte_addr ph c v = pde_addr c w"
  then have "frame (ph (pde_addr c v)) = frame c"
    using entry_inj [OF idx_small(2) idx_small(1)] by (simp add: pte_addr_def pde_addr_def)
  with separate_last assms show False by blast
qed

lemma pte_addr_eq:
  assumes "tables_separate ph c" "present (ph (pde_addr c v))" "present (ph (pde_addr c w))"
    "pte_addr ph c v = pte_addr ph c w"
  shows "PDE_IDX v = PDE_IDX w \<and> PTE_IDX v = PTE_IDX w"
proof -
  from assms(4) have "frame (ph (pde_addr c v)) = frame (ph (pde_addr c w)) \<and> PTE_IDX v = PTE_IDX w"
    unfolding pte_addr_def by (rule entry_inj [OF idx_small(2) idx_small(2)])
  with assms(1-3) show ?thesis unfolding tables_separate_def by blast
qed

lemma frame_idx: "PDE_IDX v = PDE_IDX w \<Longrightarrow> PTE_IDX v = PTE_IDX w \<Longrightarrow> frame v = frame w"
proof -
  assume a: "PDE_IDX v = PDE_IDX w" "PTE_IDX v = PTE_IDX w"
  show "frame v = frame w"
  proof (rule bit_word_eqI)
    fix n
    have "bit (PDE_IDX v) (n - 22) = bit (PDE_IDX w) (n - 22)" "bit (PTE_IDX v) (n - 12) = bit (PTE_IDX w) (n - 12)"
      using a by simp_all
    then show "bit (frame v) n = bit (frame w) n"
      unfolding frame_eq PDE_IDX_eq PTE_IDX_eq by (cases "22 \<le> n") (auto simp: bit_simps)
  qed
qed

lemma idx_frame: "frame v = frame w \<Longrightarrow> PDE_IDX v = PDE_IDX w" "frame v = frame w \<Longrightarrow> PTE_IDX v = PTE_IDX w"
proof -
  assume "frame v = frame w"
  then have d: "drop_bit 12 (frame v) = drop_bit 12 (frame w)" by simp
  have f: "drop_bit 12 (frame x) = drop_bit 12 x" for x
    unfolding frame_eq by (rule bit_word_eqI) (auto simp: bit_simps dest: bit_imp_le_length)
  have e: "drop_bit 12 v = drop_bit 12 w" using d by (simp only: f)
  then have "drop_bit 10 (drop_bit 12 v) = drop_bit 10 (drop_bit 12 w)" by (rule arg_cong)
  then show "PDE_IDX v = PDE_IDX w" by (simp add: PDE_IDX_eq)
  from e show "PTE_IDX v = PTE_IDX w" by (simp add: PTE_IDX_eq)
qed

text \<open>Writing the table entry of one page changes the translation of that page only.\<close>

lemma walk_update_other:
  assumes "tables_separate ph c" "present (ph (pde_addr c v))" "PDE_IDX v \<noteq> mask 10" "frame w \<noteq> frame v"
  shows "walk (ph(pte_addr ph c v := e)) c w = walk ph c w"
proof -
  have d: "(ph(pte_addr ph c v := e)) (pde_addr c w) = ph (pde_addr c w)"
    using pte_not_pde [OF assms(1-3), of w] by auto
  have n: "pde_addr c w \<noteq> pte_addr ph c v" using pte_not_pde [OF assms(1-3), of w] by simp
  show ?thesis
  proof (cases "present (ph (pde_addr c w))")
    case True
    then have "pte_addr ph c w \<noteq> pte_addr ph c v"
      using pte_addr_eq [OF assms(1) True assms(2)] frame_idx assms(4) by metis
    then show ?thesis using d by (simp add: walk_def pte_addr_def)
  qed (simp add: walk_def n)
qed

lemma walk_update_same:
  assumes "tables_separate ph c" "present (ph (pde_addr c v))" "PDE_IDX v \<noteq> mask 10"
  shows "walk (ph(pte_addr ph c v := e)) c v = (if present e then Some (frame e + (v AND 0x00000fff)) else None)"
proof -
  have d: "(ph(pte_addr ph c v := e)) (pde_addr c v) = ph (pde_addr c v)"
    using pte_not_pde [OF assms, of v] by auto
  then have "pte_addr (ph(pte_addr ph c v := e)) c v = pte_addr ph c v" by (simp add: pte_addr_def)
  then show ?thesis using d assms(2) by (simp add: walk_def)
qed

lemma vstore_pte:
  assumes "self_mapped (phys s) (cr3 s)" "present (phys s (pde_addr (cr3 s) v))"
  shows "vstore (pte_ptr v) e s = Inr (s\<lparr>phys := (phys s)(pte_addr (phys s) (cr3 s) v := e)\<rparr>)"
  using assms by (simp add: vstore_def walk_pte_ptr)

lemma vload_pte:
  assumes "self_mapped (phys s) (cr3 s)"
  shows "vload (pte_ptr v) s =
    (if present (phys s (pde_addr (cr3 s) v)) then Inr (phys s (pte_addr (phys s) (cr3 s) v)) else Inl PAGE_FAULT)"
  using assms by (simp add: vload_def walk_pte_ptr)

lemma addr_v2p_walk:
  assumes "self_mapped (phys s) (cr3 s)" "walk (phys s) (cr3 s) v = Some pa"
  shows "addr_v2p v s = Inr pa"
  using assms by (auto simp: addr_v2p_def vload_pte walk_def frame_def split: if_splits)

lemma not_present_cleared: "\<not> present (e AND NOT PG_P_1)"
proof -
  have "(e AND NOT 1) AND 1 = 0" for e :: u32 by (rule bit_word_eqI) (auto simp: bit_simps)
  then show ?thesis by (simp add: present_def PG_P_1_def)
qed

lemma clear_pte_eq:
  assumes "tables_separate (phys s) (cr3 s)" "present (phys s (pde_addr (cr3 s) v))"
  shows "clear_pte v s = Inr (s\<lparr>phys := (phys s)(pte_addr (phys s) (cr3 s) v :=
    phys s (pte_addr (phys s) (cr3 s) v) AND NOT PG_P_1), stale := insert (frame v) (stale s)\<rparr>)"
  using assms by (simp add: clear_pte_def tables_separate_def vload_pte vstore_pte)

section \<open>Properties\<close>

text \<open>A small address space: directory at 0x100000, one table at 0x101000 for the kernel's first 4 MB.\<close>

definition demo_phys :: "u32 \<Rightarrow> u32" where
  "demo_phys = (\<lambda>_. 0)(0x100ffc := 0x100007, 0x100c00 := 0x101007, 0x101000 := 0x7, 0x101004 := 0x1007)"

definition demo_vm :: vmstate where
  "demo_vm = \<lparr>eflags = 0, io_log = [], idt = [], idt_table = [], intr_name = [], lheap = (\<lambda>_. \<lparr>prev = 0, next = 0\<rparr>), phys = demo_phys, cr3 = 0x100000, stale = {}\<rparr>"

lemma demo_pde: "present (demo_phys (pde_addr 0x100000 v)) \<longleftrightarrow> PDE_IDX v = 0x3ff \<or> PDE_IDX v = 0x300"
proof -
  have f: "frame 0x100000 = 0x100000" by (simp add: frame_def)
  have inj: "pde_addr 0x100000 v = 0x100000 + i * 4 \<longleftrightarrow> PDE_IDX v = i" if "drop_bit 10 i = 0" for i
    using entry_inj [OF idx_small(1) [of v] that, of "0x100000" "0x100000"] by (auto simp: pde_addr_def f)
  have "pde_addr 0x100000 v \<noteq> 0x101000 + i * 4" if "drop_bit 10 i = 0" for i
    using entry_inj [OF idx_small(1) [of v] that, of "0x100000" "0x101000"] by (auto simp: pde_addr_def f frame_def)
  from this [of 0] this [of 1] inj [of "0x3ff"] inj [of "0x300"] show ?thesis
    by (simp add: demo_phys_def present_def)
qed

lemma demo_tables: "tables_separate demo_phys 0x100000"
proof -
  have "PDE_IDX v = PDE_IDX w"
    if "PDE_IDX v = 0x3ff \<or> PDE_IDX v = 0x300" "PDE_IDX w = 0x3ff \<or> PDE_IDX w = 0x300"
      "frame (demo_phys (pde_addr 0x100000 v)) = frame (demo_phys (pde_addr 0x100000 w))" for v w
    using that by (auto simp: pde_addr_def frame_def demo_phys_def)
  moreover have "self_mapped demo_phys 0x100000"
    by (simp add: self_mapped_def demo_phys_def frame_def present_def mask_eq_exp_minus_1)
  ultimately show ?thesis unfolding tables_separate_def demo_pde by blast
qed

text \<open>
  C11: With the directory's last entry pointing at the directory, the virtual addresses computed by
  \<^verbatim>\<open>pde_ptr\<close> and \<^verbatim>\<open>pte_ptr\<close> translate to exactly the directory entry and the table entry that the
  processor consults for the address; without a page table, reading through \<^verbatim>\<open>pte_ptr\<close> faults.
\<close>
theorem window_translates:
  assumes "self_mapped (phys s) (cr3 s)"
  shows "walk (phys s) (cr3 s) (pde_ptr v) = Some (pde_addr (cr3 s) v) \<and>
    (present (phys s (pde_addr (cr3 s) v)) \<longrightarrow>
       walk (phys s) (cr3 s) (pte_ptr v) = Some (pte_addr (phys s) (cr3 s) v)) \<and>
    (\<not> present (phys s (pde_addr (cr3 s) v)) \<longrightarrow> vload (pte_ptr v) s = Inl PAGE_FAULT)"
  using assms by (simp add: walk_pde_ptr walk_pte_ptr vload_pte)

theorem window_translates_witness:
  "walk demo_phys 0x100000 (pde_ptr 0xc0001234) = Some (pde_addr 0x100000 0xc0001234)"
  using window_translates [of demo_vm "0xc0001234"] demo_tables by (simp add: demo_vm_def tables_separate_def)

text \<open>
  \<^verbatim>\<open>addr_v2p\<close> agrees with the processor: on every mapped address it returns the physical
  address the address translates to.
\<close>
lemma addr_v2p_translates:
  assumes "self_mapped (phys s) (cr3 s)" "walk (phys s) (cr3 s) v = Some pa"
  shows "addr_v2p v s = Inr pa"
  using assms by (rule addr_v2p_walk)

text \<open>
  Clearing the present bit unmaps exactly one page: afterwards, by the tables, the page of \<open>v\<close> does not
  translate, every address on another page translates as before.
\<close>
lemma clear_pte_unmaps:
  assumes "tables_separate (phys s) (cr3 s)" "present (phys s (pde_addr (cr3 s) v))" "PDE_IDX v \<noteq> 0x3ff"
  shows "\<exists>s'. clear_pte v s = Inr s' \<and> cr3 s' = cr3 s \<and>
    (\<forall>w. walk (phys s') (cr3 s) w = (if frame w = frame v then None else walk (phys s) (cr3 s) w))"
proof -
  let ?a = "pte_addr (phys s) (cr3 s) v"
  let ?ph = "(phys s)(?a := phys s ?a AND NOT PG_P_1)"
  have v: "PDE_IDX v \<noteq> mask 10" using assms(3) by (simp add: mask_eq_exp_minus_1)
  have "walk ?ph (cr3 s) w = None" if "frame w = frame v" for w
  proof -
    have i: "PDE_IDX w = PDE_IDX v" "PTE_IDX w = PTE_IDX v" by (rule idx_frame [OF that])+
    then have "pte_addr (phys s) (cr3 s) w = ?a" "present (phys s (pde_addr (cr3 s) w))" "PDE_IDX w \<noteq> mask 10"
      using assms(2) v by (simp_all add: pte_addr_def pde_addr_def)
    with walk_update_same [OF assms(1), of w] show ?thesis by (simp add: not_present_cleared)
  qed
  moreover have "walk ?ph (cr3 s) w = walk (phys s) (cr3 s) w" if "frame w \<noteq> frame v" for w
    by (rule walk_update_other [OF assms(1,2) v that])
  ultimately show ?thesis using clear_pte_eq [OF assms(1,2)] by simp
qed

end
