(* ===== verification/Thread.thy ===== *)
theory Thread
  imports Paging Bitmap
begin

text \<open>
  The scheduler: \<^verbatim>\<open>thread/thread.c\<close> with \<^verbatim>\<open>thread/switch.S\<close>, the activation of a task from
  \<^verbatim>\<open>userprog/process.c\<close> and \<^verbatim>\<open>userprog/tss.c\<close>, and the clock interrupt of \<^verbatim>\<open>device/timer.c\<close>.

  A PCB is the page-aligned address of its \<^verbatim>\<open>task_struct\<close>; the two list tags inside it are heap
  elements at offsets 68 and 76. A context switch does not return to the caller: what a thread
  still has to do when it is switched to again is the list of frames on its kernel stack,
  innermost first. A routine that switches pushes its frame and ends in the new thread;
  \<open>switch_return\<close> runs the rest of the scheduler's own frames once the thread is back.
\<close>

section \<open>Tasks\<close>

datatype task_status = TASK_RUNNING | TASK_READY | TASK_BLOCKED | TASK_WAITING | TASK_HANGING | TASK_DIED

record virtual_addr =
  vaddr_bitmap :: bitmap
  vaddr_start :: u32

text \<open>\<^verbatim>\<open>enum pool_flags\<close> of \<^verbatim>\<open>kernel/memory.h\<close>.\<close>

datatype pool_flags = PF_KERNEL | PF_USER

text \<open>
  Frames: the routine that was left by the switch, with the locals it needs afterwards. \<open>F_at\<close> is
  any other call, by a label and the locals.
\<close>

datatype kframe =
    F_kernel_thread u32 u32
  | F_thread_block intr_status
  | F_thread_yield intr_status
  | F_intr_exit u32
  | F_sema_down u32 intr_status
  | F_lock_acquire u32
  | F_ioq_getchar_locked u32
  | F_ioq_getchar_waited u32
  | F_ioq_putchar_locked u32 u8
  | F_ioq_putchar_waited u32 u8
  | F_ticks_to_sleep u32 u32
  | F_console_put_str u32
  | F_console_put_char u8
  | F_console_put_int u32
  | F_sys_write u32
  | F_sys_malloc u32
  | F_sys_free u32
  | F_get_user_pages u32
  | F_get_a_page pool_flags u32
  | F_allocate_pid
  | F_init_thread u32 "u8 list" int
  | F_thread_start u32 u32 u32
  | F_make_main_thread
  | F_thread_init
  | F_thread_init_idle
  | F_process_execute u32 u32
  | F_start_process u32
  | F_at string "u32 list"

record task_struct =
  self_kstack :: u32
  pid :: u16
  status :: task_status
  name :: "u8 list"
  priority :: u8
  ticks :: u8
  elapsed_ticks :: u32
  fd_table :: "u32 list"
  pgdir :: u32
  userprog_vaddr :: virtual_addr
  stack_magic :: u32
  kstack :: "kframe list"

definition general_tag :: "u32 \<Rightarrow> u32" where "general_tag pthread = pthread + 68"
definition all_list_tag :: "u32 \<Rightarrow> u32" where "all_list_tag pthread = pthread + 76"

text \<open>\<^verbatim>\<open>elem2entry(struct task_struct, general_tag, tag)\<close>.\<close>

definition tag_entry :: "u32 \<Rightarrow> u32" where "tag_entry tag = tag - 68"

text \<open>
  The kernel's state for threads. The addresses of the two lists and of \<^verbatim>\<open>pid_lock\<close> are chosen by
  the linker; no routine changes these fields. A semaphore or lock is its address: \<open>sema_value\<close>,
  \<open>lock_holder\<close> and \<open>lock_repeat\<close> are the fields of all of them.
\<close>

record tsys = vmstate +
  esp :: u32
  tasks :: "u32 \<Rightarrow> task_struct"
  idle_thread :: u32
  main_thread :: u32
  thread_ready_list :: u32
  thread_all_list :: u32
  pid_lock :: u32
  next_pid :: u16
  tss_esp0 :: u32
  sys_ticks :: u32
  sema_value :: "u32 \<Rightarrow> u8"
  lock_holder :: "u32 \<Rightarrow> u32"
  lock_repeat :: "u32 \<Rightarrow> u32"

definition task_upd :: "u32 \<Rightarrow> (task_struct \<Rightarrow> task_struct) \<Rightarrow> 'a tsys_scheme \<Rightarrow> 'a tsys_scheme" where
  "task_upd t f s = s\<lparr>tasks := (tasks s)(t := f (tasks s t))\<rparr>"

definition push_frame :: "u32 \<Rightarrow> kframe \<Rightarrow> 'a tsys_scheme \<Rightarrow> 'a tsys_scheme" where
  "push_frame t f = task_upd t (kstack_update (\<lambda>fs. f # fs))"

section \<open>Activation and switch\<close>

definition running_thread :: "'a tsys_scheme \<Rightarrow> u32" where
  "running_thread s = esp s AND 0xfffff000"

definition update_tss_esp0 :: "u32 \<Rightarrow> 'a tsys_scheme \<Rightarrow> 'a tsys_scheme" where
  "update_tss_esp0 pthread s = s\<lparr>tss_esp0 := pthread + PG_SIZE\<rparr>"

definition page_dir_activate :: "u32 \<Rightarrow> 'a tsys_scheme \<Rightarrow> 'a tsys_scheme res" where
  "page_dir_activate p_thread s =
     kbind (if pgdir (tasks s p_thread) \<noteq> NULL then addr_v2p (pgdir (tasks s p_thread)) s else Inr 0x100000)
       (\<lambda>pagedir_phy_addr. Inr (s\<lparr>cr3 := pagedir_phy_addr, stale := {}\<rparr>))"

definition process_activate :: "u32 \<Rightarrow> 'a tsys_scheme \<Rightarrow> 'a tsys_scheme res" where
  "process_activate p_thread s =
     ASSERT (p_thread \<noteq> NULL)
       (kbind (page_dir_activate p_thread s)
         (\<lambda>s. Inr (if pgdir (tasks s p_thread) \<noteq> NULL then update_tss_esp0 p_thread s else s)))"

text \<open>
  \<^verbatim>\<open>switch_to\<close> saves the stack pointer behind the return address and the four registers it
  pushes, 20 bytes below \<open>esp\<close>, and pops as many from the other stack. The stack use of the
  routines in between is balanced and left out of \<open>esp\<close>.
\<close>

definition switch_to :: "u32 \<Rightarrow> u32 \<Rightarrow> 'a tsys_scheme \<Rightarrow> 'a tsys_scheme" where
  "switch_to cur nxt s =
     (let s1 = task_upd cur (self_kstack_update (\<lambda>_. esp s - 20)) s
      in s1\<lparr>esp := self_kstack (tasks s1 nxt) + 20\<rparr>)"

section \<open>The scheduler\<close>

definition is_blocked :: "task_status \<Rightarrow> bool" where
  "is_blocked st \<longleftrightarrow> st = TASK_BLOCKED \<or> st = TASK_WAITING \<or> st = TASK_HANGING"

definition thread_unblock :: "u32 \<Rightarrow> 'a tsys_scheme \<Rightarrow> 'a tsys_scheme res" where
  "thread_unblock pthread s =
     (let (old_status, s) = intr_disable s in
      ASSERT (is_blocked (status (tasks s pthread)))
        (kbind
          (if status (tasks s pthread) \<noteq> TASK_READY then
             kbind (elem_find (thread_ready_list s) (general_tag pthread) s) (\<lambda>found.
               ASSERT (\<not> found)
                 (kbind (elem_find (thread_ready_list s) (general_tag pthread) s) (\<lambda>found.
                   if found then Inl PANIC
                   else Inr (task_upd pthread (status_update (\<lambda>_. TASK_READY))
                          (list_push (thread_ready_list s) (general_tag pthread) s)))))
           else Inr s)
          (\<lambda>s. Inr (snd (intr_set_status old_status s)))))"

text \<open>First part of \<^verbatim>\<open>schedule\<close>: what becomes of the thread that gives up the processor.\<close>

definition retire_current :: "u32 \<Rightarrow> 'a tsys_scheme \<Rightarrow> 'a tsys_scheme res" where
  "retire_current cur s =
     (if status (tasks s cur) = TASK_RUNNING then
        kbind (elem_find (thread_ready_list s) (general_tag cur) s) (\<lambda>found.
          ASSERT (\<not> found)
            (Inr (task_upd cur (\<lambda>t. t\<lparr>ticks := priority t, status := TASK_READY\<rparr>)
              (list_append (thread_ready_list s) (general_tag cur) s))))
      else Inr s)"

definition schedule :: "'a tsys_scheme \<Rightarrow> 'a tsys_scheme res" where
  "schedule s =
     ASSERT (intr_get_status s = INTR_OFF)
       (let cur = running_thread s in
        kbind (retire_current cur s) (\<lambda>s.
        kbind (if list_empty (thread_ready_list s) s then thread_unblock (idle_thread s) s else Inr s) (\<lambda>s.
          let (thread_tag, s) = list_pop (thread_ready_list s) s;
              nxt = tag_entry thread_tag;
              s = task_upd nxt (status_update (\<lambda>_. TASK_RUNNING)) s
          in kbind (process_activate nxt s) (\<lambda>s. Inr (switch_to cur nxt s)))))"

definition thread_block :: "task_status \<Rightarrow> 'a tsys_scheme \<Rightarrow> 'a tsys_scheme res" where
  "thread_block stat s =
     ASSERT (is_blocked stat)
       (let (old_status, s) = intr_disable s;
            cur_thread = running_thread s
        in schedule (push_frame cur_thread (F_thread_block old_status)
             (task_upd cur_thread (status_update (\<lambda>_. stat)) s)))"

definition thread_yield :: "'a tsys_scheme \<Rightarrow> 'a tsys_scheme res" where
  "thread_yield s =
     (let cur = running_thread s;
          (old_status, s) = intr_disable s
      in kbind (elem_find (thread_ready_list s) (general_tag cur) s) (\<lambda>found.
           ASSERT (\<not> found)
             (schedule (push_frame cur (F_thread_yield old_status)
               (task_upd cur (status_update (\<lambda>_. TASK_READY))
                 (list_append (thread_ready_list s) (general_tag cur) s))))))"

section \<open>The clock interrupt\<close>

definition intr_timer_handler :: "'a tsys_scheme \<Rightarrow> (bool \<times> 'a tsys_scheme) res" where
  "intr_timer_handler s =
     (let cur_thread = running_thread s in
      ASSERT (stack_magic (tasks s cur_thread) = 0x12345678)
        (let s = task_upd cur_thread (elapsed_ticks_update (\<lambda>n. n + 1)) s;
             s = s\<lparr>sys_ticks := sys_ticks s + 1\<rparr>
         in if ticks (tasks s cur_thread) = 0 then kbind (schedule s) (\<lambda>s. Inr (True, s))
            else Inr (False, task_upd cur_thread (ticks_update (\<lambda>n. n - 1)) s)))"

text \<open>
  The processor saves EFLAGS and clears the interrupt flag before the entry code acknowledges the
  interrupt at both controllers and calls the handler; \<^verbatim>\<open>iret\<close> loads the flags again. When the
  handler switched, the interrupted thread is left at \<^verbatim>\<open>intr_exit\<close>.
\<close>

definition intr_entry :: "'a tsys_scheme \<Rightarrow> 'a tsys_scheme" where
  "intr_entry s = outb 0x20 0x20 (outb 0xa0 0x20 (cli s))"

definition pop_frame :: "'a tsys_scheme \<Rightarrow> 'a tsys_scheme" where
  "pop_frame s = task_upd (running_thread s) (kstack_update tl) s"

definition clock_interrupt :: "'a tsys_scheme \<Rightarrow> 'a tsys_scheme res" where
  "clock_interrupt s =
     kbind (intr_timer_handler (push_frame (running_thread s) (F_intr_exit (eflags s)) (intr_entry s)))
       (\<lambda>(switched, s'). Inr (if switched then s' else (pop_frame s')\<lparr>eflags := eflags s\<rparr>))"

section \<open>Back from a switch\<close>

text \<open>
  What is left of the routine that switched once its thread runs again: the interrupt flag gets its
  old value, \<^verbatim>\<open>iret\<close> loads the saved flags, and a new thread starts with interrupts on.
\<close>

fun sched_frame :: "kframe \<Rightarrow> bool" where
  "sched_frame (F_kernel_thread function func_arg) \<longleftrightarrow> True"
| "sched_frame (F_thread_block old_status) \<longleftrightarrow> True"
| "sched_frame (F_thread_yield old_status) \<longleftrightarrow> True"
| "sched_frame (F_intr_exit saved) \<longleftrightarrow> True"
| "sched_frame _ \<longleftrightarrow> False"

fun switch_return :: "kframe \<Rightarrow> 'a tsys_scheme \<Rightarrow> 'a tsys_scheme" where
  "switch_return (F_kernel_thread function func_arg) s = snd (intr_enable s)"
| "switch_return (F_thread_block old_status) s = snd (intr_set_status old_status s)"
| "switch_return (F_thread_yield old_status) s = snd (intr_set_status old_status s)"
| "switch_return (F_intr_exit saved) s = s\<lparr>eflags := saved\<rparr>"
| "switch_return _ s = s"

section \<open>A new kernel stack\<close>

text \<open>
  \<^verbatim>\<open>self_kstack\<close> is a pointer to 32-bit words, so subtracting the 76 and 32 bytes of the two
  structures moves it by four times as much.
\<close>

definition thread_create :: "u32 \<Rightarrow> u32 \<Rightarrow> u32 \<Rightarrow> 'a tsys_scheme \<Rightarrow> 'a tsys_scheme" where
  "thread_create pthread function func_arg s =
     task_upd pthread (\<lambda>t. t\<lparr>self_kstack := self_kstack t - 4 * 76 - 4 * 32,
       kstack := [F_kernel_thread function func_arg]\<rparr>) s"

section \<open>What the routines touch\<close>

lemma general_tag_eq [simp]: "general_tag a = general_tag b \<longleftrightarrow> a = b"
  by (simp add: general_tag_def)

lemma tag_entry_general_tag [simp]: "tag_entry (general_tag t) = t"
  by (simp add: tag_entry_def general_tag_def)

lemma general_tag_in [simp]: "general_tag t \<in> general_tag ` A \<longleftrightarrow> t \<in> A"
  by auto

lemma running_thread_frame: "running_thread s = frame (esp s)"
  by (simp add: running_thread_def frame_def)

lemma running_thread_cong: "esp s = esp s' \<Longrightarrow> running_thread s = running_thread s'"
  by (simp add: running_thread_def)

lemma intr_get_status_cong: "eflags s = eflags s' \<Longrightarrow> intr_get_status s = intr_get_status s'"
  by (simp add: intr_get_status_def)

lemma addr_v2p_cong: "phys s = phys s' \<Longrightarrow> cr3 s = cr3 s' \<Longrightarrow> addr_v2p v s = addr_v2p v s'"
  by (simp add: addr_v2p_def vload_def split: option.split)

lemma intr_get_status_tsys [simp]:
  "intr_get_status (s\<lparr>tasks := tk\<rparr>) = intr_get_status s" "intr_get_status (s\<lparr>sys_ticks := n\<rparr>) = intr_get_status s"
  "intr_get_status (task_upd t f s) = intr_get_status s" "intr_get_status (list_push l e s) = intr_get_status s"
  "intr_get_status (list_append l e s) = intr_get_status s" "intr_get_status (push_frame t fr s) = intr_get_status s"
  by (simp_all add: intr_get_status_def task_upd_def list_push_def list_append_def list_insert_before_eq push_frame_def)

lemma intr_set_status_tasks:
  "snd (intr_set_status st (s\<lparr>tasks := tk\<rparr>)) = (snd (intr_set_status st s))\<lparr>tasks := tk\<rparr>"
  by (cases st; cases "intr_get_status s")
    (simp_all add: intr_set_status_def intr_enable_def intr_disable_def sti_def cli_def)

text \<open>Interrupt control changes EFLAGS only.\<close>

lemma intr_disable_eq: "snd (intr_disable s) = s\<lparr>eflags := eflags (snd (intr_disable s))\<rparr>"
  by (simp add: intr_disable_def cli_def)

lemma intr_disable_fields [simp]:
  "tasks (snd (intr_disable s)) = tasks s" "thread_ready_list (snd (intr_disable s)) = thread_ready_list s"
  "idle_thread (snd (intr_disable s)) = idle_thread s" "running_thread (snd (intr_disable s)) = running_thread s"
  "esp (snd (intr_disable s)) = esp s" "phys (snd (intr_disable s)) = phys s" "cr3 (snd (intr_disable s)) = cr3 s"
  "tsys.more (snd (intr_disable s)) = tsys.more s" "sema_value (snd (intr_disable s)) = sema_value s" "lock_holder (snd (intr_disable s)) = lock_holder s"
  "lock_repeat (snd (intr_disable s)) = lock_repeat s"
  by (simp_all add: intr_disable_def cli_def running_thread_def)

lemma task_upd_fields [simp]:
  "lheap (task_upd t f s) = lheap s" "thread_ready_list (task_upd t f s) = thread_ready_list s"
  "idle_thread (task_upd t f s) = idle_thread s" "running_thread (task_upd t f s) = running_thread s"
  "esp (task_upd t f s) = esp s" "phys (task_upd t f s) = phys s" "cr3 (task_upd t f s) = cr3 s"
  "eflags (task_upd t f s) = eflags s" "sys_ticks (task_upd t f s) = sys_ticks s" "tsys.more (task_upd t f s) = tsys.more s" "sema_value (task_upd t f s) = sema_value s"
  "lock_holder (task_upd t f s) = lock_holder s" "lock_repeat (task_upd t f s) = lock_repeat s"
  "tasks (task_upd t f s) = (tasks s)(t := f (tasks s t))"
  by (simp_all add: task_upd_def running_thread_def)

lemma push_frame_fields [simp]:
  "lheap (push_frame t f s) = lheap s" "thread_ready_list (push_frame t f s) = thread_ready_list s"
  "idle_thread (push_frame t f s) = idle_thread s" "running_thread (push_frame t f s) = running_thread s"
  "esp (push_frame t f s) = esp s" "phys (push_frame t f s) = phys s" "cr3 (push_frame t f s) = cr3 s"
  "eflags (push_frame t f s) = eflags s" "sys_ticks (push_frame t f s) = sys_ticks s" "tsys.more (push_frame t f s) = tsys.more s" "sema_value (push_frame t f s) = sema_value s"
  "lock_holder (push_frame t f s) = lock_holder s" "lock_repeat (push_frame t f s) = lock_repeat s"
  "tasks (push_frame t f s) = (tasks s)(t := kstack_update ((#) f) (tasks s t))"
  by (simp_all add: push_frame_def)

lemma running_thread_regs [simp]:
  "running_thread (s\<lparr>sys_ticks := n\<rparr>) = running_thread s" "running_thread (s\<lparr>eflags := f\<rparr>) = running_thread s"
  "running_thread (cli s) = running_thread s" "running_thread (intr_entry s) = running_thread s"
  by (simp_all add: running_thread_def cli_def intr_entry_def outb_def)

lemma kstack_push_pop [simp]: "kstack_update (tl \<circ> (#) f) t = t"
  by (cases t) simp

lemma list_op_fields:
  "list_push l e s = s\<lparr>lheap := lheap (list_push l e s)\<rparr>"
  "list_append l e s = s\<lparr>lheap := lheap (list_append l e s)\<rparr>"
  "list_remove e s = s\<lparr>lheap := lheap (list_remove e s)\<rparr>"
  by (simp_all add: list_push_def list_append_def list_insert_before_eq list_remove_eq)

lemma list_push_fields [simp]:
  "tasks (list_push l e s) = tasks s" "thread_ready_list (list_push l e s) = thread_ready_list s"
  "idle_thread (list_push l e s) = idle_thread s" "running_thread (list_push l e s) = running_thread s"
  "esp (list_push l e s) = esp s" "phys (list_push l e s) = phys s" "cr3 (list_push l e s) = cr3 s"
  "sema_value (list_push l e s) = sema_value s" "lock_holder (list_push l e s) = lock_holder s"
  "lock_repeat (list_push l e s) = lock_repeat s"
  by (subst list_op_fields, simp add: running_thread_def)+

lemma list_append_fields [simp]:
  "tasks (list_append l e s) = tasks s" "thread_ready_list (list_append l e s) = thread_ready_list s"
  "idle_thread (list_append l e s) = idle_thread s" "running_thread (list_append l e s) = running_thread s"
  "esp (list_append l e s) = esp s" "phys (list_append l e s) = phys s" "cr3 (list_append l e s) = cr3 s"
  "sema_value (list_append l e s) = sema_value s" "lock_holder (list_append l e s) = lock_holder s"
  "lock_repeat (list_append l e s) = lock_repeat s" "tsys.more (list_append l e s) = tsys.more s"
  by (subst list_op_fields, simp add: running_thread_def)+

lemma list_remove_fields [simp]:
  "tasks (list_remove e s) = tasks s" "thread_ready_list (list_remove e s) = thread_ready_list s"
  "idle_thread (list_remove e s) = idle_thread s" "running_thread (list_remove e s) = running_thread s"
  "esp (list_remove e s) = esp s" "phys (list_remove e s) = phys s" "cr3 (list_remove e s) = cr3 s"
  "eflags (list_remove e s) = eflags s" "sema_value (list_remove e s) = sema_value s"
  "lock_holder (list_remove e s) = lock_holder s" "lock_repeat (list_remove e s) = lock_repeat s"
  by (subst list_op_fields, simp add: running_thread_def)+

section \<open>The scheduler's invariant\<close>

text \<open>
  \<open>ts\<close> are the tasks of the system, \<open>pd\<close> the physical page directory of each. Every directory
  maps the page directories of all processes at the same place, as the shared kernel half does,
  so that \<^verbatim>\<open>addr_v2p\<close> finds the next directory whichever one is active.
\<close>

definition page_dirs :: "(u32 \<Rightarrow> u32) \<Rightarrow> (u32 \<Rightarrow> task_struct) \<Rightarrow> u32 list \<Rightarrow> (u32 \<Rightarrow> u32) \<Rightarrow> bool" where
  "page_dirs ph tk ts pd \<longleftrightarrow>
     (\<forall>t\<in>set ts. (pgdir (tk t) = NULL \<longrightarrow> pd t = 0x100000) \<and>
        (\<forall>u\<in>set ts. pgdir (tk u) \<noteq> NULL \<longrightarrow>
           walk ph (pd t) (pgdir (tk u)) = Some (pd u) \<and> self_mapped ph (pd t)))"

definition sched_wf :: "'a tsys_scheme \<Rightarrow> u32 list \<Rightarrow> (u32 \<Rightarrow> u32) \<Rightarrow> bool" where
  "sched_wf s ts pd \<longleftrightarrow>
     distinct ts \<and> running_thread s \<in> set ts \<and> idle_thread s \<in> set ts \<and>
     (\<forall>t\<in>set ts. t \<noteq> NULL \<and>
        general_tag t \<noteq> thread_ready_list s \<and> general_tag t \<noteq> list_tail (thread_ready_list s) \<and>
        stack_magic (tasks s t) = 0x12345678 \<and>
        (t \<noteq> running_thread s \<longrightarrow> frame (self_kstack (tasks s t) + 20) = t)) \<and>
     page_dirs (phys s) (tasks s) ts pd \<and> cr3 s = pd (running_thread s)"

text \<open>The ready list holds \<open>rs\<close>: the tasks that are ready, and no other.\<close>

definition ready_list :: "'a tsys_scheme \<Rightarrow> u32 list \<Rightarrow> bool" where
  "ready_list s rs \<longleftrightarrow> dlist (lheap s) (thread_ready_list s) (map general_tag rs)"

definition idle_ok :: "task_status \<Rightarrow> bool" where
  "idle_ok st \<longleftrightarrow> st = TASK_RUNNING \<or> st = TASK_READY \<or> st = TASK_BLOCKED"

definition sched_inv :: "'a tsys_scheme \<Rightarrow> u32 list \<Rightarrow> u32 list \<Rightarrow> (u32 \<Rightarrow> u32) \<Rightarrow> bool" where
  "sched_inv s rs ts pd \<longleftrightarrow> sched_wf s ts pd \<and> ready_list s rs \<and> set rs \<subseteq> set ts \<and>
     (\<forall>t\<in>set ts. (status (tasks s t) = TASK_RUNNING \<longleftrightarrow> t = running_thread s) \<and>
        (status (tasks s t) = TASK_READY \<longleftrightarrow> t \<in> set rs)) \<and>
     idle_ok (status (tasks s (idle_thread s)))"

text \<open>Before \<^verbatim>\<open>schedule\<close> the running thread may have any status that agrees with the ready list.\<close>

definition sched_mid :: "'a tsys_scheme \<Rightarrow> u32 list \<Rightarrow> u32 list \<Rightarrow> (u32 \<Rightarrow> u32) \<Rightarrow> bool" where
  "sched_mid s rs ts pd \<longleftrightarrow> sched_wf s ts pd \<and> ready_list s rs \<and> set rs \<subseteq> set ts \<and>
     (\<forall>t\<in>set ts. (status (tasks s t) = TASK_RUNNING \<longrightarrow> t = running_thread s) \<and>
        (status (tasks s t) = TASK_READY \<longleftrightarrow> t \<in> set rs)) \<and>
     idle_ok (status (tasks s (idle_thread s))) \<and> intr_get_status s = INTR_OFF"

lemma sched_inv_mid: "sched_inv s rs ts pd \<Longrightarrow> intr_get_status s = INTR_OFF \<Longrightarrow> sched_mid s rs ts pd"
  by (auto simp: sched_inv_def sched_mid_def)

lemma sched_midI:
  assumes "sched_wf s ts pd" "ready_list s rs" "set rs \<subseteq> set ts"
    and "\<And>t. t \<in> set ts \<Longrightarrow> status (tasks s t) = TASK_RUNNING \<Longrightarrow> t = running_thread s"
    and "\<And>t. t \<in> set ts \<Longrightarrow> status (tasks s t) = TASK_READY \<longleftrightarrow> t \<in> set rs"
    and "idle_ok (status (tasks s (idle_thread s)))" "intr_get_status s = INTR_OFF"
  shows "sched_mid s rs ts pd"
  using assms by (simp add: sched_mid_def)

lemma sched_wfD:
  assumes "sched_wf s ts pd"
  shows "running_thread s \<in> set ts" "idle_thread s \<in> set ts" "distinct ts" "cr3 s = pd (running_thread s)"
    "page_dirs (phys s) (tasks s) ts pd"
  using assms by (simp_all add: sched_wf_def)

lemma sched_midD:
  assumes "sched_mid s rs ts pd"
  shows "sched_wf s ts pd" "ready_list s rs" "set rs \<subseteq> set ts"
    "t \<in> set ts \<Longrightarrow> status (tasks s t) = TASK_RUNNING \<Longrightarrow> t = running_thread s"
    "t \<in> set ts \<Longrightarrow> status (tasks s t) = TASK_READY \<longleftrightarrow> t \<in> set rs"
    "idle_ok (status (tasks s (idle_thread s)))" "intr_get_status s = INTR_OFF"
  using assms unfolding sched_mid_def by blast+

lemma sched_invD:
  assumes "sched_inv s rs ts pd"
  shows "sched_wf s ts pd" "ready_list s rs" "set rs \<subseteq> set ts"
    "t \<in> set ts \<Longrightarrow> status (tasks s t) = TASK_RUNNING \<longleftrightarrow> t = running_thread s"
    "t \<in> set ts \<Longrightarrow> status (tasks s t) = TASK_READY \<longleftrightarrow> t \<in> set rs"
    "idle_ok (status (tasks s (idle_thread s)))"
  using assms unfolding sched_inv_def by blast+

lemma tag_fresh:
  assumes "sched_wf s ts pd" "t \<in> set ts" "t \<notin> set rs"
  shows "general_tag t \<notin> nodes (thread_ready_list s) (map general_tag rs)"
  using assms by (auto simp: nodes_def sched_wf_def)

lemma ready_find: "ready_list s rs \<Longrightarrow> elem_find (thread_ready_list s) (general_tag t) s = Inr (t \<in> set rs)"
  unfolding ready_list_def by (subst lq.fnd_iff) auto

lemma ready_push:
  assumes "ready_list s rs" "sched_wf s ts pd" "t \<in> set ts" "t \<notin> set rs"
  shows "ready_list (list_push (thread_ready_list s) (general_tag t) s) (t # rs)"
  using lq.is_psh [of s _ "map general_tag rs"] assms(1) tag_fresh [OF assms(2-4)]
  by (simp add: ready_list_def)

lemma ready_append:
  assumes "ready_list s rs" "sched_wf s ts pd" "t \<in> set ts" "t \<notin> set rs"
  shows "ready_list (list_append (thread_ready_list s) (general_tag t) s) (rs @ [t])"
  using lq.is_app [of s _ "map general_tag rs"] assms(1) tag_fresh [OF assms(2-4)]
  by (simp add: ready_list_def)

lemma ready_pop:
  assumes "ready_list s (t # rs)"
  shows "list_pop (thread_ready_list s) s = (general_tag t, list_remove (general_tag t) s)"
    and "ready_list (list_remove (general_tag t) s) rs"
  using lq.pop_rem [of s _ "general_tag t"] lq.is_rem [of s _ "map general_tag (t # rs)" "general_tag t"] assms
  by (auto simp: ready_list_def)

text \<open>Changes that keep the identity of the tasks keep them well formed.\<close>

lemma sched_wf_cong:
  assumes "sched_wf s ts pd" "esp s' = esp s" "idle_thread s' = idle_thread s"
    "thread_ready_list s' = thread_ready_list s" "phys s' = phys s" "cr3 s' = cr3 s"
    and "\<And>t. stack_magic (tasks s' t) = stack_magic (tasks s t) \<and>
      self_kstack (tasks s' t) = self_kstack (tasks s t) \<and> pgdir (tasks s' t) = pgdir (tasks s t)"
  shows "sched_wf s' ts pd"
  using assms running_thread_cong [of s' s] by (simp add: sched_wf_def page_dirs_def)

text \<open>
  What scheduling leaves alone: it writes the heap at the ready list only, status, time slice and
  saved stack of the threads it switches between, and the registers of the processor.
\<close>

definition sched_only :: "'a tsys_scheme \<Rightarrow> 'a tsys_scheme \<Rightarrow> bool" where
  "sched_only s s' \<longleftrightarrow>
     s' = s\<lparr>lheap := lheap s', cr3 := cr3 s', stale := stale s', esp := esp s', tasks := tasks s', tss_esp0 := tss_esp0 s'\<rparr> \<and>
     (\<forall>t. kstack (tasks s' t) = kstack (tasks s t) \<and> pgdir (tasks s' t) = pgdir (tasks s t))"

lemma sched_onlyI:
  "s' = s\<lparr>lheap := h, cr3 := c, stale := st, esp := e, tasks := tk, tss_esp0 := p\<rparr> \<Longrightarrow>
    (\<And>t. kstack (tk t) = kstack (tasks s t) \<and> pgdir (tk t) = pgdir (tasks s t)) \<Longrightarrow> sched_only s s'"
  by (simp add: sched_only_def)

lemma sched_only_refl [simp]: "sched_only s s"
  by (simp add: sched_only_def)

lemma sched_only_trans:
  assumes "sched_only s1 s2" "sched_only s2 s3"
  shows "sched_only s1 s3"
proof -
  from assms obtain h c st e tk p h' c' st' e' tk' p' where
    "s2 = s1\<lparr>lheap := h, cr3 := c, stale := st, esp := e, tasks := tk, tss_esp0 := p\<rparr>"
    "s3 = s2\<lparr>lheap := h', cr3 := c', stale := st', esp := e', tasks := tk', tss_esp0 := p'\<rparr>"
    unfolding sched_only_def by blast
  then have "s3 = s1\<lparr>lheap := h', cr3 := c', stale := st', esp := e', tasks := tk', tss_esp0 := p'\<rparr>" by simp
  then have "s3 = s1\<lparr>lheap := lheap s3, cr3 := cr3 s3, stale := stale s3, esp := esp s3, tasks := tasks s3, tss_esp0 := tss_esp0 s3\<rparr>"
    by simp
  then show ?thesis using assms unfolding sched_only_def by simp
qed

lemma sched_onlyD:
  assumes "sched_only s s'"
  shows "thread_ready_list s' = thread_ready_list s" "idle_thread s' = idle_thread s"
    "sema_value s' = sema_value s" "lock_holder s' = lock_holder s" "lock_repeat s' = lock_repeat s"
    "eflags s' = eflags s" "phys s' = phys s" "thread_all_list s' = thread_all_list s"
    "kstack (tasks s' t) = kstack (tasks s t)" "pgdir (tasks s' t) = pgdir (tasks s t)" "tsys.more s' = tsys.more s"
proof -
  obtain h c st e tk p where "s' = s\<lparr>lheap := h, cr3 := c, stale := st, esp := e, tasks := tk, tss_esp0 := p\<rparr>"
    using assms unfolding sched_only_def by blast
  then show "thread_ready_list s' = thread_ready_list s" "idle_thread s' = idle_thread s"
    "sema_value s' = sema_value s" "lock_holder s' = lock_holder s" "lock_repeat s' = lock_repeat s"
    "eflags s' = eflags s" "phys s' = phys s" "thread_all_list s' = thread_all_list s" "tsys.more s' = tsys.more s" by simp_all
  show "kstack (tasks s' t) = kstack (tasks s t)" "pgdir (tasks s' t) = pgdir (tasks s t)"
    using assms by (simp_all add: sched_only_def)
qed

lemma sched_only_list_task:
  assumes "\<And>x. kstack (f x) = kstack x \<and> pgdir (f x) = pgdir x"
  shows "sched_only s (task_upd t f (list_push l e s))" "sched_only s (task_upd t f (list_append l e s))"
    "sched_only s (task_upd t f (list_remove e s))"
  using assms by (simp_all add: sched_only_def task_upd_def list_push_def list_append_def
      list_insert_before_eq list_remove_eq)

text \<open>Heap elements outside the ready list and its changes are untouched.\<close>

definition ready_frame :: "'a tsys_scheme \<Rightarrow> 'a tsys_scheme \<Rightarrow> u32 set \<Rightarrow> bool" where
  "ready_frame s s' A \<longleftrightarrow>
     (\<forall>x. x \<notin> {thread_ready_list s, list_tail (thread_ready_list s)} \<union> general_tag ` A \<longrightarrow> lheap s' x = lheap s x)"

lemma ready_push_frame:
  assumes "ready_list s rs" "sched_wf s ts pd" "t \<in> set ts" "t \<notin> set rs"
  shows "ready_frame s (list_push (thread_ready_list s) (general_tag t) s) (insert t (set rs))"
  using list_push_frame [of s _ "map general_tag rs"] assms(1) tag_fresh [OF assms(2-4)]
  by (auto simp: ready_frame_def ready_list_def nodes_def)

lemma ready_append_frame:
  assumes "ready_list s rs" "sched_wf s ts pd" "t \<in> set ts" "t \<notin> set rs"
  shows "ready_frame s (list_append (thread_ready_list s) (general_tag t) s) (insert t (set rs))"
  using list_append_frame [of s _ "map general_tag rs"] assms(1) tag_fresh [OF assms(2-4)]
  by (auto simp: ready_frame_def ready_list_def nodes_def)

lemma ready_remove_frame:
  assumes "ready_list s rs" "t \<in> set rs"
  shows "ready_frame s (list_remove (general_tag t) s) (set rs)"
  using list_remove_frame [of s _ "map general_tag rs" "general_tag t"] assms
  by (auto simp: ready_frame_def ready_list_def nodes_def)

lemma ready_frame_trans:
  "ready_frame s1 s2 A \<Longrightarrow> ready_frame s2 s3 B \<Longrightarrow> thread_ready_list s2 = thread_ready_list s1 \<Longrightarrow>
    ready_frame s1 s3 (A \<union> B)"
  by (simp add: ready_frame_def image_Un)

lemma thread_unblock_eq:
  assumes "ready_list s rs" "t \<notin> set rs" "is_blocked (status (tasks s t))"
  shows "thread_unblock t s =
    Inr (task_upd t (status_update (\<lambda>_. TASK_READY)) (list_push (thread_ready_list s) (general_tag t) s))"
proof -
  let ?d = "snd (intr_disable s)"
  have d: "ready_list ?d rs" using assms(1) by (simp add: ready_list_def)
  have f: "elem_find (thread_ready_list s) (general_tag t) ?d = Inr False"
    using ready_find [OF d, of t] assms(2) by simp
  have nr: "status (tasks s t) \<noteq> TASK_READY" using assms(3) by (auto simp: is_blocked_def)
  have "snd (intr_set_status (fst (intr_disable s))
      (task_upd t f (list_push (thread_ready_list s) (general_tag t) ?d))) =
    task_upd t f (list_push (thread_ready_list s) (general_tag t) s)" for f
    by (simp only: task_upd_def list_push_def list_insert_before_eq intr_set_status_tasks intr_set_status_lheap
        fst_intr_disable intr_restore lheap_intr_disable intr_disable_fields select_convs update_convs)
       simp
  then show ?thesis using nr assms(3) by (simp add: thread_unblock_def split_beta f)
qed

lemma retire_current_ok:
  assumes "sched_mid s rs ts pd"
  shows "\<exists>s1. retire_current (running_thread s) s = Inr s1 \<and>
    sched_mid s1 (if status (tasks s (running_thread s)) = TASK_RUNNING then rs @ [running_thread s] else rs) ts pd \<and>
    running_thread s1 = running_thread s \<and> esp s1 = esp s \<and> idle_thread s1 = idle_thread s \<and>
    status (tasks s1 (running_thread s)) \<noteq> TASK_RUNNING \<and> sched_only s s1 \<and>
    ready_frame s s1 (insert (running_thread s) (set rs)) \<and>
    (\<forall>t. t \<noteq> running_thread s \<longrightarrow> tasks s1 t = tasks s t) \<and>
    ticks (tasks s1 (running_thread s)) = (if status (tasks s (running_thread s)) = TASK_RUNNING
      then priority (tasks s (running_thread s)) else ticks (tasks s (running_thread s)))"
proof (cases "status (tasks s (running_thread s)) = TASK_RUNNING")
  case True
  let ?r = "running_thread s"
  let ?a = "list_append (thread_ready_list s) (general_tag ?r) s"
  let ?s1 = "task_upd ?r (\<lambda>t. t\<lparr>ticks := priority t, status := TASK_READY\<rparr>) ?a"
  note mid = sched_midD [OF assms]
  have r: "?r \<in> set ts" using mid(1) by (rule sched_wfD)
  then have nr: "?r \<notin> set rs" using mid(5) [of ?r] True by simp
  have wf: "sched_wf ?s1 ts pd" by (rule sched_wf_cong [OF mid(1)]) simp_all
  have "ready_list ?a (rs @ [?r])" by (rule ready_append [OF mid(2,1) r nr])
  then have "ready_list ?s1 (rs @ [?r])" by (simp add: ready_list_def)
  with wf have "sched_mid ?s1 (rs @ [?r]) ts pd"
  proof (rule sched_midI)
    fix t assume t: "t \<in> set ts"
    show "status (tasks ?s1 t) = TASK_RUNNING \<Longrightarrow> t = running_thread ?s1"
      using mid(4) [OF t] by (simp split: if_splits)
    show "status (tasks ?s1 t) = TASK_READY \<longleftrightarrow> t \<in> set (rs @ [?r])"
      using mid(5) [OF t] by simp
  qed (use mid(3,6,7) r in \<open>simp_all add: idle_ok_def\<close>)
  moreover have "retire_current ?r s = Inr ?s1"
    using nr True by (simp add: retire_current_def ready_find [OF mid(2)])
  moreover have "ready_frame s ?s1 (insert ?r (set rs))"
    using ready_append_frame [OF mid(2,1) r nr] by (simp add: ready_frame_def)
  moreover have "sched_only s ?s1" by (rule sched_only_list_task) simp
  ultimately show ?thesis using True by simp
next
  case False
  with assms show ?thesis by (simp add: retire_current_def ready_frame_def)
qed

lemma refill_ok:
  assumes "sched_mid s rs ts pd" "status (tasks s (running_thread s)) \<noteq> TASK_RUNNING"
  shows "\<exists>s1. (if list_empty (thread_ready_list s) s then thread_unblock (idle_thread s) s else Inr s) = Inr s1 \<and>
    sched_mid s1 (if rs = [] then [idle_thread s] else rs) ts pd \<and>
    running_thread s1 = running_thread s \<and> esp s1 = esp s \<and> idle_thread s1 = idle_thread s \<and>
    status (tasks s1 (running_thread s)) \<noteq> TASK_RUNNING \<and> sched_only s s1 \<and>
    ready_frame s s1 (insert (idle_thread s) (set rs)) \<and>
    (\<forall>t. t \<noteq> idle_thread s \<or> rs \<noteq> [] \<longrightarrow> tasks s1 t = tasks s t) \<and>
    (\<forall>t. ticks (tasks s1 t) = ticks (tasks s t))"
proof -
  note mid = sched_midD [OF assms(1)]
  have e: "list_empty (thread_ready_list s) s \<longleftrightarrow> rs = []"
    using list_empty_iff [of s] mid(2) by (simp add: ready_list_def)
  show ?thesis
  proof (cases "rs = []")
    case True
    let ?i = "idle_thread s"
    let ?s1 = "task_upd ?i (status_update (\<lambda>_. TASK_READY)) (list_push (thread_ready_list s) (general_tag ?i) s)"
    have i: "?i \<in> set ts" using mid(1) by (rule sched_wfD)
    have b: "status (tasks s ?i) = TASK_BLOCKED"
      using mid(4) [OF i] mid(5) [OF i] mid(6) assms(2) True by (auto simp: idle_ok_def)
    have wf: "sched_wf ?s1 ts pd" by (rule sched_wf_cong [OF mid(1)]) simp_all
    have "ready_list ?s1 [?i]"
      using ready_push [OF mid(2,1) i] True by (simp add: ready_list_def)
    with wf have "sched_mid ?s1 [?i] ts pd"
    proof (rule sched_midI)
      fix t assume t: "t \<in> set ts"
      show "status (tasks ?s1 t) = TASK_RUNNING \<Longrightarrow> t = running_thread ?s1"
        using mid(4) [OF t] by (simp split: if_splits)
      show "status (tasks ?s1 t) = TASK_READY \<longleftrightarrow> t \<in> set [?i]"
        using mid(5) [OF t] True by simp
    qed (use mid(3,6,7) i in \<open>simp_all add: idle_ok_def\<close>)
    moreover have "thread_unblock ?i s = Inr ?s1"
      by (rule thread_unblock_eq [OF mid(2)]) (simp_all add: True b is_blocked_def)
    moreover have "ready_frame s ?s1 (insert ?i (set rs))"
      using ready_push_frame [OF mid(2,1) i] True by (simp add: ready_frame_def)
    moreover have "sched_only s ?s1" by (rule sched_only_list_task) simp
    ultimately show ?thesis using True e assms(2) by simp
  qed (use assms e in \<open>simp add: ready_frame_def\<close>)
qed

text \<open>The directory of a task is found and loaded.\<close>

lemma process_activate_ok:
  assumes "sched_wf s ts pd" "t \<in> set ts"
  shows "\<exists>p. process_activate t s = Inr (s\<lparr>cr3 := pd t, stale := {}, tss_esp0 := p\<rparr>) \<and>
    (pgdir (tasks s t) \<noteq> NULL \<longrightarrow> p = t + PG_SIZE)"
proof -
  have t: "t \<noteq> NULL" using assms by (simp add: sched_wf_def)
  note pds = sched_wfD(5) [OF assms(1), unfolded page_dirs_def]
  have r: "running_thread s \<in> set ts" "cr3 s = pd (running_thread s)" by (rule sched_wfD [OF assms(1)])+
  show ?thesis
  proof (cases "pgdir (tasks s t) = NULL")
    case True
    then have "pd t = 0x100000" using pds assms(2) by simp
    with True t show ?thesis
      by (intro exI [of _ "tss_esp0 s"]) (simp add: process_activate_def page_dir_activate_def)
  next
    case False
    then have "walk (phys s) (cr3 s) (pgdir (tasks s t)) = Some (pd t)" "self_mapped (phys s) (cr3 s)"
      using pds r assms(2) by simp_all
    then have "addr_v2p (pgdir (tasks s t)) s = Inr (pd t)" by (intro addr_v2p_walk)
    with False t show ?thesis
      by (simp add: process_activate_def page_dir_activate_def update_tss_esp0_def)
  qed
qed

text \<open>After the pop: the new thread is marked running, activated and switched to.\<close>

definition dispatch :: "u32 \<Rightarrow> u32 \<Rightarrow> 'a tsys_scheme \<Rightarrow> 'a tsys_scheme res" where
  "dispatch cur nxt s =
     kbind (process_activate nxt (task_upd nxt (status_update (\<lambda>_. TASK_RUNNING)) s))
       (\<lambda>s. Inr (switch_to cur nxt s))"

lemma dispatch_ok:
  assumes "sched_mid s (n # rs) ts pd" "status (tasks s (running_thread s)) \<noteq> TASK_RUNNING"
  defines "cur \<equiv> running_thread s" and "s0 \<equiv> list_remove (general_tag n) s"
  shows "\<exists>s'. dispatch cur n s0 = Inr s' \<and> sched_inv s' rs ts pd \<and> running_thread s' = n \<and> sched_only s s' \<and>
    ready_frame s s' (set (n # rs)) \<and> (\<forall>t. t \<noteq> cur \<and> t \<noteq> n \<longrightarrow> tasks s' t = tasks s t) \<and>
    (cur \<noteq> n \<longrightarrow> status (tasks s' cur) = status (tasks s cur)) \<and>
    (\<forall>t. ticks (tasks s' t) = ticks (tasks s t))"
proof -
  note mid = sched_midD [OF assms(1)]
  have n: "n \<in> set ts" "n \<notin> set rs"
    using mid(3) lq.distinct_list [of s _ "map general_tag (n # rs)"] mid(2)
    by (auto simp: ready_list_def)
  let ?s1 = "task_upd n (status_update (\<lambda>_. TASK_RUNNING)) s0"
  have wf1: "sched_wf ?s1 ts pd" by (rule sched_wf_cong [OF mid(1)]) (simp_all add: s0_def)
  obtain p where p: "process_activate n ?s1 = Inr (?s1\<lparr>cr3 := pd n, stale := {}, tss_esp0 := p\<rparr>)"
    using process_activate_ok [OF wf1 n(1)] by blast
  define s' where "s' = switch_to cur n (?s1\<lparr>cr3 := pd n, stale := {}, tss_esp0 := p\<rparr>)"
  have tk: "tasks s' = (let tk = (tasks s)(n := (tasks s n)\<lparr>status := TASK_RUNNING\<rparr>)
      in tk(cur := (tk cur)\<lparr>self_kstack := esp s - 20\<rparr>))"
    by (simp add: s'_def switch_to_def s0_def Let_def)
  have fields: "lheap s' = lheap s0" "thread_ready_list s' = thread_ready_list s" "idle_thread s' = idle_thread s"
    "phys s' = phys s" "cr3 s' = pd n"
    by (simp_all add: s'_def switch_to_def s0_def Let_def)
  have esp: "esp s' = (if n = cur then esp s else self_kstack (tasks s n) + 20)"
    by (simp add: s'_def switch_to_def s0_def Let_def)
  have run: "running_thread s' = n"
    using mid(1) n(1) esp by (simp add: running_thread_frame sched_wf_def cur_def split: if_splits)
  have wf': "sched_wf s' ts pd"
    using mid(1) n(1) run
    by (simp add: sched_wf_def fields tk Let_def page_dirs_def cur_def running_thread_frame)
  have "ready_list s' rs"
    using ready_pop(2) [OF mid(2)] by (simp add: ready_list_def fields s0_def)
  have st: "status (tasks s' t) = (if t = n then TASK_RUNNING else status (tasks s t))" for t
    by (simp add: tk Let_def)
  have "sched_inv s' rs ts pd"
    unfolding sched_inv_def st run fields
  proof (intro conjI ballI)
    fix t assume t: "t \<in> set ts"
    show "((if t = n then TASK_RUNNING else status (tasks s t)) = TASK_RUNNING) = (t = n)"
      using mid(4) [OF t] assms(2) by auto
    show "((if t = n then TASK_RUNNING else status (tasks s t)) = TASK_READY) = (t \<in> set rs)"
      using mid(5) [OF t] n(2) by auto
  qed (use wf' \<open>ready_list s' rs\<close> mid(3,6) in \<open>auto simp: idle_ok_def\<close>)
  moreover have "sched_only s s'"
    by (simp add: sched_only_def s'_def switch_to_def s0_def Let_def task_upd_def list_remove_eq)
  moreover have "ready_frame s s' (set (n # rs))"
    using ready_remove_frame [OF mid(2), of n] by (simp add: ready_frame_def fields s0_def)
  moreover have "dispatch cur n s0 = Inr s'" by (simp add: dispatch_def p s'_def)
  ultimately show ?thesis using run st by (auto simp: tk Let_def)
qed

lemma schedule_ok:
  assumes "sched_mid s rs ts pd"
  defines "cur \<equiv> running_thread s"
  defines "rs1 \<equiv> (if status (tasks s cur) = TASK_RUNNING then rs @ [cur] else rs)"
  defines "rs2 \<equiv> (if rs1 = [] then [idle_thread s] else rs1)"
  shows "\<exists>s'. schedule s = Inr s' \<and> sched_inv s' (tl rs2) ts pd \<and> running_thread s' = hd rs2 \<and> sched_only s s' \<and>
    ready_frame s s' (set rs1 \<union> {idle_thread s}) \<and>
    (\<forall>t. t \<noteq> cur \<and> t \<noteq> hd rs2 \<longrightarrow> tasks s' t = tasks s t) \<and>
    (cur \<noteq> hd rs2 \<and> status (tasks s cur) \<noteq> TASK_RUNNING \<longrightarrow> status (tasks s' cur) = status (tasks s cur)) \<and>
    ticks (tasks s' cur) =
      (if status (tasks s cur) = TASK_RUNNING then priority (tasks s cur) else ticks (tasks s cur))"
proof -
  obtain s1 where s1: "retire_current cur s = Inr s1" "sched_mid s1 rs1 ts pd" "running_thread s1 = cur"
    "idle_thread s1 = idle_thread s" "status (tasks s1 cur) \<noteq> TASK_RUNNING" "sched_only s s1"
    "ready_frame s s1 (insert cur (set rs))" "\<forall>t. t \<noteq> cur \<longrightarrow> tasks s1 t = tasks s t"
    "ticks (tasks s1 cur) = (if status (tasks s cur) = TASK_RUNNING then priority (tasks s cur) else ticks (tasks s cur))"
    using retire_current_ok [OF assms(1)] unfolding cur_def rs1_def by blast
  have keep: "status (tasks s cur) \<noteq> TASK_RUNNING \<longrightarrow> s1 = s" using s1(1) by (auto simp: retire_current_def)
  obtain s2 where s2: "(if list_empty (thread_ready_list s1) s1 then thread_unblock (idle_thread s1) s1 else Inr s1) = Inr s2"
    "sched_mid s2 rs2 ts pd" "running_thread s2 = cur" "status (tasks s2 cur) \<noteq> TASK_RUNNING" "sched_only s1 s2"
    "ready_frame s1 s2 (insert (idle_thread s) (set rs1))" "\<forall>t. t \<noteq> idle_thread s \<or> rs1 \<noteq> [] \<longrightarrow> tasks s2 t = tasks s1 t"
    "\<forall>t. ticks (tasks s2 t) = ticks (tasks s1 t)"
    using refill_ok [OF s1(2), unfolded s1(3,4), OF s1(5)] unfolding rs2_def s1(4) by blast
  obtain n ns where rs2: "rs2 = n # ns" by (cases rs2) (auto simp: rs2_def split: if_splits)
  have pop: "list_pop (thread_ready_list s2) s2 = (general_tag n, list_remove (general_tag n) s2)"
    using sched_midD(2) [OF s2(2)] unfolding rs2 by (rule ready_pop)
  obtain s' where s': "dispatch cur n (list_remove (general_tag n) s2) = Inr s'" "sched_inv s' ns ts pd"
    "running_thread s' = n" "sched_only s2 s'" "ready_frame s2 s' (set rs2)"
    "\<forall>t. t \<noteq> cur \<and> t \<noteq> n \<longrightarrow> tasks s' t = tasks s2 t" "cur \<noteq> n \<longrightarrow> status (tasks s' cur) = status (tasks s2 cur)"
    "\<forall>t. ticks (tasks s' t) = ticks (tasks s2 t)"
    using dispatch_ok [OF s2(2) [unfolded rs2]] s2(3,4) rs2 by auto
  have off: "intr_get_status s = INTR_OFF" by (rule sched_midD [OF assms(1)])
  have "schedule s = Inr s'"
    using off s1(1) s2(1) pop s'(1) by (simp add: schedule_def cur_def [symmetric] dispatch_def Let_def)
  moreover have "sched_only s s'" using s1(6) s2(5) s'(4) sched_only_trans by blast
  moreover have "ready_frame s s' (set rs1 \<union> {idle_thread s})"
  proof -
    have "ready_frame s s1 (set rs1)"
      using keep s1(7) by (auto simp: rs1_def ready_frame_def)
    then have "ready_frame s s' ((set rs1 \<union> insert (idle_thread s) (set rs1)) \<union> set rs2)"
      by (rule ready_frame_trans [OF ready_frame_trans [OF _ s2(6)] s'(5)])
        (use s1(6) s2(5) in \<open>simp_all add: sched_onlyD(1)\<close>)
    moreover have "(set rs1 \<union> insert (idle_thread s) (set rs1)) \<union> set rs2 = set rs1 \<union> {idle_thread s}"
      by (auto simp: rs2_def split: if_splits)
    ultimately show ?thesis by simp
  qed
  moreover have "\<forall>t. t \<noteq> cur \<and> t \<noteq> n \<longrightarrow> tasks s' t = tasks s t"
    using s1(8) s2(7) s'(6) rs2 by (auto simp: rs2_def split: if_splits)
  moreover have "cur \<noteq> n \<and> status (tasks s cur) \<noteq> TASK_RUNNING \<longrightarrow> status (tasks s' cur) = status (tasks s cur)"
    using keep s2(7) s'(7) rs2 by (auto simp: rs2_def split: if_splits)
  ultimately show ?thesis using s'(2,3,8) s1(9) s2(8) by (auto simp: rs2)
qed

section \<open>The operations keep the invariant\<close>

lemma sched_inv_intr [simp]:
  "sched_inv (s\<lparr>eflags := f\<rparr>) rs ts pd \<longleftrightarrow> sched_inv s rs ts pd"
  by (simp add: sched_inv_def sched_wf_def ready_list_def running_thread_def)

lemma sched_inv_io_log [simp]:
  "sched_inv (s\<lparr>io_log := f\<rparr>) rs ts pd \<longleftrightarrow> sched_inv s rs ts pd"
  by (simp add: sched_inv_def sched_wf_def ready_list_def running_thread_def)

lemma sched_inv_disable [simp]: "sched_inv (snd (intr_disable s)) rs ts pd \<longleftrightarrow> sched_inv s rs ts pd"
  by (subst intr_disable_eq) simp

lemma intr_disable_off' [simp]: "intr_get_status (snd (intr_disable s)) = INTR_OFF"
  by simp

text \<open>
  The effect of giving up the processor, common to blocking, yielding and preemption: one frame
  is left on the old thread's stack, and apart from the two threads involved and the ready list
  nothing changes.
\<close>

definition switched :: "'a tsys_scheme \<Rightarrow> 'a tsys_scheme \<Rightarrow> kframe \<Rightarrow> u32 list \<Rightarrow> bool" where
  "switched s s' fr rs \<longleftrightarrow>
     intr_get_status s' = INTR_OFF \<and>
     ready_frame s s' (set rs \<union> {running_thread s, idle_thread s}) \<and>
     (\<forall>t. t \<noteq> running_thread s \<and> t \<noteq> running_thread s' \<longrightarrow> tasks s' t = tasks s t) \<and>
     kstack (tasks s' (running_thread s)) = fr # kstack (tasks s (running_thread s)) \<and>
     (\<forall>t. t \<noteq> running_thread s \<longrightarrow> kstack (tasks s' t) = kstack (tasks s t)) \<and>
     sema_value s' = sema_value s \<and> lock_holder s' = lock_holder s \<and> lock_repeat s' = lock_repeat s \<and>
     thread_ready_list s' = thread_ready_list s \<and> idle_thread s' = idle_thread s \<and> tsys.more s' = tsys.more s"

lemma switchedD:
  assumes "switched s s' fr rs"
  shows "intr_get_status s' = INTR_OFF" "ready_frame s s' (set rs \<union> {running_thread s, idle_thread s})"
    "t \<noteq> running_thread s \<Longrightarrow> t \<noteq> running_thread s' \<Longrightarrow> tasks s' t = tasks s t"
    "kstack (tasks s' (running_thread s)) = fr # kstack (tasks s (running_thread s))"
    "t \<noteq> running_thread s \<Longrightarrow> kstack (tasks s' t) = kstack (tasks s t)"
    "sema_value s' = sema_value s" "lock_holder s' = lock_holder s" "lock_repeat s' = lock_repeat s"
    "thread_ready_list s' = thread_ready_list s" "idle_thread s' = idle_thread s" "tsys.more s' = tsys.more s"
  using assms unfolding switched_def by blast+

lemma switchedI:
  assumes "sched_only s1 s'" "ready_frame s1 s' (set rs' \<union> {idle_thread s})"
    "\<forall>t. t \<noteq> running_thread s \<and> t \<noteq> running_thread s' \<longrightarrow> tasks s' t = tasks s1 t"
    and "ready_frame s s1 (set rs \<union> {running_thread s, idle_thread s})" "set rs' \<subseteq> set rs \<union> {running_thread s, idle_thread s}"
    and "tasks s1 = (tasks s)(running_thread s := f (tasks s (running_thread s)))"
    and "\<And>x. kstack (f x) = fr # kstack x"
    and "sema_value s1 = sema_value s" "lock_holder s1 = lock_holder s" "lock_repeat s1 = lock_repeat s"
    "thread_ready_list s1 = thread_ready_list s" "idle_thread s1 = idle_thread s" "intr_get_status s1 = INTR_OFF"
    "tsys.more s1 = tsys.more s"
  shows "switched s s' fr rs"
proof -
  let ?A = "set rs \<union> {running_thread s, idle_thread s}"
  have "set rs' \<union> {idle_thread s} \<subseteq> ?A" using assms(5) by blast
  then have "ready_frame s1 s' ?A" using assms(2) by (auto simp: ready_frame_def)
  from ready_frame_trans [OF assms(4) this assms(11)] have "ready_frame s s' ?A" by simp
  moreover have "intr_get_status s' = INTR_OFF"
    using sched_onlyD(6) [OF assms(1)] intr_get_status_cong [of s' s1] assms(13) by simp
  ultimately show ?thesis
    using assms(3,6-12,14) sched_onlyD [OF assms(1)] by (simp add: switched_def)
qed

lemma thread_block_ok:
  assumes "sched_inv s rs ts pd" "is_blocked st" "running_thread s = idle_thread s \<longrightarrow> st = TASK_BLOCKED"
  defines "cur \<equiv> running_thread s" and "rs2 \<equiv> (if rs = [] then [idle_thread s] else rs)"
  shows "\<exists>s'. thread_block st s = Inr s' \<and> sched_inv s' (tl rs2) ts pd \<and> running_thread s' = hd rs2 \<and>
    switched s s' (F_thread_block (intr_get_status s)) rs \<and>
    ready_frame s s' (set rs \<union> {idle_thread s}) \<and> (cur \<noteq> hd rs2 \<longrightarrow> status (tasks s' cur) = st)"
proof -
  note inv = sched_invD [OF assms(1)]
  let ?d = "snd (intr_disable s)"
  let ?s1 = "push_frame cur (F_thread_block (intr_get_status s)) (task_upd cur (status_update (\<lambda>_. st)) ?d)"
  have r: "cur \<in> set ts" using inv(1) unfolding cur_def by (rule sched_wfD)
  have nr: "cur \<notin> set rs" using inv(4) [OF r] inv(5) [OF r] by (simp add: cur_def)
  have st: "st \<noteq> TASK_RUNNING" "st \<noteq> TASK_READY" using assms(2) by (auto simp: is_blocked_def)
  have "sched_mid ?s1 rs ts pd"
  proof (rule sched_midI)
    show "sched_wf ?s1 ts pd" by (rule sched_wf_cong [OF inv(1)]) (simp_all add: intr_disable_def cli_def)
    show "ready_list ?s1 rs" using inv(2) by (simp add: ready_list_def)
    fix t assume t: "t \<in> set ts"
    show "status (tasks ?s1 t) = TASK_RUNNING \<Longrightarrow> t = running_thread ?s1"
      using inv(4) [OF t] st by (simp split: if_splits)
    show "status (tasks ?s1 t) = TASK_READY \<longleftrightarrow> t \<in> set rs"
      using inv(5) [OF t] st nr by simp
  qed (use inv(3,6) assms(3) in \<open>simp_all add: idle_ok_def cur_def\<close>)
  from schedule_ok [OF this] obtain s' where s': "schedule ?s1 = Inr s'" "sched_inv s' (tl rs2) ts pd"
    "running_thread s' = hd rs2" "sched_only ?s1 s'" "ready_frame ?s1 s' (set rs \<union> {idle_thread s})"
    "\<forall>t. t \<noteq> cur \<and> t \<noteq> hd rs2 \<longrightarrow> tasks s' t = tasks ?s1 t" "cur \<noteq> hd rs2 \<longrightarrow> status (tasks s' cur) = st"
    using st(1) by (auto simp: rs2_def cur_def split: if_splits)
  have "thread_block st s = Inr s'"
    using s'(1) assms(2) by (simp add: thread_block_def split_beta cur_def)
  moreover have "switched s s' (F_thread_block (intr_get_status s)) rs"
    by (rule switchedI [where rs' = rs
          and f = "\<lambda>x. kstack_update ((#) (F_thread_block (intr_get_status s))) (x\<lparr>status := st\<rparr>)", OF s'(4)])
      (use s'(3,5,6) in \<open>simp_all add: cur_def ready_frame_def subset_Un_eq\<close>)
  moreover have "ready_frame s s' (set rs \<union> {idle_thread s})" using s'(5) by (simp add: ready_frame_def)
  ultimately show ?thesis using s' by auto
qed

lemma thread_yield_ok:
  assumes "sched_inv s rs ts pd"
  defines "cur \<equiv> running_thread s"
  shows "\<exists>s'. thread_yield s = Inr s' \<and> sched_inv s' (tl (rs @ [cur])) ts pd \<and>
    running_thread s' = hd (rs @ [cur]) \<and> switched s s' (F_thread_yield (intr_get_status s)) rs"
proof -
  note inv = sched_invD [OF assms(1)]
  let ?d = "snd (intr_disable s)"
  let ?a = "list_append (thread_ready_list s) (general_tag cur) ?d"
  let ?s1 = "push_frame cur (F_thread_yield (intr_get_status s)) (task_upd cur (status_update (\<lambda>_. TASK_READY)) ?a)"
  have d: "sched_wf ?d ts pd" "ready_list ?d rs"
    using inv(1,2) by (auto intro: sched_wf_cong simp: ready_list_def)
  have r: "cur \<in> set ts" using inv(1) unfolding cur_def by (rule sched_wfD)
  have nr: "cur \<notin> set rs" using inv(4) [OF r] inv(5) [OF r] by (simp add: cur_def)
  have "sched_mid ?s1 (rs @ [cur]) ts pd"
  proof (rule sched_midI)
    show "sched_wf ?s1 ts pd" by (rule sched_wf_cong [OF inv(1)]) simp_all
    show "ready_list ?s1 (rs @ [cur])" using ready_append [OF d(2,1) r nr] by (simp add: ready_list_def)
    fix t assume t: "t \<in> set ts"
    show "status (tasks ?s1 t) = TASK_RUNNING \<Longrightarrow> t = running_thread ?s1"
      using inv(4) [OF t] by (simp split: if_splits)
    show "status (tasks ?s1 t) = TASK_READY \<longleftrightarrow> t \<in> set (rs @ [cur])"
      using inv(5) [OF t] by simp
  qed (use inv(3,6) r in \<open>simp_all add: idle_ok_def cur_def\<close>)
  from schedule_ok [OF this] obtain s' where s': "schedule ?s1 = Inr s'" "sched_inv s' (tl (rs @ [cur])) ts pd"
    "running_thread s' = hd (rs @ [cur])" "sched_only ?s1 s'"
    "ready_frame ?s1 s' (set (rs @ [cur]) \<union> {idle_thread s})"
    "\<forall>t. t \<noteq> cur \<and> t \<noteq> hd (rs @ [cur]) \<longrightarrow> tasks s' t = tasks ?s1 t"
    by (auto simp: cur_def split: if_splits)
  have "thread_yield s = Inr s'"
    using s'(1) ready_find [OF d(2), of cur] nr by (simp add: thread_yield_def split_beta cur_def)
  moreover have "switched s s' (F_thread_yield (intr_get_status s)) rs"
    by (rule switchedI [where rs' = "rs @ [cur]"
          and f = "\<lambda>x. kstack_update ((#) (F_thread_yield (intr_get_status s))) (x\<lparr>status := TASK_READY\<rparr>)", OF s'(4)])
      (use s'(3,5,6) ready_append_frame [OF d(2,1) r nr] in \<open>auto simp: cur_def ready_frame_def\<close>)
  ultimately show ?thesis using s' by auto
qed

lemma thread_unblock_ok:
  assumes "sched_inv s rs ts pd" "t \<in> set ts" "is_blocked (status (tasks s t))"
  shows "\<exists>s'. thread_unblock t s = Inr s' \<and> sched_inv s' (t # rs) ts pd \<and> running_thread s' = running_thread s \<and>
    idle_thread s' = idle_thread s \<and> ready_frame s s' (insert t (set rs)) \<and> sched_only s s' \<and> esp s' = esp s \<and>
    (\<forall>u. tasks s' u = (if u = t then (tasks s t)\<lparr>status := TASK_READY\<rparr> else tasks s u))"
proof -
  note inv = sched_invD [OF assms(1)]
  have nr: "t \<notin> set rs" "t \<noteq> running_thread s"
    using inv(4,5) [OF assms(2)] assms(3) by (auto simp: is_blocked_def)
  let ?s1 = "task_upd t (status_update (\<lambda>_. TASK_READY)) (list_push (thread_ready_list s) (general_tag t) s)"
  have wf: "sched_wf ?s1 ts pd" by (rule sched_wf_cong [OF inv(1)]) simp_all
  have "ready_list ?s1 (t # rs)" using ready_push [OF inv(2,1) assms(2) nr(1)] by (simp add: ready_list_def)
  then have "sched_inv ?s1 (t # rs) ts pd"
    unfolding sched_inv_def
  proof (intro conjI ballI)
    fix u assume u: "u \<in> set ts"
    show "(status (tasks ?s1 u) = TASK_RUNNING) = (u = running_thread ?s1)"
      using inv(4) [OF u] nr by simp
    show "(status (tasks ?s1 u) = TASK_READY) = (u \<in> set (t # rs))"
      using inv(5) [OF u] by simp
  qed (use wf inv(3,6) assms(2) in \<open>simp_all add: idle_ok_def\<close>)
  moreover have "ready_frame s ?s1 (insert t (set rs))"
    using ready_push_frame [OF inv(2,1) assms(2) nr(1)] by (simp add: ready_frame_def)
  ultimately show ?thesis
    using thread_unblock_eq [OF inv(2) nr(1) assms(3)] sched_only_list_task(1) [of "status_update (\<lambda>_. TASK_READY)"]
    by (intro exI [of _ ?s1]) simp
qed

text \<open>A clock interrupt counts, and switches when the time slice is used up.\<close>

lemma sched_inv_task_upd:
  assumes "\<And>x. status (f x) = status x \<and> stack_magic (f x) = stack_magic x \<and>
    self_kstack (f x) = self_kstack x \<and> pgdir (f x) = pgdir x"
  shows "sched_inv (task_upd t f s) rs ts pd \<longleftrightarrow> sched_inv s rs ts pd"
proof -
  have st: "status (tasks (task_upd t f s) u) = status (tasks s u)"
    "stack_magic (tasks (task_upd t f s) u) = stack_magic (tasks s u)"
    "self_kstack (tasks (task_upd t f s) u) = self_kstack (tasks s u)"
    "pgdir (tasks (task_upd t f s) u) = pgdir (tasks s u)" for u
    using assms by simp_all
  show ?thesis
    unfolding sched_inv_def sched_wf_def page_dirs_def ready_list_def st by simp
qed

lemma sched_inv_sys_ticks [simp]: "sched_inv (s\<lparr>sys_ticks := n\<rparr>) rs ts pd \<longleftrightarrow> sched_inv s rs ts pd"
  by (simp add: sched_inv_def sched_wf_def ready_list_def running_thread_def)

lemma sched_inv_push_frame [simp]: "sched_inv (push_frame t f s) rs ts pd \<longleftrightarrow> sched_inv s rs ts pd"
  unfolding push_frame_def by (rule sched_inv_task_upd) simp

lemma sched_inv_pop_frame [simp]: "sched_inv (pop_frame s) rs ts pd \<longleftrightarrow> sched_inv s rs ts pd"
  unfolding pop_frame_def by (rule sched_inv_task_upd) simp

lemma clock_keeps:
  assumes "sched_inv s rs ts pd" "ticks (tasks s (running_thread s)) \<noteq> 0"
  defines "cur \<equiv> running_thread s"
  shows "\<exists>s'. clock_interrupt s = Inr s' \<and> sched_inv s' rs ts pd \<and> running_thread s' = cur \<and> eflags s' = eflags s \<and>
    sys_ticks s' = sys_ticks s + 1 \<and> idle_thread s' = idle_thread s \<and> lheap s' = lheap s \<and>
    sema_value s' = sema_value s \<and> lock_holder s' = lock_holder s \<and> lock_repeat s' = lock_repeat s \<and>
    thread_ready_list s' = thread_ready_list s \<and>
    tasks s' = (tasks s)(cur := ticks_update (\<lambda>n. n - 1) (elapsed_ticks_update (\<lambda>n. n + 1) (tasks s cur)))"
proof -
  let ?s = "(push_frame cur (F_intr_exit (eflags s)) (intr_entry s))"
  let ?t = "task_upd cur (ticks_update (\<lambda>n. n - 1))
    ((task_upd cur (elapsed_ticks_update (\<lambda>n. n + 1)) ?s)\<lparr>sys_ticks := sys_ticks s + 1\<rparr>)"
  have c: "tasks (intr_entry s) = tasks s" "esp (intr_entry s) = esp s" "sys_ticks (intr_entry s) = sys_ticks s"
    "idle_thread (intr_entry s) = idle_thread s" by (simp_all add: intr_entry_def outb_def cli_def)
  have run: "running_thread (intr_entry s) = cur" "running_thread ?s = cur" "running_thread ?t = cur"
    by (simp_all add: cur_def)
  have "sys_ticks ?s = sys_ticks s" by (simp add: push_frame_def task_upd_def c)
  moreover have "stack_magic (tasks s cur) = 0x12345678"
    using sched_invD(1) [OF assms(1)] by (simp add: sched_wf_def cur_def)
  ultimately have h: "intr_timer_handler ?s = Inr (False, ?t)"
    using assms(2) run by (simp add: intr_timer_handler_def Let_def c cur_def [symmetric])
  have "sched_inv ?t rs ts pd"
    using assms(1) by (simp add: sched_inv_task_upd intr_entry_def outb_def cli_def)
  moreover have "tasks (pop_frame ?t) =
      (tasks s)(cur := ticks_update (\<lambda>n. n - 1) (elapsed_ticks_update (\<lambda>n. n + 1) (tasks s cur)))"
    by (simp add: pop_frame_def cur_def [symmetric] c)
  moreover have "sys_ticks (pop_frame ?t) = sys_ticks s + 1" "idle_thread (pop_frame ?t) = idle_thread s"
    "esp (pop_frame ?t) = esp s" "lheap (pop_frame ?t) = lheap s" "sema_value (pop_frame ?t) = sema_value s"
    "lock_holder (pop_frame ?t) = lock_holder s" "lock_repeat (pop_frame ?t) = lock_repeat s"
    "thread_ready_list (pop_frame ?t) = thread_ready_list s"
    by (simp_all add: pop_frame_def task_upd_def push_frame_def c intr_entry_def outb_def cli_def)
  ultimately show ?thesis using h
    by (intro exI [of _ "(pop_frame ?t)\<lparr>eflags := eflags s\<rparr>"])
      (simp add: clock_interrupt_def cur_def [symmetric] pop_frame_def sched_inv_task_upd)
qed

lemma clock_switches:
  assumes "sched_inv s rs ts pd" "ticks (tasks s (running_thread s)) = 0"
  defines "cur \<equiv> running_thread s"
  shows "\<exists>s'. clock_interrupt s = Inr s' \<and> sched_inv s' (tl (rs @ [cur])) ts pd \<and>
    running_thread s' = hd (rs @ [cur]) \<and> switched s s' (F_intr_exit (eflags s)) rs \<and>
    ticks (tasks s' cur) = priority (tasks s cur)"
proof -
  let ?s = "(push_frame cur (F_intr_exit (eflags s)) (intr_entry s))"
  let ?t = "(task_upd cur (elapsed_ticks_update (\<lambda>n. n + 1)) ?s)\<lparr>sys_ticks := sys_ticks s + 1\<rparr>"
  have c: "tasks (intr_entry s) = tasks s" "esp (intr_entry s) = esp s" "sys_ticks (intr_entry s) = sys_ticks s"
    "idle_thread (intr_entry s) = idle_thread s" by (simp_all add: intr_entry_def outb_def cli_def)
  have run: "running_thread (intr_entry s) = cur" "running_thread ?t = cur"
    by (simp_all add: cur_def)
  have magic: "stack_magic (tasks s cur) = 0x12345678"
    using sched_invD(1) [OF assms(1)] by (simp add: sched_wf_def cur_def)
  have h: "intr_timer_handler ?s = kbind (schedule ?t) (\<lambda>s. Inr (True, s))"
    using assms(2) run magic by (simp add: intr_timer_handler_def Let_def c cur_def [symmetric])
  have "sched_inv ?t rs ts pd" using assms(1) by (simp add: sched_inv_task_upd intr_entry_def outb_def cli_def)
  moreover have off: "intr_get_status ?t = INTR_OFF"
  proof -
    have "EFLAGS_IF AND (f AND NOT EFLAGS_IF) = 0" for f :: u32
      by (rule bit_word_eqI) (auto simp: bit_simps)
    then show ?thesis by (simp add: intr_entry_def outb_def cli_def intr_get_status_def)
  qed
  ultimately have "sched_mid ?t rs ts pd" by (rule sched_inv_mid)
  moreover have "status (tasks ?t cur) = TASK_RUNNING"
    using sched_invD(4) [OF assms(1) sched_wfD(1) [OF sched_invD(1) [OF assms(1)]]] by (simp add: cur_def c)
  ultimately obtain s' where s': "schedule ?t = Inr s'" "sched_inv s' (tl (rs @ [cur])) ts pd"
    "running_thread s' = hd (rs @ [cur])" "sched_only ?t s'" "ticks (tasks s' cur) = priority (tasks ?t cur)"
    "ready_frame ?t s' (set (rs @ [cur]) \<union> {idle_thread s})"
    "\<forall>t. t \<noteq> cur \<and> t \<noteq> hd (rs @ [cur]) \<longrightarrow> tasks s' t = tasks ?t t"
    using schedule_ok [of ?t rs ts pd] unfolding run by (auto split: if_splits simp: c)
  have "switched s s' (F_intr_exit (eflags s)) rs"
    by (rule switchedI [where rs' = "rs @ [cur]"
          and f = "\<lambda>x. elapsed_ticks_update (\<lambda>n. n + 1) (kstack_update ((#) (F_intr_exit (eflags s))) x)", OF s'(4)])
      (use s'(3,6,7) off in \<open>auto simp: cur_def ready_frame_def intr_entry_def outb_def cli_def\<close>)
  then show ?thesis using h s' by (simp add: clock_interrupt_def cur_def [symmetric] c)
qed

section \<open>Sequences of operations\<close>

datatype sched_op = Block task_status | Unblock u32 | Yield | Clock | Return

fun run_op :: "sched_op \<Rightarrow> 'a tsys_scheme \<Rightarrow> 'a tsys_scheme res" where
  "run_op (Block st) s = thread_block st s"
| "run_op (Unblock t) s = thread_unblock t s"
| "run_op Yield s = thread_yield s"
| "run_op Clock s = clock_interrupt s"
| "run_op Return s = Inr (switch_return (hd (kstack (tasks s (running_thread s)))) (pop_frame s))"

text \<open>
  When a caller may use an operation: the idle thread blocks only as \<^verbatim>\<open>TASK_BLOCKED\<close>, only a
  blocked thread is unblocked, the clock interrupts only while the interrupt flag is set, and a
  thread comes back to the routine in which it switched.
\<close>

fun op_enabled :: "sched_op \<Rightarrow> u32 list \<Rightarrow> 'a tsys_scheme \<Rightarrow> bool" where
  "op_enabled (Block st) ts s \<longleftrightarrow>
     is_blocked st \<and> (running_thread s = idle_thread s \<longrightarrow> st = TASK_BLOCKED)"
| "op_enabled (Unblock t) ts s \<longleftrightarrow> t \<in> set ts \<and> is_blocked (status (tasks s t))"
| "op_enabled Yield ts s \<longleftrightarrow> True"
| "op_enabled Clock ts s \<longleftrightarrow> intr_get_status s = INTR_ON"
| "op_enabled Return ts s \<longleftrightarrow> (case kstack (tasks s (running_thread s)) of [] \<Rightarrow> False | f # _ \<Rightarrow> sched_frame f)"

inductive sched_reach :: "u32 list \<Rightarrow> 'a tsys_scheme \<Rightarrow> 'a tsys_scheme \<Rightarrow> bool" for ts s0 where
  start: "sched_reach ts s0 s0"
| step: "sched_reach ts s0 s \<Longrightarrow> op_enabled op ts s \<Longrightarrow> run_op op s = Inr s' \<Longrightarrow> sched_reach ts s0 s'"

lemma sched_inv_flags: "sched_inv (s\<lparr>eflags := x\<rparr>) rs ts pd \<longleftrightarrow> sched_inv s rs ts pd"
  by (simp add: sched_inv_def sched_wf_def ready_list_def running_thread_def)

lemma switch_return_eflags: "\<exists>x. switch_return f s = s\<lparr>eflags := x\<rparr>"
proof -
  have "\<exists>x. snd (intr_set_status st s) = s\<lparr>eflags := x\<rparr>" "\<exists>x. snd (intr_enable s) = s\<lparr>eflags := x\<rparr>" "\<exists>x. s = s\<lparr>eflags := x\<rparr>" for st
    by (cases st; auto simp: intr_set_status_def intr_enable_def intr_disable_def sti_def cli_def intro: exI [of _ "eflags s"])+
  then show ?thesis by (cases f) auto
qed

lemma run_op_ok:
  assumes "sched_inv s rs ts pd" "op_enabled op ts s"
  shows "\<exists>s' rs'. run_op op s = Inr s' \<and> sched_inv s' rs' ts pd"
proof (cases op)
  case (Block st)
  then show ?thesis using thread_block_ok [OF assms(1), of st] assms(2) by auto
next
  case (Unblock t)
  then show ?thesis using thread_unblock_ok [OF assms(1), of t] assms(2) by auto
next
  case Yield
  then show ?thesis using thread_yield_ok [OF assms(1)] by auto
next
  case Clock
  then show ?thesis
    using clock_keeps [OF assms(1)] clock_switches [OF assms(1)]
    by (cases "ticks (tasks s (running_thread s)) = 0") auto
next
  case Return
  obtain x where "run_op op s = Inr ((pop_frame s)\<lparr>eflags := x\<rparr>)"
    using switch_return_eflags [of "hd (kstack (tasks s (running_thread s)))" "pop_frame s"] Return by auto
  then show ?thesis using assms(1) by (auto simp: sched_inv_flags)
qed

lemma reach_inv:
  assumes "sched_reach ts s0 s" "sched_inv s0 rs0 ts pd"
  shows "\<exists>rs. sched_inv s rs ts pd"
  using assms
proof (induction rule: sched_reach.induct)
  case (step s op s')
  then obtain rs where "sched_inv s rs ts pd" by blast
  with step run_op_ok [of s rs ts pd op] show ?case by auto
qed blast

primrec run_n :: "('s \<Rightarrow> 's res) \<Rightarrow> nat \<Rightarrow> 's \<Rightarrow> 's res" where
  "run_n f 0 s = Inr s"
| "run_n f (Suc n) s = kbind (run_n f n s) f"

lemma clocks_keep:
  assumes "sched_inv s rs ts pd" "n \<le> unat (ticks (tasks s (running_thread s)))"
  defines "cur \<equiv> running_thread s"
  shows "\<exists>s'. run_n clock_interrupt n s = Inr s' \<and> sched_inv s' rs ts pd \<and> running_thread s' = cur \<and>
    eflags s' = eflags s \<and> unat (ticks (tasks s' cur)) = unat (ticks (tasks s cur)) - n \<and>
    priority (tasks s' cur) = priority (tasks s cur)"
  using assms(2)
proof (induction n)
  case 0
  then show ?case using assms(1) by (simp add: cur_def)
next
  case (Suc n)
  then obtain s1 where s1: "run_n clock_interrupt n s = Inr s1" "sched_inv s1 rs ts pd" "running_thread s1 = cur"
    "eflags s1 = eflags s" "unat (ticks (tasks s1 cur)) = unat (ticks (tasks s cur)) - n"
    "priority (tasks s1 cur) = priority (tasks s cur)" by auto
  then have "0 < unat (ticks (tasks s1 cur))" using Suc.prems by (simp add: cur_def)
  then have nz: "ticks (tasks s1 cur) \<noteq> 0" by auto
  then have u: "unat (ticks (tasks s1 cur) - 1) = unat (ticks (tasks s1 cur)) - 1" by (rule unat_minus_one)
  have "unat (ticks (tasks s1 cur) - 1) = unat (ticks (tasks s cur)) - Suc n" using u s1(5) by simp
  with clock_keeps [OF s1(2), unfolded s1(3)] nz s1 show ?case by auto
qed

lemma yields_rotate:
  assumes "sched_inv s rs ts pd" "n \<le> length rs"
  shows "\<exists>s'. run_n thread_yield n s = Inr s' \<and> sched_inv s' (take (length rs) (drop n (rs @ [running_thread s] @ rs))) ts pd \<and>
    running_thread s' = (running_thread s # rs) ! n"
  using assms(2)
proof (induction n)
  case 0
  then show ?case using assms(1) by simp
next
  case (Suc n)
  let ?r = "running_thread s"
  from Suc obtain s1 where s1: "run_n thread_yield n s = Inr s1"
    "sched_inv s1 (take (length rs) (drop n (rs @ [?r] @ rs))) ts pd" "running_thread s1 = (?r # rs) ! n" by auto
  have d: "drop n (rs @ [?r] @ rs) = rs ! n # drop (Suc n) (rs @ [?r] @ rs)"
    using Suc.prems by (subst Cons_nth_drop_Suc [symmetric]) (auto simp: nth_append)
  have l: "0 < length rs" using Suc.prems by linarith
  have "take (length rs) (drop n (rs @ [?r] @ rs)) = rs ! n # take (length rs - 1) (drop (Suc n) (rs @ [?r] @ rs))"
    unfolding d using l by (cases "length rs") simp_all
  moreover have "take (length rs - 1) (drop (Suc n) (rs @ [?r] @ rs)) @ [(?r # rs) ! n] =
      take (length rs) (drop (Suc n) (rs @ [?r] @ rs))"
  proof -
    have "drop (Suc n) (rs @ [?r] @ rs) ! (length rs - 1) = (?r # rs) ! n"
      using Suc.prems by (auto simp: nth_append nth_Cons split: nat.splits)
    moreover have "length rs - 1 < length (drop (Suc n) (rs @ [?r] @ rs))" using Suc.prems by auto
    ultimately show ?thesis using l take_Suc_conv_app_nth [of "length rs - 1" "drop (Suc n) (rs @ [?r] @ rs)"] by simp
  qed
  ultimately show ?case using thread_yield_ok [OF s1(2)] s1 by auto
qed

section \<open>Properties\<close>

text \<open>
  A system of three kernel threads: the idle thread at 0xc0102000 blocked, main at 0xc009e000
  running with two ticks left, one more thread at 0xc0103000 ready; the lists live at 0xc0005000.
\<close>

definition demo_task :: "u32 \<Rightarrow> task_status \<Rightarrow> task_struct" where
  "demo_task t st = \<lparr>self_kstack = t + 0xe50, pid = 1, status = st, name = [], priority = 31, ticks = 2,
     elapsed_ticks = 0, fd_table = [], pgdir = 0,
     userprog_vaddr = \<lparr>vaddr_bitmap = \<lparr>btmp_bytes_len = 0, bits = 0\<rparr>, vaddr_start = 0\<rparr>,
     stack_magic = 0x12345678,
     kstack = (if st = TASK_RUNNING then [] else if st = TASK_READY then [F_kernel_thread 0xc0001500 0]
       else [F_thread_block INTR_ON])\<rparr>"

definition demo_tsys :: tsys where
  "demo_tsys = list_append 0xc0005000 (general_tag 0xc0103000) (list_init 0xc0005000
     \<lparr>eflags = EFLAGS_IF, io_log = [], idt = [], idt_table = [], intr_name = [], lheap = (\<lambda>_. \<lparr>prev = 0, next = 0\<rparr>), phys = demo_phys, cr3 = 0x100000, stale = {},
      esp = 0xc009ef00,
      tasks = (\<lambda>t. demo_task t (if t = 0xc009e000 then TASK_RUNNING else if t = 0xc0103000 then TASK_READY else TASK_BLOCKED)),
      idle_thread = 0xc0102000, main_thread = 0xc009e000, thread_ready_list = 0xc0005000,
      thread_all_list = 0xc0005010, pid_lock = 0xc0005020, next_pid = 3, tss_esp0 = 0, sys_ticks = 0,
      sema_value = (\<lambda>_. 1), lock_holder = (\<lambda>_. NULL), lock_repeat = (\<lambda>_. 0)\<rparr>)"

abbreviation demo_ts :: "u32 list" where
  "demo_ts \<equiv> [0xc009e000, 0xc0102000, 0xc0103000]"

lemma demo_tsys_fields:
  "tasks demo_tsys = (\<lambda>t. demo_task t (if t = 0xc009e000 then TASK_RUNNING else if t = 0xc0103000 then TASK_READY else TASK_BLOCKED))"
  "thread_ready_list demo_tsys = 0xc0005000" "idle_thread demo_tsys = 0xc0102000" "esp demo_tsys = 0xc009ef00"
  "running_thread demo_tsys = 0xc009e000" "phys demo_tsys = demo_phys" "cr3 demo_tsys = 0x100000"
  "sema_value demo_tsys = (\<lambda>_. 1)" "lock_holder demo_tsys = (\<lambda>_. NULL)" "lock_repeat demo_tsys = (\<lambda>_. 0)"
  "intr_get_status demo_tsys = INTR_ON"
  by (simp_all add: demo_tsys_def list_init_def running_thread_def intr_get_status_def EFLAGS_IF_def
      list_append_def list_insert_before_eq)

lemma demo_inv: "sched_inv demo_tsys [0xc0103000] demo_ts (\<lambda>_. 0x100000)"
proof -
  have "dlist (lheap demo_tsys) 0xc0005000 ([] @ [general_tag 0xc0103000])"
    unfolding demo_tsys_def by (intro dlist_append dlist_init) (simp add: nodes_def general_tag_def)
  then have "ready_list demo_tsys [0xc0103000]" by (simp add: ready_list_def demo_tsys_fields)
  moreover have "sched_wf demo_tsys demo_ts (\<lambda>_. 0x100000)"
    by (simp add: sched_wf_def demo_tsys_fields demo_task_def page_dirs_def frame_def general_tag_def)
  ultimately show ?thesis by (simp add: sched_inv_def demo_tsys_fields demo_task_def idle_ok_def)
qed

text \<open>
  C2: The scheduler never fails. From a state that satisfies the invariant, after any sequence of
  blocks, wake-ups, yields, clock interrupts and returns from a switch, the invariant still holds: exactly one task is
  running, the ready list holds exactly the ready tasks, the loaded page directory is the running
  task's. And every further operation its caller may use returns: no assertion in it fails, no
  list walk spins, no translation faults.
\<close>
theorem scheduler_safe:
  assumes "sched_inv s0 rs0 ts pd" "sched_reach ts s0 s"
  shows "\<exists>rs. sched_inv s rs ts pd \<and> (\<forall>op. op_enabled op ts s \<longrightarrow> (\<exists>s'. run_op op s = Inr s'))"
proof -
  obtain rs where "sched_inv s rs ts pd" using reach_inv [OF assms(2,1)] by blast
  then show ?thesis using run_op_ok by blast
qed

theorem scheduler_safe_witness:
  "\<exists>rs. sched_inv demo_tsys rs demo_ts (\<lambda>_. 0x100000) \<and> (\<exists>s'. thread_yield demo_tsys = Inr s')"
proof -
  obtain rs where "sched_inv demo_tsys rs demo_ts (\<lambda>_. 0x100000)"
    "\<forall>op. op_enabled op demo_ts demo_tsys \<longrightarrow> (\<exists>s'. run_op op demo_tsys = Inr s')"
    using scheduler_safe [OF demo_inv sched_reach.start] by blast
  then show ?thesis using op_enabled.simps(3) run_op.simps(3) by metis
qed

text \<open>
  C4: \<^verbatim>\<open>schedule\<close> implements the abstract round-robin choice: a thread that is still running goes
  to the end of the queue with a full time slice, an empty queue is filled with the idle thread,
  and the head of the queue is switched to, with its page directory loaded.
\<close>
theorem schedule_refines:
  assumes "sched_mid s rs ts pd"
    "q = (if status (tasks s (running_thread s)) = TASK_RUNNING then rs @ [running_thread s] else rs)"
  shows "\<exists>s'. schedule s = Inr s' \<and> running_thread s' = hd (q @ [idle_thread s]) \<and>
    ready_list s' (tl (if q = [] then [idle_thread s] else q)) \<and> cr3 s' = pd (running_thread s') \<and>
    status (tasks s' (running_thread s')) = TASK_RUNNING \<and>
    (status (tasks s (running_thread s)) = TASK_RUNNING \<longrightarrow>
       ticks (tasks s' (running_thread s)) = priority (tasks s (running_thread s)))"
proof -
  obtain s' where s': "schedule s = Inr s'" "sched_inv s' (tl (if q = [] then [idle_thread s] else q)) ts pd"
    "running_thread s' = hd (if q = [] then [idle_thread s] else q)"
    "ticks (tasks s' (running_thread s)) = (if status (tasks s (running_thread s)) = TASK_RUNNING
       then priority (tasks s (running_thread s)) else ticks (tasks s (running_thread s)))"
    using schedule_ok [OF assms(1)] unfolding assms(2) by blast
  note inv = sched_invD [OF s'(2)]
  have "running_thread s' = hd (q @ [idle_thread s])" using s'(3) by (simp split: if_splits)
  then show ?thesis
    using s'(1,4) inv(2) inv(4) [OF sched_wfD(1) [OF inv(1)]] sched_wfD(4) [OF inv(1)] by simp
qed

theorem schedule_refines_witness:
  "\<exists>s'. schedule (demo_tsys\<lparr>eflags := 0\<rparr>) = Inr s' \<and> running_thread s' = 0xc0103000"
proof -
  have "sched_mid (demo_tsys\<lparr>eflags := 0\<rparr>) [0xc0103000] demo_ts (\<lambda>_. 0x100000)"
    by (rule sched_inv_mid) (simp_all add: demo_inv intr_get_status_def)
  from schedule_refines [OF this refl] show ?thesis by (auto simp: demo_tsys_fields demo_task_def)
qed

text \<open>
  C9: Round robin: when every thread yields, the thread at position \<open>k\<close> of the ready queue is
  running after exactly \<open>k + 1\<close> yields.
\<close>
theorem yield_round_robin:
  assumes "sched_inv s rs ts pd" "k < length rs"
  shows "\<exists>s'. run_n thread_yield (Suc k) s = Inr s' \<and> running_thread s' = rs ! k \<and>
    status (tasks s' (rs ! k)) = TASK_RUNNING"
proof -
  obtain s' rs' where s': "run_n thread_yield (Suc k) s = Inr s'" "sched_inv s' rs' ts pd"
    "running_thread s' = (running_thread s # rs) ! Suc k"
    using yields_rotate [OF assms(1), of "Suc k"] assms(2) by (auto simp del: run_n.simps)
  then show ?thesis
    using sched_invD(4) [OF s'(2) sched_wfD(1) [OF sched_invD(1) [OF s'(2)]]] by simp
qed

theorem yield_round_robin_witness:
  "\<exists>s'. run_n thread_yield (Suc 0) demo_tsys = Inr s' \<and> running_thread s' = 0xc0103000"
  using yield_round_robin [OF demo_inv, of 0] by auto

text \<open>
  C10: Preemption: a thread with \<open>n\<close> ticks left stays on the processor for exactly \<open>n\<close> clock
  interrupts, and the next one switches to the head of the ready queue, appends the thread to its
  end and refreshes its time slice from its priority.
\<close>
theorem clock_preempts:
  assumes "sched_inv s rs ts pd" "cur = running_thread s" "n = unat (ticks (tasks s cur))"
  shows "\<exists>s'. run_n clock_interrupt n s = Inr s' \<and> running_thread s' = cur \<and>
    (\<exists>s''. run_n clock_interrupt (Suc n) s = Inr s'' \<and> running_thread s'' = hd (rs @ [cur]) \<and>
       ready_list s'' (tl (rs @ [cur])) \<and> ticks (tasks s'' cur) = priority (tasks s cur))"
proof -
  obtain s' where s': "run_n clock_interrupt n s = Inr s'" "sched_inv s' rs ts pd" "running_thread s' = cur"
    "unat (ticks (tasks s' cur)) = 0" "priority (tasks s' cur) = priority (tasks s cur)"
    using clocks_keep [OF assms(1), of n] unfolding assms(2,3) by auto
  then have "ticks (tasks s' (running_thread s')) = 0" by (simp add: unat_eq_zero)
  from clock_switches [OF s'(2) this] s' show ?thesis by (auto dest: sched_invD(2))
qed

theorem clock_preempts_witness:
  "\<exists>s''. run_n clock_interrupt 3 demo_tsys = Inr s'' \<and> running_thread s'' = 0xc0103000"
proof -
  have "unat (ticks (tasks demo_tsys (running_thread demo_tsys))) = 2"
    by (simp add: demo_tsys_fields demo_task_def)
  moreover have "Suc 2 = 3" by simp
  ultimately show ?thesis
    using clock_preempts [OF demo_inv refl refl] by (auto simp: demo_tsys_fields simp del: run_n.simps)
qed

end
