(* ===== verification/Sync.thy ===== *)
theory Sync
  imports Thread
begin

text \<open>
  Semaphores and locks of \<^verbatim>\<open>thread/sync.c\<close>, and what a thread does when it is switched to again.
  A \<^verbatim>\<open>struct semaphore\<close> at \<open>p\<close> keeps its waiters at \<open>p + 4\<close>; a \<^verbatim>\<open>struct lock\<close> at \<open>l\<close> has its semaphore
  at \<open>l + 4\<close>. A routine that may block returns whether it has finished; when it has not, the
  calling thread is asleep with its frames on its stack and another thread is running.
  The second half interleaves the steps of \<^verbatim>\<open>lock_acquire\<close> and \<^verbatim>\<open>lock_release\<close> of any number of
  threads with clock interrupts and proves mutual exclusion.
\<close>

section \<open>Semaphores\<close>

definition sema_waiters :: "u32 \<Rightarrow> u32" where "sema_waiters psema = psema + 4"
definition lock_semaphore :: "u32 \<Rightarrow> u32" where "lock_semaphore plock = plock + 4"

definition set_sema :: "u32 \<Rightarrow> u8 \<Rightarrow> 'a tsys_scheme \<Rightarrow> 'a tsys_scheme" where
  "set_sema psema v s = s\<lparr>sema_value := (sema_value s)(psema := v)\<rparr>"

definition set_holder :: "u32 \<Rightarrow> u32 \<Rightarrow> 'a tsys_scheme \<Rightarrow> 'a tsys_scheme" where
  "set_holder plock t s = s\<lparr>lock_holder := (lock_holder s)(plock := t)\<rparr>"

definition set_repeat :: "u32 \<Rightarrow> u32 \<Rightarrow> 'a tsys_scheme \<Rightarrow> 'a tsys_scheme" where
  "set_repeat plock n s = s\<lparr>lock_repeat := (lock_repeat s)(plock := n)\<rparr>"

definition sema_init :: "u32 \<Rightarrow> u8 \<Rightarrow> 'a tsys_scheme \<Rightarrow> 'a tsys_scheme" where
  "sema_init psema value s = list_init (sema_waiters psema) (set_sema psema value s)"

definition lock_init :: "u32 \<Rightarrow> 'a tsys_scheme \<Rightarrow> 'a tsys_scheme" where
  "lock_init plock s = sema_init (lock_semaphore plock) 1 (set_repeat plock 0 (set_holder plock NULL s))"

text \<open>
  One pass of the loop of \<^verbatim>\<open>sema_down\<close>, with what follows the loop. A pass that blocks leaves
  the frame of the loop; the thread tests the value again when it comes back.
\<close>

definition sema_down_loop :: "u32 \<Rightarrow> intr_status \<Rightarrow> 'a tsys_scheme \<Rightarrow> (bool \<times> 'a tsys_scheme) res" where
  "sema_down_loop psema old_status s =
     (if sema_value s psema = 0 then
        kbind (elem_find (sema_waiters psema) (general_tag (running_thread s)) s) (\<lambda>found.
          ASSERT (\<not> found)
            (kbind (elem_find (sema_waiters psema) (general_tag (running_thread s)) s) (\<lambda>found.
              if found then Inl PANIC
              else kbind (thread_block TASK_BLOCKED
                     (push_frame (running_thread s) (F_sema_down psema old_status)
                       (list_append (sema_waiters psema) (general_tag (running_thread s)) s)))
                   (\<lambda>s. Inr (False, s)))))
      else
        (let s = set_sema psema (sema_value s psema - 1) s in
         ASSERT (sema_value s psema = 0) (Inr (True, snd (intr_set_status old_status s)))))"

definition sema_down :: "u32 \<Rightarrow> 'a tsys_scheme \<Rightarrow> (bool \<times> 'a tsys_scheme) res" where
  "sema_down psema s = (let (old_status, s) = intr_disable s in sema_down_loop psema old_status s)"

definition sema_up :: "u32 \<Rightarrow> 'a tsys_scheme \<Rightarrow> 'a tsys_scheme res" where
  "sema_up psema s =
     (let (old_status, s) = intr_disable s in
      ASSERT (sema_value s psema = 0)
        (kbind
          (if \<not> list_empty (sema_waiters psema) s then
             (let (tag, s) = list_pop (sema_waiters psema) s in thread_unblock (tag_entry tag) s)
           else Inr s)
          (\<lambda>s. let s = set_sema psema (sema_value s psema + 1) s in
             ASSERT (sema_value s psema = 1) (Inr (snd (intr_set_status old_status s))))))"

section \<open>Locks\<close>

definition lock_taken :: "u32 \<Rightarrow> 'a tsys_scheme \<Rightarrow> 'a tsys_scheme res" where
  "lock_taken plock s =
     (let s = set_holder plock (running_thread s) s in
      ASSERT (lock_repeat s plock = 0) (Inr (set_repeat plock 1 s)))"

definition lock_acquire :: "u32 \<Rightarrow> 'a tsys_scheme \<Rightarrow> (bool \<times> 'a tsys_scheme) res" where
  "lock_acquire plock s =
     (if lock_holder s plock \<noteq> running_thread s then
        kbind (sema_down (lock_semaphore plock) (push_frame (running_thread s) (F_lock_acquire plock) s))
          (\<lambda>(returned, s). if returned then kbind (lock_taken plock (pop_frame s)) (\<lambda>s. Inr (True, s))
             else Inr (False, s))
      else Inr (True, set_repeat plock (lock_repeat s plock + 1) s))"

definition lock_release :: "u32 \<Rightarrow> 'a tsys_scheme \<Rightarrow> 'a tsys_scheme res" where
  "lock_release plock s =
     ASSERT (lock_holder s plock = running_thread s)
       (if lock_repeat s plock > 1 then Inr (set_repeat plock (lock_repeat s plock - 1) s)
        else ASSERT (lock_repeat s plock = 1)
          (sema_up (lock_semaphore plock) (set_repeat plock 0 (set_holder plock NULL s))))"

section \<open>Coming back from a switch\<close>

text \<open>
  What remains of each routine after its switch. The frames of devices are left to
  their component: unwinding stops in front of them.
\<close>

fun finish_frame :: "kframe \<Rightarrow> 'a tsys_scheme \<Rightarrow> (bool \<times> 'a tsys_scheme) res" where
  "finish_frame (F_kernel_thread function func_arg) s = Inr (True, switch_return (F_kernel_thread function func_arg) s)"
| "finish_frame (F_thread_block old_status) s = Inr (True, switch_return (F_thread_block old_status) s)"
| "finish_frame (F_thread_yield old_status) s = Inr (True, switch_return (F_thread_yield old_status) s)"
| "finish_frame (F_intr_exit saved) s = Inr (True, switch_return (F_intr_exit saved) s)"
| "finish_frame (F_sema_down psema old_status) s = sema_down_loop psema old_status s"
| "finish_frame (F_lock_acquire plock) s = kbind (lock_taken plock s) (\<lambda>s. Inr (True, s))"
| "finish_frame _ s = Inr (True, s)"

fun sync_frame :: "kframe \<Rightarrow> bool" where
  "sync_frame (F_kernel_thread function func_arg) \<longleftrightarrow> True"
| "sync_frame (F_thread_block old_status) \<longleftrightarrow> True"
| "sync_frame (F_thread_yield old_status) \<longleftrightarrow> True"
| "sync_frame (F_intr_exit saved) \<longleftrightarrow> True"
| "sync_frame (F_sema_down psema old_status) \<longleftrightarrow> True"
| "sync_frame (F_lock_acquire plock) \<longleftrightarrow> True"
| "sync_frame _ \<longleftrightarrow> False"

fun unwind :: "kframe list \<Rightarrow> 'a tsys_scheme \<Rightarrow> (bool \<times> 'a tsys_scheme) res" where
  "unwind [] s = Inr (True, s)"
| "unwind (f # fs) s =
     (if sync_frame f then
        kbind (finish_frame f (pop_frame s)) (\<lambda>(returned, s). if returned then unwind fs s else Inr (False, s))
      else Inr (True, s))"

definition resume :: "'a tsys_scheme \<Rightarrow> (bool \<times> 'a tsys_scheme) res" where
  "resume s = unwind (kstack (tasks s (running_thread s))) s"

text \<open>
  A routine that may sleep returns \<open>None\<close> while it does. Its caller leaves a frame; when the callee
  has returned at once, the frame is dropped again and the caller goes on.
\<close>

definition after_call :: "kframe \<Rightarrow> ('s tsys_scheme \<Rightarrow> ('a option \<times> 's tsys_scheme) res) \<Rightarrow>
    ('a \<Rightarrow> 's tsys_scheme \<Rightarrow> ('b option \<times> 's tsys_scheme) res) \<Rightarrow> 's tsys_scheme \<Rightarrow> ('b option \<times> 's tsys_scheme) res" where
  "after_call fr f k s =
     kbind (f (push_frame (running_thread s) fr s))
       (\<lambda>(r, s). case r of None \<Rightarrow> Inr (None, s) | Some x \<Rightarrow> k x (pop_frame s))"

definition after_lock :: "kframe \<Rightarrow> u32 \<Rightarrow> ('s tsys_scheme \<Rightarrow> ('b option \<times> 's tsys_scheme) res) \<Rightarrow>
    's tsys_scheme \<Rightarrow> ('b option \<times> 's tsys_scheme) res" where
  "after_lock fr l k s =
     kbind (lock_acquire l (push_frame (running_thread s) fr s))
       (\<lambda>(returned, s). if returned then k (pop_frame s) else Inr (None, s))"

section \<open>Wait queues\<close>

lemma set_sync_fields [simp]:
  "lheap (set_sema p v s) = lheap s" "tasks (set_sema p v s) = tasks s" "running_thread (set_sema p v s) = running_thread s"
  "sema_value (set_sema p v s) = (sema_value s)(p := v)" "lock_holder (set_sema p v s) = lock_holder s"
  "lock_repeat (set_sema p v s) = lock_repeat s" "thread_ready_list (set_sema p v s) = thread_ready_list s"
  "idle_thread (set_sema p v s) = idle_thread s" "eflags (set_sema p v s) = eflags s"
  "lheap (set_holder l t s) = lheap s" "tasks (set_holder l t s) = tasks s" "running_thread (set_holder l t s) = running_thread s"
  "sema_value (set_holder l t s) = sema_value s" "lock_holder (set_holder l t s) = (lock_holder s)(l := t)"
  "lock_repeat (set_holder l t s) = lock_repeat s" "thread_ready_list (set_holder l t s) = thread_ready_list s"
  "idle_thread (set_holder l t s) = idle_thread s" "eflags (set_holder l t s) = eflags s"
  "lheap (set_repeat l n s) = lheap s" "tasks (set_repeat l n s) = tasks s" "running_thread (set_repeat l n s) = running_thread s"
  "sema_value (set_repeat l n s) = sema_value s" "lock_holder (set_repeat l n s) = lock_holder s"
  "lock_repeat (set_repeat l n s) = (lock_repeat s)(l := n)" "thread_ready_list (set_repeat l n s) = thread_ready_list s"
  "idle_thread (set_repeat l n s) = idle_thread s" "eflags (set_repeat l n s) = eflags s"
  by (simp_all add: set_sema_def set_holder_def set_repeat_def running_thread_def)

lemma intr_get_status_sync [simp]:
  "intr_get_status (set_sema p v s) = intr_get_status s" "intr_get_status (set_holder l t s) = intr_get_status s"
  "intr_get_status (set_repeat l n s) = intr_get_status s"
  by (simp_all add: intr_get_status_def)

lemma sched_inv_sync [simp]:
  "sched_inv (set_sema p v s) rs ts pd \<longleftrightarrow> sched_inv s rs ts pd"
  "sched_inv (set_holder l t s) rs ts pd \<longleftrightarrow> sched_inv s rs ts pd"
  "sched_inv (set_repeat l n s) rs ts pd \<longleftrightarrow> sched_inv s rs ts pd"
  by (simp_all add: sched_inv_def sched_wf_def ready_list_def running_thread_def set_sema_def set_holder_def set_repeat_def)

lemma sched_inv_heap:
  "sched_inv s rs ts pd \<Longrightarrow> dlist h (thread_ready_list s) (map general_tag rs) \<Longrightarrow> sched_inv (s\<lparr>lheap := h\<rparr>) rs ts pd"
  by (simp add: sched_inv_def sched_wf_def ready_list_def running_thread_def)

text \<open>The ends of the wait list are neither those of the ready list nor tags of tasks.\<close>

definition queue_sep :: "'a tsys_scheme \<Rightarrow> u32 \<Rightarrow> u32 list \<Rightarrow> bool" where
  "queue_sep s w ts \<longleftrightarrow>
     {w, list_tail w} \<inter> {thread_ready_list s, list_tail (thread_ready_list s)} = {} \<and>
     (\<forall>t\<in>set ts. general_tag t \<noteq> w \<and> general_tag t \<noteq> list_tail w)"

definition wait_list :: "'a tsys_scheme \<Rightarrow> u32 \<Rightarrow> u32 list \<Rightarrow> bool" where
  "wait_list s w ws \<longleftrightarrow> dlist (lheap s) w (map general_tag ws)"

lemma wait_nodes_disjoint:
  assumes "queue_sep s w ts" "sched_wf s ts pd" "set rs \<subseteq> set ts" "set ws \<subseteq> set ts" "set rs \<inter> set ws = {}"
  shows "nodes w (map general_tag ws) \<inter> nodes (thread_ready_list s) (map general_tag rs) = {}"
proof -
  have "general_tag t \<noteq> thread_ready_list s \<and> general_tag t \<noteq> list_tail (thread_ready_list s)" if "t \<in> set ts" for t
    using assms(2) that by (simp add: sched_wf_def)
  moreover have "general_tag t \<noteq> w \<and> general_tag t \<noteq> list_tail w" if "t \<in> set ts" for t
    using assms(1) that by (simp add: queue_sep_def)
  ultimately show ?thesis using assms(1,3,4,5) unfolding nodes_def queue_sep_def by auto blast+
qed

lemma wait_append:
  assumes "sched_inv s rs ts pd" "queue_sep s w ts" "wait_list s w ws" "set ws \<subseteq> set ts" "set rs \<inter> set ws = {}"
    "t \<in> set ts" "t \<notin> set ws" "t \<notin> set rs"
  shows "wait_list (list_append w (general_tag t) s) w (ws @ [t])"
    "sched_inv (list_append w (general_tag t) s) rs ts pd"
proof -
  note inv = sched_invD [OF assms(1)]
  have n: "general_tag t \<notin> nodes w (map general_tag ws)"
    using assms(2,6,7) by (auto simp: nodes_def queue_sep_def)
  have r: "general_tag t \<notin> nodes (thread_ready_list s) (map general_tag rs)"
    by (rule tag_fresh [OF inv(1) assms(6,8)])
  show "wait_list (list_append w (general_tag t) s) w (ws @ [t])"
    using lq.is_app [of s w "map general_tag ws"] assms(3) n by (simp add: wait_list_def)
  have "dlist (lheap (list_append w (general_tag t) s)) (thread_ready_list s) (map general_tag rs)"
    using lq.app_other [of s w "map general_tag ws" "general_tag t"] assms(3) inv(2) n r
      wait_nodes_disjoint [OF assms(2) inv(1) inv(3) assms(4,5)]
    by (simp add: wait_list_def ready_list_def)
  from sched_inv_heap [OF assms(1) this] show "sched_inv (list_append w (general_tag t) s) rs ts pd"
    by (simp flip: list_op_fields(2))
qed

lemma wait_pop:
  assumes "sched_inv s rs ts pd" "queue_sep s w ts" "wait_list s w (t # ws)" "set (t # ws) \<subseteq> set ts"
    "set rs \<inter> set (t # ws) = {}"
  shows "list_pop w s = (general_tag t, list_remove (general_tag t) s)"
    "wait_list (list_remove (general_tag t) s) w ws" "sched_inv (list_remove (general_tag t) s) rs ts pd"
proof -
  note inv = sched_invD [OF assms(1)]
  show "list_pop w s = (general_tag t, list_remove (general_tag t) s)"
    using lq.pop_rem [of s w "general_tag t"] assms(3) by (simp add: wait_list_def)
  show "wait_list (list_remove (general_tag t) s) w ws"
    using lq.is_rem [of s w "map general_tag (t # ws)" "general_tag t"] assms(3) by (simp add: wait_list_def)
  have "dlist (lheap (list_remove (general_tag t) s)) (thread_ready_list s) (map general_tag rs)"
    using lq.rem_other [of s w "map general_tag (t # ws)" "general_tag t"] assms(3) inv(2)
      wait_nodes_disjoint [OF assms(2) inv(1) inv(3) assms(4,5)]
    by (simp add: wait_list_def ready_list_def)
  from sched_inv_heap [OF assms(1) this] show "sched_inv (list_remove (general_tag t) s) rs ts pd"
    by (simp flip: list_op_fields(3))
qed

text \<open>Changes of the ready list leave the wait list alone.\<close>

lemma wait_frame:
  assumes "wait_list s w ws" "ready_frame s s' A" "queue_sep s w ts" "sched_wf s ts pd" "A \<subseteq> set ts"
    "set ws \<subseteq> set ts" "A \<inter> set ws = {}"
  shows "wait_list s' w ws"
  unfolding wait_list_def
proof (rule dlist_frame [OF assms(1) [unfolded wait_list_def]])
  fix x assume x: "x \<in> nodes w (map general_tag ws)"
  obtain as where as: "set as = A" using assms(5) finite_subset [OF _ finite_set] finite_list by metis
  have "x \<notin> nodes (thread_ready_list s) (map general_tag as)"
    using wait_nodes_disjoint [OF assms(3,4), of as ws] assms(5-7) x as by blast
  then show "lheap s' x = lheap s x" using assms(2) as by (simp add: ready_frame_def nodes_def)
qed

section \<open>Effects of the semaphore operations\<close>

lemma intr_set_status_sema:
  "snd (intr_set_status st (set_sema p v s)) = set_sema p v (snd (intr_set_status st s))"
proof -
  have "intr_get_status (s\<lparr>sema_value := f\<rparr>) = intr_get_status s" for f by (simp add: intr_get_status_def)
  then show ?thesis
    by (cases st; cases "intr_get_status s")
      (simp_all add: intr_set_status_def intr_enable_def intr_disable_def sti_def cli_def set_sema_def)
qed

lemma sema_down_loop_free:
  "sema_value s p = 1 \<Longrightarrow> sema_down_loop p old s = Inr (True, set_sema p 0 (snd (intr_set_status old s)))"
  by (simp add: sema_down_loop_def Let_def intr_set_status_sema)

lemma sema_down_free: "sema_value s p = 1 \<Longrightarrow> sema_down p s = Inr (True, set_sema p 0 s)"
  by (simp add: sema_down_def split_beta sema_down_loop_free)

text \<open>A busy semaphore: the thread queues itself at the end of the waiters and blocks.\<close>

lemma sema_down_loop_blocks:
  assumes inv: "sched_inv s rs ts pd" and sep: "queue_sep s (sema_waiters p) ts"
    and w: "wait_list s (sema_waiters p) ws" "set ws \<subseteq> set ts" "set rs \<inter> set ws = {}"
    and r: "running_thread s \<notin> set ws" "running_thread s \<noteq> idle_thread s" "idle_thread s \<notin> set ws"
    and v: "sema_value s p = 0" and off: "intr_get_status s = INTR_OFF"
  defines "cur \<equiv> running_thread s" and "rs2 \<equiv> (if rs = [] then [idle_thread s] else rs)"
  shows "\<exists>s'. sema_down_loop p old s = Inr (False, s') \<and> sched_inv s' (tl rs2) ts pd \<and> running_thread s' = hd rs2 \<and>
    wait_list s' (sema_waiters p) (ws @ [cur]) \<and> status (tasks s' cur) = TASK_BLOCKED \<and>
    kstack (tasks s' cur) = F_thread_block INTR_OFF # F_sema_down p old # kstack (tasks s cur) \<and>
    (\<forall>t. t \<noteq> cur \<longrightarrow> kstack (tasks s' t) = kstack (tasks s t)) \<and>
    (\<forall>t. t \<noteq> cur \<and> t \<noteq> hd rs2 \<longrightarrow> tasks s' t = tasks s t) \<and> intr_get_status s' = INTR_OFF \<and>
    sema_value s' = sema_value s \<and> lock_holder s' = lock_holder s \<and> lock_repeat s' = lock_repeat s \<and>
    thread_ready_list s' = thread_ready_list s \<and> idle_thread s' = idle_thread s \<and> tsys.more s' = tsys.more s"
proof -
  let ?w = "sema_waiters p"
  note invD = sched_invD [OF inv]
  have cts: "cur \<in> set ts" "idle_thread s \<in> set ts" using sched_wfD [OF invD(1)] by (simp_all add: cur_def)
  have nrs: "cur \<notin> set rs" using invD(4) [OF cts(1)] invD(5) [OF cts(1)] by (simp add: cur_def)
  have find: "elem_find ?w (general_tag cur) s = Inr False"
    using lq.fnd_iff [of s ?w "map general_tag ws"] w(1) r(1) by (auto simp: wait_list_def cur_def)
  let ?a = "list_append ?w (general_tag cur) s"
  let ?f = "push_frame cur (F_sema_down p old) ?a"
  have wa: "wait_list ?a ?w (ws @ [cur])" "sched_inv ?a rs ts pd"
    using wait_append [OF inv sep w cts(1) _ nrs] r(1) by (simp_all add: cur_def)
  then have f: "sched_inv ?f rs ts pd" "wait_list ?f ?w (ws @ [cur])" by (simp_all add: wait_list_def)
  have "is_blocked TASK_BLOCKED" by (simp add: is_blocked_def)
  have ff: "running_thread ?f = cur" "idle_thread ?f = idle_thread s" by (simp_all add: cur_def)
  from thread_block_ok [OF f(1) \<open>is_blocked _\<close>, unfolded ff] obtain s' where s': "thread_block TASK_BLOCKED ?f = Inr s'"
    "sched_inv s' (tl rs2) ts pd" "running_thread s' = hd rs2" "switched ?f s' (F_thread_block (intr_get_status ?f)) rs"
    "ready_frame ?f s' (set rs \<union> {idle_thread s})" "cur \<noteq> hd rs2 \<longrightarrow> status (tasks s' cur) = TASK_BLOCKED"
    unfolding rs2_def by auto
  have "cur \<noteq> hd rs2" using nrs r(2) by (cases rs) (auto simp: rs2_def cur_def)
  have "wait_list s' ?w (ws @ [cur])"
    by (rule wait_frame [OF f(2) s'(5) _ sched_invD(1) [OF f(1)]])
      (use sep invD(3) w(2,3) r cts nrs in \<open>auto simp: queue_sep_def cur_def\<close>)
  moreover have "sema_down_loop p old s = Inr (False, s')"
    using v find s'(1) by (simp add: sema_down_loop_def cur_def)
  moreover have "intr_get_status ?f = INTR_OFF" using off by simp
  ultimately show ?thesis
    using s'(2,3,6) \<open>cur \<noteq> hd rs2\<close> s'(4) [unfolded switched_def] by (auto simp: cur_def)
qed

text \<open>\<^verbatim>\<open>sema_up\<close> moves the first waiter to the head of the ready queue.\<close>

lemma list_remove_disable: "list_remove e (snd (intr_disable s)) = snd (intr_disable (list_remove e s))"
  by (simp add: list_remove_eq intr_disable_def cli_def)

lemma list_pop_disable: "list_pop w (snd (intr_disable s)) = (fst (list_pop w s), snd (intr_disable (snd (list_pop w s))))"
  by (simp add: list_pop_def Let_def list_remove_disable)

lemma thread_unblock_disable:
  assumes "thread_unblock t s = Inr s1"
  shows "thread_unblock t (snd (intr_disable s)) = Inr (snd (intr_disable s1))"
proof -
  let ?d = "snd (intr_disable s)"
  let ?g = "\<lambda>s. task_upd t (status_update (\<lambda>_. TASK_READY)) (list_push (thread_ready_list s) (general_tag t) s)"
  have f: "elem_find (thread_ready_list s) (general_tag t) ?d = Inr False" "is_blocked (status (tasks s t))"
    "status (tasks s t) \<noteq> TASK_READY"
    using assms by (auto simp: thread_unblock_def split_beta kres_simps is_blocked_def ASSERT_def split: if_splits)
  have off: "intr_disable ?d = (INTR_OFF, ?d)" by (simp add: intr_disable_def)
  have set: "snd (intr_set_status INTR_OFF x) = x" if "intr_get_status x = INTR_OFF" for x :: "'a tsys_scheme"
    using that by (simp add: intr_set_status_def intr_disable_def)
  have g: "?g ?d = snd (intr_disable (?g s))"
    by (simp add: task_upd_def list_push_def list_insert_before_eq intr_disable_def cli_def intr_get_status_def)
  have "s1 = ?g s" using assms f
    by (simp add: thread_unblock_def split_beta task_upd_def list_push_def list_insert_before_eq
        intr_set_status_tasks intr_set_status_lheap)
  then show ?thesis using f g set [of "?g ?d"]
    by (simp add: thread_unblock_def off)
qed

text \<open>The task table after \<^verbatim>\<open>sema_up\<close>: the first waiter is ready.\<close>

definition woken :: "u32 list \<Rightarrow> (u32 \<Rightarrow> task_struct) \<Rightarrow> u32 \<Rightarrow> task_struct" where
  "woken ws tk = (case ws of [] \<Rightarrow> tk | t # _ \<Rightarrow> tk(t := (tk t)\<lparr>status := TASK_READY\<rparr>))"

lemma sema_up_ok:
  assumes inv: "sched_inv s rs ts pd" and sep: "queue_sep s (sema_waiters p) ts"
    and w: "wait_list s (sema_waiters p) ws" "set ws \<subseteq> set ts" "set rs \<inter> set ws = {}" "distinct ws"
    and b: "\<forall>t\<in>set ws. is_blocked (status (tasks s t))" and v: "sema_value s p = 0"
  shows "\<exists>s'. sema_up p s = Inr s' \<and> sched_inv s' (take 1 ws @ rs) ts pd \<and> wait_list s' (sema_waiters p) (tl ws) \<and>
    running_thread s' = running_thread s \<and> eflags s' = eflags s \<and> sema_value s' = (sema_value s)(p := 1) \<and>
    lock_holder s' = lock_holder s \<and> lock_repeat s' = lock_repeat s \<and> tasks s' = woken ws (tasks s) \<and>
    thread_ready_list s' = thread_ready_list s \<and> idle_thread s' = idle_thread s"
proof (cases ws)
  case Nil
  have "list_empty (sema_waiters p) (snd (intr_disable s))"
    using list_empty_iff [of s] w(1) Nil by (simp add: wait_list_def list_empty_def)
  then have "sema_up p s = Inr (set_sema p 1 s)"
    using v by (simp add: sema_up_def split_beta Let_def intr_set_status_sema)
  then show ?thesis using inv w(1) Nil by (simp add: wait_list_def woken_def)
next
  case (Cons t ws')
  let ?w = "sema_waiters p" and ?s1 = "list_remove (general_tag t) s"
  note pop = wait_pop [OF inv sep w(1-3) [unfolded Cons]]
  have ne: "\<not> list_empty ?w (snd (intr_disable s))"
    using list_empty_iff [of s] w(1) Cons by (simp add: wait_list_def list_empty_def)
  have t: "t \<in> set ts" "is_blocked (status (tasks ?s1 t))" "t \<notin> set ws'" using w(2,4) b Cons by auto
  obtain s2 where s2: "thread_unblock t ?s1 = Inr s2" "sched_inv s2 (t # rs) ts pd"
    "running_thread s2 = running_thread s" "ready_frame ?s1 s2 (insert t (set rs))" "sched_only ?s1 s2"
    "\<forall>u. tasks s2 u = (if u = t then (tasks s t)\<lparr>status := TASK_READY\<rparr> else tasks s u)"
    using thread_unblock_ok [OF pop(3) t(1,2)] by auto
  note s2D = sched_onlyD [OF s2(5)]
  have e: "intr_get_status s2 = intr_get_status s"
    by (rule intr_get_status_cong) (simp add: s2D)
  have lp: "list_pop ?w (snd (intr_disable s)) = (general_tag t, snd (intr_disable ?s1))"
    by (simp add: list_pop_disable pop(1))
  have sv: "sema_value s2 p = 0" using v by (simp add: s2D)
  have restore: "snd (intr_set_status (intr_get_status s) (snd (intr_disable s2))) = s2"
    using intr_restore [of s2] by (simp add: e)
  have "sema_up p s = Inr (set_sema p 1 s2)"
    using v ne sv thread_unblock_disable [OF s2(1)] restore
    by (simp add: sema_up_def split_beta Let_def intr_set_status_sema lp)
  moreover have "wait_list s2 ?w ws'"
    by (rule wait_frame [OF pop(2) s2(4) _ sched_invD(1) [OF pop(3)]])
      (use sep sched_invD(3) [OF inv] w(2,3) Cons t in \<open>auto simp: queue_sep_def\<close>)
  moreover have "tasks s2 = woken ws (tasks s)" using s2(6) Cons by (auto simp: woken_def)
  ultimately show ?thesis using s2 s2D Cons v by (auto simp: wait_list_def)
qed

section \<open>Sections under a free lock\<close>

definition lock_free :: "u32 \<Rightarrow> 'a tsys_scheme \<Rightarrow> bool" where
  "lock_free l s \<longleftrightarrow> sema_value s (lock_semaphore l) = 1 \<and> lock_holder s l = NULL \<and> lock_repeat s l = 0 \<and>
     list_empty (sema_waiters (lock_semaphore l)) s"

definition locked :: "u32 \<Rightarrow> 'a tsys_scheme \<Rightarrow> 'a tsys_scheme" where
  "locked l s = set_repeat l 1 (set_holder l (running_thread s) (set_sema (lock_semaphore l) 0 s))"

definition unlocked :: "u32 \<Rightarrow> 'a tsys_scheme \<Rightarrow> 'a tsys_scheme" where
  "unlocked l s = set_sema (lock_semaphore l) 1 (set_repeat l 0 (set_holder l NULL s))"

lemma push_pop_frame: "pop_frame (push_frame (running_thread s) f s) = s"
  by (simp add: pop_frame_def push_frame_def task_upd_def running_thread_def)

lemma list_empty_disable [simp]: "list_empty w (snd (intr_disable s)) = list_empty w s"
  by (simp add: list_empty_def intr_disable_def cli_def)

lemma lock_acquire_free:
  assumes "sema_value s (lock_semaphore l) = 1" "lock_holder s l \<noteq> running_thread s" "lock_repeat s l = 0"
  shows "lock_acquire l s = Inr (True, set_repeat l 1 (set_holder l (running_thread s) (set_sema (lock_semaphore l) 0 s)))"
proof -
  have "pop_frame (set_sema p 0 (push_frame (running_thread s) f s)) = set_sema p 0 s" for p f
    by (simp add: pop_frame_def push_frame_def task_upd_def set_sema_def running_thread_def)
  then show ?thesis using assms by (simp add: lock_acquire_def sema_down_free lock_taken_def Let_def)
qed

lemma after_lock_free:
  assumes "lock_free l s" "running_thread s \<noteq> NULL"
  shows "after_lock fr l k s = k (locked l s)"
proof -
  let ?f = "push_frame (running_thread s) fr s"
  have "lock_acquire l ?f = Inr (True, locked l ?f)"
    using lock_acquire_free [of ?f l] assms by (simp add: lock_free_def locked_def)
  moreover have "pop_frame (locked l ?f) = locked l s"
    by (simp add: pop_frame_def push_frame_def task_upd_def set_sema_def set_holder_def set_repeat_def running_thread_def locked_def)
  ultimately show ?thesis by (simp add: after_lock_def)
qed

lemma lock_release_last:
  assumes "lock_holder s l = running_thread s" "lock_repeat s l = 1" "sema_value s (lock_semaphore l) = 0"
    "list_empty (sema_waiters (lock_semaphore l)) s"
  shows "lock_release l s = Inr (unlocked l s)"
proof -
  let ?t = "set_repeat l 0 (set_holder l NULL s)"
  have "list_empty w ?t = list_empty w s" for w by (simp add: list_empty_def)
  moreover have "snd (intr_set_status (intr_get_status s) (snd (intr_disable ?t))) = ?t"
    using intr_restore [of ?t] by simp
  ultimately show ?thesis
    using assms by (simp add: lock_release_def sema_up_def split_beta Let_def intr_set_status_sema unlocked_def)
qed

lemma unlocked_locked: "lock_free l s \<Longrightarrow> unlocked l (locked l s) = s"
  by (auto simp: unlocked_def locked_def lock_free_def set_sema_def set_holder_def set_repeat_def fun_upd_idem)

lemma locked_fields [simp]:
  "lheap (locked l s) = lheap s" "tasks (locked l s) = tasks s" "running_thread (locked l s) = running_thread s"
  "lock_holder (locked l s) l = running_thread s" "lock_repeat (locked l s) l = 1"
  "sema_value (locked l s) (lock_semaphore l) = 0" "phys (locked l s) = phys s" "cr3 (locked l s) = cr3 s"
  "tsys.more (locked l s) = tsys.more s" "eflags (locked l s) = eflags s"
  by (simp_all add: locked_def set_sema_def set_holder_def set_repeat_def running_thread_def)

lemma lock_init_ok:
  assumes "sched_inv s rs ts pd" "queue_sep s (sema_waiters (lock_semaphore l)) ts"
  shows "sched_inv (lock_init l s) rs ts pd" "lock_free l (lock_init l s)"
    "wait_list (lock_init l s) (sema_waiters (lock_semaphore l)) []"
    "queue_sep (lock_init l s) (sema_waiters (lock_semaphore l)) ts"
proof -
  let ?w = "sema_waiters (lock_semaphore l)"
  let ?s = "set_sema (lock_semaphore l) 1 (set_repeat l 0 (set_holder l NULL s))"
  have init: "lock_init l s = list_init ?w ?s" by (simp add: lock_init_def sema_init_def)
  have eq: "lock_init l s = ?s\<lparr>lheap := lheap (lock_init l s)\<rparr>" by (simp add: init list_init_def)
  have n: "?w \<notin> nodes (thread_ready_list s) (map general_tag rs)" "?w + 8 \<notin> nodes (thread_ready_list s) (map general_tag rs)"
    using assms(2) sched_invD(3) [OF assms(1)] by (auto simp: queue_sep_def nodes_def)
  have fr: "lheap (lock_init l s) x = lheap s x" if "x \<in> nodes (thread_ready_list s) (map general_tag rs)" for x
  proof -
    have "x \<noteq> ?w" "x \<noteq> ?w + 8" using that n by metis+
    then show ?thesis using list_init_frame [of x ?w ?s] by (simp add: init)
  qed
  have "dlist (lheap (lock_init l s)) (thread_ready_list s) (map general_tag rs)"
    using dlist_frame [OF sched_invD(2) [OF assms(1), unfolded ready_list_def] fr] .
  then have "sched_inv (?s\<lparr>lheap := lheap (lock_init l s)\<rparr>) rs ts pd"
    by (intro sched_inv_heap) (simp_all add: assms(1))
  then show "sched_inv (lock_init l s) rs ts pd" by (simp only: eq [symmetric])
  show w: "wait_list (lock_init l s) ?w []" unfolding wait_list_def init by (simp add: dlist_init)
  then have "list_empty ?w (lock_init l s)"
    using list_empty_iff [of "lock_init l s" ?w "[]"] by (simp only: wait_list_def list.map)
  moreover have "sema_value (lock_init l s) (lock_semaphore l) = 1" "lock_holder (lock_init l s) l = NULL"
    "lock_repeat (lock_init l s) l = 0" by (subst eq; simp)+
  ultimately show "lock_free l (lock_init l s)" by (simp only: lock_free_def simp_thms)
  have "thread_ready_list (lock_init l s) = thread_ready_list s" by (subst eq) simp
  then show "queue_sep (lock_init l s) ?w ts" using assms(2) unfolding queue_sep_def by argo
qed

end
