(* ===== verification/Mutex.thy ===== *)
theory Mutex
  imports Sync
begin

text \<open>
  Mutual exclusion by the locks of \<^verbatim>\<open>thread/sync.c\<close>. Any number of threads run \<^verbatim>\<open>lock_acquire\<close> and
  \<^verbatim>\<open>lock_release\<close> of one lock, nested as they like, on the scheduler of \<open>Thread\<close>. The program
  counter of each thread says between which two statements of the routines it is; a clock
  interrupt or a yield can come between any two of them. Semaphore operations are one step
  because they run with interrupts off; when one blocks, the thread comes back through \<open>resume\<close>.
\<close>

section \<open>The interleaved system\<close>

text \<open>
  \<open>L_out\<close>: outside; \<open>L_down\<close>: found another holder and calls \<^verbatim>\<open>sema_down\<close>; \<open>L_wait\<close>: inside its
  loop; \<open>L_own\<close>: \<^verbatim>\<open>sema_down\<close> has returned; \<open>L_mark\<close>: the holder is stored, the count is not;
  \<open>L_crit\<close>: the lock is held; \<open>L_clear\<close>, \<open>L_zero\<close>, \<open>L_up\<close>: the three last statements of
  \<^verbatim>\<open>lock_release\<close> are still to come, in this order.
\<close>

datatype lpc = L_out | L_down | L_wait | L_own | L_mark | L_crit | L_clear | L_zero | L_up

datatype lop = Acquire | Down | Take | Mark | Release | Clear | Zero | Up | Resume | Tick | Give_up | Idle_sleep

type_synonym 'a config = "'a tsys_scheme \<times> (u32 \<Rightarrow> lpc)"

fun lock_op :: "u32 \<Rightarrow> lop \<Rightarrow> 'a config \<Rightarrow> 'a config res" where
  "lock_op l Acquire (s, pc) =
     (if lock_holder s l \<noteq> running_thread s then Inr (s, pc(running_thread s := L_down))
      else Inr (set_repeat l (lock_repeat s l + 1) s, pc))"
| "lock_op l Down (s, pc) =
     kbind (sema_down (lock_semaphore l) s) (\<lambda>(returned, s').
       Inr (s', pc(running_thread s := if returned then L_own else L_wait)))"
| "lock_op l Take (s, pc) = Inr (set_holder l (running_thread s) s, pc(running_thread s := L_mark))"
| "lock_op l Mark (s, pc) =
     ASSERT (lock_repeat s l = 0) (Inr (set_repeat l 1 s, pc(running_thread s := L_crit)))"
| "lock_op l Release (s, pc) =
     ASSERT (lock_holder s l = running_thread s)
       (if lock_repeat s l > 1 then Inr (set_repeat l (lock_repeat s l - 1) s, pc)
        else ASSERT (lock_repeat s l = 1) (Inr (s, pc(running_thread s := L_clear))))"
| "lock_op l Clear (s, pc) = Inr (set_holder l NULL s, pc(running_thread s := L_zero))"
| "lock_op l Zero (s, pc) = Inr (set_repeat l 0 s, pc(running_thread s := L_up))"
| "lock_op l Up (s, pc) =
     kbind (sema_up (lock_semaphore l) s) (\<lambda>s'. Inr (s', pc(running_thread s := L_out)))"
| "lock_op l Resume (s, pc) =
     kbind (resume s) (\<lambda>(returned, s').
       Inr (s', if pc (running_thread s) = L_wait \<and> returned then pc(running_thread s := L_own) else pc))"
| "lock_op l Tick (s, pc) = kbind (clock_interrupt s) (\<lambda>s'. Inr (s', pc))"
| "lock_op l Give_up (s, pc) = kbind (thread_yield s) (\<lambda>s'. Inr (s', pc))"
| "lock_op l Idle_sleep (s, pc) = kbind (thread_block TASK_BLOCKED s) (\<lambda>s'. Inr (s', pc))"

text \<open>
  When the running thread takes which step. A thread that was just switched to first comes back
  from its frames. Only the idle thread sleeps on its own, and it takes no locks. The count of
  nested acquisitions of one thread stays below the wrap-around of its 32-bit counter.
\<close>

fun lop_enabled :: "u32 \<Rightarrow> lop \<Rightarrow> 'a config \<Rightarrow> bool" where
  "lop_enabled l Resume (s, pc) \<longleftrightarrow> kstack (tasks s (running_thread s)) \<noteq> []"
| "lop_enabled l Tick (s, pc) \<longleftrightarrow> kstack (tasks s (running_thread s)) = [] \<and> intr_get_status s = INTR_ON"
| "lop_enabled l Give_up (s, pc) \<longleftrightarrow> kstack (tasks s (running_thread s)) = []"
| "lop_enabled l Idle_sleep (s, pc) \<longleftrightarrow>
     kstack (tasks s (running_thread s)) = [] \<and> running_thread s = idle_thread s"
| "lop_enabled l Acquire (s, pc) \<longleftrightarrow>
     kstack (tasks s (running_thread s)) = [] \<and> running_thread s \<noteq> idle_thread s \<and>
     (pc (running_thread s) = L_out \<or> pc (running_thread s) = L_crit \<and> lock_repeat s l \<noteq> 0xffffffff)"
| "lop_enabled l Down (s, pc) \<longleftrightarrow> kstack (tasks s (running_thread s)) = [] \<and> pc (running_thread s) = L_down"
| "lop_enabled l Take (s, pc) \<longleftrightarrow> kstack (tasks s (running_thread s)) = [] \<and> pc (running_thread s) = L_own"
| "lop_enabled l Mark (s, pc) \<longleftrightarrow> kstack (tasks s (running_thread s)) = [] \<and> pc (running_thread s) = L_mark"
| "lop_enabled l Release (s, pc) \<longleftrightarrow> kstack (tasks s (running_thread s)) = [] \<and> pc (running_thread s) = L_crit"
| "lop_enabled l Clear (s, pc) \<longleftrightarrow> kstack (tasks s (running_thread s)) = [] \<and> pc (running_thread s) = L_clear"
| "lop_enabled l Zero (s, pc) \<longleftrightarrow> kstack (tasks s (running_thread s)) = [] \<and> pc (running_thread s) = L_zero"
| "lop_enabled l Up (s, pc) \<longleftrightarrow> kstack (tasks s (running_thread s)) = [] \<and> pc (running_thread s) = L_up"

inductive lock_reach :: "u32 \<Rightarrow> 'a config \<Rightarrow> 'a config \<Rightarrow> bool" for l c0 where
  start: "lock_reach l c0 c0"
| step: "lock_reach l c0 c \<Longrightarrow> lop_enabled l op c \<Longrightarrow> lock_op l op c = Inr c' \<Longrightarrow> lock_reach l c0 c'"

section \<open>The invariant\<close>

definition own :: "lpc \<Rightarrow> bool" where
  "own x \<longleftrightarrow> x \<noteq> L_out \<and> x \<noteq> L_down \<and> x \<noteq> L_wait"

definition holds :: "lpc \<Rightarrow> bool" where
  "holds x \<longleftrightarrow> x = L_mark \<or> x = L_crit \<or> x = L_clear"

text \<open>A thread owns the semaphore from the return of \<^verbatim>\<open>sema_down\<close> to the call of \<^verbatim>\<open>sema_up\<close>.\<close>

definition lock_vals :: "u32 \<Rightarrow> 'a tsys_scheme \<Rightarrow> (u32 \<Rightarrow> lpc) \<Rightarrow> u32 list \<Rightarrow> bool" where
  "lock_vals l s pc ts \<longleftrightarrow>
     (\<forall>t\<in>set ts. \<forall>u\<in>set ts. own (pc t) \<and> own (pc u) \<longrightarrow> t = u) \<and>
     sema_value s (lock_semaphore l) = (if \<exists>t\<in>set ts. own (pc t) then 0 else 1) \<and>
     (\<forall>t\<in>set ts. holds (pc t) \<longrightarrow> lock_holder s l = t) \<and>
     ((\<forall>t\<in>set ts. \<not> holds (pc t)) \<longrightarrow> lock_holder s l = NULL) \<and>
     (\<forall>t\<in>set ts. pc t = L_crit \<longrightarrow> lock_repeat s l \<noteq> 0) \<and>
     (\<forall>t\<in>set ts. pc t = L_clear \<or> pc t = L_zero \<longrightarrow> lock_repeat s l = 1) \<and>
     ((\<forall>t\<in>set ts. pc t \<noteq> L_crit \<and> pc t \<noteq> L_clear \<and> pc t \<noteq> L_zero) \<longrightarrow> lock_repeat s l = 0)"

fun simple_frame :: "kframe \<Rightarrow> bool" where
  "simple_frame (F_intr_exit saved) \<longleftrightarrow> EFLAGS_IF AND saved \<noteq> 0"
| "simple_frame (F_thread_yield st) \<longleftrightarrow> st = INTR_ON"
| "simple_frame (F_thread_block st) \<longleftrightarrow> st = INTR_ON"
| "simple_frame (F_kernel_thread f a) \<longleftrightarrow> True"
| "simple_frame _ \<longleftrightarrow> False"

definition wait_frames :: "u32 \<Rightarrow> kframe list" where
  "wait_frames l = [F_thread_block INTR_OFF, F_sema_down (lock_semaphore l) INTR_ON]"

definition stacks_ok :: "u32 \<Rightarrow> 'a tsys_scheme \<Rightarrow> (u32 \<Rightarrow> lpc) \<Rightarrow> u32 list \<Rightarrow> bool" where
  "stacks_ok l s pc ts \<longleftrightarrow>
     (intr_get_status s = INTR_ON \<longleftrightarrow> kstack (tasks s (running_thread s)) = []) \<and>
     (\<forall>t\<in>set ts. pc t = L_wait \<longrightarrow> kstack (tasks s t) = wait_frames l) \<and>
     (\<forall>t\<in>set ts. pc t \<noteq> L_wait \<longrightarrow> (t = running_thread s \<and> kstack (tasks s t) = []) \<or>
        (\<exists>f. kstack (tasks s t) = [f] \<and> simple_frame f))"

text \<open>
  The waiters are asleep inside the loop; a thread in the loop that is not queued was woken.
  Whenever the semaphore is free and somebody waits, a woken thread is on its way.
\<close>

definition wait_ok :: "u32 \<Rightarrow> 'a tsys_scheme \<Rightarrow> (u32 \<Rightarrow> lpc) \<Rightarrow> u32 list \<Rightarrow> u32 list \<Rightarrow> bool" where
  "wait_ok l s pc ts ws \<longleftrightarrow>
     queue_sep s (sema_waiters (lock_semaphore l)) ts \<and> wait_list s (sema_waiters (lock_semaphore l)) ws \<and>
     distinct ws \<and> set ws \<subseteq> set ts \<and> (\<forall>t\<in>set ws. pc t = L_wait) \<and>
     (\<forall>t\<in>set ts. pc t = L_wait \<longrightarrow> (status (tasks s t) = TASK_BLOCKED \<longleftrightarrow> t \<in> set ws)) \<and>
     (sema_value s (lock_semaphore l) \<noteq> 0 \<and> ws \<noteq> [] \<longrightarrow> (\<exists>t\<in>set ts. pc t = L_wait \<and> t \<notin> set ws))"

definition lock_inv ::
  "u32 \<Rightarrow> 'a config \<Rightarrow> u32 list \<Rightarrow> (u32 \<Rightarrow> u32) \<Rightarrow> u32 list \<Rightarrow> u32 list \<Rightarrow> bool" where
  "lock_inv l c ts pd rs ws \<longleftrightarrow> (case c of (s, pc) \<Rightarrow>
     sched_inv s rs ts pd \<and> lock_vals l s pc ts \<and> stacks_ok l s pc ts \<and> wait_ok l s pc ts ws \<and>
     pc (idle_thread s) = L_out)"

lemma lock_invD:
  assumes "lock_inv l (s, pc) ts pd rs ws"
  shows "sched_inv s rs ts pd" "lock_vals l s pc ts" "stacks_ok l s pc ts" "wait_ok l s pc ts ws"
    "pc (idle_thread s) = L_out" "running_thread s \<in> set ts" "idle_thread s \<in> set ts"
    "running_thread s \<notin> set rs"
proof -
  show inv: "sched_inv s rs ts pd" and "lock_vals l s pc ts" "stacks_ok l s pc ts" "wait_ok l s pc ts ws"
    "pc (idle_thread s) = L_out"
    using assms by (simp_all add: lock_inv_def)
  show r: "running_thread s \<in> set ts" "idle_thread s \<in> set ts" using sched_wfD [OF sched_invD(1) [OF inv]] by simp_all
  show "running_thread s \<notin> set rs" using sched_invD(4,5) [OF inv r(1)] by simp
qed

lemma wait_okD:
  assumes "wait_ok l s pc ts ws"
  shows "queue_sep s (sema_waiters (lock_semaphore l)) ts" "wait_list s (sema_waiters (lock_semaphore l)) ws"
    "distinct ws" "set ws \<subseteq> set ts" "t \<in> set ws \<Longrightarrow> pc t = L_wait"
    "t \<in> set ts \<Longrightarrow> pc t = L_wait \<Longrightarrow> status (tasks s t) = TASK_BLOCKED \<longleftrightarrow> t \<in> set ws"
    "sema_value s (lock_semaphore l) \<noteq> 0 \<Longrightarrow> ws \<noteq> [] \<Longrightarrow> \<exists>t\<in>set ts. pc t = L_wait \<and> t \<notin> set ws"
  using assms unfolding wait_ok_def by blast+

lemma wait_okI:
  assumes "queue_sep s (sema_waiters (lock_semaphore l)) ts" "wait_list s (sema_waiters (lock_semaphore l)) ws"
    "distinct ws" "set ws \<subseteq> set ts" "\<And>t. t \<in> set ws \<Longrightarrow> pc t = L_wait"
    "\<And>t. t \<in> set ts \<Longrightarrow> pc t = L_wait \<Longrightarrow> status (tasks s t) = TASK_BLOCKED \<longleftrightarrow> t \<in> set ws"
    "sema_value s (lock_semaphore l) \<noteq> 0 \<Longrightarrow> ws \<noteq> [] \<Longrightarrow> \<exists>t\<in>set ts. pc t = L_wait \<and> t \<notin> set ws"
  shows "wait_ok l s pc ts ws"
  using assms unfolding wait_ok_def by blast

lemma wait_ok_cong:
  assumes "wait_ok l s pc ts ws" "\<And>t. pc' t = L_wait \<longleftrightarrow> pc t = L_wait" "lheap s' = lheap s"
    "\<And>t. status (tasks s' t) = status (tasks s t)" "thread_ready_list s' = thread_ready_list s"
    "sema_value s' (lock_semaphore l) = 0 \<or> sema_value s' = sema_value s"
  shows "wait_ok l s' pc' ts ws"
proof (rule wait_okI)
  note W = wait_okD [OF assms(1)]
  show "queue_sep s' (sema_waiters (lock_semaphore l)) ts" using W(1) unfolding queue_sep_def assms(5) .
  show "wait_list s' (sema_waiters (lock_semaphore l)) ws" using W(2) unfolding wait_list_def assms(3) .
  show "distinct ws" "set ws \<subseteq> set ts" by (rule W(3,4))+
  show "pc' t = L_wait" if "t \<in> set ws" for t using W(5) [OF that] by (simp only: assms(2))
  show "status (tasks s' t) = TASK_BLOCKED \<longleftrightarrow> t \<in> set ws" if "t \<in> set ts" "pc' t = L_wait" for t
    using W(6) [OF that(1)] that(2) by (simp only: assms(2,4))
  show "\<exists>t\<in>set ts. pc' t = L_wait \<and> t \<notin> set ws" if "sema_value s' (lock_semaphore l) \<noteq> 0" "ws \<noteq> []"
    using W(7) that assms(6) unfolding assms(2) by metis
qed

lemma waiters_not_ready:
  assumes "lock_inv l (s, pc) ts pd rs ws"
  shows "set rs \<inter> set ws = {}" "\<forall>t\<in>set ws. status (tasks s t) = TASK_BLOCKED"
proof -
  note D = lock_invD [OF assms]
  note W = wait_okD [OF D(4)]
  show b: "\<forall>t\<in>set ws. status (tasks s t) = TASK_BLOCKED" using W(4,5,6) by blast
  show "set rs \<inter> set ws = {}"
  proof (rule equals0I)
    fix t assume t: "t \<in> set rs \<inter> set ws"
    then have "status (tasks s t) = TASK_READY" using sched_invD(3,5) [OF D(1)] by blast
    with b t show False by auto
  qed
qed

lemma stacks_okI:
  assumes "intr_get_status s = INTR_ON \<longleftrightarrow> kstack (tasks s (running_thread s)) = []"
    "\<And>t. t \<in> set ts \<Longrightarrow> pc t = L_wait \<Longrightarrow> kstack (tasks s t) = wait_frames l"
    "\<And>t. t \<in> set ts \<Longrightarrow> pc t \<noteq> L_wait \<Longrightarrow> t = running_thread s \<and> kstack (tasks s t) = [] \<or>
      (\<exists>f. kstack (tasks s t) = [f] \<and> simple_frame f)"
  shows "stacks_ok l s pc ts"
  using assms unfolding stacks_ok_def by blast

lemma stacks_okD:
  assumes "stacks_ok l s pc ts"
  shows "intr_get_status s = INTR_ON \<longleftrightarrow> kstack (tasks s (running_thread s)) = []"
    "t \<in> set ts \<Longrightarrow> pc t = L_wait \<Longrightarrow> kstack (tasks s t) = wait_frames l"
    "t \<in> set ts \<Longrightarrow> pc t \<noteq> L_wait \<Longrightarrow> t = running_thread s \<and> kstack (tasks s t) = [] \<or>
      (\<exists>f. kstack (tasks s t) = [f] \<and> simple_frame f)"
  using assms unfolding stacks_ok_def by blast+

lemma stack_empty_pc:
  assumes "stacks_ok l s pc ts" "running_thread s \<in> set ts" "kstack (tasks s (running_thread s)) = []"
  shows "pc (running_thread s) \<noteq> L_wait" "intr_get_status s = INTR_ON"
  using assms by (auto simp: stacks_ok_def wait_frames_def)

text \<open>Steps that touch only the fields of the lock.\<close>

lemma local_step:
  assumes inv: "lock_inv l (s, pc) ts pd rs ws" and k: "kstack (tasks s (running_thread s)) = []"
    and x: "x \<noteq> L_wait" "running_thread s = idle_thread s \<longrightarrow> x = L_out"
    and s': "s' = s \<or> s' = set_repeat l n s \<or> s' = set_holder l h s \<or> s' = set_sema (lock_semaphore l) 0 s"
    and v: "lock_vals l s' (pc(running_thread s := x)) ts"
  shows "lock_inv l (s', pc(running_thread s := x)) ts pd rs ws"
proof -
  note D = lock_invD [OF inv]
  have eq: "tasks s' = tasks s" "running_thread s' = running_thread s" "lheap s' = lheap s" "eflags s' = eflags s"
    "idle_thread s' = idle_thread s" "thread_ready_list s' = thread_ready_list s"
    "sema_value s' (lock_semaphore l) = 0 \<or> sema_value s' = sema_value s"
    "sched_inv s' rs ts pd \<longleftrightarrow> sched_inv s rs ts pd"
    using s' by auto
  have i: "intr_get_status s' = intr_get_status s" using eq(4) by (rule intr_get_status_cong)
  note e = stack_empty_pc [OF D(3,6) k]
  have "stacks_ok l s' (pc(running_thread s := x)) ts"
    using D(3) e k x(1) by (auto simp: stacks_ok_def eq i)
  moreover have "wait_ok l s' (pc(running_thread s := x)) ts ws"
    by (rule wait_ok_cong [OF D(4)]) (use e(1) x(1) eq in auto)
  ultimately show ?thesis
    using D(1,5) x(2) v by (auto simp: lock_inv_def eq)
qed

text \<open>Steps that give up the processor.\<close>

lemma switch_step:
  assumes inv: "lock_inv l (s, pc) ts pd rs ws" and k: "kstack (tasks s (running_thread s)) = []"
    and sw: "switched s s' f rs" "sched_inv s' rs' ts pd" "simple_frame f"
    and r': "running_thread s' \<in> set rs \<union> {running_thread s, idle_thread s}"
  shows "lock_inv l (s', pc) ts pd rs' ws"
proof -
  note D = lock_invD [OF inv]
  note W = wait_okD [OF D(4)]
  note S = switchedD [OF sw(1)]
  note e = stack_empty_pc [OF D(3,6) k]
  have nw: "running_thread s \<notin> set ws" "idle_thread s \<notin> set ws"
    using W(5) [of "running_thread s"] W(5) [of "idle_thread s"] e(1) D(5) by auto
  have nr': "running_thread s' \<notin> set ws" using r' nw waiters_not_ready(1) [OF inv] by auto
  have wl: "wait_list s' (sema_waiters (lock_semaphore l)) ws"
    by (rule wait_frame [OF W(2) S(2) W(1) sched_invD(1) [OF D(1)] _ W(4)])
      (use D(6,7) nw sched_invD(3) [OF D(1)] waiters_not_ready(1) [OF inv] in auto)
  have st: "status (tasks s' t) = TASK_BLOCKED \<longleftrightarrow> t \<in> set ws" if t: "t \<in> set ts" "pc t = L_wait" for t
  proof (cases "t = running_thread s'")
    case True
    then show ?thesis using sched_invD(4) [OF sw(2) t(1)] nr' by auto
  next
    case False
    then have "tasks s' t = tasks s t" using S(3) [of t] t(2) e(1) by auto
    then show ?thesis using W(6) [OF t] by simp
  qed
  have qs: "queue_sep s' (sema_waiters (lock_semaphore l)) ts" using W(1) unfolding queue_sep_def S(9) .
  have w: "wait_ok l s' pc ts ws"
    by (rule wait_okI [OF qs wl W(3,4,5) st]) (simp_all add: S(6) W(7))
  have ks: "kstack (tasks s' t) = (if t = running_thread s then [f] else kstack (tasks s t))" for t
    using S(4) S(5) [of t] k by simp
  have "running_thread s' \<in> set ts" using r' D(6,7) sched_invD(3) [OF D(1)] by auto
  note old = stacks_okD(2,3) [OF D(3)] and new = stacks_okD(2,3) [OF D(3) \<open>running_thread s' \<in> set ts\<close>]
  have ne: "kstack (tasks s' (running_thread s')) \<noteq> []"
    using new by (cases "pc (running_thread s') = L_wait") (auto simp: ks wait_frames_def)
  have "stacks_ok l s' pc ts"
  proof (rule stacks_okI)
    fix t assume t: "t \<in> set ts"
    show "kstack (tasks s' t) = wait_frames l" if "pc t = L_wait"
      using old(1) [OF t that] that e(1) by (auto simp: ks)
    show "t = running_thread s' \<and> kstack (tasks s' t) = [] \<or> (\<exists>f. kstack (tasks s' t) = [f] \<and> simple_frame f)"
      if "pc t \<noteq> L_wait"
      using old(2) [OF t that] sw(3) by (cases "t = running_thread s") (simp_all add: ks)
  qed (use S(1) ne in simp)
  moreover have "lock_vals l s' pc ts" using D(2) unfolding lock_vals_def S(6-8) .
  ultimately show ?thesis using sw(2) w D(5) S(10) by (simp add: lock_inv_def)
qed

text \<open>How the fields of the lock follow the program counter of the running thread.\<close>

lemma own_simps [simp]:
  "own L_own" "own L_mark" "own L_crit" "own L_clear" "own L_zero" "own L_up"
  "\<not> own L_out" "\<not> own L_down" "\<not> own L_wait"
  "\<not> holds L_out" "\<not> holds L_down" "\<not> holds L_wait" "\<not> holds L_own" "holds L_mark" "holds L_crit" "holds L_clear"
  "\<not> holds L_zero" "\<not> holds L_up"
  by (simp_all add: own_def holds_def)

lemma holds_own: "holds x \<Longrightarrow> own x"
  by (auto simp: own_def holds_def)

lemma lock_vals_owner:
  assumes "lock_vals l s pc ts" "r \<in> set ts" "own (pc r)"
  shows "t \<in> set ts \<Longrightarrow> t \<noteq> r \<Longrightarrow> \<not> own (pc t)" "sema_value s (lock_semaphore l) = 0"
    "holds (pc r) \<Longrightarrow> lock_holder s l = r" "\<not> holds (pc r) \<Longrightarrow> lock_holder s l = NULL"
    "pc r = L_crit \<Longrightarrow> lock_repeat s l \<noteq> 0" "pc r = L_clear \<or> pc r = L_zero \<Longrightarrow> lock_repeat s l = 1"
    "pc r = L_own \<or> pc r = L_mark \<or> pc r = L_up \<Longrightarrow> lock_repeat s l = 0"
proof -
  show u: "\<not> own (pc t)" if "t \<in> set ts" "t \<noteq> r" for t
    using assms that unfolding lock_vals_def by blast
  show "sema_value s (lock_semaphore l) = 0"
    using assms unfolding lock_vals_def by auto
  show "holds (pc r) \<Longrightarrow> lock_holder s l = r" using assms unfolding lock_vals_def by blast
  show "\<not> holds (pc r) \<Longrightarrow> lock_holder s l = NULL"
    using assms(1) u holds_own unfolding lock_vals_def by metis
  show "pc r = L_crit \<Longrightarrow> lock_repeat s l \<noteq> 0" "pc r = L_clear \<or> pc r = L_zero \<Longrightarrow> lock_repeat s l = 1"
    using assms unfolding lock_vals_def by blast+
  show "lock_repeat s l = 0" if p: "pc r = L_own \<or> pc r = L_mark \<or> pc r = L_up"
  proof -
    have "\<forall>t\<in>set ts. pc t \<noteq> L_crit \<and> pc t \<noteq> L_clear \<and> pc t \<noteq> L_zero"
      using u p by (metis own_simps(3-5) lpc.distinct)
    then show ?thesis using assms(1) unfolding lock_vals_def by blast
  qed
qed

lemma lock_vals_noowner:
  assumes "\<And>t. t \<in> set ts \<Longrightarrow> \<not> own (pc t)" "sema_value s (lock_semaphore l) = 1" "lock_holder s l = NULL" "lock_repeat s l = 0"
  shows "lock_vals l s pc ts"
proof -
  have n: "\<not> holds (pc t) \<and> pc t \<noteq> L_crit \<and> pc t \<noteq> L_clear \<and> pc t \<noteq> L_zero" if "t \<in> set ts" for t
    using assms(1) [OF that] by (cases "pc t") simp_all
  then show ?thesis unfolding lock_vals_def using assms by simp
qed

lemma lock_vals_ownerI:
  assumes "r \<in> set ts" "own (pc r)" "\<And>t. t \<in> set ts \<Longrightarrow> t \<noteq> r \<Longrightarrow> \<not> own (pc t)"
    "sema_value s (lock_semaphore l) = 0" "lock_holder s l = (if holds (pc r) then r else NULL)"
    "pc r = L_crit \<Longrightarrow> lock_repeat s l \<noteq> 0" "pc r = L_clear \<or> pc r = L_zero \<Longrightarrow> lock_repeat s l = 1"
    "pc r = L_own \<or> pc r = L_mark \<or> pc r = L_up \<Longrightarrow> lock_repeat s l = 0"
  shows "lock_vals l s pc ts"
proof -
  have eq: "t = r" if "t \<in> set ts" "own (pc t)" for t using assms(3) that by blast
  have c: "pc r = L_crit \<or> pc r = L_clear \<or> pc r = L_zero \<or> pc r = L_own \<or> pc r = L_mark \<or> pc r = L_up"
    using assms(2) by (cases "pc r") auto
  show ?thesis
    unfolding lock_vals_def
  proof (intro conjI ballI impI)
    show "sema_value s (lock_semaphore l) = (if \<exists>t\<in>set ts. own (pc t) then 0 else 1)"
      using assms(1,2,4) by auto
    show "lock_holder s l = t" if "t \<in> set ts" "holds (pc t)" for t
      using eq [OF that(1) holds_own [OF that(2)]] assms(5) that(2) by simp
    show "lock_holder s l = NULL" if "\<forall>t\<in>set ts. \<not> holds (pc t)" using that assms(1,5) by simp
    show "lock_repeat s l \<noteq> 0" if "t \<in> set ts" "pc t = L_crit" for t
      using eq [OF that(1)] that(2) assms(6) by simp
    show "lock_repeat s l = 1" if "t \<in> set ts" "pc t = L_clear \<or> pc t = L_zero" for t
      using eq [OF that(1)] that(2) assms(7) by auto
    show "lock_repeat s l = 0" if "\<forall>t\<in>set ts. pc t \<noteq> L_crit \<and> pc t \<noteq> L_clear \<and> pc t \<noteq> L_zero"
      using that assms(1,8) c by blast
  qed (use eq in blast)
qed

lemma lock_vals_free:
  assumes "lock_vals l s pc ts" "\<And>t. t \<in> set ts \<Longrightarrow> \<not> own (pc t)"
  shows "sema_value s (lock_semaphore l) = 1" "lock_holder s l = NULL" "lock_repeat s l = 0"
proof -
  have n: "\<not> holds (pc t) \<and> pc t \<noteq> L_crit \<and> pc t \<noteq> L_clear \<and> pc t \<noteq> L_zero" if "t \<in> set ts" for t
    using assms(2) [OF that] by (cases "pc t") simp_all
  note V = assms(1) [unfolded lock_vals_def]
  show "sema_value s (lock_semaphore l) = 1" using V assms(2) by simp
  show "lock_holder s l = NULL" "lock_repeat s l = 0" using V n by blast+
qed

text \<open>A thread that does not own the semaphore may move among the positions outside.\<close>

lemma lock_vals_outside:
  assumes "lock_vals l s pc ts" "\<not> own (pc r)" "\<not> own x"
  shows "lock_vals l s (pc(r := x)) ts"
proof (cases "\<exists>t\<in>set ts. own (pc t)")
  case True
  then obtain o' where o': "o' \<in> set ts" "own (pc o')" by blast
  note V = lock_vals_owner [OF assms(1) o']
  have [simp]: "o' \<noteq> r" using o' assms(2) by auto
  show ?thesis
    by (rule lock_vals_ownerI [of o'])
      (use o' V assms(3) in \<open>auto split: if_splits\<close>)
next
  case False
  then show ?thesis
    using lock_vals_free [OF assms(1)] assms(3) by (intro lock_vals_noowner) (auto split: if_splits)
qed

text \<open>The six steps that only move the program counter and the fields of the lock.\<close>

lemma field_ops_ok:
  assumes inv: "lock_inv l (s, pc) ts pd rs ws" and en: "lop_enabled l op (s, pc)"
    and op: "op \<in> {Acquire, Take, Mark, Release, Clear, Zero}"
  shows "\<exists>c'. lock_op l op (s, pc) = Inr c' \<and> lock_inv l c' ts pd rs ws"
proof -
  let ?r = "running_thread s"
  note D = lock_invD [OF inv]
  have k: "kstack (tasks s ?r) = []" using en op by (cases op) auto
  have r0: "?r \<noteq> NULL" using sched_invD(1) [OF D(1)] D(6) by (simp add: sched_wf_def)
  have ni: "?r \<noteq> idle_thread s"
    using en op D(5) by (cases op) auto
  have keep: "pc(?r := pc ?r) = pc" by simp
  note step = local_step [OF inv k]
  have owner: "own (pc ?r) \<Longrightarrow> t \<in> set ts \<Longrightarrow> t \<noteq> ?r \<Longrightarrow> \<not> own (pc t)" for t
    using lock_vals_owner(1) [OF D(2,6)] by blast
  note V = lock_vals_owner [OF D(2,6)]
  consider (out) "op = Acquire" "pc ?r = L_out" | (nest) "op = Acquire" "pc ?r = L_crit" "lock_repeat s l \<noteq> 0xffffffff"
    | (take) "op = Take" "pc ?r = L_own" | (mark) "op = Mark" "pc ?r = L_mark"
    | (rel) "op = Release" "pc ?r = L_crit" | (clear) "op = Clear" "pc ?r = L_clear" | (zero) "op = Zero" "pc ?r = L_zero"
    using op en by (cases op) auto
  then show ?thesis
  proof cases
    case out
    have "lock_holder s l \<noteq> ?r"
    proof
      assume h: "lock_holder s l = ?r"
      then obtain t where t: "t \<in> set ts" "holds (pc t)" using D(2) r0 unfolding lock_vals_def by metis
      then have "lock_holder s l = t" using D(2) unfolding lock_vals_def by blast
      with h t out show False by simp
    qed
    moreover have "lock_inv l (s, pc(?r := L_down)) ts pd rs ws"
      using lock_vals_outside [OF D(2), of ?r L_down] out ni by (intro step) auto
    ultimately show ?thesis using out by simp
  next
    case nest
    have "lock_inv l (set_repeat l (lock_repeat s l + 1) s, pc(?r := L_crit)) ts pd rs ws"
    proof (rule step)
      have "lock_repeat s l + 1 \<noteq> 0" using nest(3) by (rule u32_inc_nonzero)
      then show "lock_vals l (set_repeat l (lock_repeat s l + 1) s) (pc(?r := L_crit)) ts"
        using V nest D(6) by (intro lock_vals_ownerI [of ?r]) (auto split: if_splits)
    qed (use ni in auto)
    with nest V show ?thesis by (simp add: fun_upd_idem)
  next
    case take
    have "lock_inv l (set_holder l ?r s, pc(?r := L_mark)) ts pd rs ws"
      by (rule step) (use ni take V D(6) in \<open>auto intro!: lock_vals_ownerI [of ?r] split: if_splits\<close>)
    with take show ?thesis by simp
  next
    case mark
    have "lock_inv l (set_repeat l 1 s, pc(?r := L_crit)) ts pd rs ws"
      by (rule step) (use ni mark V D(6) in \<open>auto intro!: lock_vals_ownerI [of ?r] split: if_splits\<close>)
    with mark V show ?thesis by simp
  next
    case rel
    show ?thesis
    proof (cases "lock_repeat s l > 1")
      case True
      then have "lock_repeat s l - 1 \<noteq> 0" by auto
      then have "lock_inv l (set_repeat l (lock_repeat s l - 1) s, pc(?r := L_crit)) ts pd rs ws"
        by (intro step) (use ni rel V D(6) in \<open>auto intro!: lock_vals_ownerI [of ?r] split: if_splits\<close>)
      with rel True V show ?thesis by (simp add: fun_upd_idem)
    next
      case False
      moreover have "lock_repeat s l \<noteq> 0" using rel V by simp
      ultimately have one: "lock_repeat s l = 1" by (rule u32_not_gt_one)
      have "lock_inv l (s, pc(?r := L_clear)) ts pd rs ws"
        by (rule step) (use ni rel V D(6) one in \<open>auto intro!: lock_vals_ownerI [of ?r] split: if_splits\<close>)
      with rel one V show ?thesis by simp
    qed
  next
    case clear
    have "lock_inv l (set_holder l NULL s, pc(?r := L_zero)) ts pd rs ws"
      by (rule step) (use ni clear V D(6) in \<open>auto intro!: lock_vals_ownerI [of ?r] split: if_splits\<close>)
    with clear show ?thesis by simp
  next
    case zero
    have "lock_inv l (set_repeat l 0 s, pc(?r := L_up)) ts pd rs ws"
      by (rule step) (use ni zero V D(6) in \<open>auto intro!: lock_vals_ownerI [of ?r] split: if_splits\<close>)
    with zero show ?thesis by simp
  qed
qed

text \<open>A thread is back in its own code: its frames are gone and interrupts are on.\<close>

lemma return_step:
  assumes inv: "lock_inv l (s, pc) ts pd rs ws" and sch: "sched_inv s' rs ts pd"
    and tk: "tasks s' = (tasks s)(running_thread s := kstack_update (\<lambda>_. []) (tasks s (running_thread s)))"
    and eq: "running_thread s' = running_thread s" "lheap s' = lheap s" "idle_thread s' = idle_thread s"
      "thread_ready_list s' = thread_ready_list s" "intr_get_status s' = INTR_ON"
    and x: "x \<noteq> L_wait" "pc (running_thread s) = L_wait \<and> sema_value s' (lock_semaphore l) = 0 \<or>
      x = pc (running_thread s) \<and> sema_value s' = sema_value s"
    and v: "lock_vals l s' (pc(running_thread s := x)) ts"
  shows "lock_inv l (s', pc(running_thread s := x)) ts pd rs ws"
proof -
  let ?r = "running_thread s"
  note D = lock_invD [OF inv]
  note W = wait_okD [OF D(4)]
  have "status (tasks s ?r) = TASK_RUNNING" using sched_invD(4) [OF D(1,6)] by simp
  then have nw: "?r \<notin> set ws" using waiters_not_ready(2) [OF inv] by auto
  have "wait_ok l s' (pc(?r := x)) ts ws"
  proof (rule wait_okI)
    show "queue_sep s' (sema_waiters (lock_semaphore l)) ts" using W(1) unfolding queue_sep_def eq(4) .
    show "wait_list s' (sema_waiters (lock_semaphore l)) ws" using W(2) unfolding wait_list_def eq(2) .
    show "distinct ws" "set ws \<subseteq> set ts" by (rule W(3,4))+
    fix t
    show "(pc(?r := x)) t = L_wait" if "t \<in> set ws" using W(5) [OF that] nw that by auto
    show "status (tasks s' t) = TASK_BLOCKED \<longleftrightarrow> t \<in> set ws" if "t \<in> set ts" "(pc(?r := x)) t = L_wait"
      using W(6) [OF that(1)] that(2) x(1) by (simp add: tk split: if_splits)
    show "\<exists>t\<in>set ts. (pc(?r := x)) t = L_wait \<and> t \<notin> set ws" if "sema_value s' (lock_semaphore l) \<noteq> 0" "ws \<noteq> []"
      using W(7) that x by auto
  qed
  moreover have "stacks_ok l s' (pc(?r := x)) ts"
  proof (rule stacks_okI)
    fix t assume t: "t \<in> set ts"
    show "kstack (tasks s' t) = wait_frames l" if "(pc(?r := x)) t = L_wait"
      using stacks_okD(2) [OF D(3) t] that x(1) by (simp add: tk split: if_splits)
    show "t = running_thread s' \<and> kstack (tasks s' t) = [] \<or> (\<exists>f. kstack (tasks s' t) = [f] \<and> simple_frame f)"
      if "(pc(?r := x)) t \<noteq> L_wait"
      using stacks_okD(3) [OF D(3) t] that by (simp add: tk eq(1) split: if_splits)
  qed (simp add: eq(1,5) tk)
  moreover have "(pc(?r := x)) (idle_thread s') = L_out" using D(5) x eq(3) by auto
  ultimately show ?thesis using sch v by (simp add: lock_inv_def)
qed

text \<open>A thread goes to sleep in the loop of \<^verbatim>\<open>sema_down\<close>.\<close>

lemma sleep_step:
  assumes sch: "sched_inv s rs ts pd" and off: "intr_get_status s = INTR_OFF"
    and v: "sema_value s (lock_semaphore l) = 0" "lock_vals l s pc ts" "\<not> own (pc (running_thread s))"
    and i: "pc (idle_thread s) = L_out" "running_thread s \<noteq> idle_thread s"
    and k: "kstack (tasks s (running_thread s)) = []"
      "\<And>t. t \<in> set ts \<Longrightarrow> t \<noteq> running_thread s \<Longrightarrow> pc t = L_wait \<Longrightarrow> kstack (tasks s t) = wait_frames l"
      "\<And>t. t \<in> set ts \<Longrightarrow> t \<noteq> running_thread s \<Longrightarrow> pc t \<noteq> L_wait \<Longrightarrow> \<exists>f. kstack (tasks s t) = [f] \<and> simple_frame f"
    and W: "queue_sep s (sema_waiters (lock_semaphore l)) ts" "wait_list s (sema_waiters (lock_semaphore l)) ws"
      "distinct ws" "set ws \<subseteq> set ts" "\<And>t. t \<in> set ws \<Longrightarrow> pc t = L_wait" "running_thread s \<notin> set ws"
      "\<And>t. t \<in> set ts \<Longrightarrow> t \<noteq> running_thread s \<Longrightarrow> pc t = L_wait \<Longrightarrow> status (tasks s t) = TASK_BLOCKED \<longleftrightarrow> t \<in> set ws"
  shows "\<exists>s' rs'. sema_down_loop (lock_semaphore l) INTR_ON s = Inr (False, s') \<and>
    lock_inv l (s', pc(running_thread s := L_wait)) ts pd rs' (ws @ [running_thread s])"
proof -
  let ?r = "running_thread s" and ?p = "lock_semaphore l" and ?pc = "pc(running_thread s := L_wait)"
  note S = sched_invD [OF sch]
  have r: "?r \<in> set ts" "idle_thread s \<in> set ts" using sched_wfD [OF S(1)] by simp_all
  have b: "status (tasks s t) = TASK_BLOCKED" if "t \<in> set ws" for t
    using W(4-7) that by (metis subsetD)
  have rw: "set rs \<inter> set ws = {}"
  proof (rule equals0I)
    fix t assume t: "t \<in> set rs \<inter> set ws"
    then have "status (tasks s t) = TASK_READY" using S(3,5) by blast
    with b [of t] t show False by simp
  qed
  have iw: "idle_thread s \<notin> set ws" using W(5) i(1) by force
  obtain s' n where s': "sema_down_loop ?p INTR_ON s = Inr (False, s')"
    "sched_inv s' (tl (if rs = [] then [idle_thread s] else rs)) ts pd" "running_thread s' = n"
    "n = hd (if rs = [] then [idle_thread s] else rs)"
    "wait_list s' (sema_waiters ?p) (ws @ [?r])" "status (tasks s' ?r) = TASK_BLOCKED"
    "kstack (tasks s' ?r) = wait_frames l" "\<forall>t. t \<noteq> ?r \<longrightarrow> kstack (tasks s' t) = kstack (tasks s t)"
    "\<forall>t. t \<noteq> ?r \<and> t \<noteq> n \<longrightarrow> tasks s' t = tasks s t" "intr_get_status s' = INTR_OFF"
    "sema_value s' = sema_value s" "lock_holder s' = lock_holder s" "lock_repeat s' = lock_repeat s"
    "thread_ready_list s' = thread_ready_list s" "idle_thread s' = idle_thread s"
    using sema_down_loop_blocks [OF sch W(1,2,4) rw W(6) i(2) iw v(1) off, of INTR_ON] k(1)
    by (auto simp: wait_frames_def)
  have n: "n \<in> set rs \<union> {idle_thread s}" using s'(4) by (cases rs) auto
  then have nts: "n \<in> set ts" using S(3) r by auto
  have nr: "n \<noteq> ?r" using n i(2) S(4,5) [OF r(1)] by auto
  have nw: "n \<notin> set ws" using n iw rw by auto
  have "wait_ok l s' ?pc ts (ws @ [?r])"
  proof (rule wait_okI)
    show "queue_sep s' (sema_waiters ?p) ts" using W(1) unfolding queue_sep_def s'(14) .
    fix t
    show "status (tasks s' t) = TASK_BLOCKED \<longleftrightarrow> t \<in> set (ws @ [?r])" if t: "t \<in> set ts" "?pc t = L_wait"
    proof (cases "t = ?r \<or> t = n")
      case True
      then show ?thesis using s'(6) sched_invD(4) [OF s'(2) t(1)] s'(3) nr nw by auto
    next
      case False
      then show ?thesis using s'(9) W(7) [OF t(1)] t(2) by simp
    qed
  qed (use s' W v(1) r in auto)
  moreover have "stacks_ok l s' ?pc ts"
  proof (rule stacks_okI)
    have "kstack (tasks s n) \<noteq> []" using k(2,3) [OF nts nr] by (cases "pc n = L_wait") (auto simp: wait_frames_def)
    then show "intr_get_status s' = INTR_ON \<longleftrightarrow> kstack (tasks s' (running_thread s')) = []"
      using s'(3,8,10) nr by simp
  qed (use k s'(7,8) in \<open>auto split: if_splits\<close>)
  moreover have "lock_vals l s ?pc ts" by (rule lock_vals_outside [OF v(2,3)]) simp
  then have "lock_vals l s' ?pc ts" unfolding lock_vals_def s'(11-13) .
  moreover have "?pc (idle_thread s') = L_out" using i s'(15) by simp
  ultimately show ?thesis using s'(1,2) by (auto simp: lock_inv_def)
qed

lemma lock_vals_idle:
  assumes "lock_vals l s pc ts" "sema_value s (lock_semaphore l) \<noteq> 0"
  shows "t \<in> set ts \<Longrightarrow> \<not> own (pc t)" "sema_value s (lock_semaphore l) = 1"
  using assms unfolding lock_vals_def by (auto split: if_splits)

lemma lock_vals_take:
  assumes "lock_vals l s pc ts" "sema_value s (lock_semaphore l) \<noteq> 0" "r \<in> set ts"
    "sema_value s' (lock_semaphore l) = 0" "lock_holder s' = lock_holder s" "lock_repeat s' = lock_repeat s"
  shows "lock_vals l s' (pc(r := L_own)) ts"
  using lock_vals_free [OF assms(1) lock_vals_idle(1) [OF assms(1,2)]] lock_vals_idle(1) [OF assms(1,2)] assms(3-6)
  by (intro lock_vals_ownerI [of r]) auto

lemma down_ok:
  assumes inv: "lock_inv l (s, pc) ts pd rs ws" and en: "lop_enabled l Down (s, pc)"
  shows "\<exists>c' rs' ws'. lock_op l Down (s, pc) = Inr c' \<and> lock_inv l c' ts pd rs' ws'"
proof -
  let ?r = "running_thread s" and ?p = "lock_semaphore l" and ?d = "snd (intr_disable s)"
  note D = lock_invD [OF inv]
  note W = wait_okD [OF D(4)]
  have k: "kstack (tasks s ?r) = []" and pc: "pc ?r = L_down" using en by auto
  have ni: "?r \<noteq> idle_thread s" using D(5) pc by auto
  show ?thesis
  proof (cases "sema_value s ?p = 0")
    case False
    note one = lock_vals_idle(2) [OF D(2) False]
    have "lock_vals l (set_sema ?p 0 s) (pc(?r := L_own)) ts"
      by (rule lock_vals_take [OF D(2) False D(6)]) simp_all
    with ni have "lock_inv l (set_sema ?p 0 s, pc(?r := L_own)) ts pd rs ws"
      by (intro local_step [OF inv k]) simp_all
    then show ?thesis using sema_down_free [OF one] by auto
  next
    case True
    have on: "intr_get_status s = INTR_ON" by (rule stack_empty_pc(2) [OF D(3,6) k])
    have d: "sched_inv ?d rs ts pd" using D(1) by simp
    have rw: "?r \<notin> set ws" using W(5) [of ?r] pc by auto
    have "\<exists>s' rs'. sema_down_loop ?p INTR_ON ?d = Inr (False, s') \<and>
      lock_inv l (s', pc(running_thread ?d := L_wait)) ts pd rs' (ws @ [running_thread ?d])"
    proof (rule sleep_step [OF d])
      show "lock_vals l ?d pc ts" using D(2) by (simp add: lock_vals_def)
      show "queue_sep ?d (sema_waiters ?p) ts" "wait_list ?d (sema_waiters ?p) ws"
        using W(1,2) by (simp_all add: queue_sep_def wait_list_def)
      show "\<And>t. t \<in> set ws \<Longrightarrow> pc t = L_wait" by (rule W(5))
      fix t assume t: "t \<in> set ts"
      show "pc t = L_wait \<Longrightarrow> kstack (tasks ?d t) = wait_frames l" using stacks_okD(2) [OF D(3) t] by simp
      show "t \<noteq> running_thread ?d \<Longrightarrow> pc t \<noteq> L_wait \<Longrightarrow> \<exists>f. kstack (tasks ?d t) = [f] \<and> simple_frame f"
        using stacks_okD(3) [OF D(3) t] by simp
      show "pc t = L_wait \<Longrightarrow> status (tasks ?d t) = TASK_BLOCKED \<longleftrightarrow> t \<in> set ws" using W(6) [OF t] by simp
    qed (use True D(5) pc ni k rw W(3,4) in simp_all)
    then obtain s' rs' where "sema_down_loop ?p INTR_ON ?d = Inr (False, s')"
      "lock_inv l (s', pc(?r := L_wait)) ts pd rs' (ws @ [?r])" by auto
    moreover from this have "lock_op l Down (s, pc) = Inr (s', pc(?r := L_wait))"
      by (simp add: sema_down_def split_beta on)
    ultimately show ?thesis by blast
  qed
qed

lemma up_ok:
  assumes inv: "lock_inv l (s, pc) ts pd rs ws" and en: "lop_enabled l Up (s, pc)"
  shows "\<exists>c' rs' ws'. lock_op l Up (s, pc) = Inr c' \<and> lock_inv l c' ts pd rs' ws'"
proof -
  let ?r = "running_thread s" and ?p = "lock_semaphore l" and ?pc = "pc(running_thread s := L_out)"
  note D = lock_invD [OF inv]
  note W = wait_okD [OF D(4)]
  have k: "kstack (tasks s ?r) = []" and pc: "pc ?r = L_up" using en by auto
  note V = lock_vals_owner [OF D(2,6)]
  have b: "\<forall>t\<in>set ws. is_blocked (status (tasks s t))" using waiters_not_ready(2) [OF inv] by (simp add: is_blocked_def)
  have v: "sema_value s ?p = 0" using V pc by simp
  obtain s' where s': "sema_up ?p s = Inr s'" "sched_inv s' (take 1 ws @ rs) ts pd" "wait_list s' (sema_waiters ?p) (tl ws)"
    "running_thread s' = ?r" "eflags s' = eflags s" "sema_value s' = (sema_value s)(?p := 1)"
    "lock_holder s' = lock_holder s" "lock_repeat s' = lock_repeat s" "tasks s' = woken ws (tasks s)"
    "thread_ready_list s' = thread_ready_list s" "idle_thread s' = idle_thread s"
    using sema_up_ok [OF D(1) W(1,2,4) waiters_not_ready(1) [OF inv] W(3) b v] by blast
  have kst: "kstack (tasks s' t) = kstack (tasks s t)" for t
    by (simp add: s'(9) woken_def split: list.split)
  have st: "status (tasks s' t) = (if ws \<noteq> [] \<and> t = hd ws then TASK_READY else status (tasks s t))" for t
    by (simp add: s'(9) woken_def split: list.split)
  have rw: "?r \<notin> set ws" using W(5) [of ?r] pc by auto
  have "wait_ok l s' ?pc ts (tl ws)"
  proof (rule wait_okI)
    show "queue_sep s' (sema_waiters ?p) ts" using W(1) unfolding queue_sep_def s'(10) .
    show "distinct (tl ws)" "set (tl ws) \<subseteq> set ts" using W(3,4) by (cases ws; simp)+
    fix t
    show "?pc t = L_wait" if "t \<in> set (tl ws)"
      using W(5) [of t] rw that by (cases ws) auto
    show "status (tasks s' t) = TASK_BLOCKED \<longleftrightarrow> t \<in> set (tl ws)" if "t \<in> set ts" "?pc t = L_wait"
      using W(6) [OF that(1)] that(2) W(3) by (cases ws) (auto simp: st split: if_splits)
    show "\<exists>t\<in>set ts. ?pc t = L_wait \<and> t \<notin> set (tl ws)" if "tl ws \<noteq> []"
    proof -
      obtain x xs where ws: "ws = x # xs" using \<open>tl ws \<noteq> []\<close> by (cases ws) auto
      then have "x \<in> set ts" "?pc x = L_wait" "x \<notin> set (tl ws)" using W(3,4,5) rw by auto
      then show ?thesis by blast
    qed
  qed (use s'(3) in simp)
  moreover have "stacks_ok l s' ?pc ts"
  proof (rule stacks_okI)
    show "intr_get_status s' = INTR_ON \<longleftrightarrow> kstack (tasks s' (running_thread s')) = []"
      using intr_get_status_cong [OF s'(5)] stacks_okD(1) [OF D(3)] by (simp add: kst s'(4))
  qed (use stacks_okD(2,3) [OF D(3)] k in \<open>auto simp: kst s'(4) split: if_splits\<close>)
  moreover have "lock_vals l s' ?pc ts"
    by (rule lock_vals_noowner) (use V pc s'(6-8) in \<open>auto split: if_splits\<close>)
  moreover have "?pc (idle_thread s') = L_out" using D(5) s'(11) by simp
  ultimately show ?thesis using s'(1,2) by (auto simp: lock_inv_def)
qed

text \<open>Coming back: from a yield, an interrupt or the start of a thread, or from the loop.\<close>

lemma intr_enable_on: "\<exists>g. snd (intr_enable x) = x\<lparr>eflags := g\<rparr> \<and> EFLAGS_IF AND g \<noteq> 0"
proof (cases "intr_get_status x = INTR_ON")
  case True
  then show ?thesis by (intro exI [of _ "eflags x"]) (auto simp: intr_enable_def intr_get_status_def split: if_splits)
next
  case False
  have "EFLAGS_IF AND (g OR EFLAGS_IF) = EFLAGS_IF" for g :: u32 by (rule bit_word_eqI) (auto simp: bit_simps)
  then have "EFLAGS_IF AND (g OR EFLAGS_IF) \<noteq> 0" for g :: u32 by (simp add: EFLAGS_IF_def)
  with False show ?thesis by (auto simp: intr_enable_def sti_def)
qed

lemma resume_simple:
  assumes "kstack (tasks s (running_thread s)) = [f]" "simple_frame f"
  shows "\<exists>g. resume s = Inr (True, (pop_frame s)\<lparr>eflags := g\<rparr>) \<and> EFLAGS_IF AND g \<noteq> 0"
  using assms intr_enable_on [of "pop_frame s"] unfolding resume_def
  by (cases f) (auto simp: intr_set_status_def intr_get_status_def)

lemma resume_back_ok:
  assumes inv: "lock_inv l (s, pc) ts pd rs ws" and en: "lop_enabled l Resume (s, pc)"
    and False: "pc (running_thread s) \<noteq> L_wait"
  shows "\<exists>c' rs' ws'. lock_op l Resume (s, pc) = Inr c' \<and> lock_inv l c' ts pd rs' ws'"
proof -
  let ?r = "running_thread s"
  note D = lock_invD [OF inv]
  obtain f where f: "kstack (tasks s ?r) = [f]" "simple_frame f"
    using stacks_okD(3) [OF D(3,6) False] en by auto
  from resume_simple [OF f] obtain g where
    g: "resume s = Inr (True, (pop_frame s)\<lparr>eflags := g\<rparr>)" "EFLAGS_IF AND g \<noteq> 0" by blast
  have "kstack_update tl (tasks s ?r) = kstack_update (\<lambda>_. []) (tasks s ?r)"
    using f(1) by (cases "tasks s ?r") simp
  then have "lock_inv l ((pop_frame s)\<lparr>eflags := g\<rparr>, pc(?r := pc ?r)) ts pd rs ws"
    by (intro return_step [OF inv])
      (use False D(1,2) g(2) in \<open>simp_all add: pop_frame_def sched_inv_task_upd intr_get_status_def lock_vals_def\<close>)
  then have "lock_inv l ((pop_frame s)\<lparr>eflags := g\<rparr>, pc) ts pd rs ws" by simp
  moreover have "lock_op l Resume (s, pc) = Inr ((pop_frame s)\<lparr>eflags := g\<rparr>, pc)" using g False by simp
  ultimately show ?thesis by blast
qed

lemma resume_loop_ok:
  assumes inv: "lock_inv l (s, pc) ts pd rs ws" and True: "pc (running_thread s) = L_wait"
  shows "\<exists>c' rs' ws'. lock_op l Resume (s, pc) = Inr c' \<and> lock_inv l c' ts pd rs' ws'"
proof -
  let ?r = "running_thread s" and ?p = "lock_semaphore l" and ?d = "pop_frame (pop_frame s)"
  note D = lock_invD [OF inv]
  note W = wait_okD [OF D(4)]
  have k: "kstack (tasks s ?r) = wait_frames l" by (rule stacks_okD(2) [OF D(3,6) True])
  have off: "intr_get_status s = INTR_OFF"
    using stacks_okD(1) [OF D(3)] k by (cases "intr_get_status s") (auto simp: wait_frames_def)
  have po: "intr_get_status (pop_frame x) = intr_get_status x" for x :: "'a tsys_scheme" by (simp add: pop_frame_def)
  have res: "resume s = sema_down_loop ?p INTR_ON ?d"
    using off po [of s] by (cases "sema_down_loop ?p INTR_ON ?d")
      (auto simp: resume_def k wait_frames_def intr_set_status_def intr_disable_def)
  have tk: "tasks ?d = (tasks s)(?r := kstack_update (\<lambda>_. []) (tasks s ?r))"
    using k by (cases "tasks s ?r") (simp add: pop_frame_def wait_frames_def)
  have eq: "running_thread ?d = ?r" "lheap ?d = lheap s" "idle_thread ?d = idle_thread s" "sema_value ?d = sema_value s"
    "thread_ready_list ?d = thread_ready_list s" "lock_holder ?d = lock_holder s" "lock_repeat ?d = lock_repeat s"
    by (simp_all add: pop_frame_def)
  have ni: "?r \<noteq> idle_thread s" using D(5) True by auto
  show ?thesis
  proof (cases "sema_value s ?p = 0")
    case zero: False
    let ?e = "set_sema ?p 0 (snd (intr_enable ?d))"
    obtain g where g: "snd (intr_enable ?d) = ?d\<lparr>eflags := g\<rparr>" "EFLAGS_IF AND g \<noteq> 0"
      using intr_enable_on [of ?d] by blast
    have "lock_inv l (?e, pc(?r := L_own)) ts pd rs ws"
    proof (rule return_step [OF inv])
      show "sched_inv ?e rs ts pd" using D(1) by (simp add: g(1))
      show "lock_vals l ?e (pc(?r := L_own)) ts"
        by (rule lock_vals_take [OF D(2) zero D(6)]) (simp_all add: g(1) eq)
    qed (use True tk eq in \<open>simp_all add: g intr_get_status_def\<close>)
    moreover have "lock_op l Resume (s, pc) = Inr (?e, pc(?r := L_own))"
      using True res sema_down_loop_free [of ?d ?p INTR_ON] lock_vals_idle(2) [OF D(2) zero]
      by (simp add: eq intr_set_status_def)
    ultimately show ?thesis by blast
  next
    case zero: True
    have "status (tasks s ?r) = TASK_RUNNING" using sched_invD(4) [OF D(1,6)] by simp
    then have rw: "?r \<notin> set ws" using waiters_not_ready(2) [OF inv] by auto
    have "\<exists>s' rs'. sema_down_loop ?p INTR_ON ?d = Inr (False, s') \<and>
      lock_inv l (s', pc(running_thread ?d := L_wait)) ts pd rs' (ws @ [running_thread ?d])"
    proof (rule sleep_step)
      show "sched_inv ?d rs ts pd" using D(1) by simp
      show "intr_get_status ?d = INTR_OFF" using off by (simp add: po)
      show "lock_vals l ?d pc ts" using D(2) unfolding lock_vals_def eq .
      show "queue_sep ?d (sema_waiters ?p) ts" "wait_list ?d (sema_waiters ?p) ws"
        using W(1,2) unfolding queue_sep_def wait_list_def eq .
      show "\<And>t. t \<in> set ws \<Longrightarrow> pc t = L_wait" by (rule W(5))
      fix t assume t: "t \<in> set ts" and nr: "t \<noteq> running_thread ?d"
      show "pc t = L_wait \<Longrightarrow> kstack (tasks ?d t) = wait_frames l"
        using stacks_okD(2) [OF D(3) t] nr by (simp add: tk eq)
      show "pc t \<noteq> L_wait \<Longrightarrow> \<exists>f. kstack (tasks ?d t) = [f] \<and> simple_frame f"
        using stacks_okD(3) [OF D(3) t] nr by (simp add: tk eq)
      show "pc t = L_wait \<Longrightarrow> status (tasks ?d t) = TASK_BLOCKED \<longleftrightarrow> t \<in> set ws"
        using W(6) [OF t] nr by (simp add: tk eq)
    qed (use zero D(5) True ni rw W(3,4) in \<open>simp_all add: eq tk\<close>)
    then obtain s' rs' where s': "sema_down_loop ?p INTR_ON ?d = Inr (False, s')"
      "lock_inv l (s', pc(?r := L_wait)) ts pd rs' (ws @ [?r])" unfolding eq(1) by blast
    moreover have "lock_op l Resume (s, pc) = Inr (s', pc(?r := L_wait))"
      using s'(1) res True by (simp add: fun_upd_idem)
    ultimately show ?thesis by blast
  qed
qed

text \<open>Giving up the processor and the clock.\<close>

lemma give_up_ok:
  assumes inv: "lock_inv l (s, pc) ts pd rs ws" and en: "lop_enabled l op (s, pc)" and op: "op \<in> {Tick, Give_up, Idle_sleep}"
  shows "\<exists>c' rs' ws'. lock_op l op (s, pc) = Inr c' \<and> lock_inv l c' ts pd rs' ws'"
proof -
  let ?r = "running_thread s"
  note D = lock_invD [OF inv]
  have k: "kstack (tasks s ?r) = []" using en op by (cases op) auto
  have on: "intr_get_status s = INTR_ON" by (rule stack_empty_pc(2) [OF D(3,6) k])
  then have f: "EFLAGS_IF AND eflags s \<noteq> 0" by (simp add: intr_get_status_def split: if_splits)
  have hd_in: "hd (rs @ [?r]) \<in> set rs \<union> {?r, idle_thread s}" by (cases rs) auto
  consider (sleep) "op = Idle_sleep" "?r = idle_thread s" | (yield) "op = Give_up"
    | (tick) "op = Tick" "ticks (tasks s ?r) = 0" | (count) "op = Tick" "ticks (tasks s ?r) \<noteq> 0"
    using op en by (cases op) auto
  then show ?thesis
  proof cases
    case sleep
    have b: "is_blocked TASK_BLOCKED" by (simp add: is_blocked_def)
    obtain s' where "thread_block TASK_BLOCKED s = Inr s'" "switched s s' (F_thread_block (intr_get_status s)) rs"
      "sched_inv s' (tl (if rs = [] then [idle_thread s] else rs)) ts pd"
      "running_thread s' = hd (if rs = [] then [idle_thread s] else rs)"
      using thread_block_ok [OF D(1) b] by blast
    moreover from this have "running_thread s' \<in> set rs \<union> {?r, idle_thread s}" by (cases rs) auto
    ultimately show ?thesis using switch_step [OF inv k] on sleep(1) by fastforce
  next
    case yield
    obtain s' where "thread_yield s = Inr s'" "sched_inv s' (tl (rs @ [?r])) ts pd"
      "running_thread s' = hd (rs @ [?r])" "switched s s' (F_thread_yield (intr_get_status s)) rs"
      using thread_yield_ok [OF D(1)] by blast
    then show ?thesis using switch_step [OF inv k] on hd_in yield by fastforce
  next
    case tick
    obtain s' where "clock_interrupt s = Inr s'" "sched_inv s' (tl (rs @ [?r])) ts pd"
      "running_thread s' = hd (rs @ [?r])" "switched s s' (F_intr_exit (eflags s)) rs"
      using clock_switches [OF D(1) tick(2)] by blast
    then show ?thesis using switch_step [OF inv k] f hd_in tick by fastforce
  next
    case count
    obtain s' where s': "clock_interrupt s = Inr s'" "sched_inv s' rs ts pd" "running_thread s' = ?r" "eflags s' = eflags s"
      "idle_thread s' = idle_thread s" "lheap s' = lheap s" "sema_value s' = sema_value s" "lock_holder s' = lock_holder s"
      "lock_repeat s' = lock_repeat s" "thread_ready_list s' = thread_ready_list s"
      "tasks s' = (tasks s)(?r := ticks_update (\<lambda>n. n - 1) (elapsed_ticks_update (\<lambda>n. n + 1) (tasks s ?r)))"
      using clock_keeps [OF D(1) count(2)] by blast
    have kst: "kstack (tasks s' t) = kstack (tasks s t)" "status (tasks s' t) = status (tasks s t)" for t
      by (simp_all add: s'(11))
    have "wait_ok l s' pc ts ws" by (rule wait_ok_cong [OF D(4)]) (simp_all add: s' kst)
    moreover have "stacks_ok l s' pc ts"
      using D(3) intr_get_status_cong [OF s'(4)] unfolding stacks_ok_def kst s'(3) by simp
    moreover have "lock_vals l s' pc ts" using D(2) unfolding lock_vals_def s'(7-9) .
    ultimately have "lock_inv l (s', pc) ts pd rs ws" using s'(2,5) D(5) by (simp add: lock_inv_def)
    moreover have "lock_op l op (s, pc) = Inr (s', pc)" using count s'(1) by simp
    ultimately show ?thesis by blast
  qed
qed

lemma lock_op_ok:
  assumes inv: "lock_inv l c ts pd rs ws" and en: "lop_enabled l op c"
  shows "\<exists>c' rs' ws'. lock_op l op c = Inr c' \<and> lock_inv l c' ts pd rs' ws'"
proof -
  obtain s pc where c: "c = (s, pc)" by (cases c)
  consider "op \<in> {Acquire, Take, Mark, Release, Clear, Zero}" | "op \<in> {Tick, Give_up, Idle_sleep}"
    | "op = Down" | "op = Up" | "op = Resume" by (cases op) auto
  then show ?thesis
  proof cases
    case 1
    then show ?thesis using field_ops_ok [of l s pc ts pd rs ws op] inv en c by metis
  next
    case 5
    then show ?thesis using resume_back_ok [of l s pc ts pd rs ws] resume_loop_ok [of l s pc ts pd rs ws] inv en c by metis
  qed (use give_up_ok [of l s pc ts pd rs ws op] down_ok [of l s pc ts pd rs ws] up_ok [of l s pc ts pd rs ws] inv en c in metis)+
qed

lemma lock_reach_inv:
  assumes "lock_reach l c0 c" "lock_inv l c0 ts pd rs0 ws0"
  shows "\<exists>rs ws. lock_inv l c ts pd rs ws"
  using assms
proof (induction rule: lock_reach.induct)
  case (step c op c')
  then obtain rs ws where "lock_inv l c ts pd rs ws" by blast
  with lock_op_ok [OF this step.hyps(2)] step.hyps(3) show ?case by auto
qed blast

section \<open>The steps and the routines\<close>

text \<open>
  The steps are those of the routines. \<open>under\<close> puts a frame below all others on the stack of a thread:
  the step relation keeps in the program counter that a waiting thread is inside \<^verbatim>\<open>lock_acquire\<close>, the
  routine keeps a frame on the stack. None of the routines below looks at that frame.
\<close>

definition under :: "u32 \<Rightarrow> kframe \<Rightarrow> 'a tsys_scheme \<Rightarrow> 'a tsys_scheme" where
  "under t f = task_upd t (kstack_update (\<lambda>fs. fs @ [f]))"

lemma under_fields [simp]:
  "lheap (under t f s) = lheap s" "thread_ready_list (under t f s) = thread_ready_list s"
  "idle_thread (under t f s) = idle_thread s" "running_thread (under t f s) = running_thread s"
  "phys (under t f s) = phys s" "cr3 (under t f s) = cr3 s" "esp (under t f s) = esp s"
  "sema_value (under t f s) = sema_value s" "lock_holder (under t f s) = lock_holder s" "lock_repeat (under t f s) = lock_repeat s"
  "intr_get_status (under t f s) = intr_get_status s"
  "kstack (tasks (under t f s) u) = (if u = t then kstack (tasks s u) @ [f] else kstack (tasks s u))"
  "status (tasks (under t f s) u) = status (tasks s u)" "pgdir (tasks (under t f s) u) = pgdir (tasks s u)"
  "self_kstack (tasks (under t f s) u) = self_kstack (tasks s u)"
  by (simp_all add: under_def)






















lemma intr_status_keeps [simp]:
  "running_thread (snd (intr_set_status st s)) = running_thread s" "tasks (snd (intr_set_status st s)) = tasks s"
  by (cases st; simp add: intr_set_status_def intr_enable_def intr_disable_def sti_def cli_def running_thread_def)+








section \<open>Properties\<close>

lemma lock_init_inv:
  assumes "sched_inv s rs ts pd" "queue_sep s (l + 8) ts"
    and "thread_ready_list s \<noteq> l + 8" "stacks_ok l s (\<lambda>_. L_out) ts"
  shows "lock_inv l (lock_init l s, \<lambda>_. L_out) ts pd rs []"
proof -
  let ?s = "set_sema (l + 4) 1 (set_repeat l 0 (set_holder l NULL s))"
  have w: "sema_waiters (lock_semaphore l) = l + 8" by (simp add: sema_waiters_def lock_semaphore_def)
  have init: "lock_init l s = list_init (l + 8) ?s"
    by (simp add: lock_init_def sema_init_def sema_waiters_def lock_semaphore_def add.commute)
  have eq: "lock_init l s = ?s\<lparr>lheap := lheap (lock_init l s)\<rparr>" by (simp add: init list_init_def)
  have n: "l + 8 \<notin> nodes (thread_ready_list s) (map general_tag rs)" "l + 8 + 8 \<notin> nodes (thread_ready_list s) (map general_tag rs)"
    using assms(2) sched_invD(3) [OF assms(1)] by (auto simp: queue_sep_def nodes_def)
  have "dlist (lheap (lock_init l s)) (thread_ready_list s) (map general_tag rs)"
    unfolding init
    by (rule dlist_frame [of "lheap s"])
      (use sched_invD(2) [OF assms(1)] n in \<open>auto simp: ready_list_def intro!: list_init_frame [of _ _ ?s, simplified]\<close>)
  then have "sched_inv (?s\<lparr>lheap := lheap (lock_init l s)\<rparr>) rs ts pd"
    by (intro sched_inv_heap) (simp_all add: assms(1))
  then have sch: "sched_inv (lock_init l s) rs ts pd" by (simp flip: eq)
  have f: "tasks (lock_init l s) = tasks s" "running_thread (lock_init l s) = running_thread s"
    "intr_get_status (lock_init l s) = intr_get_status s" "thread_ready_list (lock_init l s) = thread_ready_list s"
    "sema_value (lock_init l s) (lock_semaphore l) = 1" "lock_holder (lock_init l s) l = NULL" "lock_repeat (lock_init l s) l = 0"
    by (simp_all add: init list_init_def running_thread_def intr_get_status_def lock_semaphore_def set_sema_def
        set_repeat_def set_holder_def)
  have "wait_list (lock_init l s) (l + 8) []" by (simp add: wait_list_def init dlist_init)
  then have "wait_ok l (lock_init l s) (\<lambda>_. L_out) ts []"
    by (intro wait_okI) (use assms(2) in \<open>simp_all add: w queue_sep_def f\<close>)
  moreover have "stacks_ok l (lock_init l s) (\<lambda>_. L_out) ts" using assms(4) by (simp add: stacks_ok_def f)
  moreover have "lock_vals l (lock_init l s) (\<lambda>_. L_out) ts" by (rule lock_vals_noowner) (simp_all add: f)
  ultimately show ?thesis using sch by (simp add: lock_inv_def)
qed

text \<open>The lock at 0xc0006000 in the system of three threads.\<close>

lemma demo_lock: "lock_inv 0xc0006000 (lock_init 0xc0006000 demo_tsys, \<lambda>_. L_out) demo_ts (\<lambda>_. 0x100000) [0xc0103000] []"
proof (rule lock_init_inv [OF demo_inv])
  show "queue_sep demo_tsys (0xc0006000 + 8) demo_ts" by (simp add: queue_sep_def demo_tsys_fields general_tag_def)
  show "stacks_ok 0xc0006000 demo_tsys (\<lambda>_. L_out) demo_ts"
    by (intro stacks_okI) (auto simp: demo_tsys_fields demo_task_def)
qed (simp add: demo_tsys_fields)

text \<open>
  C1: Mutual exclusion: however the steps of \<^verbatim>\<open>lock_acquire\<close> and \<^verbatim>\<open>lock_release\<close> of any number of
  threads are interleaved with each other, with yields and with clock interrupts, at most one
  thread is between them, and the holder field names it.
\<close>
theorem mutual_exclusion:
  assumes "lock_inv l c0 ts pd rs0 ws0" "lock_reach l c0 (s, pc)" "t \<in> set ts" "pc t = L_crit"
  shows "lock_holder s l = t \<and> lock_repeat s l \<noteq> 0 \<and> (\<forall>u\<in>set ts. pc u = L_crit \<longrightarrow> u = t)"
proof -
  obtain rs ws where "lock_inv l (s, pc) ts pd rs ws" using lock_reach_inv [OF assms(2,1)] by blast
  note V = lock_vals_owner [OF lock_invD(2) [OF this] assms(3)]
  have "u = t" if "u \<in> set ts" "pc u = L_crit" for u using V(1) [OF _ that(1)] that(2) assms(4) by auto
  then show ?thesis using V(3,5) assms(4) by simp
qed

theorem mutual_exclusion_witness:
  "\<exists>s pc. lock_reach 0xc0006000 (lock_init 0xc0006000 demo_tsys, \<lambda>_. L_out) (s, pc) \<and>
    pc 0xc009e000 = L_crit \<and> lock_holder s 0xc0006000 = 0xc009e000"
proof -
  let ?l = "0xc0006000 :: u32" and ?t = "0xc009e000 :: u32"
  let ?s = "lock_init ?l demo_tsys" and ?p = "lock_semaphore 0xc0006000"
  have f: "running_thread ?s = ?t" "kstack (tasks ?s ?t) = []" "idle_thread ?s = 0xc0102000" "lock_holder ?s ?l = 0"
    "sema_value ?s ?p = 1" "lock_repeat ?s ?l = 0"
    by (simp_all add: lock_init_def sema_init_def list_init_def running_thread_def demo_tsys_fields demo_task_def
        set_sema_def set_holder_def set_repeat_def)
  have t: "tasks (set_sema ?p 0 ?s) = tasks ?s" by simp
  have "lock_reach ?l (?s, \<lambda>_. L_out) (?s, (\<lambda>_. L_out)(?t := L_down))"
    by (rule lock_reach.step [where op = Acquire, OF lock_reach.start]) (simp_all add: f)
  then have "lock_reach ?l (?s, \<lambda>_. L_out) (set_sema ?p 0 ?s, (\<lambda>_. L_out)(?t := L_own))"
    by (rule lock_reach.step [where op = Down]) (simp_all add: f sema_down_free)
  then have "lock_reach ?l (?s, \<lambda>_. L_out) (set_holder ?l ?t (set_sema ?p 0 ?s), (\<lambda>_. L_out)(?t := L_mark))"
    by (rule lock_reach.step [where op = Take]) (simp_all add: f)
  then have r: "lock_reach ?l (?s, \<lambda>_. L_out) (set_repeat ?l 1 (set_holder ?l ?t (set_sema ?p 0 ?s)), (\<lambda>_. L_out)(?t := L_crit))"
    by (rule lock_reach.step [where op = Mark]) (simp_all add: f)
  moreover have "lock_holder (set_repeat ?l 1 (set_holder ?l ?t (set_sema ?p 0 ?s))) ?l = ?t"
    using mutual_exclusion [OF demo_lock r, of ?t] by simp
  ultimately show ?thesis by (metis fun_upd_same)
qed

text \<open>
  C7: The lock routines never fail: in every reachable state every step that the running thread
  can take returns. None of the assertions of \<^verbatim>\<open>sema_down\<close>, \<^verbatim>\<open>sema_up\<close>, \<^verbatim>\<open>lock_acquire\<close>,
  \<^verbatim>\<open>lock_release\<close>, \<^verbatim>\<open>thread_block\<close>, \<^verbatim>\<open>thread_unblock\<close> and \<^verbatim>\<open>schedule\<close> can fire.
\<close>
theorem lock_steps_return:
  assumes "lock_inv l c0 ts pd rs0 ws0" "lock_reach l c0 c" "lop_enabled l op c"
  shows "\<exists>c'. lock_op l op c = Inr c'"
  using lock_reach_inv [OF assms(2,1)] lock_op_ok [OF _ assms(3)] by blast

theorem lock_steps_return_witness:
  "\<exists>c'. lock_op 0xc0006000 Give_up (lock_init 0xc0006000 demo_tsys, \<lambda>_. L_out) = Inr c'"
proof (rule lock_steps_return [OF demo_lock lock_reach.start])
  show "lop_enabled 0xc0006000 Give_up (lock_init 0xc0006000 demo_tsys, \<lambda>_. L_out)"
    by (simp add: lock_init_def sema_init_def list_init_def running_thread_def demo_tsys_fields demo_task_def
        set_sema_def set_holder_def set_repeat_def)
qed

text \<open>
  C3: No wake-up is lost: whenever the semaphore of the lock is free although a thread sleeps in
  its queue, another thread that was woken from the queue is ready or running and will test the
  value again.
\<close>
theorem no_lost_wakeup:
  assumes "lock_inv l c0 ts pd rs0 ws0" "lock_reach l c0 (s, pc)" "sema_value s (lock_semaphore l) \<noteq> 0"
    "t \<in> set ts" "pc t = L_wait" "status (tasks s t) = TASK_BLOCKED"
  shows "\<exists>u\<in>set ts. pc u = L_wait \<and> status (tasks s u) \<noteq> TASK_BLOCKED"
proof -
  obtain rs ws where "lock_inv l (s, pc) ts pd rs ws" using lock_reach_inv [OF assms(2,1)] by blast
  note W = wait_okD [OF lock_invD(4) [OF this]]
  have "ws \<noteq> []" using W(6) [OF assms(4,5)] assms(6) by auto
  then show ?thesis using W(6,7) assms(3) by blast
qed

text \<open>
  The same system after a release: 0xc0104000 still sleeps in the queue at 0xc0006008, 0xc0103000
  was woken and is ready.
\<close>

definition demo_wait :: tsys where
  "demo_wait = task_upd 0xc0103000 (kstack_update (\<lambda>_. wait_frames 0xc0006000))
     (task_upd 0xc0104000 (kstack_update (\<lambda>_. wait_frames 0xc0006000))
       (list_append 0xc0006008 (general_tag 0xc0104000) (list_init 0xc0006008 demo_tsys)))"

abbreviation demo_wait_pc :: "u32 \<Rightarrow> lpc" where
  "demo_wait_pc \<equiv> (\<lambda>_. L_out)(0xc0103000 := L_wait, 0xc0104000 := L_wait)"

lemma demo_wait_inv:
  "lock_inv 0xc0006000 (demo_wait, demo_wait_pc) [0xc009e000, 0xc0102000, 0xc0103000, 0xc0104000] (\<lambda>_. 0x100000)
    [0xc0103000] [0xc0104000]"
proof -
  let ?ts = "[0xc009e000, 0xc0102000, 0xc0103000, 0xc0104000] :: u32 list"
  have w: "sema_waiters (lock_semaphore 0xc0006000) = 0xc0006008" by (simp add: sema_waiters_def lock_semaphore_def)
  have f: "tasks demo_wait = (tasks demo_tsys)
      (0xc0104000 := (tasks demo_tsys 0xc0104000)\<lparr>kstack := wait_frames 0xc0006000\<rparr>,
       0xc0103000 := (tasks demo_tsys 0xc0103000)\<lparr>kstack := wait_frames 0xc0006000\<rparr>)"
    "thread_ready_list demo_wait = 0xc0005000" "idle_thread demo_wait = 0xc0102000"
    "running_thread demo_wait = 0xc009e000" "phys demo_wait = demo_phys" "cr3 demo_wait = 0x100000"
    "intr_get_status demo_wait = INTR_ON" "sema_value demo_wait = (\<lambda>_. 1)" "lock_holder demo_wait = (\<lambda>_. NULL)"
    "lock_repeat demo_wait = (\<lambda>_. 0)"
    using demo_tsys_fields by (simp_all add: demo_wait_def list_init_def running_thread_def intr_get_status_def list_append_def list_insert_before_eq)
  have "dlist (lheap demo_wait) 0xc0006008 ([] @ [general_tag 0xc0104000])"
    unfolding demo_wait_def task_upd_fields by (intro dlist_append dlist_init) (simp add: nodes_def general_tag_def)
  then have wl: "wait_list demo_wait 0xc0006008 [0xc0104000]" by (simp add: wait_list_def)
  have "dlist (lheap demo_wait) 0xc0005000 [general_tag 0xc0103000]"
  proof (rule dlist_frame)
    show "dlist (lheap demo_tsys) 0xc0005000 [general_tag 0xc0103000]"
      using sched_invD(2) [OF demo_inv] by (simp add: ready_list_def demo_tsys_fields)
    fix x assume x: "x \<in> nodes 0xc0005000 [general_tag 0xc0103000]"
    have "lheap (list_append 0xc0006008 (general_tag 0xc0104000) (list_init 0xc0006008 demo_tsys)) x =
        lheap (list_init 0xc0006008 demo_tsys) x"
      by (rule list_append_frame [OF dlist_init]) (use x in \<open>auto simp: nodes_def general_tag_def\<close>)
    also have "\<dots> = lheap demo_tsys x"
      by (rule list_init_frame) (use x in \<open>auto simp: nodes_def general_tag_def\<close>)
    finally show "lheap demo_wait x = lheap demo_tsys x" by (simp add: demo_wait_def)
  qed
  then have "ready_list demo_wait [0xc0103000]" by (simp add: ready_list_def f)
  moreover have "sched_wf demo_wait ?ts (\<lambda>_. 0x100000)"
    by (simp add: sched_wf_def f demo_tsys_fields demo_task_def page_dirs_def frame_def general_tag_def)
  ultimately have "sched_inv demo_wait [0xc0103000] ?ts (\<lambda>_. 0x100000)"
    by (simp add: sched_inv_def f demo_tsys_fields demo_task_def idle_ok_def)
  moreover have "wait_ok 0xc0006000 demo_wait demo_wait_pc ?ts [0xc0104000]"
    by (rule wait_okI) (use wl in \<open>auto simp: w queue_sep_def f general_tag_def demo_tsys_fields demo_task_def split: if_splits\<close>)
  moreover have "stacks_ok 0xc0006000 demo_wait demo_wait_pc ?ts"
    by (rule stacks_okI) (auto simp: f demo_tsys_fields demo_task_def split: if_splits)
  moreover have "lock_vals 0xc0006000 demo_wait demo_wait_pc ?ts" by (rule lock_vals_noowner) (auto simp: f split: if_splits)
  ultimately show ?thesis by (simp add: lock_inv_def f)
qed

theorem no_lost_wakeup_witness: "\<exists>u. demo_wait_pc u = L_wait \<and> status (tasks demo_wait u) \<noteq> TASK_BLOCKED"
proof -
  have "sema_value demo_wait (lock_semaphore 0xc0006000) \<noteq> 0" "0xc0104000 \<in> set [0xc009e000, 0xc0102000, 0xc0103000, 0xc0104000 :: u32]"
    "demo_wait_pc 0xc0104000 = L_wait" "status (tasks demo_wait 0xc0104000) = TASK_BLOCKED"
    by (simp_all add: demo_wait_def list_init_def demo_tsys_fields demo_task_def)
  from no_lost_wakeup [OF demo_wait_inv lock_reach.start this] show ?thesis by blast
qed



end
