(* ===== verification/Ioqueue.thy ===== *)
theory Ioqueue
  imports Sync KString "HOL-Library.Signed_Division"
begin

text \<open>
  The circular queue of \<^verbatim>\<open>device/ioqueue.c\<close> between an interrupt handler and a thread. A
  \<^verbatim>\<open>struct ioqueue\<close> is its address; its lock is at the same address. The two positions are C
  \<^verbatim>\<open>int32_t\<close> values, written as integers with the truncating remainder of C. \<^verbatim>\<open>ioq_getchar\<close> and
  \<^verbatim>\<open>ioq_putchar\<close> return \<open>None\<close> when the caller is asleep; the two \<open>waited\<close> continuations run when it
  is switched to again.
\<close>

section \<open>The routines\<close>

definition bufsize :: int where
  "bufsize = 64"

record ioqueue =
  producer :: u32
  consumer :: u32
  buf :: "u8 list"
  head :: int
  tail :: int

record devsys = tsys +
  ioqs :: "u32 \<Rightarrow> ioqueue"
  screen :: "u8 list"
  kmem :: mem

datatype ioq_side = Producer | Consumer

definition ioq_upd :: "u32 \<Rightarrow> (ioqueue \<Rightarrow> ioqueue) \<Rightarrow> 'a devsys_scheme \<Rightarrow> 'a devsys_scheme" where
  "ioq_upd q f s = s\<lparr>ioqs := (ioqs s)(q := f (ioqs s q))\<rparr>"

definition waiter :: "ioq_side \<Rightarrow> ioqueue \<Rightarrow> u32" where
  "waiter w io = (case w of Producer \<Rightarrow> producer io | Consumer \<Rightarrow> consumer io)"

definition set_waiter :: "ioq_side \<Rightarrow> u32 \<Rightarrow> ioqueue \<Rightarrow> ioqueue" where
  "set_waiter w t io = (case w of Producer \<Rightarrow> io\<lparr>producer := t\<rparr> | Consumer \<Rightarrow> io\<lparr>consumer := t\<rparr>)"

definition ioqueue_init :: "u32 \<Rightarrow> 'a devsys_scheme \<Rightarrow> 'a devsys_scheme" where
  "ioqueue_init q s =
     ioq_upd q (\<lambda>io. io\<lparr>producer := NULL, consumer := NULL, head := 0, tail := 0\<rparr>) (lock_init q s)"

definition next_pos :: "int \<Rightarrow> int" where
  "next_pos pos = (pos + 1) smod bufsize"

definition ioq_full :: "u32 \<Rightarrow> 'a devsys_scheme \<Rightarrow> bool res" where
  "ioq_full q s = ASSERT (intr_get_status s = INTR_OFF) (Inr (next_pos (head (ioqs s q)) = tail (ioqs s q)))"

definition ioq_empty :: "u32 \<Rightarrow> 'a devsys_scheme \<Rightarrow> bool res" where
  "ioq_empty q s = ASSERT (intr_get_status s = INTR_OFF) (Inr (head (ioqs s q) = tail (ioqs s q)))"

definition ioq_wait :: "ioq_side \<Rightarrow> u32 \<Rightarrow> 'a devsys_scheme \<Rightarrow> 'a devsys_scheme res" where
  "ioq_wait w q s =
     ASSERT (waiter w (ioqs s q) = NULL)
       (thread_block TASK_BLOCKED (ioq_upd q (set_waiter w (running_thread s)) s))"

definition wakeup :: "ioq_side \<Rightarrow> u32 \<Rightarrow> 'a devsys_scheme \<Rightarrow> 'a devsys_scheme res" where
  "wakeup w q s =
     ASSERT (waiter w (ioqs s q) \<noteq> NULL)
       (kbind (thread_unblock (waiter w (ioqs s q)) s) (\<lambda>s. Inr (ioq_upd q (set_waiter w NULL) s)))"

definition wake_other :: "ioq_side \<Rightarrow> u32 \<Rightarrow> 'a devsys_scheme \<Rightarrow> 'a devsys_scheme res" where
  "wake_other w q s = (if waiter w (ioqs s q) \<noteq> NULL then wakeup w q s else Inr s)"

text \<open>The two accesses to the buffer.\<close>

definition ring_get :: "ioqueue \<Rightarrow> (u8 \<times> ioqueue) res" where
  "ring_get io =
     (if 0 \<le> tail io \<and> nat (tail io) < length (buf io)
      then Inr (buf io ! nat (tail io), io\<lparr>tail := next_pos (tail io)\<rparr>) else Inl OUT_OF_BOUNDS)"

definition ring_put :: "u8 \<Rightarrow> ioqueue \<Rightarrow> ioqueue res" where
  "ring_put byte io =
     (if 0 \<le> head io \<and> nat (head io) < length (buf io)
      then Inr (io\<lparr>buf := (buf io)[nat (head io) := byte], head := next_pos (head io)\<rparr>) else Inl OUT_OF_BOUNDS)"

definition ioq_getchar_locked :: "u32 \<Rightarrow> 'a devsys_scheme \<Rightarrow> (u8 option \<times> 'a devsys_scheme) res" where
  "ioq_getchar_locked q s =
     kbind (ioq_wait Consumer q (push_frame (running_thread s) (F_ioq_getchar_waited q) s)) (\<lambda>s. Inr (None, s))"

definition ioq_getchar_loop :: "u32 \<Rightarrow> 'a devsys_scheme \<Rightarrow> (u8 option \<times> 'a devsys_scheme) res" where
  "ioq_getchar_loop q s =
     kbind (ioq_empty q s) (\<lambda>empty.
       if empty then
         kbind (lock_acquire q (push_frame (running_thread s) (F_ioq_getchar_locked q) s)) (\<lambda>(returned, s).
           if returned then ioq_getchar_locked q (pop_frame s) else Inr (None, s))
       else
         kbind (ring_get (ioqs s q)) (\<lambda>(byte, io).
           kbind (wake_other Producer q (ioq_upd q (\<lambda>_. io) s)) (\<lambda>s. Inr (Some byte, s))))"

definition ioq_getchar :: "u32 \<Rightarrow> 'a devsys_scheme \<Rightarrow> (u8 option \<times> 'a devsys_scheme) res" where
  "ioq_getchar q s = ASSERT (intr_get_status s = INTR_OFF) (ioq_getchar_loop q s)"

definition ioq_getchar_waited :: "u32 \<Rightarrow> 'a devsys_scheme \<Rightarrow> (u8 option \<times> 'a devsys_scheme) res" where
  "ioq_getchar_waited q s = kbind (lock_release q s) (ioq_getchar_loop q)"

definition ioq_putchar_locked :: "u32 \<Rightarrow> u8 \<Rightarrow> 'a devsys_scheme \<Rightarrow> (bool \<times> 'a devsys_scheme) res" where
  "ioq_putchar_locked q byte s =
     kbind (ioq_wait Producer q (push_frame (running_thread s) (F_ioq_putchar_waited q byte) s)) (\<lambda>s. Inr (False, s))"

definition ioq_putchar_loop :: "u32 \<Rightarrow> u8 \<Rightarrow> 'a devsys_scheme \<Rightarrow> (bool \<times> 'a devsys_scheme) res" where
  "ioq_putchar_loop q byte s =
     kbind (ioq_full q s) (\<lambda>full.
       if full then
         kbind (lock_acquire q (push_frame (running_thread s) (F_ioq_putchar_locked q byte) s)) (\<lambda>(returned, s).
           if returned then ioq_putchar_locked q byte (pop_frame s) else Inr (False, s))
       else
         kbind (ring_put byte (ioqs s q)) (\<lambda>io.
           kbind (wake_other Consumer q (ioq_upd q (\<lambda>_. io) s)) (\<lambda>s. Inr (True, s))))"

definition ioq_putchar :: "u32 \<Rightarrow> u8 \<Rightarrow> 'a devsys_scheme \<Rightarrow> (bool \<times> 'a devsys_scheme) res" where
  "ioq_putchar q byte s = ASSERT (intr_get_status s = INTR_OFF) (ioq_putchar_loop q byte s)"

definition ioq_putchar_waited :: "u32 \<Rightarrow> u8 \<Rightarrow> 'a devsys_scheme \<Rightarrow> (bool \<times> 'a devsys_scheme) res" where
  "ioq_putchar_waited q byte s = kbind (lock_release q s) (ioq_putchar_loop q byte)"

section \<open>The ring as a sequence\<close>

definition ring_ok :: "ioqueue \<Rightarrow> bool" where
  "ring_ok io \<longleftrightarrow> length (buf io) = 64 \<and> 0 \<le> head io \<and> head io < 64 \<and> 0 \<le> tail io \<and> tail io < 64"

definition ring_len :: "ioqueue \<Rightarrow> nat" where
  "ring_len io = nat ((head io - tail io) mod 64)"

definition ring_at :: "ioqueue \<Rightarrow> nat \<Rightarrow> u8" where
  "ring_at io i = buf io ! nat ((tail io + int i) mod 64)"

text \<open>The bytes between the two positions, oldest first.\<close>

definition ring_seq :: "ioqueue \<Rightarrow> u8 list" where
  "ring_seq io = map (ring_at io) [0..<ring_len io]"

lemma next_pos_mod: "0 \<le> p \<Longrightarrow> next_pos p = (p + 1) mod 64"
  by (simp add: next_pos_def bufsize_def signed_modulo_int_def sgn_if)

lemma mod64_diff:
  "0 \<le> h \<Longrightarrow> h < 64 \<Longrightarrow> 0 \<le> t \<Longrightarrow> t < 64 \<Longrightarrow> (h - t) mod 64 = (if t \<le> h then h - t else h - t + 64)" for h t :: int
  using mod_add_self2 [of "h - t" 64] mod_pos_pos_trivial [of "h - t" 64] mod_pos_pos_trivial [of "h - t + 64" 64]
  by (simp only: split: if_split) linarith

lemma mod64_add:
  "0 \<le> a \<Longrightarrow> a < 64 \<Longrightarrow> 0 \<le> b \<Longrightarrow> b < 64 \<Longrightarrow> (a + b) mod 64 = (if a + b < 64 then a + b else a + b - 64)" for a b :: int
  using mod_add_self2 [of "a + b - 64" 64] mod_pos_pos_trivial [of "a + b" 64] mod_pos_pos_trivial [of "a + b - 64" 64]
  by (simp only: diff_add_cancel split: if_split) linarith

lemma ring_len_less: "ring_len io < 64"
  by (simp add: ring_len_def nat_less_iff)

lemma length_ring_seq [simp]: "length (ring_seq io) = ring_len io"
  by (simp add: ring_seq_def)

lemma ring_empty_iff: "ring_ok io \<Longrightarrow> head io = tail io \<longleftrightarrow> ring_seq io = []"
proof -
  assume "ring_ok io"
  then have "(head io - tail io) mod 64 = 0 \<longleftrightarrow> head io = tail io"
    by (auto simp: ring_ok_def mod64_diff split: if_splits)
  moreover have "0 \<le> (head io - tail io) mod 64" by simp
  ultimately show ?thesis by (auto simp: ring_seq_def ring_len_def)
qed

lemma ring_full_iff: "ring_ok io \<Longrightarrow> next_pos (head io) = tail io \<longleftrightarrow> length (ring_seq io) = 63"
proof -
  assume ok: "ring_ok io"
  then have "(head io + 1) mod 64 = tail io \<longleftrightarrow> (head io - tail io) mod 64 = 63"
    by (auto simp: ring_ok_def mod64_diff mod64_add split: if_splits)
  then show ?thesis using ok by (auto simp: next_pos_mod ring_ok_def ring_len_def)
qed

lemma ring_put_seq:
  assumes "ring_ok io" "length (ring_seq io) < 63"
  shows "\<exists>io'. ring_put c io = Inr io' \<and> ring_ok io' \<and> ring_seq io' = ring_seq io @ [c] \<and>
    producer io' = producer io \<and> consumer io' = consumer io"
proof -
  let ?io = "io\<lparr>buf := (buf io)[nat (head io) := c], head := next_pos (head io)\<rparr>"
  have r: "0 \<le> head io" "head io < 64" "0 \<le> tail io" "tail io < 64" "length (buf io) = 64"
    using assms(1) by (auto simp: ring_ok_def)
  have ok: "ring_ok ?io" using r by (simp add: ring_ok_def next_pos_mod)
  have "(head io - tail io) mod 64 < 63" using assms(2) by (simp add: ring_len_def)
  then have "((head io + 1) mod 64 - tail io) mod 64 = (head io - tail io) mod 64 + 1"
    using r mod64_diff [of "(head io + 1) mod 64" "tail io"] by (auto simp: mod64_diff mod64_add split: if_splits)
  then have len: "ring_len ?io = Suc (ring_len io)" using r by (simp add: ring_len_def next_pos_mod nat_add_distrib)
  have old: "ring_at ?io i = ring_at io i" if "i < ring_len io" for i
  proof -
    have "int i < (head io - tail io) mod 64" using that by (simp add: ring_len_def zless_nat_eq_int_zless)
    then have "(tail io + int i) mod 64 \<noteq> head io"
      using r mod64_add [of "tail io" "int i"] by (auto simp: mod64_diff split: if_splits)
    then have "nat ((tail io + int i) mod 64) \<noteq> nat (head io)" using r(1) by (simp add: nat_eq_iff)
    then show ?thesis by (simp add: ring_at_def)
  qed
  have "(tail io + (head io - tail io) mod 64) mod 64 = head io" using r by (simp add: mod_simps mod_pos_pos_trivial)
  then have new: "ring_at ?io (ring_len io) = c" using r by (simp add: ring_at_def ring_len_def)
  have "ring_seq ?io = map (ring_at ?io) [0..<ring_len io] @ [ring_at ?io (ring_len io)]"
    by (simp add: ring_seq_def len)
  also have "\<dots> = ring_seq io @ [c]" using old new by (simp add: ring_seq_def)
  finally show ?thesis using ok r by (auto simp: ring_put_def)
qed

lemma ring_get_seq:
  assumes "ring_ok io" "ring_seq io \<noteq> []"
  shows "\<exists>io'. ring_get io = Inr (hd (ring_seq io), io') \<and> ring_ok io' \<and> ring_seq io' = tl (ring_seq io) \<and>
    producer io' = producer io \<and> consumer io' = consumer io"
proof -
  let ?io = "io\<lparr>tail := next_pos (tail io)\<rparr>"
  have r: "0 \<le> head io" "head io < 64" "0 \<le> tail io" "tail io < 64" "length (buf io) = 64"
    using assms(1) by (auto simp: ring_ok_def)
  have ok: "ring_ok ?io" using r by (simp add: ring_ok_def next_pos_mod)
  have pos: "0 < ring_len io" using assms(2) by (simp add: ring_seq_def)
  then have "0 < (head io - tail io) mod 64" by (simp add: ring_len_def)
  then have "(head io - (tail io + 1) mod 64) mod 64 = (head io - tail io) mod 64 - 1"
    using r mod64_diff [of "head io" "(tail io + 1) mod 64"] by (auto simp: mod64_diff mod64_add split: if_splits)
  then have len: "ring_len ?io = ring_len io - 1" using r by (simp add: ring_len_def next_pos_mod nat_diff_distrib')
  have shift: "ring_at ?io i = ring_at io (Suc i)" for i
  proof -
    have "((tail io + 1) mod 64 + int i) mod 64 = (tail io + int (Suc i)) mod 64" by (simp add: mod_simps algebra_simps)
    then show ?thesis using r by (simp add: ring_at_def next_pos_mod)
  qed
  have up: "[0..<ring_len io] = 0 # map Suc [0..<ring_len io - 1]"
    using pos by (metis map_Suc_upt upt_rec Suc_pred' One_nat_def)
  have "ring_seq io = ring_at io 0 # ring_seq ?io"
    by (simp add: ring_seq_def len up shift)
  moreover have "ring_at io 0 = buf io ! nat (tail io)" using r by (simp add: ring_at_def)
  ultimately show ?thesis using ok r by (auto simp: ring_get_def)
qed

section \<open>The interface of a bounded byte queue\<close>

locale byte_queue =
  fixes ok :: "'q \<Rightarrow> bool"
    and seq :: "'q \<Rightarrow> u8 list"
    and put :: "u8 \<Rightarrow> 'q \<Rightarrow> 'q res"
    and get :: "'q \<Rightarrow> (u8 \<times> 'q) res"
    and cap :: nat
  assumes put_law: "ok q \<Longrightarrow> length (seq q) < cap \<Longrightarrow> \<exists>q'. put c q = Inr q' \<and> ok q' \<and> seq q' = seq q @ [c]"
    and get_law: "ok q \<Longrightarrow> seq q \<noteq> [] \<Longrightarrow> \<exists>q'. get q = Inr (hd (seq q), q') \<and> ok q' \<and> seq q' = tl (seq q)"
begin

lemma puts: "ok q \<Longrightarrow> length (seq q) + length cs \<le> cap \<Longrightarrow>
    \<exists>q'. each_res put cs q = Inr q' \<and> ok q' \<and> seq q' = seq q @ cs"
proof (induction cs arbitrary: q)
  case (Cons c cs)
  then obtain q1 where "put c q = Inr q1" "ok q1" "seq q1 = seq q @ [c]" using put_law [of q c] by auto
  with Cons.IH [of q1] Cons.prems show ?case by auto
qed simp

lemma gets: "ok q \<Longrightarrow> seq q = cs @ ds \<Longrightarrow>
    \<exists>q'. collect_res get (length cs) q = Inr (cs, q') \<and> ok q' \<and> seq q' = ds"
proof (induction cs arbitrary: q)
  case (Cons c cs)
  then obtain q1 where "get q = Inr (c, q1)" "ok q1" "seq q1 = cs @ ds" using get_law [of q] by auto
  with Cons.IH [of q1] show ?case by auto
qed simp

lemma fifo:
  assumes "ok q" "length (seq q) + length cs \<le> cap"
  shows "\<exists>q1 q2. each_res put cs q = Inr q1 \<and>
    collect_res get (length (seq q) + length cs) q1 = Inr (seq q @ cs, q2) \<and> ok q2 \<and> seq q2 = []"
proof -
  obtain q1 where q1: "each_res put cs q = Inr q1" "ok q1" "seq q1 = (seq q @ cs) @ []" using puts [OF assms] by auto
  from gets [OF q1(2,3)] q1(1) show ?thesis by auto
qed

end

interpretation ring: byte_queue ring_ok ring_seq ring_put ring_get 63
  by unfold_locales (use ring_put_seq ring_get_seq in blast)+

section \<open>The routines on the scheduler\<close>

lemma dev_more:
  assumes "tsys.more s' = tsys.more s"
  shows "ioqs s' = ioqs s" "screen s' = screen s" "kmem s' = kmem s" "devsys.more s' = devsys.more s"
  using assms by (cases s; cases s'; simp)+

lemmas sched_only_dev = dev_more [OF sched_onlyD(11)]

lemma ioq_upd_fields [simp]:
  "ioqs (ioq_upd q f s) = (ioqs s)(q := f (ioqs s q))" "tasks (ioq_upd q f s) = tasks s"
  "running_thread (ioq_upd q f s) = running_thread s" "intr_get_status (ioq_upd q f s) = intr_get_status s"
  "eflags (ioq_upd q f s) = eflags s" "devsys.more (ioq_upd q f s) = devsys.more s" "screen (ioq_upd q f s) = screen s"
  "lock_holder (ioq_upd q f s) = lock_holder s" "sema_value (ioq_upd q f s) = sema_value s"
  "lock_repeat (ioq_upd q f s) = lock_repeat s" "lheap (ioq_upd q f s) = lheap s"
  "thread_ready_list (ioq_upd q f s) = thread_ready_list s" "idle_thread (ioq_upd q f s) = idle_thread s"
  by (simp_all add: ioq_upd_def running_thread_def intr_get_status_def)

lemma sched_inv_ioq_upd [simp]: "sched_inv (ioq_upd q f s) rs ts pd \<longleftrightarrow> sched_inv s rs ts pd"
  by (simp add: sched_inv_def sched_wf_def ready_list_def running_thread_def ioq_upd_def)

text \<open>A recorded waiter is a blocked task.\<close>

definition waiter_ok :: "ioq_side \<Rightarrow> u32 \<Rightarrow> u32 list \<Rightarrow> 'a devsys_scheme \<Rightarrow> bool" where
  "waiter_ok w q ts s \<longleftrightarrow> waiter w (ioqs s q) = NULL \<or>
     waiter w (ioqs s q) \<in> set ts \<and> is_blocked (status (tasks s (waiter w (ioqs s q))))"

lemma wake_other_ok:
  assumes "sched_inv s rs ts pd" "waiter_ok w q ts s"
  shows "\<exists>s'. wake_other w q s = Inr s' \<and>
    sched_inv s' (if waiter w (ioqs s q) = NULL then rs else waiter w (ioqs s q) # rs) ts pd \<and>
    ioqs s' = (ioqs s)(q := set_waiter w NULL (ioqs s q)) \<and> running_thread s' = running_thread s \<and>
    eflags s' = eflags s \<and> screen s' = screen s \<and> devsys.more s' = devsys.more s"
proof (cases "waiter w (ioqs s q) = NULL")
  case True
  then have "set_waiter w NULL (ioqs s q) = ioqs s q"
    by (cases w; cases "ioqs s q") (simp_all add: waiter_def set_waiter_def)
  then show ?thesis using True assms(1) by (simp add: wake_other_def)
next
  case False
  let ?t = "waiter w (ioqs s q)"
  have "?t \<in> set ts" "is_blocked (status (tasks s ?t))" using assms(2) False by (auto simp: waiter_ok_def)
  from thread_unblock_ok [OF assms(1) this] obtain s1 where
    s1: "thread_unblock ?t s = Inr s1" "sched_inv s1 (?t # rs) ts pd" "running_thread s1 = running_thread s" "sched_only s s1"
    by blast
  then show ?thesis
    using False sched_only_dev [OF s1(4)] sched_onlyD(6) [OF s1(4)] by (simp add: wake_other_def wakeup_def)
qed

lemma ioq_putchar_ok:
  assumes inv: "sched_inv s rs ts pd" and off: "intr_get_status s = INTR_OFF"
    and ok: "ring_ok (ioqs s q)" "length (ring_seq (ioqs s q)) < 63" and w: "waiter_ok Consumer q ts s"
  shows "\<exists>s'. ioq_putchar q c s = Inr (True, s') \<and> ring_ok (ioqs s' q) \<and> ring_seq (ioqs s' q) = ring_seq (ioqs s q) @ [c] \<and>
    consumer (ioqs s' q) = NULL \<and> producer (ioqs s' q) = producer (ioqs s q) \<and> running_thread s' = running_thread s \<and>
    sched_inv s' (if consumer (ioqs s q) = NULL then rs else consumer (ioqs s q) # rs) ts pd \<and>
    eflags s' = eflags s \<and> screen s' = screen s \<and> (\<forall>p. p \<noteq> q \<longrightarrow> ioqs s' p = ioqs s p) \<and>
    devsys.more s' = devsys.more s"
proof -
  have nf: "next_pos (head (ioqs s q)) \<noteq> tail (ioqs s q)" using ring_full_iff [OF ok(1)] ok(2) by simp
  obtain io where io: "ring_put c (ioqs s q) = Inr io" "ring_ok io" "ring_seq io = ring_seq (ioqs s q) @ [c]"
    "producer io = producer (ioqs s q)" "consumer io = consumer (ioqs s q)"
    using ring_put_seq [OF ok] by blast
  let ?s = "ioq_upd q (\<lambda>_. io) s"
  have "sched_inv ?s rs ts pd" "waiter_ok Consumer q ts ?s"
    using inv w by (simp_all add: waiter_ok_def waiter_def io(5))
  moreover have wq: "waiter Consumer (ioqs ?s q) = consumer (ioqs s q)" by (simp add: waiter_def io(5))
  ultimately obtain s' where s': "wake_other Consumer q ?s = Inr s'"
    "sched_inv s' (if consumer (ioqs s q) = NULL then rs else consumer (ioqs s q) # rs) ts pd"
    "ioqs s' = (ioqs ?s)(q := set_waiter Consumer NULL io)" "running_thread s' = running_thread s"
    "eflags s' = eflags s" "screen s' = screen s" "devsys.more s' = devsys.more s"
    using wake_other_ok [of ?s rs ts pd Consumer q, unfolded wq] by auto
  have "ring_ok (set_waiter Consumer NULL io)" "ring_seq (set_waiter Consumer NULL io) = ring_seq io"
    using io(2) by (simp_all add: set_waiter_def ring_ok_def ring_seq_def ring_at_def ring_len_def)
  then show ?thesis
    using off nf io s' by (simp add: ioq_putchar_def ioq_putchar_loop_def ioq_full_def set_waiter_def)
qed

lemma ioq_getchar_ok:
  assumes inv: "sched_inv s rs ts pd" and off: "intr_get_status s = INTR_OFF"
    and ok: "ring_ok (ioqs s q)" "ring_seq (ioqs s q) = c # cs" and w: "waiter_ok Producer q ts s"
  shows "\<exists>s'. ioq_getchar q s = Inr (Some c, s') \<and> ring_ok (ioqs s' q) \<and> ring_seq (ioqs s' q) = cs \<and>
    producer (ioqs s' q) = NULL \<and> consumer (ioqs s' q) = consumer (ioqs s q) \<and>
    sched_inv s' (if producer (ioqs s q) = NULL then rs else producer (ioqs s q) # rs) ts pd \<and>
    eflags s' = eflags s"
proof -
  have ne: "head (ioqs s q) \<noteq> tail (ioqs s q)" using ring_empty_iff [OF ok(1)] ok(2) by simp
  obtain io where io: "ring_get (ioqs s q) = Inr (c, io)" "ring_ok io" "ring_seq io = cs"
    "producer io = producer (ioqs s q)" "consumer io = consumer (ioqs s q)"
    using ring_get_seq [OF ok(1)] ok(2) by auto
  let ?s = "ioq_upd q (\<lambda>_. io) s"
  have "sched_inv ?s rs ts pd" "waiter_ok Producer q ts ?s"
    using inv w by (simp_all add: waiter_ok_def waiter_def io(4))
  moreover have wq: "waiter Producer (ioqs ?s q) = producer (ioqs s q)" by (simp add: waiter_def io(4))
  ultimately obtain s' where s': "wake_other Producer q ?s = Inr s'"
    "sched_inv s' (if producer (ioqs s q) = NULL then rs else producer (ioqs s q) # rs) ts pd"
    "ioqs s' = (ioqs ?s)(q := set_waiter Producer NULL io)" "eflags s' = eflags s"
    using wake_other_ok [of ?s rs ts pd Producer q, unfolded wq] by auto
  have "ring_ok (set_waiter Producer NULL io)" "ring_seq (set_waiter Producer NULL io) = ring_seq io"
    using io(2) by (simp_all add: set_waiter_def ring_ok_def ring_seq_def ring_at_def ring_len_def)
  then show ?thesis
    using off ne io s' by (simp add: ioq_getchar_def ioq_getchar_loop_def ioq_empty_def set_waiter_def)
qed

text \<open>An empty queue: the reader takes the lock, records itself and blocks.\<close>

lemma ioq_getchar_blocks:
  assumes inv: "sched_inv s rs ts pd" and off: "intr_get_status s = INTR_OFF"
    and e: "ring_ok (ioqs s q)" "ring_seq (ioqs s q) = []" "consumer (ioqs s q) = NULL"
    and l: "sema_value s (lock_semaphore q) = 1" "lock_holder s q \<noteq> running_thread s" "lock_repeat s q = 0"
    and i: "running_thread s \<noteq> idle_thread s"
  defines "cur \<equiv> running_thread s"
  shows "\<exists>s' rs'. ioq_getchar q s = Inr (None, s') \<and> sched_inv s' rs' ts pd \<and> consumer (ioqs s' q) = cur \<and>
    status (tasks s' cur) = TASK_BLOCKED \<and> lock_holder s' q = cur \<and> ring_ok (ioqs s' q) \<and> ring_seq (ioqs s' q) = [] \<and>
    kstack (tasks s' cur) = F_thread_block INTR_OFF # F_ioq_getchar_waited q # kstack (tasks s cur)"
proof -
  let ?f = "push_frame cur (F_ioq_getchar_locked q) s"
  let ?l = "set_repeat q 1 (set_holder q cur (set_sema (lock_semaphore q) 0 s))"
  have "lock_acquire q ?f = Inr (True, set_repeat q 1 (set_holder q cur (set_sema (lock_semaphore q) 0 ?f)))"
    using lock_acquire_free [of ?f q] l by (simp add: cur_def)
  moreover have "pop_frame (set_repeat q 1 (set_holder q cur (set_sema (lock_semaphore q) 0 ?f))) = ?l"
    by (simp add: pop_frame_def push_frame_def task_upd_def set_sema_def set_holder_def set_repeat_def running_thread_def cur_def)
  moreover have "head (ioqs s q) = tail (ioqs s q)" using ring_empty_iff [OF e(1)] e(2) by simp
  moreover let ?w = "ioq_upd q (set_waiter Consumer cur) (push_frame cur (F_ioq_getchar_waited q) ?l)"
  have dev: "ioqs (push_frame t fr x) = ioqs x" "ioqs (set_repeat a b x) = ioqs x" "ioqs (set_holder a b x) = ioqs x"
    "ioqs (set_sema a c x) = ioqs x" for t fr a b c and x :: "'a devsys_scheme"
    by (simp_all add: push_frame_def task_upd_def set_repeat_def set_holder_def set_sema_def)
  ultimately have run: "ioq_getchar q s = kbind (thread_block TASK_BLOCKED ?w) (\<lambda>s. Inr (None, s))"
    using off e(3) by (simp add: ioq_getchar_def ioq_getchar_loop_def ioq_empty_def ioq_getchar_locked_def ioq_wait_def
        cur_def dev waiter_def) 
  have b: "is_blocked TASK_BLOCKED" by (simp add: is_blocked_def)
  have "sched_inv ?w rs ts pd" using inv by simp
  moreover have fw: "running_thread ?w = cur" "idle_thread ?w = idle_thread s" "intr_get_status ?w = INTR_OFF"
    using off by (simp_all add: cur_def)
  ultimately obtain s' where s': "thread_block TASK_BLOCKED ?w = Inr s'"
    "sched_inv s' (tl (if rs = [] then [idle_thread s] else rs)) ts pd" "switched ?w s' (F_thread_block INTR_OFF) rs"
    "cur \<noteq> hd (if rs = [] then [idle_thread s] else rs) \<longrightarrow> status (tasks s' cur) = TASK_BLOCKED"
    using thread_block_ok [of ?w rs ts pd, OF _ b, unfolded fw] by blast
  have "cur \<notin> set rs"
    using sched_invD(4,5) [OF inv sched_wfD(1) [OF sched_invD(1) [OF inv]]] by (simp add: cur_def)
  then have "cur \<noteq> hd (if rs = [] then [idle_thread s] else rs)" using i by (cases rs) (auto simp: cur_def)
  moreover have "ioqs s' = ioqs ?w" using switchedD(11) [OF s'(3)] by (rule dev_more)
  moreover have "ring_ok (set_waiter Consumer cur io) \<longleftrightarrow> ring_ok io" "ring_seq (set_waiter Consumer cur io) = ring_seq io"
    "consumer (set_waiter Consumer cur io) = cur" for io
    by (simp_all add: set_waiter_def ring_ok_def ring_seq_def ring_at_def ring_len_def)
  moreover have "kstack (tasks s' cur) = F_thread_block INTR_OFF # F_ioq_getchar_waited q # kstack (tasks s cur)"
    using switchedD(4) [OF s'(3)] by (simp add: cur_def)
  moreover have "lock_holder s' q = cur" using switchedD(7) [OF s'(3)] by simp
  ultimately show ?thesis using run s'(1,2,4) e(1,2) by (auto simp: dev)
qed

section \<open>Properties\<close>

text \<open>
  C12: The circular buffer is a bounded first-in first-out queue of 63 bytes: whatever is put
  into a buffer with room for it comes out again behind the bytes that were there, in order, and
  no access leaves the buffer.
\<close>
theorem ring_fifo:
  assumes "ring_ok io" "length (ring_seq io) + length cs \<le> 63"
  shows "\<exists>io1 io2. each_res ring_put cs io = Inr io1 \<and>
    collect_res ring_get (length (ring_seq io) + length cs) io1 = Inr (ring_seq io @ cs, io2) \<and> ring_seq io2 = []"
  using ring.fifo [OF assms] by blast

definition demo_ring :: ioqueue where
  "demo_ring = \<lparr>producer = NULL, consumer = NULL, buf = replicate 64 0, head = 63, tail = 63\<rparr>"

theorem ring_fifo_witness:
  "\<exists>io1 io2. each_res ring_put [65, 66, 67] demo_ring = Inr io1 \<and> collect_res ring_get 3 io1 = Inr ([65, 66, 67], io2)"
proof -
  have "ring_ok demo_ring" "ring_seq demo_ring = []"
    by (simp_all add: ring_ok_def demo_ring_def ring_seq_def ring_len_def)
  then show ?thesis using ring_fifo [of demo_ring "[65, 66, 67]"] by (auto simp: numeral_3_eq_3)
qed

text \<open>
  C13: \<^verbatim>\<open>ioq_putchar\<close> into a queue that is not full returns without blocking, appends the byte, and
  if a reader sleeps on the queue, wakes it: the reader goes to the front of the ready queue and
  is no longer recorded as waiting.
\<close>
theorem putchar_wakes_reader:
  assumes "sched_inv s rs ts pd" "intr_get_status s = INTR_OFF" "ring_ok (ioqs s q)"
    "length (ring_seq (ioqs s q)) < 63" "t = consumer (ioqs s q)" "t \<noteq> NULL" "t \<in> set ts"
    "status (tasks s t) = TASK_BLOCKED"
  shows "\<exists>s'. ioq_putchar q c s = Inr (True, s') \<and> ring_seq (ioqs s' q) = ring_seq (ioqs s q) @ [c] \<and>
    consumer (ioqs s' q) = NULL \<and> status (tasks s' t) = TASK_READY \<and> ready_list s' (t # rs)"
proof -
  have "waiter_ok Consumer q ts s" using assms(5-8) by (simp add: waiter_ok_def waiter_def is_blocked_def)
  from ioq_putchar_ok [OF assms(1-4) this] obtain s' where s': "ioq_putchar q c s = Inr (True, s')"
    "ring_seq (ioqs s' q) = ring_seq (ioqs s q) @ [c]" "consumer (ioqs s' q) = NULL" "sched_inv s' (t # rs) ts pd"
    using assms(5,6) by auto
  then show ?thesis using sched_invD(2,5) [OF s'(4)] assms(7) by auto
qed

text \<open>The three threads with a queue at 0xc0007000 on which the idle thread sleeps, interrupts off.\<close>

definition demo_dev :: "u32 \<Rightarrow> devsys" where
  "demo_dev t = (tsys.extend demo_tsys
     \<lparr>ioqs = (\<lambda>_. demo_ring\<lparr>consumer := t\<rparr>), screen = [], kmem = (\<lambda>_. 0)\<rparr>)\<lparr>eflags := 0\<rparr>"

lemma sched_inv_extend: "sched_inv (tsys.extend s x) rs ts pd \<longleftrightarrow> sched_inv s rs ts pd"
  by (simp add: sched_inv_def sched_wf_def ready_list_def running_thread_def tsys.defs)

lemma demo_dev_facts:
  "sched_inv (demo_dev t) [0xc0103000] demo_ts (\<lambda>_. 0x100000)" "intr_get_status (demo_dev t) = INTR_OFF"
  "ioqs (demo_dev t) = (\<lambda>_. demo_ring\<lparr>consumer := t\<rparr>)" "tasks (demo_dev t) = tasks demo_tsys"
  "running_thread (demo_dev t) = 0xc009e000" "idle_thread (demo_dev t) = 0xc0102000"
  "sema_value (demo_dev t) = (\<lambda>_. 1)" "lock_holder (demo_dev t) = (\<lambda>_. NULL)" "lock_repeat (demo_dev t) = (\<lambda>_. 0)"
  "ring_ok (demo_ring\<lparr>consumer := t\<rparr>)" "ring_seq (demo_ring\<lparr>consumer := t\<rparr>) = []"
proof -
  show "sched_inv (demo_dev t) [0xc0103000] demo_ts (\<lambda>_. 0x100000)"
    using demo_inv by (simp add: demo_dev_def sched_inv_extend)
  show "ring_ok (demo_ring\<lparr>consumer := t\<rparr>)" "ring_seq (demo_ring\<lparr>consumer := t\<rparr>) = []"
    by (simp_all add: ring_ok_def demo_ring_def ring_seq_def ring_len_def)
qed (use demo_tsys_fields in \<open>simp_all add: demo_dev_def intr_get_status_def running_thread_def tsys.defs\<close>)

theorem putchar_wakes_reader_witness:
  "\<exists>s'. ioq_putchar 0xc0007000 65 (demo_dev 0xc0102000) = Inr (True, s') \<and> status (tasks s' 0xc0102000) = TASK_READY"
  using putchar_wakes_reader [OF demo_dev_facts(1,2), of "0xc0102000" "0xc0007000" "0xc0102000" 65]
  by (auto simp: demo_dev_facts demo_tsys_fields demo_task_def)

text \<open>
  C14: \<^verbatim>\<open>ioq_getchar\<close> on an empty queue puts its caller to sleep as the recorded consumer with the
  lock of the queue held; on a queue with bytes it returns the oldest one at once.
\<close>
theorem getchar_blocks_or_returns:
  assumes "sched_inv s rs ts pd" "intr_get_status s = INTR_OFF" "ring_ok (ioqs s q)"
    "producer (ioqs s q) = NULL" "consumer (ioqs s q) = NULL" "running_thread s \<noteq> idle_thread s"
    "sema_value s (lock_semaphore q) = 1" "lock_holder s q = NULL" "lock_repeat s q = 0"
  shows "case ring_seq (ioqs s q) of
      [] \<Rightarrow> \<exists>s'. ioq_getchar q s = Inr (None, s') \<and> consumer (ioqs s' q) = running_thread s \<and>
        status (tasks s' (running_thread s)) = TASK_BLOCKED \<and> lock_holder s' q = running_thread s
    | c # cs \<Rightarrow> \<exists>s'. ioq_getchar q s = Inr (Some c, s') \<and> ring_seq (ioqs s' q) = cs"
proof (cases "ring_seq (ioqs s q)")
  case Nil
  have "running_thread s \<noteq> NULL"
    using sched_invD(1) [OF assms(1)] by (auto simp: sched_wf_def)
  then show ?thesis
    using ioq_getchar_blocks [OF assms(1-3) Nil assms(5,7) _ assms(9,6)] assms(8) Nil by auto
next
  case (Cons c cs)
  have "waiter_ok Producer q ts s" using assms(4) by (simp add: waiter_ok_def waiter_def)
  from ioq_getchar_ok [OF assms(1-3) Cons this] Cons show ?thesis by auto
qed

theorem getchar_blocks_or_returns_witness:
  "\<exists>s'. ioq_getchar 0xc0007000 (demo_dev NULL) = Inr (None, s') \<and> consumer (ioqs s' 0xc0007000) = 0xc009e000"
proof -
  have "producer (ioqs (demo_dev NULL) 0xc0007000) = NULL" "consumer (ioqs (demo_dev NULL) 0xc0007000) = NULL"
    "ring_ok (ioqs (demo_dev NULL) 0xc0007000)"
    by (simp_all add: demo_dev_facts) (simp add: demo_ring_def)
  then show ?thesis
    using getchar_blocks_or_returns [OF demo_dev_facts(1,2), of NULL "0xc0007000"] by (auto simp: demo_dev_facts)
qed

end
