(* ===== verification/Keyboard.thy ===== *)
theory Keyboard
  imports Ioqueue
begin

text \<open>
  The keyboard driver, \<^verbatim>\<open>device/keyboard.c\<close>: the state machine over scan codes, the key map and
  the queue of characters. The byte read from the controller is an argument of the handler; what
  \<^verbatim>\<open>put_char\<close> and \<^verbatim>\<open>put_str\<close> of \<^verbatim>\<open>lib/kernel/print.S\<close> show is appended to \<open>screen\<close>.
\<close>

section \<open>The driver\<close>

record kbdsys = devsys +
  ctrl_status :: bool
  shift_status :: bool
  alt_status :: bool
  caps_lock_status :: bool
  ext_scancode :: bool
  kbd_buf :: u32

definition shift_l_make :: u16 where "shift_l_make = 0x2a"
definition shift_r_make :: u16 where "shift_r_make = 0x36"
definition alt_l_make :: u16 where "alt_l_make = 0x38"
definition alt_r_make :: u16 where "alt_r_make = 0xe038"
definition ctrl_l_make :: u16 where "ctrl_l_make = 0x1d"
definition ctrl_r_make :: u16 where "ctrl_r_make = 0xe01d"
definition caps_lock_make :: u16 where "caps_lock_make = 0x3a"

lemmas make_codes = shift_l_make_def shift_r_make_def alt_l_make_def alt_r_make_def ctrl_l_make_def
  ctrl_r_make_def caps_lock_make_def

text \<open>A key: its character without and with shift.\<close>

definition key :: "string \<Rightarrow> u8 \<times> u8" where
  "key s = (of_char (s ! 0), of_char (s ! 1))"

definition keymap :: "(u8 \<times> u8) list" where
  "keymap =
    [(0, 0), (0x1b, 0x1b), key ''1!'', key ''2@'', key ''3#'', key ''4$'', key ''5%'', key ''6^'',
     key ''7&'', key ''8*'', key ''9('', key ''0)'', key ''-_'', key ''=+'', (0x08, 0x08), (0x09, 0x09),
     key ''qQ'', key ''wW'', key ''eE'', key ''rR'', key ''tT'', key ''yY'', key ''uU'', key ''iI'',
     key ''oO'', key ''pP'', key ''[{'', key '']}'', (0x0d, 0x0d), (0, 0), key ''aA'', key ''sS'',
     key ''dD'', key ''fF'', key ''gG'', key ''hH'', key ''jJ'', key ''kK'', key ''lL'', key '';:'',
     (0x27, 0x22), (0x60, 0x7e), (0, 0), (0x5c, 0x7c), key ''zZ'', key ''xX'', key ''cC'', key ''vV'',
     key ''bB'', key ''nN'', key ''mM'', key '',<'', key ''.>'', key ''/?'', (0, 0), key ''**'',
     (0, 0), key ''  '', (0, 0)]"

definition put_char :: "u8 \<Rightarrow> 'a devsys_scheme \<Rightarrow> 'a devsys_scheme" where
  "put_char c s = s\<lparr>screen := screen s @ [c]\<rparr>"

definition put_lit :: "string \<Rightarrow> 'a devsys_scheme \<Rightarrow> 'a devsys_scheme" where
  "put_lit str s = s\<lparr>screen := screen s @ map of_char str\<rparr>"

text \<open>The keys whose shifted character is another symbol, independent of caps lock.\<close>

definition symbol_key :: "u16 \<Rightarrow> bool" where
  "symbol_key scancode \<longleftrightarrow>
     scancode < 0x0e \<or> scancode = 0x29 \<or> scancode = 0x1a \<or> scancode = 0x1b \<or> scancode = 0x2b \<or>
     scancode = 0x27 \<or> scancode = 0x28 \<or> scancode = 0x33 \<or> scancode = 0x34 \<or> scancode = 0x35"

definition kbd_shift :: "u16 \<Rightarrow> 'a kbdsys_scheme \<Rightarrow> bool" where
  "kbd_shift scancode s =
     (if symbol_key scancode then shift_status s
      else if shift_status s \<and> caps_lock_status s then False
      else shift_status s \<or> caps_lock_status s)"

definition kbd_break :: "u16 \<Rightarrow> 'a kbdsys_scheme \<Rightarrow> 'a kbdsys_scheme" where
  "kbd_break make_code s =
     (if make_code = ctrl_l_make \<or> make_code = ctrl_r_make then s\<lparr>ctrl_status := False\<rparr>
      else if make_code = shift_l_make \<or> make_code = shift_r_make then s\<lparr>shift_status := False\<rparr>
      else if make_code = alt_l_make \<or> make_code = alt_r_make then s\<lparr>alt_status := False\<rparr>
      else s)"

definition kbd_modifier :: "u16 \<Rightarrow> 'a kbdsys_scheme \<Rightarrow> 'a kbdsys_scheme" where
  "kbd_modifier scancode s =
     (if scancode = ctrl_l_make \<or> scancode = ctrl_r_make then s\<lparr>ctrl_status := True\<rparr>
      else if scancode = shift_l_make \<or> scancode = shift_r_make then s\<lparr>shift_status := True\<rparr>
      else if scancode = alt_l_make \<or> scancode = alt_r_make then s\<lparr>alt_status := True\<rparr>
      else if scancode = caps_lock_make then s\<lparr>caps_lock_status := \<not> caps_lock_status s\<rparr>
      else put_lit ''unknow key\<newline>'' s)"

definition kbd_make :: "u16 \<Rightarrow> 'a kbdsys_scheme \<Rightarrow> 'a kbdsys_scheme res" where
  "kbd_make scancode s =
     (let shift = kbd_shift scancode s;
          scancode = scancode AND 0x00ff;
          index = unat scancode
      in if index < length keymap then
           (let cur_char = (if shift then snd else fst) (keymap ! index) in
            if cur_char \<noteq> 0 then
              kbind (ioq_full (kbd_buf s) s) (\<lambda>full.
                if \<not> full then kbind (ioq_putchar (kbd_buf s) cur_char (put_char cur_char s)) (\<lambda>r. Inr (snd r))
                else Inr s)
            else Inr (kbd_modifier scancode s))
         else Inl OUT_OF_BOUNDS)"

definition intr_keyboard_handler :: "u8 \<Rightarrow> 'a kbdsys_scheme \<Rightarrow> 'a kbdsys_scheme res" where
  "intr_keyboard_handler code s =
     (let scancode = ucast code :: u16 in
      if scancode = 0xe0 then Inr (s\<lparr>ext_scancode := True\<rparr>)
      else
        (let (scancode, s) = (if ext_scancode s then (0xe000 OR scancode, s\<lparr>ext_scancode := False\<rparr>) else (scancode, s))
         in if scancode AND 0x0080 \<noteq> 0 then Inr (kbd_break (scancode AND 0xff7f) s)
            else if (scancode > 0x00 \<and> scancode < 0x3b) \<or> scancode = alt_r_make \<or> scancode = ctrl_r_make
            then kbd_make scancode s
            else Inr s))"

text \<open>\<open>handler\<close> is the address of \<^verbatim>\<open>intr_keyboard_handler\<close>.\<close>

definition keyboard_init :: "intr_handler \<Rightarrow> 'a kbdsys_scheme \<Rightarrow> 'a kbdsys_scheme res" where
  "keyboard_init handler s =
     kbind (register_handler 0x21 handler (ioqueue_init (kbd_buf s) (put_lit ''keyboard init start\<newline>'' s)))
       (\<lambda>s. Inr (put_lit ''keyboard init done\<newline>'' s))"

section \<open>The key map\<close>

lemma length_keymap [simp]: "length keymap = 59"
  by (simp add: keymap_def)

text \<open>The letter keys.\<close>

definition letter_keys :: "nat list" where
  "letter_keys = [0x10..<0x1a] @ [0x1e..<0x27] @ [0x2c..<0x33]"

lemma letter_chars:
  "\<forall>i\<in>set letter_keys. fst (keymap ! i) \<noteq> 0 \<and> snd (keymap ! i) = fst (keymap ! i) - 0x20 \<and>
    0x61 \<le> fst (keymap ! i) \<and> fst (keymap ! i) \<le> 0x7a"
  by (simp add: letter_keys_def keymap_def key_def upt_rec)

lemma letter_codes:
  "\<forall>i\<in>set letter_keys. \<not> symbol_key (ucast (word_of_nat i :: u8)) \<and> (ucast (word_of_nat i :: u8) :: u16) > 0 \<and>
    (ucast (word_of_nat i :: u8) :: u16) < 0x3b \<and> (ucast (word_of_nat i :: u8) :: u16) AND 0x0080 = 0 \<and>
    (ucast (word_of_nat i :: u8) :: u16) \<noteq> 0xe0 \<and> unat ((ucast (word_of_nat i :: u8) :: u16) AND 0x00ff) = i"
  by (simp add: letter_keys_def upt_rec symbol_key_def)

lemma keymap_zero_upt: "\<forall>i\<in>set [0..<59]. (fst (keymap ! i) = 0 \<longleftrightarrow> snd (keymap ! i) = 0) \<and>
    (fst (keymap ! i) = 0 \<longleftrightarrow> i \<in> {0, 0x1d, 0x2a, 0x36, 0x38, 0x3a})"
  by (simp add: keymap_def key_def upt_rec)

lemma keymap_zero:
  assumes "i < 59"
  shows "fst (keymap ! i) = 0 \<longleftrightarrow> i \<in> {0, 0x1d, 0x2a, 0x36, 0x38, 0x3a}"
    "snd (keymap ! i) = 0 \<longleftrightarrow> i \<in> {0, 0x1d, 0x2a, 0x36, 0x38, 0x3a}"
  using bspec [OF keymap_zero_upt, of i] assms by auto

lemma low_byte: "unat (x AND 0x00ff) = unat x mod 256" for x :: u16
proof -
  have "(0x00ff :: u16) = mask 8" by (simp add: mask_eq_exp_minus_1)
  then have e: "x AND 0x00ff = take_bit 8 x" by (simp only: take_bit_eq_mask)
  have "unat (x AND 0x00ff) = take_bit 8 (unat x)" unfolding e by (rule unsigned_take_bit_eq)
  then show ?thesis by (simp add: take_bit_eq_mod)
qed

lemma make_index:
  assumes "(scancode > 0x00 \<and> scancode < 0x3b) \<or> scancode = alt_r_make \<or> scancode = ctrl_r_make"
  shows "unat (scancode AND 0x00ff) < 59" "unat (scancode AND 0x00ff) \<noteq> 0"
proof -
  have "unat scancode < 59 \<and> unat scancode \<noteq> 0" if "scancode > 0" "scancode < 0x3b"
    using that by (simp_all add: word_less_nat_alt)
  then show "unat (scancode AND 0x00ff) < 59" "unat (scancode AND 0x00ff) \<noteq> 0"
    using assms unfolding low_byte by (auto simp: make_codes)
qed

section \<open>The handler on the scheduler\<close>

definition kbd_ok :: "'a kbdsys_scheme \<Rightarrow> u32 list \<Rightarrow> u32 list \<Rightarrow> (u32 \<Rightarrow> u32) \<Rightarrow> bool" where
  "kbd_ok s rs ts pd \<longleftrightarrow> sched_inv s rs ts pd \<and> intr_get_status s = INTR_OFF \<and> ring_ok (ioqs s (kbd_buf s)) \<and>
     waiter_ok Consumer (kbd_buf s) ts s"

abbreviation kbd_seq :: "'a kbdsys_scheme \<Rightarrow> u8 list" where
  "kbd_seq s \<equiv> ring_seq (ioqs s (kbd_buf s))"

lemma kbd_flag_updates [simp]:
  "kbd_ok (s\<lparr>ctrl_status := b\<rparr>) rs ts pd = kbd_ok s rs ts pd" "kbd_ok (s\<lparr>shift_status := b\<rparr>) rs ts pd = kbd_ok s rs ts pd"
  "kbd_ok (s\<lparr>alt_status := b\<rparr>) rs ts pd = kbd_ok s rs ts pd" "kbd_ok (s\<lparr>caps_lock_status := b\<rparr>) rs ts pd = kbd_ok s rs ts pd"
  "kbd_ok (s\<lparr>ext_scancode := b\<rparr>) rs ts pd = kbd_ok s rs ts pd" "kbd_ok (s\<lparr>screen := cs\<rparr>) rs ts pd = kbd_ok s rs ts pd"
  by (simp_all add: kbd_ok_def sched_inv_def sched_wf_def ready_list_def running_thread_def intr_get_status_def waiter_ok_def)

lemma kbd_break_ok: "kbd_ok (kbd_break m s) rs ts pd = kbd_ok s rs ts pd" "kbd_seq (kbd_break m s) = kbd_seq s"
  by (simp_all add: kbd_break_def)

lemma kbd_modifier_ok: "kbd_ok (kbd_modifier m s) rs ts pd = kbd_ok s rs ts pd" "kbd_seq (kbd_modifier m s) = kbd_seq s"
  by (simp_all add: kbd_modifier_def put_lit_def)

lemma kbd_more:
  assumes "devsys.more s' = devsys.more s"
  shows "kbd_buf s' = kbd_buf s" "shift_status s' = shift_status s" "caps_lock_status s' = caps_lock_status s"
    "ctrl_status s' = ctrl_status s" "alt_status s' = alt_status s" "ext_scancode s' = ext_scancode s"
  using assms by (cases s; cases s'; simp)+

text \<open>A key with a character: it goes to the queue and the screen when there is room, else it is dropped.\<close>

lemma kbd_make_char:
  assumes ok: "kbd_ok s rs ts pd" and i: "unat (scancode AND 0x00ff) < 59"
    and c: "c = (if kbd_shift scancode s then snd else fst) (keymap ! unat (scancode AND 0x00ff))" "c \<noteq> 0"
  shows "\<exists>s' rs'. kbd_make scancode s = Inr s' \<and> kbd_ok s' rs' ts pd \<and>
    kbd_seq s' = (if length (kbd_seq s) < 63 then kbd_seq s @ [c] else kbd_seq s) \<and>
    screen s' = (if length (kbd_seq s) < 63 then screen s @ [c] else screen s) \<and> devsys.more s' = devsys.more s"
proof -
  have inv: "sched_inv s rs ts pd" "intr_get_status s = INTR_OFF" "ring_ok (ioqs s (kbd_buf s))" "waiter_ok Consumer (kbd_buf s) ts s"
    using ok by (simp_all add: kbd_ok_def)
  have full: "ioq_full (kbd_buf s) s = Inr (length (kbd_seq s) = 63)"
    using ring_full_iff [OF inv(3)] inv(2) by (simp add: ioq_full_def)
  have lim: "length (kbd_seq s) \<le> 63" using ring_len_less [of "ioqs s (kbd_buf s)"] by simp
  show ?thesis
  proof (cases "length (kbd_seq s) = 63")
    case True
    then show ?thesis using ok i c full by (auto simp: kbd_make_def Let_def)
  next
    case False
    let ?p = "put_char c s"
    have p: "sched_inv ?p rs ts pd" "intr_get_status ?p = INTR_OFF" "ring_ok (ioqs ?p (kbd_buf s))"
      "length (ring_seq (ioqs ?p (kbd_buf s))) < 63" "waiter_ok Consumer (kbd_buf s) ts ?p"
      using ok lim False by (simp_all add: kbd_ok_def put_char_def sched_inv_def sched_wf_def ready_list_def running_thread_def
          intr_get_status_def waiter_ok_def)
    from ioq_putchar_ok [OF p, of c] obtain s' where s': "ioq_putchar (kbd_buf s) c ?p = Inr (True, s')"
      "ring_ok (ioqs s' (kbd_buf s))" "ring_seq (ioqs s' (kbd_buf s)) = ring_seq (ioqs ?p (kbd_buf s)) @ [c]"
      "consumer (ioqs s' (kbd_buf s)) = NULL" "eflags s' = eflags ?p" "screen s' = screen ?p" "devsys.more s' = devsys.more ?p"
      "sched_inv s' (if consumer (ioqs ?p (kbd_buf s)) = NULL then rs else consumer (ioqs ?p (kbd_buf s)) # rs) ts pd"
      by blast
    have "devsys.more s' = devsys.more s" using s'(7) by (simp add: put_char_def)
    moreover from this have "kbd_buf s' = kbd_buf s" by (rule kbd_more)
    moreover have "intr_get_status s' = INTR_OFF" using s'(5) inv(2) intr_get_status_cong [of s' s] by (simp add: put_char_def)
    ultimately have "kbd_ok s' (if consumer (ioqs ?p (kbd_buf s)) = NULL then rs else consumer (ioqs ?p (kbd_buf s)) # rs) ts pd"
      using s' by (simp add: kbd_ok_def waiter_ok_def waiter_def)
    then obtain rs' where "kbd_ok s' rs' ts pd" by blast
    moreover have "kbd_make scancode s = Inr s'"
      using s'(1) full False i c by (auto simp: kbd_make_def Let_def)
    moreover have "length (kbd_seq s) < 63" using lim False by simp
    ultimately show ?thesis
      using s'(3,6) \<open>kbd_buf s' = kbd_buf s\<close> \<open>devsys.more s' = devsys.more s\<close>
      by (intro exI [of _ s'] exI [of _ rs']) (simp add: put_char_def)
  qed
qed

lemma kbd_make_ok:
  assumes "kbd_ok s rs ts pd" "(scancode > 0x00 \<and> scancode < 0x3b) \<or> scancode = alt_r_make \<or> scancode = ctrl_r_make"
  shows "\<exists>s' rs'. kbd_make scancode s = Inr s' \<and> kbd_ok s' rs' ts pd"
proof -
  note i = make_index [OF assms(2)]
  let ?c = "(if kbd_shift scancode s then snd else fst) (keymap ! unat (scancode AND 0x00ff))"
  show ?thesis
  proof (cases "?c = 0")
    case True
    then have "kbd_make scancode s = Inr (kbd_modifier (scancode AND 0x00ff) s)" using i by (simp add: kbd_make_def Let_def)
    then show ?thesis using assms(1) kbd_modifier_ok(1) by blast
  next
    case False
    then show ?thesis using kbd_make_char [OF assms(1) i(1) refl] by blast
  qed
qed

section \<open>Properties\<close>

text \<open>
  C15: The handler accepts every byte in every state: it never reads outside the key map, never
  blocks inside the interrupt, and leaves the queue and the scheduler well formed.
\<close>
theorem keyboard_handler_total:
  assumes "kbd_ok s rs ts pd"
  shows "\<exists>s' rs'. intr_keyboard_handler code s = Inr s' \<and> kbd_ok s' rs' ts pd"
proof -
  define p where "p = (if ext_scancode s then (0xe000 OR ucast code, s\<lparr>ext_scancode := False\<rparr>) else (ucast code :: u16, s))"
  have ok: "kbd_ok (snd p) rs ts pd" using assms by (simp add: p_def)
  show ?thesis
  proof (cases "(ucast code :: u16) = 0xe0")
    case True
    then show ?thesis using assms by (auto simp: intr_keyboard_handler_def)
  next
    case False
    then have "intr_keyboard_handler code s =
      (if fst p AND 0x0080 \<noteq> 0 then Inr (kbd_break (fst p AND 0xff7f) (snd p))
       else if (fst p > 0x00 \<and> fst p < 0x3b) \<or> fst p = alt_r_make \<or> fst p = ctrl_r_make then kbd_make (fst p) (snd p)
       else Inr (snd p))"
      by (simp add: intr_keyboard_handler_def Let_def split_beta p_def)
    moreover have "kbd_ok (kbd_break (fst p AND 0xff7f) (snd p)) rs ts pd" using ok kbd_break_ok(1) by blast
    ultimately show ?thesis using kbd_make_ok [OF ok, of "fst p"] ok by metis
  qed
qed

definition demo_kbd :: kbdsys where
  "demo_kbd = devsys.extend (demo_dev NULL) \<lparr>ctrl_status = False, shift_status = True, alt_status = False,
     caps_lock_status = False, ext_scancode = False, kbd_buf = 0xc0007000\<rparr>"

lemma sched_inv_devext: "sched_inv (devsys.extend s x) rs ts pd \<longleftrightarrow> sched_inv s rs ts pd"
  by (simp add: sched_inv_def sched_wf_def ready_list_def running_thread_def devsys.defs)

lemma demo_kbd_ok: "kbd_ok demo_kbd [0xc0103000] demo_ts (\<lambda>_. 0x100000)"
proof -
  have "sched_inv demo_kbd [0xc0103000] demo_ts (\<lambda>_. 0x100000)"
    using demo_dev_facts(1) [of NULL] by (simp add: demo_kbd_def sched_inv_devext)
  moreover have "intr_get_status demo_kbd = INTR_OFF"
    using demo_dev_facts(2) [of NULL] by (simp add: demo_kbd_def intr_get_status_def devsys.defs)
  moreover have "ioqs demo_kbd (kbd_buf demo_kbd) = demo_ring\<lparr>consumer := NULL\<rparr>"
    by (simp add: demo_kbd_def devsys.defs demo_dev_facts)
  ultimately show ?thesis using demo_dev_facts(10) by (simp add: kbd_ok_def waiter_ok_def waiter_def)
qed

theorem keyboard_handler_total_witness:
  "\<exists>s' rs'. intr_keyboard_handler 0x1e demo_kbd = Inr s' \<and> kbd_ok s' rs' demo_ts (\<lambda>_. 0x100000)"
  using keyboard_handler_total [OF demo_kbd_ok] by blast

text \<open>
  C16: Pressing a letter key puts exactly one character into the queue and on the screen: the
  capital letter when exactly one of shift and caps lock is on, the small letter otherwise. The
  flags of the driver do not change.
\<close>
theorem letter_key:
  assumes "kbd_ok s rs ts pd" "\<not> ext_scancode s" "i \<in> set letter_keys" "length (kbd_seq s) < 63"
    "c = (if shift_status s \<noteq> caps_lock_status s then fst (keymap ! i) - 0x20 else fst (keymap ! i))"
  shows "\<exists>s'. intr_keyboard_handler (word_of_nat i) s = Inr s' \<and> kbd_seq s' = kbd_seq s @ [c] \<and>
    screen s' = screen s @ [c] \<and> shift_status s' = shift_status s \<and> caps_lock_status s' = caps_lock_status s"
proof -
  define sc where "sc = (ucast (word_of_nat i :: u8) :: u16)"
  have sc: "\<not> symbol_key sc" "sc > 0" "sc < 0x3b" "sc AND 0x0080 = 0" "sc \<noteq> 0xe0" and n: "unat (sc AND 0x00ff) = i"
    using bspec [OF letter_codes assms(3)] by (simp_all add: sc_def)
  have i: "i < 59" using assms(3) by (auto simp: letter_keys_def)
  have run: "intr_keyboard_handler (word_of_nat i) s = kbd_make sc s"
    using assms(2) sc by (simp add: intr_keyboard_handler_def flip: sc_def)
  have sh: "kbd_shift sc s \<longleftrightarrow> shift_status s \<noteq> caps_lock_status s" using sc(1) by (auto simp: kbd_shift_def)
  have "c = (if kbd_shift sc s then snd else fst) (keymap ! unat (sc AND 0x00ff))" "c \<noteq> 0"
    using bspec [OF letter_chars assms(3)] assms(5) sh n by auto
  from kbd_make_char [OF assms(1) _ this] obtain s' where "kbd_make sc s = Inr s'" "kbd_seq s' = kbd_seq s @ [c]"
    "screen s' = screen s @ [c]" "devsys.more s' = devsys.more s"
    using n i assms(4) by auto
  then show ?thesis using run kbd_more(2,3) by auto
qed

theorem letter_key_witness:
  "\<exists>s'. intr_keyboard_handler (word_of_nat 0x1e) demo_kbd = Inr s' \<and> kbd_seq s' = [0x41]"
proof -
  have "fst (keymap ! 0x1e) = 0x61" by (simp add: keymap_def key_def)
  moreover have "kbd_seq demo_kbd = []" "\<not> ext_scancode demo_kbd" "shift_status demo_kbd" "\<not> caps_lock_status demo_kbd"
    by (simp_all add: demo_kbd_def devsys.defs demo_dev_facts)
  moreover have "(0x1e :: nat) \<in> set letter_keys" by (simp add: letter_keys_def)
  ultimately show ?thesis using letter_key [OF demo_kbd_ok, of "0x1e" "0x41"] by auto
qed

text \<open>
  Modifier keys are tracked through the extended codes: pressing and releasing the right
  control key, which arrive as four bytes with the prefix 0xe0, sets and clears the control flag,
  takes no character and consumes the prefix both times.
\<close>
lemma right_ctrl_tracked:
  assumes "\<not> ext_scancode s"
  shows "each_res intr_keyboard_handler [0xe0, 0x1d] s = Inr (s\<lparr>ext_scancode := False, ctrl_status := True\<rparr>) \<and>
    each_res intr_keyboard_handler [0xe0, 0x1d, 0xe0, 0x9d] s = Inr (s\<lparr>ext_scancode := False, ctrl_status := False\<rparr>)"
proof -
  have k: "keymap ! 29 = (0, 0)" by (simp add: keymap_def)
  show ?thesis
    by (simp add: intr_keyboard_handler_def kbd_make_def kbd_break_def kbd_modifier_def make_codes k kbd_shift_def)
qed

end
