(* ===== verification/Stdio.thy ===== *)
theory Stdio
  imports KString
begin

text \<open>
  Formatted output, \<^verbatim>\<open>lib/stdio.c\<close>: \<^verbatim>\<open>i_to_a\<close> and \<^verbatim>\<open>vsprintf\<close> on the byte memory. The variable
  arguments are where the caller has pushed them: \<^verbatim>\<open>va_list\<close> is an address and \<^verbatim>\<open>va_arg\<close> reads the
  next word behind it. The theorems relate the written bytes to the numbers and strings they stand
  for, and show what becomes of the bytes behind them.
\<close>

section \<open>The routines\<close>

text \<open>A little-endian word in memory, read and written.\<close>

definition load32 :: "mem \<Rightarrow> u32 \<Rightarrow> u32" where
  "load32 m p = ucast (m p) OR push_bit 8 (ucast (m (p + 1))) OR push_bit 16 (ucast (m (p + 2))) OR
     push_bit 24 (ucast (m (p + 3)))"

definition store32 :: "mem \<Rightarrow> u32 \<Rightarrow> u32 \<Rightarrow> mem" where
  "store32 m p w = m(p := ucast w, p + 1 := ucast (drop_bit 8 w), p + 2 := ucast (drop_bit 16 w), p + 3 := ucast (drop_bit 24 w))"

definition digit_char :: "u32 \<Rightarrow> u8" where
  "digit_char m = ucast (if m < 10 then m + 0x30 else m - 10 + 0x41)"

text \<open>The result is the memory and the pointer behind the last digit; \<open>None\<close> stands for not returning.\<close>

partial_function (option) i_to_a :: "u32 \<Rightarrow> mem \<Rightarrow> u32 \<Rightarrow> u8 \<Rightarrow> (mem \<times> u32) option" where
  "i_to_a value m p base =
     (let b = ucast base :: u32 in
      if b = 0 then None
      else Option.bind (if value div b \<noteq> 0 then i_to_a (value div b) m p base else Some (m, p))
        (\<lambda>(m, p). Some (m(p := digit_char (value mod b)), p + 1)))"

text \<open>
  One conversion behind a percent sign: the new memory, argument pointer and buffer pointer, or
  nothing when the character is none of the four the \<^verbatim>\<open>switch\<close> knows.
\<close>

definition convert :: "u8 \<Rightarrow> mem \<Rightarrow> u32 \<Rightarrow> u32 \<Rightarrow> (mem \<times> u32 \<times> u32) res option" where
  "convert c m ap b =
     (if c = 0x73 then
        (let arg_str = load32 m (ap + 4) in
         Some (kbind (strcpy m b arg_str) (\<lambda>(_, m). kbind (strlen m arg_str) (\<lambda>n. Inr (m, ap + 4, b + n)))))
      else if c = 0x63 then Some (Inr (m(b := m (ap + 4)), ap + 4, b + 1))
      else if c = 0x64 then
        (let arg_int = load32 m (ap + 4);
             (arg_int, m, b) = (if sint arg_int < 0 then (0 - arg_int, m(b := 0x2d), b + 1) else (arg_int, m, b))
         in Some (kbind (of_loop (i_to_a arg_int m b 10)) (\<lambda>(m, b). Inr (m, ap + 4, b))))
      else if c = 0x78 then
        Some (kbind (of_loop (i_to_a (load32 m (ap + 4)) m b 16)) (\<lambda>(m, b). Inr (m, ap + 4, b)))
      else None)"

partial_function (option) vsprintf_loop :: "mem \<Rightarrow> u32 \<Rightarrow> u32 \<Rightarrow> u32 \<Rightarrow> mem res option" where
  "vsprintf_loop m ap b i =
     (if m i = 0 then Some (Inr m)
      else if m i \<noteq> 0x25 then vsprintf_loop (m(b := m i)) ap (b + 1) (i + 1)
      else (case convert (m (i + 1)) m ap b of
          None \<Rightarrow> vsprintf_loop m ap b (i + 1)
        | Some (Inl e) \<Rightarrow> Some (Inl e)
        | Some (Inr (m, ap, b)) \<Rightarrow> vsprintf_loop m ap b (i + 2)))"

definition vsprintf :: "mem \<Rightarrow> u32 \<Rightarrow> u32 \<Rightarrow> u32 \<Rightarrow> (u32 \<times> mem) res" where
  "vsprintf m str format ap =
     kbind (of_loop (vsprintf_loop m ap str format)) (\<lambda>r.
       kbind r (\<lambda>m. kbind (strlen m str) (\<lambda>n. Inr (n, m))))"

text \<open>
  \<^verbatim>\<open>va_start\<close> makes the argument pointer the address of the parameter \<^verbatim>\<open>format\<close>, here \<open>args\<close>: the
  pushed arguments follow it.
\<close>

definition sprintf :: "mem \<Rightarrow> u32 \<Rightarrow> u32 \<Rightarrow> u32 \<Rightarrow> (u32 \<times> mem) res" where
  "sprintf m buf format args = vsprintf m buf format args"

section \<open>Numerals\<close>

lemma div_lt: "2 \<le> b \<Longrightarrow> n div b \<noteq> 0 \<Longrightarrow> n div b < n" for n :: nat
  by (rule div_less_dividend) (auto intro: gr0I)

function num_str :: "nat \<Rightarrow> nat \<Rightarrow> u8 list" where
  "num_str b n = (if b < 2 then [] else (if n div b = 0 then [] else num_str b (n div b)) @ [digit_char (word_of_nat (n mod b))])"
  by pat_completeness auto
termination by (relation "measure snd") (auto simp: div_lt)

declare num_str.simps [simp del]

text \<open>Reading a numeral back.\<close>

definition digit_val :: "u8 \<Rightarrow> nat" where
  "digit_val c = (if c < 0x41 then unat c - 0x30 else unat c - 0x41 + 10)"

definition num_val :: "nat \<Rightarrow> u8 list \<Rightarrow> nat" where
  "num_val b cs = foldl (\<lambda>a c. a * b + digit_val c) 0 cs"

lemma digit_upt: "\<forall>d\<in>set [0..<36]. digit_val (digit_char (word_of_nat d)) = d \<and> digit_char (word_of_nat d) \<noteq> 0"
  by (simp add: digit_val_def digit_char_def upt_rec)

lemma digit_val_char [simp]: "d < 36 \<Longrightarrow> digit_val (digit_char (word_of_nat d)) = d"
  and digit_char_nonzero [simp]: "d < 36 \<Longrightarrow> digit_char (word_of_nat d) \<noteq> 0"
  using digit_upt by simp_all

lemma num_val_num_str: "2 \<le> b \<Longrightarrow> b \<le> 36 \<Longrightarrow> num_val b (num_str b n) = n"
proof (induction n rule: less_induct)
  case (less n)
  have d: "n mod b < 36" using less.prems mod_less_divisor [of b n] by linarith
  have v: "num_val b (xs @ [c]) = num_val b xs * b + digit_val c" for xs c by (simp add: num_val_def)
  show ?case
  proof (cases "n div b = 0")
    case True
    then have "n mod b = n" using div_mult_mod_eq [of n b] by simp
    then show ?thesis using True d less.prems by (subst num_str.simps) (simp add: num_val_def)
  next
    case False
    then have "n div b < n" using less.prems by (simp add: div_lt)
    then show ?thesis using less d False by (subst num_str.simps) (simp add: v)
  qed
qed

lemma num_str_nonzero: "2 \<le> b \<Longrightarrow> b \<le> 36 \<Longrightarrow> 0 \<notin> set (num_str b n)"
proof (induction n rule: less_induct)
  case (less n)
  have d: "n mod b < 36" using less.prems mod_less_divisor [of b n] by linarith
  have "n div b < n" if "n div b \<noteq> 0" using that less.prems by (simp add: div_lt)
  then show ?case using less digit_char_nonzero [OF d] by (subst num_str.simps) auto
qed

text \<open>A numeral in canonical form: digits of the base, at least one, and no leading zero but for zero itself.\<close>

definition canonical :: "nat \<Rightarrow> u8 list \<Rightarrow> bool" where
  "canonical b ds \<longleftrightarrow> ds \<noteq> [] \<and> (\<forall>c\<in>set ds. \<exists>d<b. c = digit_char (word_of_nat d)) \<and> (1 < length ds \<longrightarrow> hd ds \<noteq> 0x30)"

lemma num_val_snoc: "num_val b (xs @ [c]) = num_val b xs * b + digit_val c"
  by (simp add: num_val_def)

lemma num_val_pos:
  assumes "xs \<noteq> []" "hd xs \<noteq> 0x30" "0 < b" "\<And>c. c \<in> set xs \<Longrightarrow> \<exists>d<b. c = digit_char (word_of_nat d)" "b \<le> 36"
  shows "0 < num_val b xs"
  using assms
proof (induction xs rule: rev_induct)
  case (snoc c xs)
  show ?case
  proof (cases "xs = []")
    case True
    then obtain d where d: "d < b" "c = digit_char (word_of_nat d)" using snoc.prems by auto
    moreover have "digit_char (word_of_nat 0) = 0x30" by (simp add: digit_char_def)
    ultimately have "d \<noteq> 0" using snoc.prems(2) True by (cases d) auto
    then show ?thesis using True d snoc.prems(5) by (simp add: num_val_def)
  next
    case False
    then have "0 < num_val b xs" using snoc by auto
    then show ?thesis using snoc.prems(3) by (simp add: num_val_snoc)
  qed
qed simp

lemma num_str_canonical: "2 \<le> b \<Longrightarrow> b \<le> 36 \<Longrightarrow> canonical b (num_str b n)"
proof (induction n rule: less_induct)
  case (less n)
  have d: "\<exists>d<b. digit_char (word_of_nat (n mod b)) = digit_char (word_of_nat d)" using less.prems by (intro exI [of _ "n mod b"]) simp
  show ?case
  proof (cases "n div b = 0")
    case True
    then show ?thesis using less.prems d by (subst num_str.simps) (auto simp: canonical_def)
  next
    case False
    then have c: "canonical b (num_str b (n div b))" using less by (simp add: div_lt)
    have "hd (num_str b (n div b)) \<noteq> 0x30"
    proof (cases "1 < length (num_str b (n div b))")
      case False
      moreover have "num_str b (n div b) \<noteq> []" using c by (simp add: canonical_def)
      ultimately obtain x where x: "num_str b (n div b) = [x]" by (cases "num_str b (n div b)") auto
      then have "digit_val x = n div b" using num_val_num_str [of b "n div b"] less.prems by (simp add: num_val_def)
      then show ?thesis using x \<open>n div b \<noteq> 0\<close> by (auto simp: digit_val_def)
    qed (use c in \<open>simp add: canonical_def\<close>)
    then show ?thesis using c False less.prems d by (subst num_str.simps) (auto simp: canonical_def hd_append)
  qed
qed

lemma canonical_unique: "2 \<le> b \<Longrightarrow> b \<le> 36 \<Longrightarrow> canonical b ds \<Longrightarrow> ds = num_str b (num_val b ds)"
proof (induction ds rule: rev_induct)
  case (snoc c xs)
  then obtain d where d: "d < b" "c = digit_char (word_of_nat d)" by (auto simp: canonical_def)
  have v: "num_val b (xs @ [c]) = num_val b xs * b + d" using d snoc.prems(2) by (simp add: num_val_snoc)
  have q: "num_val b (xs @ [c]) div b = num_val b xs" "num_val b (xs @ [c]) mod b = d" using d(1) snoc.prems(1) unfolding v by simp_all
  show ?case
  proof (cases "xs = []")
    case True
    then have "num_val b xs = 0" by (simp add: num_val_def)
    then show ?thesis using q d(2) True snoc.prems(1) by (subst num_str.simps) simp
  next
    case False
    then have "hd xs \<noteq> 0x30" "canonical b xs" using snoc.prems(3) by (auto simp: canonical_def)
    moreover from this False snoc.prems have "0 < num_val b xs" by (intro num_val_pos) (auto simp: canonical_def)
    ultimately show ?thesis using q d(2) snoc by (subst num_str.simps) simp
  qed
qed (simp add: canonical_def)

section \<open>Writing bytes\<close>

text \<open>The bytes \<open>xs\<close> written from \<open>p\<close> on.\<close>

primrec put_bytes :: "mem \<Rightarrow> u32 \<Rightarrow> u8 list \<Rightarrow> mem" where
  "put_bytes m p [] = m"
| "put_bytes m p (x # xs) = put_bytes (m(p := x)) (p + 1) xs"

lemma put_bytes_append: "put_bytes m p (xs @ ys) = put_bytes (put_bytes m p xs) (off p (length xs)) ys"
  by (induction xs arbitrary: m p) (simp_all add: algebra_simps)

lemma put_bytes_outside: "a \<notin> rng p (length xs) \<Longrightarrow> length xs \<le> 4294967296 \<Longrightarrow> put_bytes m p xs a = m a"
proof (induction xs arbitrary: m p)
  case (Cons x xs)
  then show ?case by (auto simp: rng_Suc)
qed simp

lemma put_bytes_nth: "i < length xs \<Longrightarrow> length xs \<le> 4294967296 \<Longrightarrow> put_bytes m p xs (off p i) = xs ! i"
proof (induction xs arbitrary: m p i)
  case (Cons x xs)
  show ?case
  proof (cases i)
    case 0
    then show ?thesis using Cons.prems put_bytes_outside [of p "p + 1" xs] rng_start_notin_succ [of "length xs" p] by simp
  next
    case (Suc j)
    then have "off p i = off (p + 1) j" by (simp add: algebra_simps)
    moreover have "put_bytes (m(p := x)) (p + 1) xs (off (p + 1) j) = xs ! j" using Cons Suc by (intro Cons.IH) auto
    ultimately show ?thesis using Suc by (simp only: put_bytes.simps nth_Cons_Suc)
  qed
qed simp

lemma cstr_put_bytes:
  assumes "0 \<notin> set xs" "length xs < 4294967296" "m (off p (length xs)) = 0"
  shows "cstr (put_bytes m p xs) p xs"
proof -
  have "off p (length xs) \<notin> rng p (length xs)" using assms(2) by (auto simp: rng_def unat_word_of_nat_u32)
  then have z: "put_bytes m p xs (off p (length xs)) = 0" using put_bytes_outside [of _ p xs m] assms by simp
  have "cstr m' q ys" if "\<And>i. i < length ys \<Longrightarrow> m' (off q i) = ys ! i" "m' (off q (length ys)) = 0" "0 \<notin> set ys" for m' q ys
    using that
  proof (induction ys arbitrary: q)
    case (Cons y ys)
    have "cstr m' (q + 1) ys"
    proof (rule Cons.IH)
      show "m' (off (q + 1) i) = ys ! i" if "i < length ys" for i
        using Cons.prems(1) [of "Suc i"] that by (simp only: off_Suc) simp
    qed (use Cons.prems in \<open>simp_all add: algebra_simps\<close>)
    then show ?case using Cons.prems(1) [of 0] Cons.prems(3) by simp
  qed simp
  then show ?thesis using z assms put_bytes_nth [of _ xs m p] by simp
qed

lemma i_to_a_eq:
  assumes "2 \<le> base"
  shows "i_to_a v m p base =
    Some (put_bytes m p (num_str (unat base) (unat v)), off p (length (num_str (unat base) (unat v))))"
proof (induction "unat v" arbitrary: v rule: less_induct)
  case less
  define b where "b = (ucast base :: u32)"
  have ub: "unat b = unat base" by (simp add: b_def)
  have b2: "2 \<le> unat base" using assms by (simp add: word_le_nat_alt)
  then have b0: "b \<noteq> 0" using ub by auto
  have dv: "unat (v div b) = unat v div unat base" by (simp add: unat_div_u32 ub)
  have "unat v mod unat base = unat (v mod b)" by (simp add: unat_mod_u32 ub)
  then have md: "v mod b = word_of_nat (unat v mod unat base)" by simp
  show ?case
  proof (cases "v div b = 0")
    case True
    then have "unat v div unat base = 0" using dv by simp
    then show ?thesis using b0 b2 True md
      by (subst i_to_a.simps, subst (1 2) num_str.simps) (simp add: Let_def b_def [symmetric])
  next
    case False
    then have ne: "unat v div unat base \<noteq> 0" using dv by (metis unat_eq_zero)
    then have "unat (v div b) < unat v" unfolding dv using b2 by (simp add: div_lt)
    from less [OF this] show ?thesis using b0 b2 False ne md dv
      by (subst i_to_a.simps, subst (1 2) num_str.simps)
        (simp add: Let_def b_def [symmetric] put_bytes_append algebra_simps)
  qed
qed

section \<open>What a format string stands for\<close>

text \<open>An argument: a word, or the address of a string with that string.\<close>

datatype farg = Num u32 | Str u32 "u8 list"

fun farg_word :: "farg \<Rightarrow> u32" where
  "farg_word (Num w) = w"
| "farg_word (Str p xs) = p"

definition signed_str :: "u32 \<Rightarrow> u8 list" where
  "signed_str w = (if sint w < 0 then 0x2d # num_str 10 (unat (0 - w)) else num_str 10 (unat w))"

definition is_conv :: "u8 \<Rightarrow> bool" where
  "is_conv c \<longleftrightarrow> c = 0x73 \<or> c = 0x63 \<or> c = 0x64 \<or> c = 0x78"

definition conv_str :: "u8 \<Rightarrow> farg \<Rightarrow> u8 list option" where
  "conv_str c a =
     (if c = 0x73 then (case a of Num w \<Rightarrow> None | Str p xs \<Rightarrow> Some xs)
      else if c = 0x63 then Some [ucast (farg_word a)]
      else if c = 0x64 then Some (signed_str (farg_word a))
      else Some (num_str 16 (unat (farg_word a))))"

text \<open>
  The text a format and its arguments stand for, or nothing if the arguments do not fit. A percent
  sign before any other character is dropped, and that character starts anew.
\<close>

fun fmt :: "u8 list \<Rightarrow> farg list \<Rightarrow> u8 list option" where
  "fmt [] as = Some []"
| "fmt [c] as = Some (if c = 0x25 then [] else [c])"
| "fmt (c # d # cs) as =
     (if c \<noteq> 0x25 then map_option (\<lambda>out. c # out) (fmt (d # cs) as)
      else if is_conv d then
        (case as of [] \<Rightarrow> None
         | a # as \<Rightarrow> (case conv_str d a of None \<Rightarrow> None | Some out \<Rightarrow> map_option (\<lambda>rest. out @ rest) (fmt cs as)))
      else fmt (d # cs) as)"

text \<open>The arguments lie behind \<open>ap\<close>, outside the buffer \<open>R\<close>.\<close>

fun arg_ok :: "mem \<Rightarrow> u32 set \<Rightarrow> u32 \<Rightarrow> farg \<Rightarrow> bool" where
  "arg_ok m R ap (Num w) \<longleftrightarrow> load32 m (ap + 4) = w \<and> rng (ap + 4) 4 \<inter> R = {}"
| "arg_ok m R ap (Str p xs) \<longleftrightarrow> load32 m (ap + 4) = p \<and> rng (ap + 4) 4 \<inter> R = {} \<and> p \<noteq> NULL \<and> cstr m p xs \<and>
     length xs < 4294967295 \<and> rng p (Suc (length xs)) \<inter> R = {}"

primrec args_ok :: "mem \<Rightarrow> u32 set \<Rightarrow> u32 \<Rightarrow> farg list \<Rightarrow> bool" where
  "args_ok m R ap [] \<longleftrightarrow> True"
| "args_ok m R ap (a # as) \<longleftrightarrow> arg_ok m R ap a \<and> args_ok m R (ap + 4) as"

lemma rng_4: "rng p 4 = {p, p + 1, p + 2, p + 3}"
proof -
  have "rng p (Suc (Suc (Suc (Suc 0)))) = {p, p + 1, p + 1 + 1, p + 1 + 1 + 1}" by (simp add: rng_Suc)
  then show ?thesis by (simp add: numeral_eq_Suc add.assoc)
qed

lemma arg_ok_cong:
  assumes "arg_ok m R ap a" "\<And>x. x \<notin> R \<Longrightarrow> m' x = m x"
  shows "arg_ok m' R ap a"
proof -
  have l: "load32 m' (ap + 4) = load32 m (ap + 4)" if "rng (ap + 4) 4 \<inter> R = {}"
    using that assms(2) by (simp add: load32_def rng_4)
  have c: "cstr m' p xs" if "cstr m p xs" "rng p (Suc (length xs)) \<inter> R = {}" "length xs < 4294967295" for p xs
    using that(1)
  proof (rule cstr_cong)
    show "m' (off p i) = m (off p i)" if "i \<le> length xs" for i
      using that \<open>rng p (Suc (length xs)) \<inter> R = {}\<close> off_in_rng [of i "Suc (length xs)" p] assms(2)
        \<open>length xs < 4294967295\<close> by auto
  qed
  show ?thesis using assms(1) l c by (cases a) auto
qed

lemma args_ok_cong: "args_ok m R ap as \<Longrightarrow> (\<And>x. x \<notin> R \<Longrightarrow> m' x = m x) \<Longrightarrow> args_ok m' R ap as"
  by (induction as arbitrary: ap) (auto intro: arg_ok_cong)

section \<open>What a conversion writes\<close>

text \<open>\<open>out\<close> has been written at \<open>b\<close>; the byte behind it may have become the NUL byte of a copied string.\<close>

definition wrote :: "mem \<Rightarrow> u32 \<Rightarrow> u8 list \<Rightarrow> mem \<Rightarrow> bool" where
  "wrote m b out m' \<longleftrightarrow> (\<forall>x. m' x = put_bytes m b out x \<or> (x = off b (length out) \<and> m' x = 0))"

lemma put_bytes_indep:
  "a \<in> rng p (length xs) \<Longrightarrow> length xs \<le> 4294967296 \<Longrightarrow> put_bytes m p xs a = put_bytes m' p xs a"
  by (auto simp: rng_mem_off put_bytes_nth)

lemma wrote_put [simp]: "wrote m b out (put_bytes m b out)"
  by (simp add: wrote_def)

lemma wroteD: "wrote m b out m' \<Longrightarrow> m' x = put_bytes m b out x \<or> x = off b (length out) \<and> m' x = 0"
  by (simp add: wrote_def)

lemma wrote_append:
  assumes "wrote m b xs m1" "wrote m1 (off b (length xs)) ys m2" "length xs + length ys < 4294967296"
  shows "wrote m b (xs @ ys) m2"
proof -
  let ?b = "off b (length xs)"
  have "m2 x = put_bytes m b (xs @ ys) x \<or> x = off b (length (xs @ ys)) \<and> m2 x = 0" for x
  proof (cases "x \<in> rng ?b (length ys)")
    case True
    then have "put_bytes m1 ?b ys x = put_bytes m b (xs @ ys) x"
      using assms(3) by (simp add: put_bytes_append put_bytes_indep)
    then show ?thesis using wroteD [OF assms(2), of x] by (auto simp: algebra_simps)
  next
    case False
    then have "put_bytes m1 ?b ys x = m1 x" "put_bytes m b (xs @ ys) x = put_bytes m b xs x"
      using assms(3) by (simp_all add: put_bytes_append put_bytes_outside)
    moreover have "ys = []" if "x = ?b" using that False by (cases ys) (auto simp: rng_def)
    ultimately show ?thesis using wroteD [OF assms(1), of x] wroteD [OF assms(2), of x] by (auto simp: algebra_simps)
  qed
  then show ?thesis by (simp add: wrote_def)
qed

lemma wrote_outside:
  assumes "wrote m b out m'" "x \<notin> rng b (Suc (length out))" "length out < 4294967296"
  shows "m' x = m x"
proof -
  have "x \<notin> rng b (length out)" "x \<noteq> off b (length out)"
    using assms(2,3) off_in_rng [of "length out" "Suc (length out)" b] by (auto simp: rng_def)
  then show ?thesis using wroteD [OF assms(1), of x] assms(3) put_bytes_outside [of x b out m] by auto
qed

lemma rng_sub: "k \<le> n \<Longrightarrow> n < 4294967296 \<Longrightarrow> rng (off b k) (Suc (n - k)) \<subseteq> rng b (Suc n)"
proof
  fix x
  assume a: "k \<le> n" "n < 4294967296" "x \<in> rng (off b k) (Suc (n - k))"
  then obtain i where i: "i < Suc (n - k)" "x = off (off b k) i" by (auto simp: rng_mem_off)
  then have "x = off b (k + i)" by (simp add: algebra_simps)
  moreover have "k + i < Suc n" "k + i < 4294967296" using a i by auto
  ultimately show "x \<in> rng b (Suc n)" using off_in_rng by metis
qed

lemma cstr_nth_end: "cstr m p xs \<Longrightarrow> m (off p (length xs)) = 0"
proof (induction xs arbitrary: p)
  case (Cons x xs)
  then have "m (off (p + 1) (length xs)) = 0" by simp
  then show ?case by (simp only: list.size(4) add_Suc_right add_0_right off_Suc)
qed simp

lemma memcpy_put:
  assumes c: "cstr m src xs" and n: "length xs < 4294967295" and d: "dst \<notin> rng src (Suc (length xs))"
  shows "memcpy_loop m dst src (Suc (length xs)) = put_bytes m dst (xs @ [0])"
proof
  fix a
  have "Suc (length xs) \<le> unat (dst - src)" using d by (simp add: rng_def)
  then have e: "memcpy_loop m dst src (Suc (length xs)) a = (if a \<in> rng dst (Suc (length xs)) then m (src + (a - dst)) else m a)"
    using n by (subst memcpy_loop_eq) auto
  show "memcpy_loop m dst src (Suc (length xs)) a = put_bytes m dst (xs @ [0]) a"
  proof (cases "a \<in> rng dst (Suc (length xs))")
    case True
    then obtain i where i: "i < Suc (length xs)" "a = off dst i" by (auto simp: rng_mem_off)
    then have "m (off src i) = (xs @ [0]) ! i"
      using cstr_nth [OF c, of i] cstr_nth_end [OF c] by (auto simp: nth_append less_Suc_eq)
    then show ?thesis using True e i n put_bytes_nth [of i "xs @ [0]" m dst] by simp
  next
    case False
    then show ?thesis using e n put_bytes_outside [of a dst "xs @ [0]" m] by simp
  qed
qed

lemma convert_s:
  assumes a: "arg_ok m R ap (Str p xs)" and R: "NULL \<notin> R" "rng b (Suc (length xs)) \<subseteq> R"
  shows "\<exists>m'. convert 0x73 m ap b = Some (Inr (m', ap + 4, off b (length xs))) \<and> wrote m b xs m'"
proof -
  have p: "load32 m (ap + 4) = p" "p \<noteq> NULL" "cstr m p xs" "length xs < 4294967295" "rng p (Suc (length xs)) \<inter> R = {}"
    using a by auto
  have b: "b \<in> R" using R(2) by (auto simp: rng_def)
  then have bn: "b \<noteq> NULL" using R(1) by blast
  have d: "b \<notin> rng p (Suc (length xs))" using b p(5) by auto
  let ?m = "put_bytes m b (xs @ [0])"
  have "Suc (length xs) \<le> unat (b - p)" using d by (simp add: rng_def)
  then have cpy: "strcpy m b p = Inr (b, ?m)"
    using strcpy_loop_eq [OF p(3,4), of b] memcpy_put [OF p(3,4) d] bn p(2) by (simp add: strcpy_def)
  have w: "wrote m b xs ?m"
    using wroteD [OF wrote_put, of m b xs] by (auto simp: wrote_def put_bytes_append)
  have "arg_ok ?m R ap (Str p xs)"
    using a
  proof (rule arg_ok_cong)
    show "?m x = m x" if "x \<notin> R" for x
      using that R(2) p(4) put_bytes_outside [of x b "xs @ [0]" m] by auto
  qed
  then have "strlen ?m p = Inr (word_of_nat (length xs))" using strlen_cstr p(2) by auto
  then show ?thesis using cpy w p(1) by (simp add: convert_def)
qed

lemma convert_wrote:
  assumes a: "arg_ok m R ap a" and c: "is_conv c" "conv_str c a = Some out"
    and R: "NULL \<notin> R" "rng b (Suc (length out)) \<subseteq> R"
  shows "\<exists>m'. convert c m ap b = Some (Inr (m', ap + 4, off b (length out))) \<and> wrote m b out m'"
proof -
  have w: "load32 m (ap + 4) = farg_word a" using a by (cases a) auto
  have lo: "ucast (load32 m p) = m p" for p
    unfolding load32_def by (rule bit_word_eqI) (auto simp: bit_simps)
  have i10: "i_to_a v m p 10 = Some (put_bytes m p (num_str 10 (unat v)), off p (length (num_str 10 (unat v))))"
    and i16: "i_to_a v m p 16 = Some (put_bytes m p (num_str 16 (unat v)), off p (length (num_str 16 (unat v))))" for v m p
    using i_to_a_eq [of 10 v m p] i_to_a_eq [of 16 v m p] by simp_all
  consider "c = 0x73" | "c = 0x63" | "c = 0x64" | "c = 0x78" using c(1) by (auto simp: is_conv_def)
  then show ?thesis
  proof cases
    case 1
    then obtain p where "a = Str p out" using c(2) by (auto simp: conv_str_def split: farg.splits)
    then show ?thesis using convert_s a R 1 by blast
  next
    case 2
    then have "out = [m (ap + 4)]" using c(2) w lo [of "ap + 4"] by (simp add: conv_str_def)
    then show ?thesis using 2 wrote_put [of m b "[m (ap + 4)]"] by (simp add: convert_def)
  next
    case 3
    then have out: "out = signed_str (farg_word a)" using c(2) by (simp add: conv_str_def)
    then have "convert c m ap b = Some (Inr (put_bytes m b out, ap + 4, off b (length out)))"
      using 3 w by (simp add: convert_def signed_str_def i10 Let_def add.assoc)
    then show ?thesis by simp
  next
    case 4
    then have out: "out = num_str 16 (unat (farg_word a))" using c(2) by (simp add: conv_str_def)
    then have "convert c m ap b = Some (Inr (put_bytes m b out, ap + 4, off b (length out)))"
      using 4 w by (simp add: convert_def i16)
    then show ?thesis by simp
  qed
qed

lemma convert_other: "\<not> is_conv c \<Longrightarrow> convert c m ap b = None"
  by (simp add: is_conv_def convert_def)

lemma cstr_outside:
  assumes "cstr m p xs" "rng p (Suc (length xs)) \<inter> R = {}" "length xs < 4294967295" "\<And>x. x \<notin> R \<Longrightarrow> m' x = m x"
  shows "cstr m' p xs"
  using assms(1)
proof (rule cstr_cong)
  show "m' (off p i) = m (off p i)" if "i \<le> length xs" for i
    using that assms(2-4) off_in_rng [of i "Suc (length xs)" p] by auto
qed

lemma vsprintf_loop_ok:
  assumes "fmt cs as = Some out" "cstr m i cs" "args_ok m R ap as" "NULL \<notin> R"
    "rng b (Suc (length out)) \<subseteq> R" "length out < 4294967295" "rng i (Suc (length cs)) \<inter> R = {}" "length cs < 4294967295"
  shows "\<exists>m'. vsprintf_loop m ap b i = Some (Inr m') \<and> wrote m b out m'"
  using assms
proof (induction cs as arbitrary: m i ap b out rule: fmt.induct)
  case (1 as)
  then show ?case using wrote_put [of m b "[]"] by (subst vsprintf_loop.simps) simp
next
  case (2 c as)
  show ?case
  proof (cases "c = 0x25")
    case True
    then have o: "out = []" and n: "m (i + 1) = 0" using "2.prems"(1,2) by auto
    have "vsprintf_loop m ap b (i + 1) = Some (Inr m)" using n by (subst vsprintf_loop.simps) simp
    then show ?thesis using True o n "2.prems"(2) wrote_put [of m b "[]"]
      by (subst vsprintf_loop.simps) (simp add: convert_other is_conv_def)
  next
    case False
    then have o: "out = [c]" using "2.prems"(1) by simp
    then have "b \<in> R" using "2.prems"(5) by (auto simp: rng_def)
    moreover have "i + 1 \<in> rng i (Suc (Suc 0))" by (simp add: rng_Suc)
    ultimately have "i + 1 \<noteq> b" using "2.prems"(7) by auto
    then have "vsprintf_loop (m(b := c)) ap (b + 1) (i + 1) = Some (Inr (m(b := c)))"
      using "2.prems"(2) by (subst vsprintf_loop.simps) simp
    then show ?thesis using False o "2.prems"(2) wrote_put [of m b "[c]"] by (subst vsprintf_loop.simps) simp
  qed
next
  case (3 c d cs as)
  have len: "length (d # cs) < 4294967295" and rs: "rng (i + 1) (Suc (length (d # cs))) \<inter> R = {}"
    using "3.prems"(7,8) by (auto simp: rng_Suc)
  have cd: "cstr m (i + 1) (d # cs)" and mi: "m i = c" "c \<noteq> 0" using "3.prems"(2) by auto
  show ?case
  proof (cases "c = 0x25")
    case False
    then obtain rest where rest: "fmt (d # cs) as = Some rest" "out = c # rest" using "3.prems"(1) by auto
    let ?m = "m(b := c)"
    have bR: "b \<in> R" using "3.prems"(5) by (auto simp: rng_def)
    then have fr: "?m x = m x" if "x \<notin> R" for x using that by auto
    have c': "cstr ?m (i + 1) (d # cs)" by (rule cstr_outside [OF cd rs len fr])
    have a': "args_ok ?m R ap as" by (rule args_ok_cong [OF "3.prems"(3) fr])
    have sub: "rng (b + 1) (Suc (length rest)) \<subseteq> R" using "3.prems"(5,6) rest(2) by (auto simp: rng_Suc)
    have lr: "length rest < 4294967295" using "3.prems"(6) rest(2) by simp
    obtain m' where m': "vsprintf_loop ?m ap (b + 1) (i + 1) = Some (Inr m')" "wrote ?m (b + 1) rest m'"
      using "3.IH"(1) [OF False rest(1) c' a' "3.prems"(4) sub lr rs len] by blast
    have "wrote m b [c] ?m" using wrote_put [of m b "[c]"] by simp
    from wrote_append [OF this, of rest m'] m'(2) "3.prems"(6) rest(2) have "wrote m b out m'" by simp
    then show ?thesis using False mi m'(1) by (subst vsprintf_loop.simps) simp
  next
    case pc: True
    show ?thesis
    proof (cases "is_conv d")
      case False
      then have "fmt (d # cs) as = Some out" using pc "3.prems"(1) by simp
      from "3.IH"(3) [OF _ False this cd "3.prems"(3-6) rs len] pc obtain m'
        where "vsprintf_loop m ap b (i + 1) = Some (Inr m')" "wrote m b out m'" by auto
      then show ?thesis using pc mi cd False by (subst vsprintf_loop.simps) (simp add: convert_other)
    next
      case True
      from "3.prems"(1) pc True obtain a as' o1 rest where o: "as = a # as'" "conv_str d a = Some o1"
        "fmt cs as' = Some rest" "out = o1 @ rest"
        by (auto split: list.splits option.splits)
      have sub: "rng b (Suc (length o1)) \<subseteq> R" using "3.prems"(5) o(4) by (auto simp: rng_def)
      from convert_wrote [OF _ True o(2) "3.prems"(4) sub] "3.prems"(3) o(1) obtain m1 where
        m1: "convert d m ap b = Some (Inr (m1, ap + 4, off b (length o1)))" "wrote m b o1 m1" by auto
      have fr: "m1 x = m x" if "x \<notin> R" for x
        using wrote_outside [OF m1(2)] that sub "3.prems"(6) o(4) by auto
      have c2: "cstr m (i + 2) cs" using cd by (simp add: add.assoc)
      have l2: "length cs < 4294967295" and r2: "rng (i + 2) (Suc (length cs)) \<inter> R = {}"
        using len rs by (auto simp: rng_Suc add.assoc)
      have a': "args_ok m1 R (ap + 4) as'" by (rule args_ok_cong [OF _ fr]) (use "3.prems"(3) o(1) in simp)
      have lr: "length rest < 4294967295" using "3.prems"(6) o(4) by simp
      have sub2: "rng (off b (length o1)) (Suc (length rest)) \<subseteq> R"
        using rng_sub [of "length o1" "length out" b] "3.prems"(5,6) o(4) by auto
      obtain m' where m': "vsprintf_loop m1 (ap + 4) (off b (length o1)) (i + 2) = Some (Inr m')"
        "wrote m1 (off b (length o1)) rest m'"
        using "3.IH"(2) [OF _ True o(1,2,3) cstr_outside [OF c2 r2 l2 fr] a' "3.prems"(4) sub2 lr r2 l2] pc by auto
      have "wrote m b out m'" unfolding o(4) by (rule wrote_append [OF m1(2) m'(2)]) (use "3.prems"(6) o(4) in simp)
      then show ?thesis using pc mi cd m1(1) m'(1) by (subst vsprintf_loop.simps) simp
    qed
  qed
qed

section \<open>Properties\<close>

lemma i_to_a_no_base: "base = 0 \<or> base = 1 \<and> v \<noteq> 0 \<Longrightarrow> i_to_a v m p base = None"
proof (cases "base = 0")
  case True
  then show ?thesis by (subst i_to_a.simps) simp
next
  case False
  assume "base = 0 \<or> base = 1 \<and> v \<noteq> 0"
  then have "i_to_a v m p base = Option.bind (i_to_a v m p base) (\<lambda>(m, p). Some (m(p := digit_char 0), p + 1))"
    using False by (subst (1) i_to_a.simps) simp
  then show ?thesis by (cases "i_to_a v m p base") auto
qed

lemma i_to_a_unary: "i_to_a 0 m p 1 = Some (put_bytes m p [0x30], off p 1)"
  by (subst i_to_a.simps) (simp add: digit_char_def)

lemma canonical_unary: "canonical 1 ds \<longleftrightarrow> ds = [0x30]"
proof
  assume c: "canonical 1 ds"
  have "digit_char (word_of_nat 0) = 0x30" by (simp add: digit_char_def)
  with c have z: "\<forall>x\<in>set ds. x = 0x30" by (auto simp: canonical_def)
  moreover have "ds \<noteq> []" using c by (simp add: canonical_def)
  then have "hd ds \<in> set ds" by simp
  ultimately have "\<not> 1 < length ds" using c by (auto simp: canonical_def)
  then show "ds = [0x30]" using z \<open>ds \<noteq> []\<close> by (cases ds) auto
qed (simp add: canonical_def digit_char_def)

text \<open>
  C21: For every number and every base from 1 to 36, in base 1 only for zero, \<^verbatim>\<open>i_to_a\<close> returns and writes the numeral of the number in
  that base: its digits are digits of the base, without a leading zero except for the number zero, they
  denote the number, and no other such sequence does; the pointer ends behind them and nothing outside
  them changes. With base 0, and with base 1 for another number, it does not return.
\<close>
theorem i_to_a_roundtrip:
  assumes "base \<le> 36"
  shows "if base = 0 \<or> base = 1 \<and> v \<noteq> 0 then i_to_a v m p base = None
    else (\<exists>ds. i_to_a v m p base = Some (put_bytes m p ds, off p (length ds)) \<and> canonical (unat base) ds \<and> num_val (unat base) ds = unat v \<and>
      (\<forall>ds'. canonical (unat base) ds' \<and> num_val (unat base) ds' = unat v \<longrightarrow> ds' = ds))"
proof (cases "2 \<le> base")
  case True
  then have b: "2 \<le> unat base" "unat base \<le> 36" using assms by (simp_all add: word_le_nat_alt)
  have "canonical (unat base) ds' \<and> num_val (unat base) ds' = unat v \<longrightarrow> ds' = num_str (unat base) (unat v)" for ds'
    proof (intro impI; elim conjE)
    assume "canonical (unat base) ds'" "num_val (unat base) ds' = unat v"
    then show "ds' = num_str (unat base) (unat v)" using canonical_unique [OF b, of ds'] by (simp only:)
  qed
  moreover have "\<not> (base = 0 \<or> base = 1 \<and> v \<noteq> 0)" using b(1) by (intro notI) (elim disjE conjE, simp_all)
  ultimately have u: "\<forall>ds'. canonical (unat base) ds' \<and> num_val (unat base) ds' = unat v \<longrightarrow> ds' = num_str (unat base) (unat v)"
    "\<not> (base = 0 \<or> base = 1 \<and> v \<noteq> 0)" by blast+
  show ?thesis unfolding if_not_P [OF u(2)]
    by (rule exI [of _ "num_str (unat base) (unat v)"]) (intro conjI i_to_a_eq [OF True] num_str_canonical [OF b] num_val_num_str [OF b] u(1))
next
  case False
  then have "unat base < 2" by (simp add: word_le_nat_alt)
  then have "unat base = 0 \<or> unat base = 1" by linarith
  then have "base = 0 \<or> base = 1" using word_unat_eq_iff [of base 0] word_unat_eq_iff [of base 1] by simp
  then consider "base = 0 \<or> base = 1 \<and> v \<noteq> 0" | "base = 1" "v = 0" by blast
  then show ?thesis
  proof cases
    case 1
    then show ?thesis by (simp only: if_True i_to_a_no_base)
  next
    case 2
    have "num_val 1 [0x30] = 0" by (simp add: num_val_def digit_val_def)
    then show ?thesis using 2 i_to_a_unary [of m p] by (simp add: canonical_unary [simplified])
  qed
qed

theorem i_to_a_roundtrip_witness:
  "\<exists>ds. i_to_a 0xc0100000 (\<lambda>_. 0) 0x1000 16 = Some (put_bytes (\<lambda>_. 0) 0x1000 ds, off 0x1000 (length ds)) \<and> canonical 16 ds \<and> num_val 16 ds = 0xc0100000"
  using i_to_a_roundtrip [of 16 "0xc0100000" "\<lambda>_. 0" "0x1000"] by auto

lemma vsprintf_ok:
  assumes "fmt cs as = Some out" "cstr m format cs" "rng str (Suc (length out)) \<subseteq> R" "NULL \<notin> R"
    and "args_ok m R ap as" "rng format (Suc (length cs)) \<inter> R = {}" "length cs < 4294967295" "length out < 4294967295"
    and "m (off str (length out)) = 0" "0 \<notin> set out"
  shows "\<exists>m'. vsprintf m str format ap = Inr (word_of_nat (length out), m') \<and> cstr m' str out \<and>
    (\<forall>x. x \<notin> rng str (Suc (length out)) \<longrightarrow> m' x = m x)"
proof -
  from vsprintf_loop_ok [OF assms(1,2,5,4) _ assms(8,6,7), of str] assms(3) obtain m' where
    m': "vsprintf_loop m ap str format = Some (Inr m')" "wrote m str out m'" by auto
  have "off str (length out) \<notin> rng str (length out)" using assms(8) by (simp add: rng_def unat_word_of_nat_u32)
  then have "m' x = put_bytes m str out x" for x
    using wroteD [OF m'(2), of x] put_bytes_outside [of "off str (length out)" str out m] assms(8,9) by auto
  then have "m' = put_bytes m str out" ..
  then have c: "cstr m' str out" using cstr_put_bytes [of out m str] assms(8-10) by simp
  have "str \<in> rng str (Suc (length out))" by (simp add: rng_def)
  then have "str \<in> R" using assms(3) by blast
  then have "str \<noteq> NULL" using assms(4) by blast
  with strlen_cstr [OF c] m'(1) have "vsprintf m str format ap = Inr (word_of_nat (length out), m')"
    by (simp add: vsprintf_def)
  then show ?thesis using c wrote_outside [OF m'(2)] assms(8) by auto
qed

text \<open>
  C20: \<^verbatim>\<open>vsprintf\<close> into a buffer that has room for the text and a NUL byte behind it returns, leaves
  the formatted text as a NUL-terminated string in the buffer, returns its length and changes
  nothing outside.
\<close>
theorem vsprintf_correct:
  assumes "fmt cs as = Some out" "cstr m format cs" "R = rng str (Suc (length out))" "NULL \<notin> R"
    and "args_ok m R ap as" "rng format (Suc (length cs)) \<inter> R = {}" "length cs < 4294967295" "length out < 4294967295"
    and "m (off str (length out)) = 0" "0 \<notin> set out"
  shows "\<exists>m'. vsprintf m str format ap = Inr (word_of_nat (length out), m') \<and> cstr m' str out \<and>
    (\<forall>x. x \<notin> R \<longrightarrow> m' x = m x)"
  using vsprintf_ok [OF assms(1,2) _ assms(4-10)] assms(3) by simp

text \<open>\<^verbatim>\<open>"n=%x"\<close> at 0x2000, its argument 0x2a behind 0x3000, a zeroed buffer at 0x1000.\<close>

definition demo_fmt_mem :: mem where
  "demo_fmt_mem = (\<lambda>_. 0)(0x2000 := 0x6e, 0x2001 := 0x3d, 0x2002 := 0x25, 0x2003 := 0x78, 0x3004 := 0x2a)"

theorem vsprintf_correct_witness:
  "\<exists>m'. vsprintf demo_fmt_mem 0x1000 0x2000 0x3000 = Inr (4, m') \<and> cstr m' 0x1000 [0x6e, 0x3d, 0x32, 0x41]"
proof -
  define R where "R = rng 0x1000 5"
  have "num_str 16 42 = [0x32, 0x41]" by (simp add: num_str.simps digit_char_def)
  then have f: "fmt [0x6e, 0x3d, 0x25, 0x78] [Num 0x2a] = Some [0x6e, 0x3d, 0x32, 0x41]"
    by (simp add: is_conv_def conv_str_def)
  have d: "rng 0x3004 4 \<inter> R = {}" "rng 0x2000 5 \<inter> R = {}"
    using rng_disjoint [of 5 "0x3004" "0x1000" 4] rng_disjoint [of 5 "0x2000" "0x1000" 5]
    by (simp_all add: R_def Int_commute)
  have n: "Suc (Suc (Suc (Suc (Suc 0)))) = 5" by simp
  have "cstr demo_fmt_mem 0x2000 [0x6e, 0x3d, 0x25, 0x78]" "NULL \<notin> R" "demo_fmt_mem 0x1004 = 0"
    "args_ok demo_fmt_mem R 0x3000 [Num 0x2a]"
    using d(1) by (simp_all add: demo_fmt_mem_def R_def rng_def load32_def)
  then show ?thesis
    using vsprintf_correct [OF f, of demo_fmt_mem "0x2000" R "0x1000" "0x3000"] d(2) n by (auto simp: R_def)
qed

text \<open>
  \<^verbatim>\<open>vsprintf\<close> does not end its text: formatting a text without conversions into a buffer that
  holds an old string leaves the old bytes behind the new ones, and the length it returns is that
  of both.
\<close>
lemma vsprintf_keeps_old_tail:
  assumes "0x25 \<notin> set cs" "cstr m format cs" "cstr m (off str (length cs)) old" "R = rng str (Suc (length cs))"
    and "NULL \<notin> R" "rng format (Suc (length cs)) \<inter> R = {}" "length cs + length old < 4294967295"
  shows "\<exists>m'. vsprintf m str format ap = Inr (word_of_nat (length cs + length old), m') \<and> cstr m' str (cs @ old)"
proof -
  have loop: "vsprintf_loop m ap str format = Some (Inr (put_bytes m str cs))"
    using assms(1,2,4-7)
  proof (induction cs arbitrary: m str format R)
    case Nil
    then show ?case by (subst vsprintf_loop.simps) simp
  next
    case (Cons c cs)
    have sub: "insert str (rng (str + 1) (Suc (length cs))) = R" using Cons.prems(3,6) by (simp add: rng_Suc)
    have d: "rng (format + 1) (Suc (length cs)) \<inter> R = {}" using Cons.prems(5,6) by (simp add: rng_Suc)
    have c: "cstr (m(str := c)) (format + 1) cs"
    proof (rule cstr_outside)
      show "cstr m (format + 1) cs" "rng (format + 1) (Suc (length cs)) \<inter> R = {}" "length cs < 4294967295"
        using Cons.prems(2,6) d by simp_all
      show "(m(str := c)) x = m x" if "x \<notin> R" for x using that sub by auto
    qed
    have "0x25 \<notin> set cs" "NULL \<notin> rng (str + 1) (Suc (length cs))"
      "rng (format + 1) (Suc (length cs)) \<inter> rng (str + 1) (Suc (length cs)) = {}" "length cs + length old < 4294967295"
      using Cons.prems(1,4,6) sub d by auto
    from Cons.IH [OF this(1) c refl this(2-4)]
    have "vsprintf_loop (m(str := c)) ap (str + 1) (format + 1) = Some (Inr (put_bytes (m(str := c)) (str + 1) cs))" .
    then show ?case using Cons.prems(1,2) by (subst vsprintf_loop.simps) auto
  qed
  have out: "put_bytes m str cs (off (off str (length cs)) i) = m (off (off str (length cs)) i)" if "i \<le> length old" for i
  proof (rule put_bytes_outside)
    have "length cs + i < 4294967296" using that assms(7) by simp
    then have "unat (word_of_nat (length cs + i) :: u32) = length cs + i" by (rule unat_word_of_nat_u32)
    then show "off (off str (length cs)) i \<notin> rng str (length cs)" by (simp add: rng_def)
  qed (use assms(7) in simp)
  have old: "cstr (put_bytes m str cs) (off str (length cs)) old" by (rule cstr_cong [OF assms(3) out])
  have nz: "0 \<notin> set cs" by (rule cstr_nonzero [OF assms(2)])
  have new: "put_bytes m str cs (off str i) = cs ! i" if "i < length cs" for i
    using that assms(7) by (simp add: put_bytes_nth)
  have c: "cstr (put_bytes m str cs) str (cs @ old)" by (rule cstr_appendI [OF old new nz])
  have "str \<in> R" using assms(4) by (simp add: rng_def)
  then have "str \<noteq> NULL" using assms(5) by blast
  with strlen_cstr [OF c] show ?thesis using c loop by (auto simp: vsprintf_def)
qed

lemma vsprintf_keeps_old_tail_example:
  "\<exists>m'. vsprintf ((\<lambda>_. 0)(0x2000 := 0x41, 0x1000 := 0x58, 0x1001 := 0x59)) 0x1000 0x2000 0x3000 = Inr (2, m') \<and>
    cstr m' 0x1000 [0x41, 0x59]"
proof -
  define m :: mem where "m = (\<lambda>_. 0)(0x2000 := 0x41, 0x1000 := 0x58, 0x1001 := 0x59)"
  define R where "R = rng 0x1000 2"
  have n: "Suc (Suc 0) = 2" by simp
  have "rng 0x2000 2 \<inter> R = {}"
    using rng_disjoint [of 2 "0x2000" "0x1000" 2] by (simp add: R_def Int_commute)
  moreover have "cstr m 0x2000 [0x41]" "cstr m 0x1001 [0x59]" "NULL \<notin> R" by (simp_all add: m_def R_def rng_def)
  ultimately show ?thesis
    using vsprintf_keeps_old_tail [of "[0x41]" m "0x2000" "0x1000" "[0x59]" R "0x3000"] n
    unfolding m_def [symmetric] by (auto simp: R_def)
qed

section \<open>Words in memory\<close>

lemma four_bytes: "ucast (ucast w :: u8) OR push_bit 8 (ucast (ucast (drop_bit 8 w) :: u8)) OR
    push_bit 16 (ucast (ucast (drop_bit 16 w) :: u8)) OR push_bit 24 (ucast (ucast (drop_bit 24 w) :: u8)) = w" for w :: u32
proof (rule bit_word_eqI)
  fix n assume n: "n < LENGTH(32)"
  have e: "bit (push_bit k (ucast (ucast (drop_bit k w) :: u8) :: u32)) n \<longleftrightarrow> k \<le> n \<and> n < k + 8 \<and> bit w n" for k
    using n by (auto simp: bit_simps)
  have e0: "bit (ucast (ucast w :: u8) :: u32) n \<longleftrightarrow> n < 8 \<and> bit w n" using n by (auto simp: bit_simps)
  show "bit ((ucast (ucast w :: u8) :: u32) OR push_bit 8 (ucast (ucast (drop_bit 8 w) :: u8)) OR
    push_bit 16 (ucast (ucast (drop_bit 16 w) :: u8)) OR push_bit 24 (ucast (ucast (drop_bit 24 w) :: u8))) n = bit w n"
    using n by (simp only: bit_or_iff e e0) auto
qed

lemma load32_store32 [simp]: "load32 (store32 m p w) p = w"
  using four_bytes [of w] by (simp add: load32_def store32_def)

lemma bytes_of_load32:
  "ucast (load32 m p) = m p" "ucast (drop_bit 8 (load32 m p)) = m (p + 1)"
  "ucast (drop_bit 16 (load32 m p)) = m (p + 2)" "ucast (drop_bit 24 (load32 m p)) = m (p + 3)"
  by (rule bit_word_eqI; auto simp: load32_def bit_simps dest: bit_imp_le_length)+

lemma store32_load32: "store32 (store32 m p v) p (load32 m p) = m"
  unfolding store32_def bytes_of_load32 by (rule ext) auto

lemma store32_outside: "a \<notin> rng p 4 \<Longrightarrow> store32 m p w a = m a"
proof -
  assume "a \<notin> rng p 4"
  then have "a \<noteq> p + k" if "unat k < 4" for k using that by (auto simp: rng_def)
  from this [of 0] this [of 1] this [of 2] this [of 3] show ?thesis by (simp add: store32_def)
qed

lemma load32_cong:
  assumes "\<And>a. a \<in> rng p 4 \<Longrightarrow> m a = m' a"
  shows "load32 m p = load32 m' p"
proof -
  have "m (p + k) = m' (p + k)" if "unat k < 4" for k using assms [of "p + k"] that by (simp add: rng_def)
  from this [of 0] this [of 1] this [of 2] this [of 3] show ?thesis by (simp add: load32_def)
qed

lemma load32_store32_other: "rng p 4 \<inter> rng q 4 = {} \<Longrightarrow> load32 (store32 m q w) p = load32 m p"
  by (rule load32_cong, rule store32_outside) blast

end
