(* ===== verification/Console.thy ===== *)
theory Console
  imports Keyboard Stdio
begin

text \<open>
  The console, \<^verbatim>\<open>device/console.c\<close>, and \<^verbatim>\<open>printk\<close> of \<^verbatim>\<open>lib/kernel/stdio-kernel.c\<close>: output under a lock,
  so that the texts of two threads do not mix. \<^verbatim>\<open>put_str\<close> and \<^verbatim>\<open>put_int\<close> of \<^verbatim>\<open>lib/kernel/print.S\<close> are
  the bytes they hand to \<^verbatim>\<open>put_char\<close>, appended to \<open>screen\<close>.
\<close>

section \<open>The routines\<close>

record consys = kbdsys +
  console_lock :: u32

partial_function (option) str_at :: "mem \<Rightarrow> u32 \<Rightarrow> u8 list option" where
  "str_at m p = (if m p = 0 then Some [] else Option.bind (str_at m (p + 1)) (\<lambda>xs. Some (m p # xs)))"

definition put_str :: "u32 \<Rightarrow> 'a devsys_scheme \<Rightarrow> 'a devsys_scheme res" where
  "put_str str s = kbind (of_loop (str_at (kmem s) str)) (\<lambda>xs. Inr (s\<lparr>screen := screen s @ xs\<rparr>))"

text \<open>Eight hexadecimal digits without leading zeros.\<close>

definition hex_digits :: "u32 \<Rightarrow> u8 list" where
  "hex_digits num =
     (let ds = dropWhile (\<lambda>c. c = 0x30) (map (\<lambda>i. digit_char (drop_bit (4 * i) num AND 0xf)) [7, 6, 5, 4, 3, 2, 1, 0])
      in if ds = [] then [0x30] else ds)"

definition put_int :: "u32 \<Rightarrow> 'a devsys_scheme \<Rightarrow> 'a devsys_scheme" where
  "put_int num s = s\<lparr>screen := screen s @ hex_digits num\<rparr>"

definition console_init :: "'a consys_scheme \<Rightarrow> 'a consys_scheme" where
  "console_init s = lock_init (console_lock s) s"

definition console_acquire :: "'a consys_scheme \<Rightarrow> (bool \<times> 'a consys_scheme) res" where
  "console_acquire s = lock_acquire (console_lock s) s"

definition console_release :: "'a consys_scheme \<Rightarrow> 'a consys_scheme res" where
  "console_release s = lock_release (console_lock s) s"

text \<open>
  The output routines, from the point where the lock is held, and as a whole; \<open>None\<close> is a caller
  that sleeps on the lock, with a frame that leads to the first part.
\<close>

definition console_put_str_locked :: "u32 \<Rightarrow> 'a consys_scheme \<Rightarrow> (unit option \<times> 'a consys_scheme) res" where
  "console_put_str_locked str s =
     kbind (put_str str s) (\<lambda>s. kbind (console_release s) (\<lambda>s. Inr (Some (), s)))"

definition console_put_str :: "u32 \<Rightarrow> 'a consys_scheme \<Rightarrow> (unit option \<times> 'a consys_scheme) res" where
  "console_put_str str s = after_lock (F_console_put_str str) (console_lock s) (console_put_str_locked str) s"

definition console_put_char_locked :: "u8 \<Rightarrow> 'a consys_scheme \<Rightarrow> (unit option \<times> 'a consys_scheme) res" where
  "console_put_char_locked char_asci s =
     kbind (console_release (put_char char_asci s)) (\<lambda>s. Inr (Some (), s))"

definition console_put_char :: "u8 \<Rightarrow> 'a consys_scheme \<Rightarrow> (unit option \<times> 'a consys_scheme) res" where
  "console_put_char char_asci s =
     after_lock (F_console_put_char char_asci) (console_lock s) (console_put_char_locked char_asci) s"

definition console_put_int_locked :: "u32 \<Rightarrow> 'a consys_scheme \<Rightarrow> (unit option \<times> 'a consys_scheme) res" where
  "console_put_int_locked num s = kbind (console_release (put_int num s)) (\<lambda>s. Inr (Some (), s))"

definition console_put_int :: "u32 \<Rightarrow> 'a consys_scheme \<Rightarrow> (unit option \<times> 'a consys_scheme) res" where
  "console_put_int num s = after_lock (F_console_put_int num) (console_lock s) (console_put_int_locked num) s"

text \<open>
  \<open>bp\<close> is the address of the 1024 zeroed bytes on the stack of \<^verbatim>\<open>printk\<close>, \<open>args\<close> that of its
  parameter \<^verbatim>\<open>format\<close>.
\<close>

definition printk :: "u32 \<Rightarrow> u32 \<Rightarrow> u32 \<Rightarrow> 'a consys_scheme \<Rightarrow> (unit option \<times> 'a consys_scheme) res" where
  "printk bp format args s =
     kbind (vsprintf (memset_loop (kmem s) bp 0 1024) bp format args) (\<lambda>(_, m).
       console_put_str bp (s\<lparr>kmem := m\<rparr>))"

section \<open>Hexadecimal output\<close>

lemma str_at_cstr: "cstr m p xs \<Longrightarrow> str_at m p = Some xs"
proof (induction xs arbitrary: p)
  case Nil
  then show ?case by (subst str_at.simps) simp
next
  case (Cons x xs)
  then show ?case by (subst str_at.simps) auto
qed

lemma screen_locked: "screen (locked l s) = screen s" "kmem (locked l s) = kmem s"
  by (simp_all add: locked_def set_repeat_def set_holder_def set_sema_def)

lemma locked_screen: "(locked l s)\<lparr>screen := x\<rparr> = locked l (s\<lparr>screen := x\<rparr>)"
  by (simp add: locked_def set_repeat_def set_holder_def set_sema_def running_thread_def)

lemma lock_free_screen: "lock_free l (s\<lparr>screen := x\<rparr>) \<longleftrightarrow> lock_free l s"
  by (simp add: lock_free_def list_empty_def)

lemma release_locked:
  assumes "lock_free l s"
  shows "lock_release l (locked l s) = Inr s"
proof -
  have "list_empty w (locked l s) = list_empty w s" for w by (simp add: list_empty_def)
  then show ?thesis using lock_release_last [of "locked l s" l] unlocked_locked [OF assms] assms
    by (simp add: lock_free_def)
qed

lemma console_fields:
  "console_lock (locked l s) = console_lock s" "console_lock (s\<lparr>screen := x\<rparr>) = console_lock s"
  by (simp_all add: locked_def set_repeat_def set_holder_def set_sema_def)

lemma console_put_str_free:
  assumes "lock_free (console_lock s) s" "running_thread s \<noteq> NULL" "cstr (kmem s) str xs"
  shows "console_put_str str s = Inr (Some (), s\<lparr>screen := screen s @ xs\<rparr>)"
proof -
  have "put_str str (locked l s) = Inr (locked l (s\<lparr>screen := screen s @ xs\<rparr>))" for l
    using str_at_cstr [OF assms(3)] by (simp add: put_str_def screen_locked locked_screen)
  then show ?thesis
    using assms(1) by (simp add: after_lock_free [OF assms(1,2)] console_put_str_def console_put_str_locked_def console_release_def console_fields
        release_locked lock_free_screen)
qed

text \<open>A lock held by another thread: the caller joins the waiters and blocks.\<close>

lemma after_lock_blocks:
  assumes inv: "sched_inv s rs ts pd" and sep: "queue_sep s (sema_waiters (lock_semaphore l)) ts"
    and w: "wait_list s (sema_waiters (lock_semaphore l)) ws" "set ws \<subseteq> set ts" "set rs \<inter> set ws = {}"
    and r: "running_thread s \<notin> set ws" "running_thread s \<noteq> idle_thread s" "idle_thread s \<notin> set ws"
    and v: "sema_value s (lock_semaphore l) = 0" "lock_holder s l \<noteq> running_thread s"
  defines "cur \<equiv> running_thread s"
  shows "\<exists>s' rs'. after_lock fr l k s = Inr (None, s') \<and> sched_inv s' rs' ts pd \<and> status (tasks s' cur) = TASK_BLOCKED \<and>
    wait_list s' (sema_waiters (lock_semaphore l)) (ws @ [cur]) \<and> tsys.more s' = tsys.more s \<and>
    kstack (tasks s' cur) = F_thread_block INTR_OFF # F_sema_down (lock_semaphore l) (intr_get_status s) #
      F_lock_acquire l # fr # kstack (tasks s cur)"
proof -
  let ?f = "push_frame cur (F_lock_acquire l) (push_frame cur fr s)" and ?p = "lock_semaphore l"
  let ?d = "snd (intr_disable ?f)"
  have d: "running_thread ?d = cur" "idle_thread ?d = idle_thread s" "sema_value ?d ?p = 0"
    "sched_inv ?d rs ts pd" "tsys.more ?d = tsys.more s" "thread_ready_list ?d = thread_ready_list s"
    "lheap ?d = lheap s" "kstack (tasks ?d cur) = F_lock_acquire l # fr # kstack (tasks s cur)"
    using v(1) inv by (simp_all add: cur_def intr_disable_def cli_def)
  have "queue_sep ?d (sema_waiters ?p) ts" "wait_list ?d (sema_waiters ?p) ws"
    using sep w(1) d by (simp_all add: queue_sep_def wait_list_def)
  from sema_down_loop_blocks [OF d(4) this w(2,3), unfolded d, where old = "intr_get_status s"] r
  obtain s' where s': "sema_down_loop ?p (intr_get_status s) ?d = Inr (False, s')"
    "sched_inv s' (tl (if rs = [] then [idle_thread s] else rs)) ts pd" "wait_list s' (sema_waiters ?p) (ws @ [cur])"
    "status (tasks s' cur) = TASK_BLOCKED" "tsys.more s' = tsys.more s"
    "kstack (tasks s' cur) = F_thread_block INTR_OFF # F_sema_down ?p (intr_get_status s) # F_lock_acquire l # fr # kstack (tasks s cur)"
    by (auto simp: cur_def)
  have "after_lock fr l k s = Inr (None, s')"
    using v(2) s'(1) by (simp add: after_lock_def lock_acquire_def sema_down_def split_beta cur_def)
  then show ?thesis using s' by blast
qed

section \<open>Property\<close>

text \<open>
  C22: Text on the console is not interleaved: \<^verbatim>\<open>console_put_str\<close> with a free lock appends the whole string
  to the screen and leaves the rest of the system as it was, the lock included; while another
  thread holds the lock, the caller is put to sleep behind the other waiters and nothing is shown.
\<close>
theorem console_put_str_atomic:
  assumes inv: "sched_inv s rs ts pd" and str: "cstr (kmem s) str xs"
    and sep: "queue_sep s (sema_waiters (lock_semaphore (console_lock s))) ts"
    and w: "wait_list s (sema_waiters (lock_semaphore (console_lock s))) ws" "set ws \<subseteq> set ts" "set rs \<inter> set ws = {}"
      "running_thread s \<notin> set ws" "running_thread s \<noteq> idle_thread s" "idle_thread s \<notin> set ws"
    and l: "lock_holder s (console_lock s) \<noteq> running_thread s"
  shows "(lock_free (console_lock s) s \<longrightarrow> console_put_str str s = Inr (Some (), s\<lparr>screen := screen s @ xs\<rparr>)) \<and>
    (sema_value s (lock_semaphore (console_lock s)) = 0 \<longrightarrow>
      (\<exists>s' rs'. console_put_str str s = Inr (None, s') \<and> screen s' = screen s \<and> sched_inv s' rs' ts pd \<and>
        status (tasks s' (running_thread s)) = TASK_BLOCKED \<and>
        wait_list s' (sema_waiters (lock_semaphore (console_lock s))) (ws @ [running_thread s])))"
proof -
  have "running_thread s \<noteq> NULL" using sched_invD(1) [OF inv] by (auto simp: sched_wf_def)
  moreover have "screen s' = screen s" if "tsys.more s' = tsys.more s" for s' using that by (rule dev_more(2))
  ultimately show ?thesis
    using console_put_str_free [OF _ _ str] after_lock_blocks [OF inv sep w _ l]
    unfolding console_put_str_def by blast
qed

text \<open>The system of three threads with an initialised console; the string \<^verbatim>\<open>"OK"\<close> stands at 0xc0008000.\<close>

definition demo_con :: consys where
  "demo_con = console_init ((kbdsys.extend demo_kbd \<lparr>console_lock = 0xc0007200\<rparr>)
     \<lparr>kmem := (\<lambda>_. 0)(0xc0008000 := 0x4f, 0xc0008001 := 0x4b)\<rparr>)"

lemma sched_inv_kbdext: "sched_inv (kbdsys.extend s x) rs ts pd \<longleftrightarrow> sched_inv s rs ts pd"
  by (simp add: sched_inv_def sched_wf_def ready_list_def running_thread_def kbdsys.defs)

lemma sched_inv_kmem [simp]: "sched_inv (s\<lparr>kmem := x\<rparr>) rs ts pd \<longleftrightarrow> sched_inv s rs ts pd"
  by (simp add: sched_inv_def sched_wf_def ready_list_def running_thread_def)

lemma lock_init_fields:
  "running_thread (lock_init l s) = running_thread s" "idle_thread (lock_init l s) = idle_thread s"
  "tsys.more (lock_init l s) = tsys.more s" "lock_holder (lock_init l s) = (lock_holder s)(l := NULL)"
  "phys (lock_init l s) = phys s" "cr3 (lock_init l s) = cr3 s" "tasks (lock_init l s) = tasks s" "esp (lock_init l s) = esp s"
  by (simp_all add: lock_init_def sema_init_def list_init_def set_sema_def set_repeat_def set_holder_def running_thread_def)

lemma demo_con_facts:
  "sched_inv demo_con [0xc0103000] demo_ts (\<lambda>_. 0x100000)" "lock_free 0xc0007200 demo_con"
  "wait_list demo_con (sema_waiters (lock_semaphore 0xc0007200)) []"
  "queue_sep demo_con (sema_waiters (lock_semaphore 0xc0007200)) demo_ts"
  "console_lock demo_con = 0xc0007200" "running_thread demo_con = 0xc009e000" "idle_thread demo_con = 0xc0102000"
  "kmem demo_con = (\<lambda>_. 0)(0xc0008000 := 0x4f, 0xc0008001 := 0x4b)" "lock_holder demo_con 0xc0007200 = NULL"
proof -
  let ?s = "(kbdsys.extend demo_kbd \<lparr>console_lock = 0xc0007200\<rparr>)\<lparr>kmem := (\<lambda>_. 0)(0xc0008000 := 0x4f, 0xc0008001 := 0x4b)\<rparr>"
  have s: "sched_inv ?s [0xc0103000] demo_ts (\<lambda>_. 0x100000)"
    using demo_kbd_ok by (simp add: sched_inv_kbdext kbd_ok_def)
  have r: "thread_ready_list ?s = 0xc0005000" "running_thread ?s = 0xc009e000" "idle_thread ?s = 0xc0102000"
    by (simp_all add: demo_kbd_def demo_dev_def kbdsys.defs devsys.defs tsys.defs demo_tsys_fields running_thread_def)
  have q: "queue_sep ?s (sema_waiters (lock_semaphore 0xc0007200)) demo_ts"
    by (simp add: queue_sep_def r general_tag_def sema_waiters_def lock_semaphore_def)
  have c: "demo_con = lock_init 0xc0007200 ?s" by (simp add: demo_con_def console_init_def kbdsys.defs)
  note ok = lock_init_ok [OF s q, folded c]
  show "sched_inv demo_con [0xc0103000] demo_ts (\<lambda>_. 0x100000)" "lock_free 0xc0007200 demo_con"
    "wait_list demo_con (sema_waiters (lock_semaphore 0xc0007200)) []"
    "queue_sep demo_con (sema_waiters (lock_semaphore 0xc0007200)) demo_ts" by (rule ok)+
  have "tsys.more demo_con = tsys.more ?s" by (simp add: c lock_init_fields)
  then show "kmem demo_con = (\<lambda>_. 0)(0xc0008000 := 0x4f, 0xc0008001 := 0x4b)" using dev_more(3) [of demo_con ?s] by simp
  show "console_lock demo_con = 0xc0007200"
    by (simp add: c lock_init_def sema_init_def list_init_def set_sema_def set_repeat_def set_holder_def kbdsys.defs)
  show "running_thread demo_con = 0xc009e000" "idle_thread demo_con = 0xc0102000" "lock_holder demo_con 0xc0007200 = NULL"
    using r by (simp_all add: c lock_init_fields)
qed

theorem console_put_str_atomic_witness:
  "console_put_str 0xc0008000 demo_con = Inr (Some (), demo_con\<lparr>screen := screen demo_con @ [0x4f, 0x4b]\<rparr>)"
  using console_put_str_atomic [OF demo_con_facts(1), of "0xc0008000" "[0x4f, 0x4b]" "[]"]
  by (simp add: demo_con_facts)

end
