(* ===== verification/Timer.thy ===== *)
theory Timer
  imports Console
begin

text \<open>
  \<^verbatim>\<open>device/timer.c\<close>: programming of the interval timer and sleeping for a number of ticks. The handler
  of the clock interrupt is in the theory of the scheduler. A sleeping thread yields until enough
  ticks have passed; \<open>F_ticks_to_sleep\<close> is the frame with which it tests the clock again.
\<close>

section \<open>The routines\<close>

definition IRQ0_FREQUENCY :: u32 where "IRQ0_FREQUENCY = 100"
definition INPUT_FREQUENCY :: u32 where "INPUT_FREQUENCY = 1193180"
definition COUNTER0_VALUE :: u16 where "COUNTER0_VALUE = ucast (INPUT_FREQUENCY div IRQ0_FREQUENCY)"
definition mil_seconds_per_intr :: u32 where "mil_seconds_per_intr = 1000 div IRQ0_FREQUENCY"

definition frequency_set :: "u8 \<Rightarrow> u8 \<Rightarrow> u8 \<Rightarrow> u8 \<Rightarrow> u16 \<Rightarrow> 'a cpu_scheme \<Rightarrow> 'a cpu_scheme" where
  "frequency_set counter_port counter_no rwl counter_mode counter_value s =
     (let port = ucast counter_port in
      outb port (ucast (drop_bit 8 (ucast (ucast counter_value :: u8) :: u32)))
        (outb port (ucast counter_value)
          (outb 0x43 (push_bit 6 counter_no OR push_bit 4 rwl OR push_bit 1 counter_mode) s)))"

text \<open>Whether the sleep is over; if not, the caller has yielded.\<close>

definition ticks_to_sleep_loop :: "u32 \<Rightarrow> u32 \<Rightarrow> 'a tsys_scheme \<Rightarrow> (bool \<times> 'a tsys_scheme) res" where
  "ticks_to_sleep_loop start_tick sleep_ticks s =
     (if sys_ticks s - start_tick < sleep_ticks
      then kbind (thread_yield (push_frame (running_thread s) (F_ticks_to_sleep start_tick sleep_ticks) s))
        (\<lambda>s. Inr (False, s))
      else Inr (True, s))"

definition ticks_to_sleep :: "u32 \<Rightarrow> 'a tsys_scheme \<Rightarrow> (bool \<times> 'a tsys_scheme) res" where
  "ticks_to_sleep sleep_ticks s = ticks_to_sleep_loop (sys_ticks s) sleep_ticks s"

definition mtime_sleep :: "u32 \<Rightarrow> 'a tsys_scheme \<Rightarrow> (bool \<times> 'a tsys_scheme) res" where
  "mtime_sleep m_seconds s =
     (let sleep_ticks = DIV_ROUND_UP m_seconds mil_seconds_per_intr in
      ASSERT (sleep_ticks > 0) (ticks_to_sleep sleep_ticks s))"

text \<open>What the sleeper does when it is switched to again: the rest of \<^verbatim>\<open>thread_yield\<close>, then the test of the loop.\<close>

definition sleep_resume :: "'a tsys_scheme \<Rightarrow> (bool \<times> 'a tsys_scheme) res" where
  "sleep_resume s =
     kbind (resume s) (\<lambda>(returned, s).
       case kstack (tasks s (running_thread s)) of
         F_ticks_to_sleep start_tick sleep_ticks # _ \<Rightarrow> ticks_to_sleep_loop start_tick sleep_ticks (pop_frame s)
       | _ \<Rightarrow> Inr (returned, s))"

text \<open>\<open>handler\<close> is the address of \<^verbatim>\<open>intr_timer_handler\<close>.\<close>

definition timer_init :: "intr_handler \<Rightarrow> 'a devsys_scheme \<Rightarrow> 'a devsys_scheme res" where
  "timer_init handler s =
     kbind (register_handler 0x20 handler (frequency_set 0x40 0 3 2 COUNTER0_VALUE (put_lit ''timer_init start\<newline>'' s)))
       (\<lambda>s. Inr (put_lit ''timer_init done\<newline>'' s))"

section \<open>Properties\<close>

lemma frequency_set_log:
  "io_log (frequency_set p n r m v s) =
    io_log s @ [(0x43, push_bit 6 n OR push_bit 4 r OR push_bit 1 m), (ucast p, ucast v), (ucast p, 0)]"
proof -
  have "(ucast (drop_bit 8 (ucast (ucast v :: u8) :: u32)) :: u8) = 0"
    by (rule bit_word_eqI) (auto simp: bit_simps dest: bit_imp_le_length)
  then show ?thesis by (simp add: frequency_set_def Let_def outb_def)
qed

text \<open>
  \<^verbatim>\<open>timer_init\<close> programs the timer with the divisor 155 instead of 11931: the cast binds before
  the shift, so the high byte it writes is always zero. Interrupts come 76 times as often as
  \<^verbatim>\<open>IRQ0_FREQUENCY\<close> says.
\<close>
lemma timer_divisor_truncated:
  "\<exists>s' lo hi. timer_init handler s = Inr s' \<and>
    io_log s' = io_log s @ [(0x43, 0x34), (0x40, lo), (0x40, hi)] \<and> unat lo + 256 * unat hi = 155 \<and>
    unat COUNTER0_VALUE = 11931 \<and> unat INPUT_FREQUENCY div (unat lo + 256 * unat hi) = 7697"
proof -
  have c: "COUNTER0_VALUE = 11931" "INPUT_FREQUENCY = 1193180"
    by (simp_all add: COUNTER0_VALUE_def INPUT_FREQUENCY_def IRQ0_FREQUENCY_def)
  have l: "io_log (put_lit x t) = io_log t" for x and t :: "'a devsys_scheme" by (simp add: put_lit_def)
  let ?t = "frequency_set 0x40 0 3 2 COUNTER0_VALUE (put_lit ''timer_init start\<newline>'' s)"
  have t: "timer_init handler s = Inr (put_lit ''timer_init done\<newline>'' (?t\<lparr>idt_table := (idt_table ?t)[0x20 := handler]\<rparr>))"
    by (simp add: timer_init_def register_handler_def IDT_DESC_CNT_def)
  show ?thesis
    unfolding t by (rule exI, rule exI [of _ "0x9b"], rule exI [of _ 0], rule conjI, rule refl) (simp add: l frequency_set_log c)
qed

text \<open>
  Sleep times in ticks: rounded up to the next multiple of ten milliseconds. A time within nine of the
  largest number wraps to zero.
\<close>

lemma sleep_ticks_round_up:
  "unat (DIV_ROUND_UP ms mil_seconds_per_intr) = (if unat ms \<le> 4294967286 then (unat ms + 9) div 10 else 0)"
proof (cases "unat ms \<le> 4294967286")
  case True
  then show ?thesis using DIV_ROUND_UP_unat [of ms mil_seconds_per_intr] by (simp add: mil_seconds_per_intr_def IRQ0_FREQUENCY_def)
next
  case False
  define d where "d = unat ms - 4294967287"
  have d: "unat ms + 9 = d + 4294967296" "d < 9" using False unat_u32_lt [of ms] unfolding d_def by linarith+
  have "unat (ms + 9) = (unat ms + 9) mod 4294967296" by (simp add: unat_word_ariths)
  then have "unat (ms + 9) < 10" using d(2) unfolding d(1) by simp
  then show ?thesis using False by (simp add: add.commute [of 9] DIV_ROUND_UP_def mil_seconds_per_intr_def IRQ0_FREQUENCY_def unat_div)
qed

lemma tick_distance:
  assumes "sys_ticks s = start + word_of_nat k" "k < 4294967296"
  shows "sys_ticks s - start < n \<longleftrightarrow> k < unat n"
  using assms unat_word_of_nat_u32 [of k] by (simp add: word_less_nat_alt)

text \<open>A pass of the loop before the time: the sleeper yields and stays ready behind the other threads.\<close>

lemma sleep_pass:
  assumes inv: "sched_inv s rs ts pd" and n: "sys_ticks s - start < n"
  defines "cur \<equiv> running_thread s"
  shows "\<exists>s'. ticks_to_sleep_loop start n s = Inr (False, s') \<and> sched_inv s' (tl (rs @ [cur])) ts pd \<and>
    kstack (tasks s' cur) = F_thread_yield (intr_get_status s) # F_ticks_to_sleep start n # kstack (tasks s cur)"
proof -
  let ?f = "push_frame cur (F_ticks_to_sleep start n) s"
  have "sched_inv ?f rs ts pd" using inv by simp
  from thread_yield_ok [OF this] obtain s' where s': "thread_yield ?f = Inr s'" "sched_inv s' (tl (rs @ [cur])) ts pd"
    "switched ?f s' (F_thread_yield (intr_get_status s)) rs" by (auto simp: cur_def)
  then show ?thesis using n switchedD(4) [OF s'(3)] by (simp add: ticks_to_sleep_loop_def cur_def)
qed

text \<open>The sleeper runs again: \<^verbatim>\<open>thread_yield\<close> ends, the interrupt flag has its old value, and the clock is tested.\<close>

lemma sleep_resume_eq:
  assumes "kstack (tasks t (running_thread t)) = F_thread_yield st # F_ticks_to_sleep start n # fs"
  defines "u \<equiv> pop_frame (snd (intr_set_status st (pop_frame t)))"
  shows "sleep_resume t = ticks_to_sleep_loop start n u" "running_thread u = running_thread t" "sys_ticks u = sys_ticks t"
    "kstack (tasks u (running_thread t)) = fs" "intr_get_status u = st" "sched_inv t rs ts pd \<Longrightarrow> sched_inv u rs ts pd"
proof -
  have e: "snd (intr_set_status st (pop_frame t)) = (pop_frame t)\<lparr>eflags := eflags (snd (intr_set_status st (pop_frame t)))\<rparr>"
    by (cases st) (simp_all add: intr_set_status_def intr_enable_def intr_disable_def sti_def cli_def)
  have p: "running_thread (pop_frame x) = running_thread x" "sys_ticks (pop_frame x) = sys_ticks x" "intr_get_status (pop_frame x) = intr_get_status x"
    for x :: "'a tsys_scheme" by (simp_all add: pop_frame_def)
  have r: "running_thread (snd (intr_set_status st (pop_frame t))) = running_thread t" "sys_ticks (snd (intr_set_status st (pop_frame t))) = sys_ticks t"
    "tasks (snd (intr_set_status st (pop_frame t))) = tasks (pop_frame t)"
    by (subst e, simp add: p)+
  show "running_thread u = running_thread t" "sys_ticks u = sys_ticks t" by (simp_all add: u_def p r)
  show "kstack (tasks u (running_thread t)) = fs" using assms(1) by (simp add: u_def pop_frame_def [of "snd _"] r) (simp add: pop_frame_def)
  show "intr_get_status u = st" unfolding u_def p(3) by (rule intr_set_status_status)
  show "sleep_resume t = ticks_to_sleep_loop start n u" using assms(1)
    by (simp add: sleep_resume_def resume_def u_def r) (simp add: pop_frame_def)
  show "sched_inv u rs ts pd" if "sched_inv t rs ts pd" unfolding u_def using that by (simp, subst e) (simp add: sched_inv_flags)
qed

text \<open>
  C25: \<^verbatim>\<open>mtime_sleep\<close> fails its assertion for zero milliseconds, and for a number so large that the rounding
  wraps. Otherwise the caller gives up the processor at once and stays ready behind the other
  threads. Whenever it runs again, \<open>k\<close> ticks after the call, it returns to its caller, with the
  interrupt flag as before, exactly when \<open>k\<close> is at least a tenth of the milliseconds, rounded up;
  before that it yields again with the same frames. The tick counter may wrap in between.
\<close>
theorem sleep_ends_in_time:
  assumes inv: "sched_inv s rs ts pd" and cur: "cur = running_thread s"
    and fr: "frames = F_thread_yield (intr_get_status s) # F_ticks_to_sleep (sys_ticks s) (DIV_ROUND_UP ms mil_seconds_per_intr) # kstack (tasks s cur)"
  shows "if ms = 0 \<or> 4294967286 < unat ms then mtime_sleep ms s = Inl PANIC
    else (\<exists>s1. mtime_sleep ms s = Inr (False, s1) \<and> sched_inv s1 (tl (rs @ [cur])) ts pd \<and> kstack (tasks s1 cur) = frames) \<and>
      (\<forall>t rs' k. sched_inv t rs' ts pd \<and> running_thread t = cur \<and> kstack (tasks t cur) = frames \<and>
          sys_ticks t = sys_ticks s + word_of_nat k \<and> k < 4294967296 \<longrightarrow>
        (\<exists>t'. if (unat ms + 9) div 10 \<le> k
          then sleep_resume t = Inr (True, t') \<and> running_thread t' = cur \<and> kstack (tasks t' cur) = kstack (tasks s cur) \<and>
            intr_get_status t' = intr_get_status s \<and> sched_inv t' rs' ts pd
          else sleep_resume t = Inr (False, t') \<and> sched_inv t' (tl (rs' @ [cur])) ts pd \<and> kstack (tasks t' cur) = frames))"
proof (cases "ms = 0 \<or> 4294967286 < unat ms")
  case True
  then have "unat (DIV_ROUND_UP ms mil_seconds_per_intr) = 0" using sleep_ticks_round_up [of ms] by auto
  then have "DIV_ROUND_UP ms mil_seconds_per_intr = 0" by (simp add: unat_eq_zero)
  then show ?thesis using True by (simp add: mtime_sleep_def)
next
  case False
  let ?n = "DIV_ROUND_UP ms mil_seconds_per_intr"
  have n: "unat ?n = (unat ms + 9) div 10" using False sleep_ticks_round_up [of ms] by simp
  have "unat ms \<noteq> 0" using False by (simp add: unat_eq_zero)
  then have pos: "0 < ?n" using n by (simp add: word_less_nat_alt)
  have "\<exists>s1. mtime_sleep ms s = Inr (False, s1) \<and> sched_inv s1 (tl (rs @ [cur])) ts pd \<and> kstack (tasks s1 cur) = frames"
    using sleep_pass [OF inv, of "sys_ticks s" ?n] pos by (simp add: mtime_sleep_def Let_def ticks_to_sleep_def cur fr)
  moreover have "\<exists>t'. if (unat ms + 9) div 10 \<le> k
      then sleep_resume t = Inr (True, t') \<and> running_thread t' = cur \<and> kstack (tasks t' cur) = kstack (tasks s cur) \<and>
        intr_get_status t' = intr_get_status s \<and> sched_inv t' rs' ts pd
      else sleep_resume t = Inr (False, t') \<and> sched_inv t' (tl (rs' @ [cur])) ts pd \<and> kstack (tasks t' cur) = frames"
    if t: "sched_inv t rs' ts pd" "running_thread t = cur" "kstack (tasks t cur) = frames" "sys_ticks t = sys_ticks s + word_of_nat k" "k < 4294967296" for t rs' k
  proof -
    have f: "kstack (tasks t (running_thread t)) = frames" using t(2,3) by simp
    note u = sleep_resume_eq [OF f [unfolded fr]]
    define v where "v = pop_frame (snd (intr_set_status (intr_get_status s) (pop_frame t)))"
    note u = u [folded v_def]
    have "sys_ticks v = sys_ticks s + word_of_nat k" using u(3) t(4) by simp
    then have d: "sys_ticks v - sys_ticks s < ?n \<longleftrightarrow> k < (unat ms + 9) div 10" using tick_distance [OF _ t(5), of v "sys_ticks s" ?n] n by simp
    have iv: "sched_inv v rs' ts pd" by (rule u(6) [OF t(1)])
    show ?thesis
    proof (cases "(unat ms + 9) div 10 \<le> k")
      case True
      then show ?thesis using u(1,2,4,5) d iv t(2) by (intro exI [of _ v]) (simp add: ticks_to_sleep_loop_def)
    next
      case False
      then show ?thesis using sleep_pass [OF iv, of "sys_ticks s" ?n] d u(1,2,4,5) t(2) fr by auto
    qed
  qed
  ultimately show ?thesis unfolding if_not_P [OF False] by blast
qed

text \<open>A sleep of 15 ms on the small system: the caller yields, and is awake when it runs again two ticks later.\<close>

theorem sleep_ends_in_time_witness:
  "(\<exists>s1. mtime_sleep 15 demo_tsys = Inr (False, s1)) \<and>
   (\<exists>t'. sleep_resume ((push_frame 0xc009e000 (F_thread_yield (intr_get_status demo_tsys)) (push_frame 0xc009e000 (F_ticks_to_sleep 0 2) demo_tsys))
     \<lparr>sys_ticks := 2\<rparr>) = Inr (True, t'))"
proof -
  let ?t = "(push_frame 0xc009e000 (F_thread_yield (intr_get_status demo_tsys)) (push_frame 0xc009e000 (F_ticks_to_sleep 0 2) demo_tsys))\<lparr>sys_ticks := 2\<rparr>"
  have d: "0xc009e000 = running_thread demo_tsys" "DIV_ROUND_UP 15 mil_seconds_per_intr = 2" "sys_ticks demo_tsys = 0"
    by (simp_all add: demo_tsys_fields DIV_ROUND_UP_def mil_seconds_per_intr_def IRQ0_FREQUENCY_def)
      (simp add: demo_tsys_def list_append_def list_insert_before_eq list_init_def)
  have "sched_inv (s\<lparr>sys_ticks := x\<rparr>) rs ts pd = sched_inv s rs ts pd" for s :: tsys and x rs ts pd
    by (simp add: sched_inv_def sched_wf_def ready_list_def running_thread_def)
  then have t: "sched_inv ?t [0xc0103000] demo_ts (\<lambda>_. 0x100000)" "running_thread ?t = 0xc009e000"
    using demo_inv by (simp_all add: d(1))
  note r = sleep_ends_in_time [OF demo_inv d(1) refl, of 15, unfolded d(2,3)]
  have "(\<exists>s1. mtime_sleep 15 demo_tsys = Inr (False, s1)) \<and>
    (\<exists>t'. sleep_resume ?t = Inr (True, t') \<and> running_thread t' = 0xc009e000)"
    using r t by (simp del: push_frame_fields(4)) (auto dest!: spec [of _ ?t] spec [of _ "[0xc0103000]"] spec [of _ 2])
  then show ?thesis by blast
qed

end
