(* ===== verification/Screen.thy ===== *)
theory Screen
  imports Console
begin

text \<open>
  The screen behind \<^verbatim>\<open>put_char\<close>: the assembly of \<^verbatim>\<open>lib/kernel/print.S\<close> on the registers of the display
  controller and the bytes of video memory. The other theories keep of the screen the sequence of
  bytes handed to \<^verbatim>\<open>put_char\<close>; here that sequence becomes a text of 25 rows and 80 columns.
\<close>

section \<open>The assembly routines\<close>

text \<open>
  The controller has an index port 0x3d4 and a data port 0x3d5. Video memory is indexed by the
  offset in its segment, whose base is 0xc00b8000, so that \<^verbatim>\<open>gs:ebx\<close> and the linear addresses of the
  scrolling name the same bytes.
\<close>

record vga =
  crtc_index :: u8
  crtc_regs :: "u8 \<Rightarrow> u8"
  video :: "u32 \<Rightarrow> u8"

definition vga_out :: "u16 \<Rightarrow> u8 \<Rightarrow> vga \<Rightarrow> vga" where
  "vga_out port al v =
     (if port = 0x3d4 then v\<lparr>crtc_index := al\<rparr>
      else if port = 0x3d5 then v\<lparr>crtc_regs := (crtc_regs v)(crtc_index v := al)\<rparr> else v)"

text \<open>Input from the data port.\<close>

definition vga_in :: "vga \<Rightarrow> u8" where
  "vga_in v = crtc_regs v (crtc_index v)"

definition get_cursor :: "vga \<Rightarrow> u16 \<times> vga" where
  "get_cursor v =
     (let v = vga_out 0x3d4 0x0e v; ah = vga_in v; v = vga_out 0x3d4 0x0f v; al = vga_in v
      in (push_bit 8 (ucast ah) OR ucast al, v))"

definition set_cursor_bx :: "u16 \<Rightarrow> vga \<Rightarrow> vga" where
  "set_cursor_bx bx v =
     (let v = vga_out 0x3d4 0x0e v; v = vga_out 0x3d5 (ucast (drop_bit 8 bx)) v; v = vga_out 0x3d4 0x0f v
      in vga_out 0x3d5 (ucast bx) v)"

definition set_cursor :: "u32 \<Rightarrow> vga \<Rightarrow> vga" where
  "set_cursor ebx v = set_cursor_bx (ucast ebx) v"

text \<open>
  A byte written through \<^verbatim>\<open>gs\<close> with a 16-bit offset. The segment ends at 0x7fff; an offset behind it is a
  general protection exception, whose handler returns to the same instruction.
\<close>

definition gs_write :: "u16 \<Rightarrow> u8 \<Rightarrow> vga \<Rightarrow> vga res" where
  "gs_write bx c v = (if 0x7fff < bx then Inl OUT_OF_BOUNDS else Inr (v\<lparr>video := (video v)(ucast bx := c)\<rparr>))"

text \<open>Character and attribute of the cell \<open>bx\<close>; the result is the register after the final shift.\<close>

definition write_cell :: "u16 \<Rightarrow> u8 \<Rightarrow> vga \<Rightarrow> (u16 \<times> vga) res" where
  "write_cell bx c v =
     (let bx = push_bit 1 bx in
      kbind (gs_write bx c v) (\<lambda>v. let bx = bx + 1 in
      kbind (gs_write bx 0x07 v) (\<lambda>v. Inr (drop_bit 1 bx, v))))"

text \<open>\<^verbatim>\<open>rep movsd\<close> with the direction flag clear.\<close>

primrec rep_movsd :: "nat \<Rightarrow> u32 \<Rightarrow> u32 \<Rightarrow> (u32 \<Rightarrow> u8) \<Rightarrow> (u32 \<Rightarrow> u8)" where
  "rep_movsd 0 esi edi m = m"
| "rep_movsd (Suc ecx) esi edi m =
     rep_movsd ecx (esi + 4) (edi + 4)
       (m(edi := m esi, edi + 1 := m (esi + 1), edi + 2 := m (esi + 2), edi + 3 := m (esi + 3)))"

primrec cls_loop :: "nat \<Rightarrow> u32 \<Rightarrow> (u32 \<Rightarrow> u8) \<Rightarrow> (u32 \<Rightarrow> u8)" where
  "cls_loop 0 ebx m = m"
| "cls_loop (Suc ecx) ebx m = cls_loop ecx (ebx + 2) (m(ebx := 0x20, ebx + 1 := 0x07))"

definition roll_screen :: "vga \<Rightarrow> vga" where
  "roll_screen v = set_cursor_bx 1920 (v\<lparr>video := cls_loop 80 3840 (rep_movsd 960 0xa0 0 (video v))\<rparr>)"

definition line_feed :: "u16 \<Rightarrow> vga \<Rightarrow> vga" where
  "line_feed bx v =
     (let dx = bx mod 80; bx = bx - dx + 80 in
      if bx <s 2000 then set_cursor_bx bx v else roll_screen v)"

definition put_char_vga :: "u8 \<Rightarrow> vga \<Rightarrow> vga res" where
  "put_char_vga cl v =
     (let (bx, v) = get_cursor v in
      if cl = 0xd \<or> cl = 0xa then Inr (line_feed bx v)
      else if cl = 0x8 then kbind (write_cell (bx - 1) 0x20 v) (\<lambda>(bx, v). Inr (set_cursor_bx bx v))
      else kbind (write_cell bx cl v) (\<lambda>(bx, v).
        let bx = bx + 1 in Inr (if bx <s 2000 then set_cursor_bx bx v else line_feed bx v)))"

text \<open>\<^verbatim>\<open>put_str\<close> walks over memory; a string without an end never returns.\<close>

partial_function (option) put_str_loop :: "mem \<Rightarrow> u32 \<Rightarrow> vga \<Rightarrow> vga res option" where
  "put_str_loop m ebx v =
     (if m ebx = 0 then Some (Inr v)
      else (case put_char_vga (m ebx) v of Inl e \<Rightarrow> Some (Inl e) | Inr v \<Rightarrow> put_str_loop m (ebx + 1) v))"

definition put_str_vga :: "mem \<Rightarrow> u32 \<Rightarrow> vga \<Rightarrow> vga res" where
  "put_str_vga m str v = kbind (of_loop (put_str_loop m str v)) (\<lambda>r. r)"

text \<open>
  \<^verbatim>\<open>put_int\<close>: eight digits into the buffer from its end, the search for the first that is not zero,
  and the output of the rest. \<open>edi\<close> is the index in \<^verbatim>\<open>put_int_buffer\<close>.
\<close>

primrec digit_loop :: "nat \<Rightarrow> u32 \<Rightarrow> u8 list \<Rightarrow> u8 list" where
  "digit_loop 0 eax put_int_buffer = put_int_buffer"
| "digit_loop (Suc edi) eax put_int_buffer =
     (let edx = eax AND 0x0000000F; dl = ucast (if edx \<le> 9 then edx + 0x30 else edx - 10 + 0x41)
      in digit_loop edi (drop_bit 4 eax) (put_int_buffer[edi := dl]))"

function skip_prefix_0 :: "u8 list \<Rightarrow> nat \<Rightarrow> nat" where
  "skip_prefix_0 put_int_buffer edi =
     (if edi < 8 \<and> put_int_buffer ! edi = 0x30 then skip_prefix_0 put_int_buffer (edi + 1) else edi)"
  by pat_completeness auto
termination by (relation "measure (\<lambda>(_, edi). 8 - edi)") auto

declare skip_prefix_0.simps [simp del]

function put_each_num :: "u8 list \<Rightarrow> nat \<Rightarrow> vga \<Rightarrow> vga res" where
  "put_each_num put_int_buffer edi v =
     kbind (put_char_vga (put_int_buffer ! edi) v) (\<lambda>v. if edi + 1 < 8 then put_each_num put_int_buffer (edi + 1) v else Inr v)"
  by pat_completeness auto
termination by (relation "measure (\<lambda>(_, edi, _). 8 - edi)") auto

declare put_each_num.simps [simp del]

definition put_int_vga :: "u8 list \<Rightarrow> u32 \<Rightarrow> vga \<Rightarrow> vga res" where
  "put_int_vga put_int_buffer num v =
     (let put_int_buffer = digit_loop 8 num put_int_buffer; edi = skip_prefix_0 put_int_buffer 0 in
      if edi = 8 then put_char_vga 0x30 v else put_each_num put_int_buffer edi v)"

text \<open>
  The screen on which \<^verbatim>\<open>general_intr_handler\<close> of \<^verbatim>\<open>kernel/interrupt.c\<close> spins, for the name of the exception
  and the faulting address.
\<close>

definition show_lit :: "string \<Rightarrow> vga \<Rightarrow> vga res" where
  "show_lit str v = each_res put_char_vga (map of_char str) v"

definition exception_vga :: "u8 list \<Rightarrow> u8 \<Rightarrow> string \<Rightarrow> u32 \<Rightarrow> vga \<Rightarrow> vga res" where
  "exception_vga put_int_buffer vec_nr iname cr2 v =
     kbind (each_res (\<lambda>_. show_lit '' '') [0..<320] (set_cursor 0 v)) (\<lambda>v.
     kbind (show_lit ''!!!!!!    exception message begin    !!!!!\<newline>'' (set_cursor 0 v)) (\<lambda>v.
     kbind (show_lit iname (set_cursor 88 v)) (\<lambda>v.
     kbind (if vec_nr = 14 then kbind (show_lit ''\<newline>page fault addr is '' v) (put_int_vga put_int_buffer cr2) else Inr v)
       (show_lit ''\<newline>!!!!!   exception message end !!!!!!\<newline>''))))"

section \<open>The text screen\<close>

text \<open>The abstract screen: 2000 cells of character and attribute, row by row, and the position of the cursor.\<close>

record text_screen =
  cells :: "(u8 \<times> u8) list"
  cursor :: nat

definition blank :: "u8 \<times> u8" where "blank = (0x20, 0x07)"

definition new_line :: "text_screen \<Rightarrow> text_screen" where
  "new_line t =
     (let row = cursor t div 80 + 1 in
      if row < 25 then t\<lparr>cursor := row * 80\<rparr>
      else \<lparr>cells = drop 80 (cells t) @ replicate 80 blank, cursor = 24 * 80\<rparr>)"

definition show_char :: "u8 \<Rightarrow> text_screen \<Rightarrow> text_screen" where
  "show_char c t =
     (if c = 0xd \<or> c = 0xa then new_line t
      else if c = 0x8 then t\<lparr>cells := (cells t)[cursor t - 1 := blank], cursor := cursor t - 1\<rparr>
      else let t = t\<lparr>cells := (cells t)[cursor t := (c, 0x07)], cursor := cursor t + 1\<rparr>
           in if cursor t < 2000 then t else new_line t)"

definition cursor_of :: "vga \<Rightarrow> u16" where
  "cursor_of v = push_bit 8 (ucast (crtc_regs v 0x0e)) OR ucast (crtc_regs v 0x0f)"

definition text_of :: "vga \<Rightarrow> text_screen" where
  "text_of v = \<lparr>cells = map (\<lambda>i. (video v (word_of_nat (2 * i)), video v (word_of_nat (2 * i + 1)))) [0..<2000],
     cursor = unat (cursor_of v)\<rparr>"

definition screen_ok :: "vga \<Rightarrow> bool" where
  "screen_ok v \<longleftrightarrow> unat (cursor_of v) < 2000"

section \<open>The cursor\<close>

lemma get_cursor_eq: "get_cursor v = (cursor_of v, v\<lparr>crtc_index := 0x0f\<rparr>)"
  by (simp add: get_cursor_def vga_out_def vga_in_def cursor_of_def Let_def)

lemma set_cursor_bx_fields:
  "cursor_of (set_cursor_bx bx v) = bx" "video (set_cursor_bx bx v) = video v"
proof -
  have "push_bit 8 (ucast (ucast (drop_bit 8 bx) :: u8)) OR ucast (ucast bx :: u8) = bx"
    by (rule bit_word_eqI) (auto simp: bit_simps)
  then show "cursor_of (set_cursor_bx bx v) = bx" by (simp add: set_cursor_bx_def vga_out_def cursor_of_def Let_def)
  show "video (set_cursor_bx bx v) = video v" by (simp add: set_cursor_bx_def vga_out_def Let_def)
qed

lemma unat_u16_lt [simp]: "unat (x :: u16) < 65536"
  using unsigned_less [of x] by simp

lemma sless_2000: "unat bx < 32768 \<Longrightarrow> bx <s 2000 \<longleftrightarrow> unat bx < 2000" for bx :: u16
proof -
  assume b: "unat bx < 32768"
  have u: "uint bx = int (unat bx)" by simp
  have "int (unat bx) < int 32768" using b by (simp only: of_nat_less_iff)
  then have "uint bx < 2 ^ 15" by simp
  moreover have "- (2 ^ 15) \<le> uint bx" by (rule order_trans [of _ 0]) simp_all
  ultimately have "signed_take_bit 15 (uint bx) = uint bx" by (intro signed_take_bit_int_eq_self)
  then have "sint bx = int (unat bx)" by (simp add: sint_uint)
  moreover have "sint (2000 :: u16) = 2000" by simp
  ultimately show ?thesis unfolding word_sless_alt by linarith
qed

section \<open>Cells\<close>

lemma text_of_simps [simp]:
  "cursor (text_of v) = unat (cursor_of v)" "length (cells (text_of v)) = 2000"
  "i < 2000 \<Longrightarrow> cells (text_of v) ! i = (video v (word_of_nat (2 * i)), video v (word_of_nat (2 * i + 1)))"
  by (simp_all add: text_of_def)

lemma cell_addr_inj:
  "i < 2000 \<Longrightarrow> j < 2000 \<Longrightarrow> (word_of_nat (2 * i) :: u32) = word_of_nat (2 * j) \<longleftrightarrow> i = j"
  "i < 2000 \<Longrightarrow> j < 2000 \<Longrightarrow> (word_of_nat (2 * i + 1) :: u32) = word_of_nat (2 * j + 1) \<longleftrightarrow> i = j"
  "i < 2000 \<Longrightarrow> j < 2000 \<Longrightarrow> (word_of_nat (2 * i) :: u32) \<noteq> word_of_nat (2 * j + 1)"
  "i < 2000 \<Longrightarrow> j < 2000 \<Longrightarrow> (word_of_nat (2 * i + 1) :: u32) \<noteq> word_of_nat (2 * j)"
proof -
  assume "i < 2000" "j < 2000"
  then have u: "(word_of_nat a :: u32) = word_of_nat b \<longleftrightarrow> a = b" if "a \<in> {2 * i, 2 * i + 1}" "b \<in> {2 * j, 2 * j + 1}" for a b
    using that by (intro word_of_nat_u32_eq_iff) auto
  show "(word_of_nat (2 * i) :: u32) = word_of_nat (2 * j) \<longleftrightarrow> i = j"
    "(word_of_nat (2 * i + 1) :: u32) = word_of_nat (2 * j + 1) \<longleftrightarrow> i = j"
    using u [of "2 * i" "2 * j"] u [of "2 * i + 1" "2 * j + 1"] by auto
  have "2 * i \<noteq> 2 * j + 1" "2 * i + 1 \<noteq> 2 * j" by presburger+
  then show "(word_of_nat (2 * i) :: u32) \<noteq> word_of_nat (2 * j + 1)" "(word_of_nat (2 * i + 1) :: u32) \<noteq> word_of_nat (2 * j)"
    using u [of "2 * i" "2 * j + 1"] u [of "2 * i + 1" "2 * j"] by auto
qed

lemma write_cell_eq:
  assumes "unat bx < 2000"
  shows "write_cell bx c v =
    Inr (bx, v\<lparr>video := (video v)(word_of_nat (2 * unat bx) := c, word_of_nat (2 * unat bx + 1) := 0x07)\<rparr>)"
proof -
  have p: "unat (push_bit 1 bx) = 2 * unat bx" "unat (push_bit 1 bx + 1) = 2 * unat bx + 1"
    using assms by (simp_all add: push_bit_eq_mult unat_word_ariths)
  have "unat (drop_bit 1 (push_bit 1 bx + 1)) = unat bx" unfolding unat_drop_bit_eq p by (simp add: drop_bit_eq_div)
  then have d: "drop_bit 1 (push_bit 1 bx + 1) = bx" by (simp only: word_unat_eq_iff)
  have a: "(ucast x :: u32) = word_of_nat (unat x)" for x :: u16 by simp
  have "\<not> 0x7fff < push_bit 1 bx" "\<not> 0x7fff < push_bit 1 bx + 1" using assms p by (simp_all add: word_less_nat_alt)
  then show ?thesis unfolding write_cell_def Let_def gs_write_def d a p by simp
qed

lemma cells_write:
  assumes "k < 2000"
  shows "cells (text_of (v\<lparr>video := (video v)(word_of_nat (2 * k) := c, word_of_nat (2 * k + 1) := a)\<rparr>)) = (cells (text_of v))[k := (c, a)]"
  by (rule nth_equalityI) (use assms cell_addr_inj [of _ k] in \<open>auto simp del: of_nat_mult of_nat_add simp: nth_list_update\<close>)

section \<open>Scrolling\<close>

text \<open>The rows overlap with their new places; copying upwards from the front is still a move.\<close>

lemma rep_movsd_eq:
  assumes "4 * n + 160 < 4294967296"
  shows "rep_movsd n (e + 160) e m a = (if a \<in> rng e (4 * n) then m (a + 160) else m a)"
  using assms
proof (induction n arbitrary: e m)
  case (Suc n)
  let ?m = "m(e := m (e + 160), e + 1 := m (e + 160 + 1), e + 2 := m (e + 160 + 2), e + 3 := m (e + 160 + 3))"
  have m1: "?m x = (if x \<in> rng e 4 then m (x + 160) else m x)" for x
  proof -
    consider "x = e" | "x = e + 1" | "x = e + 2" | "x = e + 3" | "x \<notin> rng e 4" by (auto simp: rng_4)
    moreover have "(1 :: u32) \<noteq> 0" "(2 :: u32) \<noteq> 0" "(3 :: u32) \<noteq> 0" by simp_all
    ultimately show ?thesis by cases (auto simp: rng_4 add.assoc add.commute)
  qed
  have s: "rng e (4 * Suc n) = rng e 4 \<union> rng (e + 4) (4 * n)" using rng_add [of 4 "4 * n" e] Suc.prems by simp
  have far: "x + 160 \<notin> rng e 4" "x \<notin> rng e 4" if x: "x \<in> rng (e + 4) (4 * n)" for x
  proof -
    obtain i where i: "i < 4 * n" "x = off (e + 4) i" using x by (auto simp: rng_mem_off)
    then have x: "x = off e (i + 4)" "x + 160 = off e (i + 164)" by simp_all
    have "i + 164 < 4294967296" using i(1) Suc.prems by simp
    then show "x + 160 \<notin> rng e 4" unfolding x(2) by (intro off_notin_rng) simp_all
    have "i + 4 < 4294967296" using i(1) Suc.prems by simp
    then show "x \<notin> rng e 4" unfolding x(1) by (intro off_notin_rng) simp_all
  qed
  have "rep_movsd (Suc n) (e + 160) e m a = rep_movsd n (e + 4 + 160) (e + 4) ?m a" by (simp add: algebra_simps)
  also have "\<dots> = (if a \<in> rng (e + 4) (4 * n) then ?m (a + 160) else ?m a)" using Suc.prems by (intro Suc.IH) simp
  also have "\<dots> = (if a \<in> rng e (4 * Suc n) then m (a + 160) else m a)" unfolding m1 s using far by auto
  finally show ?case .
qed simp

lemma cls_loop_eq:
  assumes "2 * n < 4294967296"
  shows "cls_loop n e m a = (if a \<in> rng e (2 * n) then (if even (unat (a - e)) then 0x20 else 0x07) else m a)"
  using assms
proof (induction n arbitrary: e m)
  case (Suc n)
  let ?m = "m(e := 0x20, e + 1 := 0x07)"
  have s: "rng e (2 * Suc n) = rng e 2 \<union> rng (e + 2) (2 * n)" using rng_add [of 2 "2 * n" e] Suc.prems by simp
  have m1: "?m x = (if x \<in> rng e 2 then (if even (unat (x - e)) then 0x20 else 0x07) else m x)" for x
    by (auto simp: numeral_2_eq_2 rng_Suc)
  have ev: "even (unat (x - (e + 2))) \<longleftrightarrow> even (unat (x - e))" for x
  proof -
    have "even (x - (e + 2)) \<longleftrightarrow> even (x - e)" by (simp add: diff_diff_eq [symmetric])
    moreover have "odd (unat w) \<longleftrightarrow> odd w" for w :: u32 unfolding bit_0 [symmetric] by (simp add: bit_unsigned_iff del: bit_0)
    ultimately show ?thesis by blast
  qed
  have far: "x \<notin> rng e 2" if x: "x \<in> rng (e + 2) (2 * n)" for x
  proof -
    obtain i where "i < 2 * n" "x = off (e + 2) i" using x by (auto simp: rng_mem_off)
    then have i: "x = off e (i + 2)" "i + 2 < 4294967296" using Suc.prems by simp_all
    show ?thesis unfolding i(1) using i(2) by (intro off_notin_rng) simp_all
  qed
  have "cls_loop (Suc n) e m a = (if a \<in> rng (e + 2) (2 * n) then (if even (unat (a - (e + 2))) then 0x20 else 0x07) else ?m a)"
    unfolding cls_loop.simps using Suc.prems by (intro Suc.IH) simp
  also have "\<dots> = (if a \<in> rng e (2 * Suc n) then (if even (unat (a - e)) then 0x20 else 0x07) else m a)"
    unfolding m1 s ev using far by auto
  finally show ?case .
qed simp

text \<open>Scrolling drops the top row and appends a blank one.\<close>

lemma roll_screen_text:
  "text_of (roll_screen v) = \<lparr>cells = drop 80 (cells (text_of v)) @ replicate 80 blank, cursor = 1920\<rparr>"
  "a \<notin> rng 0 4000 \<Longrightarrow> video (roll_screen v) a = video v a"
proof -
  let ?m = "rep_movsd 960 0xa0 0 (video v)"
  have m: "?m a = (if a \<in> rng 0 3840 then video v (a + 160) else video v a)" for a
    using rep_movsd_eq [of 960 0 "video v" a] by simp
  have c: "video (roll_screen v) a = (if a \<in> rng 3840 160 then (if even (unat (a - 3840)) then 0x20 else 0x07) else ?m a)" for a
    using cls_loop_eq [of 80 3840 ?m a] by (simp add: roll_screen_def set_cursor_bx_fields)
  have r: "word_of_nat k \<in> rng 3840 160 \<longleftrightarrow> 3840 \<le> k \<and> k < 4000" "word_of_nat k \<in> rng 0 3840 \<longleftrightarrow> k < 3840" if "k < 4000" for k
    using that by (simp_all add: rng_interval unat_word_of_nat_u32)
  have "cells (text_of (roll_screen v)) = drop 80 (cells (text_of v)) @ replicate 80 blank"
  proof (rule nth_equalityI)
    fix i assume "i < length (cells (text_of (roll_screen v)))"
    then have i: "i < 2000" by simp
    show "cells (text_of (roll_screen v)) ! i = (drop 80 (cells (text_of v)) @ replicate 80 blank) ! i"
    proof (cases "i < 1920")
      case True
      have b: "video (roll_screen v) (word_of_nat k) = video v (word_of_nat (160 + k))" if "k < 3840" for k
        using r [of k] that by (simp add: c m add.commute [of "word_of_nat k"])
      show ?thesis using True b [of "2 * i"] b [of "2 * i + 1"] by (simp add: nth_append del: of_nat_add of_nat_mult of_nat_Suc)
    next
      case False
      then obtain j where j: "i = 1920 + j" "j < 80" using le_Suc_ex [of 1920 i] i by auto
      have e: "word_of_nat (2 * i) - 3840 = (word_of_nat (2 * j) :: u32)" "word_of_nat (2 * i + 1) - 3840 = (word_of_nat (2 * j + 1) :: u32)"
        unfolding j(1) by simp_all
      have "video (roll_screen v) (word_of_nat (2 * i)) = 0x20" "video (roll_screen v) (word_of_nat (2 * i + 1)) = 0x07"
        unfolding c e using r [of "2 * i"] r [of "2 * i + 1"] j by (simp_all add: unat_word_of_nat_u32 del: of_nat_mult of_nat_add of_nat_Suc)
      then show ?thesis using False i by (simp add: nth_append blank_def del: of_nat_mult of_nat_add of_nat_Suc)
    qed
  qed simp
  then show "text_of (roll_screen v) = \<lparr>cells = drop 80 (cells (text_of v)) @ replicate 80 blank, cursor = 1920\<rparr>"
    by (simp add: roll_screen_def set_cursor_bx_fields)
  assume "a \<notin> rng 0 4000"
  then have "a \<notin> rng 3840 160" "a \<notin> rng 0 3840" by (simp_all add: rng_interval)
  then show "video (roll_screen v) a = video v a" by (simp add: c m)
qed

section \<open>Characters\<close>

lemma text_of_index [simp]: "text_of (v\<lparr>crtc_index := x\<rparr>) = text_of v" "cursor_of (v\<lparr>crtc_index := x\<rparr>) = cursor_of v"
  "cursor_of (v\<lparr>video := m\<rparr>) = cursor_of v"
  by (simp_all add: text_of_def cursor_of_def)

lemma text_of_set_cursor: "text_of (set_cursor_bx bx v) = text_of v\<lparr>cursor := unat bx\<rparr>"
  by (simp add: text_of_def set_cursor_bx_fields)

lemma text_of_cursor: "(text_of v)\<lparr>cursor := unat (cursor_of v)\<rparr> = text_of v"
  by (simp add: text_of_def)

lemma line_feed_text:
  assumes "unat bx \<le> 2000"
  shows "text_of (line_feed bx v) = new_line ((text_of v)\<lparr>cursor := unat bx\<rparr>)"
    "a \<notin> rng 0 4000 \<Longrightarrow> video (line_feed bx v) a = video v a"
proof -
  have d: "unat bx - unat bx mod 80 = unat bx div 80 * 80" by (simp add: minus_mod_eq_div_mult)
  have "bx mod 80 \<le> bx" by (simp add: word_le_nat_alt unat_mod_distrib)
  then have "unat (bx - bx mod 80) = unat bx div 80 * 80" by (simp add: unat_sub unat_mod_distrib d)
  moreover have q: "unat bx div 80 \<le> 25" using assms by linarith
  ultimately have u: "unat (bx - bx mod 80 + 80) = (unat bx div 80 + 1) * 80" by (simp add: unat_word_ariths)
  have s: "bx - bx mod 80 + 80 <s 2000 \<longleftrightarrow> unat bx div 80 + 1 < 25" using q by (subst sless_2000) (simp_all add: u)
  show "text_of (line_feed bx v) = new_line ((text_of v)\<lparr>cursor := unat bx\<rparr>)"
    by (simp add: line_feed_def new_line_def Let_def s u text_of_set_cursor roll_screen_text)
  show "a \<notin> rng 0 4000 \<Longrightarrow> video (line_feed bx v) a = video v a"
    by (simp add: line_feed_def Let_def roll_screen_text set_cursor_bx_fields)
qed

lemma show_char_cursor:
  assumes "cursor t < 2000"
  shows "cursor (show_char c t) < 2000"
proof -
  have "cursor (new_line t) < 2000" for t by (simp add: new_line_def Let_def)
  then show ?thesis using assms by (auto simp: show_char_def Let_def)
qed

text \<open>The display with the cell \<open>k\<close> changed, after the cursor has been read.\<close>

definition put_cell :: "nat \<Rightarrow> u8 \<Rightarrow> vga \<Rightarrow> vga" where
  "put_cell k c v = v\<lparr>crtc_index := 0x0f, video := (video v)(word_of_nat (2 * k) := c, word_of_nat (2 * k + 1) := 0x07)\<rparr>"

lemma put_cell_text:
  assumes "k < 2000"
  shows "text_of (put_cell k c v) = (text_of v)\<lparr>cells := (cells (text_of v))[k := (c, 0x07)]\<rparr>"
    "a \<notin> rng 0 4000 \<Longrightarrow> video (put_cell k c v) a = video v a"
proof -
  show "text_of (put_cell k c v) = (text_of v)\<lparr>cells := (cells (text_of v))[k := (c, 0x07)]\<rparr>"
    using cells_write [OF assms, of "v\<lparr>crtc_index := 0x0f\<rparr>" c "0x07"] by (simp add: put_cell_def text_of_def)
  have "word_of_nat (2 * k) \<in> rng 0 4000" "word_of_nat (2 * k + 1) \<in> rng 0 4000"
    using assms off_in_rng [of "2 * k" 4000 0] off_in_rng [of "2 * k + 1" 4000 0] by simp_all
  then show "a \<notin> rng 0 4000 \<Longrightarrow> video (put_cell k c v) a = video v a" by (auto simp: put_cell_def)
qed

lemma put_char_vga_eq:
  assumes "screen_ok v"
  shows "c = 0xd \<or> c = 0xa \<Longrightarrow> put_char_vga c v = Inr (line_feed (cursor_of v) (v\<lparr>crtc_index := 0x0f\<rparr>))"
    "cursor_of v \<noteq> 0 \<Longrightarrow> put_char_vga 0x8 v = Inr (set_cursor_bx (cursor_of v - 1) (put_cell (unat (cursor_of v) - 1) 0x20 v))"
    "c \<notin> {0xd, 0xa, 0x8} \<Longrightarrow> put_char_vga c v = Inr (let v' = put_cell (unat (cursor_of v)) c v in
       if unat (cursor_of v) + 1 < 2000 then set_cursor_bx (cursor_of v + 1) v' else line_feed (cursor_of v + 1) v')"
proof -
  let ?b = "cursor_of v" and ?v = "v\<lparr>crtc_index := 0x0f\<rparr>"
  have b: "unat ?b < 2000" using assms by (simp add: screen_ok_def)
  show "c = 0xd \<or> c = 0xa \<Longrightarrow> put_char_vga c v = Inr (line_feed ?b ?v)" by (simp add: put_char_vga_def get_cursor_eq)
  show "put_char_vga 0x8 v = Inr (set_cursor_bx (?b - 1) (put_cell (unat ?b - 1) 0x20 v))" if "?b \<noteq> 0"
  proof -
    have u: "unat (?b - 1) = unat ?b - 1" using that by (simp add: unat_minus_one)
    then have "unat (?b - 1) < 2000" using b by simp
    from write_cell_eq [OF this, of "0x20" ?v] show ?thesis unfolding put_char_vga_def get_cursor_eq put_cell_def u by simp
  qed
  have "unat (?b + 1) = unat ?b + 1" using b by (simp add: unat_word_ariths)
  then have "?b + 1 <s 2000 \<longleftrightarrow> unat ?b + 1 < 2000" using b by (subst sless_2000) simp_all
  with write_cell_eq [OF b, of c ?v] show "c \<notin> {0xd, 0xa, 0x8} \<Longrightarrow> put_char_vga c v = Inr (let v' = put_cell (unat ?b) c v in
       if unat ?b + 1 < 2000 then set_cursor_bx (?b + 1) v' else line_feed (?b + 1) v')"
    by (simp add: put_char_vga_def get_cursor_eq put_cell_def Let_def)
qed

text \<open>What \<^verbatim>\<open>put_char\<close> does to the screen, and that it stays inside the 4000 bytes of the text.\<close>

lemma put_char_vga_text:
  assumes "screen_ok v" "c = 0x8 \<Longrightarrow> cursor_of v \<noteq> 0"
  shows "\<exists>v'. put_char_vga c v = Inr v' \<and> text_of v' = show_char c (text_of v) \<and> screen_ok v' \<and>
    (\<forall>a. a \<notin> rng 0 4000 \<longrightarrow> video v' a = video v a)"
proof -
  let ?b = "cursor_of v"
  have b: "unat ?b < 2000" using assms(1) by (simp add: screen_ok_def)
  have "\<exists>v'. put_char_vga c v = Inr v' \<and> text_of v' = show_char c (text_of v) \<and>
    (\<forall>a. a \<notin> rng 0 4000 \<longrightarrow> video v' a = video v a)"
  proof (cases "c \<in> {0xd, 0xa, 0x8}")
    case True
    then consider "c = 0xd \<or> c = 0xa" | "c = 0x8" by blast
    then show ?thesis
    proof cases
      case 1
      from put_char_vga_eq(1) [OF assms(1) this] show ?thesis
        using 1 b line_feed_text [where bx = ?b and v = "v\<lparr>crtc_index := 0x0f\<rparr>"] by (simp add: show_char_def text_of_cursor)
    next
      case 2
      have u: "unat (?b - 1) = unat ?b - 1" "unat ?b - 1 < 2000" using assms(2) [OF 2] b by (simp_all add: unat_minus_one)
      show ?thesis using 2 put_char_vga_eq(2) [OF assms(1) assms(2) [OF 2]] put_cell_text [OF u(2), where c = "0x20" and v = v]
        by (simp add: show_char_def text_of_set_cursor set_cursor_bx_fields u(1) blank_def)
    qed
  next
    case False
    have u: "unat (?b + 1) = unat ?b + 1" using b by (simp add: unat_word_ariths)
    show ?thesis using put_char_vga_eq(3) [OF assms(1) False] put_cell_text [OF b, where c = c and v = v] False b
        line_feed_text [where bx = "?b + 1" and v = "put_cell (unat ?b) c v"]
      by (simp add: show_char_def Let_def text_of_set_cursor set_cursor_bx_fields u)
  qed
  then show ?thesis using show_char_cursor b by (auto simp: screen_ok_def simp flip: text_of_simps(1))
qed

text \<open>A backspace in the upper left corner writes behind the end of the segment.\<close>

lemma put_char_vga_corner: "cursor_of v = 0 \<Longrightarrow> put_char_vga 0x8 v = Inl OUT_OF_BOUNDS"
  by (simp add: put_char_vga_def get_cursor_eq write_cell_def gs_write_def push_bit_eq_mult Let_def)

section \<open>Strings and numbers\<close>

lemma each_res_single: "each_res f [x] = f x"
  by (rule ext) (simp add: kbind_def split: sum.split)

lemma put_str_vga_eq:
  assumes "cstr m p xs"
  shows "put_str_vga m p v = each_res put_char_vga xs v"
proof -
  have "put_str_loop m p v = Some (each_res put_char_vga xs v)" using assms
  proof (induction xs arbitrary: p v)
    case Nil
    then show ?case by (subst put_str_loop.simps) simp
  next
    case (Cons x xs)
    then show ?case by (subst put_str_loop.simps) (auto split: sum.split)
  qed
  then show ?thesis by (simp add: put_str_vga_def)
qed

lemma digit_loop_eq:
  "k \<le> length put_int_buffer \<Longrightarrow>
   digit_loop k n put_int_buffer = map (\<lambda>i. digit_char (drop_bit (4 * (k - Suc i)) n AND 0xf)) [0..<k] @ drop k put_int_buffer"
proof (induction k arbitrary: n put_int_buffer)
  case (Suc k)
  have le: "x \<le> 9 \<longleftrightarrow> x < 10" for x :: u32 by (simp add: word_le_nat_alt word_less_nat_alt less_Suc_eq_le [symmetric])
  have d: "digit_char (n AND 0xf) = ucast (if n AND 0xf \<le> 9 then (n AND 0xf) + 0x30 else (n AND 0xf) - 10 + 0x41)"
    unfolding digit_char_def le ..
  have s: "drop_bit (4 * (k - Suc i)) (drop_bit 4 n) = drop_bit (4 * (k - i)) n" if "i < k" for i
    using that by (simp add: Suc_diff_Suc [symmetric] add.commute)
  have u: "drop k (put_int_buffer[k := x]) = x # drop (Suc k) put_int_buffer" for x
    using Suc.prems by (simp add: drop_update_cancel Cons_nth_drop_Suc [symmetric])
  show ?case using Suc.prems s Suc.IH [of "put_int_buffer[k := digit_char (n AND 0xf)]" "drop_bit 4 n"]
    by (simp add: Let_def u flip: d)
qed simp

lemma skip_prefix_0_eq:
  assumes "length put_int_buffer = 8" "edi \<le> 8"
  shows "drop (skip_prefix_0 put_int_buffer edi) put_int_buffer = dropWhile (\<lambda>c. c = 0x30) (drop edi put_int_buffer) \<and>
    skip_prefix_0 put_int_buffer edi \<le> 8"
  using assms
proof (induction put_int_buffer edi rule: skip_prefix_0.induct)
  case (1 b edi)
  show ?case
  proof (cases "edi < 8")
    case True
    then have "drop edi b = b ! edi # drop (Suc edi) b" using "1.prems"(1) by (simp add: Cons_nth_drop_Suc)
    then show ?thesis using 1 True by (subst (1 2) skip_prefix_0.simps) auto
  qed (use "1.prems" in \<open>subst (1 2) skip_prefix_0.simps, simp\<close>)
qed

lemma put_each_num_eq:
  "length put_int_buffer = 8 \<Longrightarrow> edi < 8 \<Longrightarrow> put_each_num put_int_buffer edi v = each_res put_char_vga (drop edi put_int_buffer) v"
proof (induction put_int_buffer edi v rule: put_each_num.induct)
  case (1 b edi v)
  then have "drop edi b = b ! edi # drop (edi + 1) b" by (simp add: Cons_nth_drop_Suc)
  then show ?case using 1 by (subst put_each_num.simps) (cases "put_char_vga (b ! edi) v"; auto)
qed

lemma put_int_vga_eq:
  assumes "length put_int_buffer = 8"
  shows "put_int_vga put_int_buffer num v = each_res put_char_vga (hex_digits num) v"
proof -
  let ?b = "map (\<lambda>i. digit_char (drop_bit (4 * i) num AND 0xf)) [7, 6, 5, 4, 3, 2, 1, 0]"
  let ?i = "skip_prefix_0 ?b 0"
  have "[0..<8] = [0, 1, 2, 3, 4, 5, 6, 7 :: nat]" by (simp add: upt_rec)
  then have d: "digit_loop 8 num put_int_buffer = ?b" using assms digit_loop_eq [of 8 put_int_buffer num] by simp
  have i: "drop ?i ?b = dropWhile (\<lambda>c. c = 0x30) ?b" "?i \<le> 8" using skip_prefix_0_eq [of ?b 0] by simp_all
  show ?thesis
  proof (cases "?i = 8")
    case True
    then have "drop ?i ?b = []" by simp
    then have "hex_digits num = [0x30]" unfolding hex_digits_def i(1) by (simp only: Let_def simp_thms if_True)
    then show ?thesis using True by (simp add: put_int_vga_def d each_res_single del: each_res.simps)
  next
    case False
    then have "drop ?i ?b \<noteq> []" using i(2) by simp
    then have "hex_digits num = drop ?i ?b" unfolding hex_digits_def i(1) by (simp only: Let_def if_False)
    then show ?thesis using False i(2) put_each_num_eq [of ?b ?i v] by (simp add: put_int_vga_def d Let_def)
  qed
qed

text \<open>Text without backspace always appears.\<close>

lemma put_text:
  "screen_ok v \<Longrightarrow> 0x8 \<notin> set xs \<Longrightarrow>
   \<exists>v'. each_res put_char_vga xs v = Inr v' \<and> text_of v' = fold show_char xs (text_of v) \<and> screen_ok v'"
proof (induction xs arbitrary: v)
  case (Cons x xs)
  obtain v1 where v1: "put_char_vga x v = Inr v1" "text_of v1 = show_char x (text_of v)" "screen_ok v1"
    using put_char_vga_text [of v x] Cons.prems by auto
  then show ?case using Cons.IH [OF v1(3)] Cons.prems(2) by simp
qed simp

text \<open>Text that fits before the end of the screen overwrites the cells from the cursor on.\<close>

lemma show_plain:
  assumes "length (cells t) = 2000" "cursor t + length xs < 2000" "set xs \<inter> {0xd, 0xa, 0x8} = {}"
  shows "fold show_char xs t = \<lparr>cells = take (cursor t) (cells t) @ map (\<lambda>c. (c, 0x07)) xs @ drop (cursor t + length xs) (cells t),
    cursor = cursor t + length xs\<rparr>"
  using assms
proof (induction xs arbitrary: t)
  case (Cons x xs)
  let ?t = "\<lparr>cells = (cells t)[cursor t := (x, 0x07)], cursor = Suc (cursor t)\<rparr>"
  have "show_char x t = ?t" using Cons.prems by (simp add: show_char_def)
  moreover have "fold show_char xs ?t = \<lparr>cells = take (cursor ?t) (cells ?t) @ map (\<lambda>c. (c, 0x07)) xs @ drop (cursor ?t + length xs) (cells ?t),
    cursor = cursor ?t + length xs\<rparr>" using Cons.prems by (intro Cons.IH) auto
  moreover have "take (Suc (cursor t)) ((cells t)[cursor t := (x, 0x07)]) = take (cursor t) (cells t) @ [(x, 0x07)]"
    using Cons.prems by (simp add: take_Suc_conv_app_nth)
  ultimately show ?case by simp
qed simp

section \<open>The screen of an exception\<close>

lemma text_set_cursor: "text_of (set_cursor ebx v) = (text_of v)\<lparr>cursor := unat (ucast ebx :: u16)\<rparr>"
  by (simp add: set_cursor_def text_of_set_cursor)

lemma screen_ok_set_cursor: "unat (ucast ebx :: u16) < 2000 \<Longrightarrow> screen_ok (set_cursor ebx v)"
  by (simp add: set_cursor_def screen_ok_def set_cursor_bx_fields)

lemma show_lit_text:
  assumes "screen_ok v" "0x8 \<notin> set (map of_char str :: u8 list)"
  shows "\<exists>v'. show_lit str v = Inr v' \<and> text_of v' = fold show_char (map of_char str) (text_of v) \<and> screen_ok v'"
  using put_text [OF assms] by (simp add: show_lit_def)

lemma blank_rows:
  "each_res (\<lambda>_. show_lit '' '') [0..<n] v = each_res put_char_vga (replicate n 0x20) v"
proof (induction n arbitrary: v)
  case (Suc n)
  have "replicate (Suc n) (0x20 :: u8) = replicate n 0x20 @ [0x20]" by (simp add: replicate_append_same)
  then show ?case using Suc by (simp add: each_res_append show_lit_def each_res_single del: each_res.simps replicate.simps)
qed simp

abbreviation lit_cells :: "string \<Rightarrow> (u8 \<times> u8) list" where
  "lit_cells str \<equiv> map (\<lambda>c. (of_char c, 0x07)) str"

text \<open>A text \<open>str\<close> and the end of the line replace the cells \<open>Y\<close> from the cursor on and lead to the next row.\<close>

lemma show_lit_line:
  assumes "K = lit_cells str" "set (map of_char str) \<inter> {0xd, 0xa, 0x8 :: u8} = {}"
    and "length X = r * 80 + c" "length Y = length str" "length X + length Y + length Z = 2000" "c + length str < 80" "r < 24"
  shows "fold show_char (map of_char (str @ ''\<newline>'')) \<lparr>cells = X @ Y @ Z, cursor = r * 80 + c\<rparr> = \<lparr>cells = X @ K @ Z, cursor = (r + 1) * 80\<rparr>"
proof -
  have "(r * 80 + c + length str) div 80 = r" using assms(6) by (simp add: div_mult_self3 add.assoc)
  moreover have "r * 80 + c + length str < 2000" using assms(6,7) by linarith
  ultimately show ?thesis
    using show_plain [of "\<lparr>cells = X @ Y @ Z, cursor = r * 80 + c\<rparr>" "map of_char str"] assms
    by (simp add: show_char_def new_line_def)
qed

lemma replicate_split: "i + j = n \<Longrightarrow> replicate n x = replicate i x @ replicate j x"
  by (auto simp: replicate_add)

text \<open>
  The exception screen: the message in row 0, the name in row 1 from column 8 on, the end of the
  message in row 2, the rest of four rows blank, the other rows as they were; the cursor in row 3.
\<close>

lemma exception_vga_text:
  assumes "vec_nr \<noteq> 14" "length iname < 72" "set (map of_char iname) \<inter> {0xd, 0xa, 0x8 :: u8} = {}"
    and B: "B = lit_cells ''!!!!!!    exception message begin    !!!!!''" and E: "E = lit_cells ''!!!!!   exception message end !!!!!!''"
    and N: "N = lit_cells iname"
  shows "\<exists>v'. exception_vga put_int_buffer vec_nr iname cr2 v = Inr v' \<and> text_of v' =
    \<lparr>cells = B @ replicate 46 blank @ N @ replicate (72 - length N) blank @ E @ replicate 124 blank @ drop 320 (cells (text_of v)),
     cursor = 240\<rparr>"
proof -
  let ?b = "''!!!!!!    exception message begin    !!!!!''" and ?e = "''!!!!!   exception message end !!!!!!''"
  let ?n = "length iname" and ?C = "drop 320 (cells (text_of v))"
  have n: "0x8 \<notin> set (map of_char iname :: u8 list)" using assms(3) by auto
  have l: "length B = 42" "length E = 36" "length N = ?n" by (simp_all add: B E N)
  obtain v1 where v1: "each_res put_char_vga (replicate 320 0x20) (set_cursor 0 v) = Inr v1"
    "text_of v1 = fold show_char (replicate 320 0x20) (text_of (set_cursor 0 v))"
    using put_text [OF screen_ok_set_cursor [of 0 v], of "replicate 320 0x20"] by auto
  have "fold show_char (replicate 320 0x20) (text_of (set_cursor 0 v)) = \<lparr>cells = replicate 320 blank @ ?C, cursor = 320\<rparr>"
    using show_plain [of "text_of (set_cursor 0 v)" "replicate 320 0x20"] by (simp add: text_set_cursor blank_def)
  then have t1: "text_of (set_cursor 0 v1) = \<lparr>cells = replicate 42 blank @ replicate 278 blank @ ?C, cursor = 0\<rparr>"
    using v1(2) replicate_split [of 42 278 320 blank] by (simp add: text_set_cursor)
  obtain v2 where v2: "show_lit (?b @ ''\<newline>'') (set_cursor 0 v1) = Inr v2"
    "text_of v2 = fold show_char (map of_char (?b @ ''\<newline>'')) (text_of (set_cursor 0 v1))"
    using show_lit_text [OF screen_ok_set_cursor [of 0 v1], of "?b @ ''\<newline>''"] by auto
  have t2: "text_of v2 = \<lparr>cells = B @ replicate 278 blank @ ?C, cursor = 80\<rparr>"
    using show_lit_line [OF B, of "[]" 0 0 "replicate 42 blank" "replicate 278 blank @ ?C"] unfolding v2(2) t1 by simp
  obtain v3 where v3: "show_lit iname (set_cursor 88 v2) = Inr v3" "screen_ok v3"
    "text_of v3 = fold show_char (map of_char iname) (text_of (set_cursor 88 v2))"
    using show_lit_text [OF screen_ok_set_cursor [of 88 v2] n] by auto
  obtain v4 where v4: "show_lit (''\<newline>'' @ ?e @ ''\<newline>'') v3 = Inr v4"
    "text_of v4 = fold show_char (map of_char (?e @ ''\<newline>'')) (show_char 0xa (text_of v3))"
    using show_lit_text [OF v3(2), of "''\<newline>'' @ ?e @ ''\<newline>''"] by auto
  have r: "replicate 278 blank = replicate 46 blank @ replicate ?n blank @ replicate (72 - ?n) blank @ replicate 36 blank @ replicate 124 blank"
    using assms(2) by (simp flip: replicate_add)
  have "show_char 0xa (text_of v3) = \<lparr>cells = B @ replicate 46 blank @ N @ replicate (72 - ?n) blank @ replicate 36 blank @ replicate 124 blank @ ?C, cursor = 160\<rparr>"
    using show_lit_line [OF N assms(3), of "B @ replicate 46 blank" 1 8 "replicate ?n blank" "replicate (72 - ?n) blank @ replicate 36 blank @ replicate 124 blank @ ?C"]
      assms(2) l unfolding v3(3) text_set_cursor t2 r by simp
  then have "text_of v4 = \<lparr>cells = B @ replicate 46 blank @ N @ replicate (72 - ?n) blank @ E @ replicate 124 blank @ ?C, cursor = 240\<rparr>"
    using show_lit_line [OF E, of "B @ replicate 46 blank @ N @ replicate (72 - ?n) blank" 2 0 "replicate 36 blank" "replicate 124 blank @ ?C"]
      assms(2) l unfolding v4(2) by simp
  then show ?thesis using v1(1) v2(1) v3(1) v4(1) assms(1) l(3) by (simp add: exception_vga_def blank_rows)
qed

section \<open>Properties\<close>

text \<open>
  C23: \<^verbatim>\<open>put_char\<close> of \<^verbatim>\<open>lib/kernel/print.S\<close> implements a text screen of 25 rows and 80 columns. With the
  cursor on the screen it returns, shows the character at the cursor or moves to the next row, and
  scrolls by one row at the end; the cursor stays on the screen and no byte outside the 4000 of the
  text changes. The exception is a backspace in the upper left corner, which writes behind the end
  of the video segment.
\<close>
theorem put_char_refines:
  assumes "screen_ok v"
  shows "if c = 0x8 \<and> cursor_of v = 0 then put_char_vga c v = Inl OUT_OF_BOUNDS
    else \<exists>v'. put_char_vga c v = Inr v' \<and> text_of v' = show_char c (text_of v) \<and> screen_ok v' \<and>
      (\<forall>a. a \<notin> rng 0 4000 \<longrightarrow> video v' a = video v a)"
  using put_char_vga_text [OF assms, of c] put_char_vga_corner [of v] by auto

definition demo_vga :: vga where
  "demo_vga = \<lparr>crtc_index = 0, crtc_regs = (\<lambda>_. 0)(0x0e := 0x07, 0x0f := 0xcf), video = (\<lambda>_. 0)\<rparr>"

text \<open>A character in the last cell of the screen scrolls it.\<close>

theorem put_char_refines_witness:
  "\<exists>v'. put_char_vga 0x41 demo_vga = Inr v' \<and> cursor (text_of v') = 1920 \<and> cells (text_of v') ! 1919 = (0x41, 0x07)"
proof -
  have c: "cursor_of demo_vga = 1999" by (simp add: cursor_of_def demo_vga_def push_bit_eq_mult)
  then obtain v' where "put_char_vga 0x41 demo_vga = Inr v'" "text_of v' = show_char 0x41 (text_of demo_vga)"
    using put_char_refines [of demo_vga "0x41"] by (auto simp: screen_ok_def)
  moreover have "cursor (text_of demo_vga) = 1999" using c by simp
  ultimately show ?thesis by (simp add: show_char_def new_line_def nth_append del: text_of_simps(1,3))
qed

text \<open>
  C24: The assembly of \<^verbatim>\<open>put_str\<close> and \<^verbatim>\<open>put_int\<close> hands exactly those bytes to \<^verbatim>\<open>put_char\<close>, in the same order,
  which the routines of the model append to the sequence of shown bytes: the bytes of the string,
  and the hexadecimal digits of the number without leading zeros, whatever the buffer held before.
\<close>
theorem output_is_put_char:
  assumes "cstr (kmem s) str xs" "length put_int_buffer = 8"
  shows "(\<exists>ys. put_str str s = Inr (s\<lparr>screen := screen s @ ys\<rparr>) \<and> put_str_vga (kmem s) str v = each_res put_char_vga ys v) \<and>
    (\<exists>ys. put_int num s = s\<lparr>screen := screen s @ ys\<rparr> \<and> put_int_vga put_int_buffer num v = each_res put_char_vga ys v)"
  using put_str_vga_eq [OF assms(1), of v] put_int_vga_eq [OF assms(2), of num v] str_at_cstr [OF assms(1)]
  by (auto simp: put_str_def put_int_def)

theorem output_is_put_char_witness:
  "\<exists>ys. put_int 0x1f demo_con = demo_con\<lparr>screen := screen demo_con @ ys\<rparr> \<and>
    put_int_vga (replicate 8 0) 0x1f demo_vga = each_res put_char_vga ys demo_vga"
  using output_is_put_char [of demo_con "0xc0008000" "[0x4f, 0x4b]" "replicate 8 0" demo_vga "0x1f"]
  by (simp add: demo_con_facts)

end
