(* ===== verification/Memory.thy ===== *)
theory Memory
  imports Timer
begin

text \<open>
  The memory manager, \<^verbatim>\<open>kernel/memory.c\<close>: pools of physical and virtual pages, the page tables that
  connect them, and the heap of small blocks built on top.

  Memory is seen through several views: bytes (\<open>kmem\<close>: bitmaps, strings, user data), list elements
  (\<open>lheap\<close>), arena headers (\<open>arenas\<close>), block descriptors (\<open>block_descs\<close>), PCBs (\<open>tasks\<close>), semaphores and
  locks, and entries of page tables (\<open>phys\<close>). Clearing pages clears what lies on them in all of these;
  queues, channels, disks and partitions are static data of the kernel and never on such pages. One region
  is used through two views at once: a free block is bytes and a list element, so linking and unlinking
  blocks also writes the links into the bytes. The bytes are those of the address space of the running
  thread.
\<close>

section \<open>State\<close>

record pool =
  pool_bitmap :: bitmap
  phy_addr_start :: u32
  pool_size :: u32
  pool_lock :: u32

record arena =
  desc :: u32
  cnt :: u32
  large :: bool

record mem_block_desc =
  block_size :: u32
  blocks_per_arena :: u32

text \<open>
  \<open>k_block_descs\<close> is the address of the kernel's descriptors; those of a process are inside its PCB. A
  descriptor takes 24 bytes, its free list is at offset 8. \<open>vaddr_slot\<close> is how far below the stack
  pointer the compiler keeps the parameter of \<^verbatim>\<open>page_table_pte_remove\<close>.
\<close>

record memsys = consys +
  kernel_pool :: pool
  user_pool :: pool
  kernel_vaddr :: virtual_addr
  block_descs :: "u32 \<Rightarrow> mem_block_desc"
  arenas :: "u32 \<Rightarrow> arena"
  k_block_descs :: u32
  vaddr_slot :: u32

definition MEM_BITMAP_BASE :: u32 where "MEM_BITMAP_BASE = 0xc009a000"
definition K_HEAP_START :: u32 where "K_HEAP_START = 0xc0100000"
definition DESC_CNT :: nat where "DESC_CNT = 7"

definition u_block_descs :: "u32 \<Rightarrow> u32" where "u_block_descs pthread = pthread + 100"
definition desc_at :: "u32 \<Rightarrow> nat \<Rightarrow> u32" where "desc_at descs idx = descs + 24 * word_of_nat idx"
definition free_list :: "u32 \<Rightarrow> u32" where "free_list d = d + 8"

text \<open>The pool for a flag, and the virtual addresses for a flag: those of the kernel or of the running process.\<close>

definition mem_pool :: "pool_flags \<Rightarrow> 'a memsys_scheme \<Rightarrow> pool" where
  "mem_pool pf s = (case pf of PF_KERNEL \<Rightarrow> kernel_pool s | PF_USER \<Rightarrow> user_pool s)"

definition vaddr_pool :: "pool_flags \<Rightarrow> 'a memsys_scheme \<Rightarrow> virtual_addr" where
  "vaddr_pool pf s = (case pf of PF_KERNEL \<Rightarrow> kernel_vaddr s | PF_USER \<Rightarrow> userprog_vaddr (tasks s (running_thread s)))"

definition arena_upd :: "u32 \<Rightarrow> (arena \<Rightarrow> arena) \<Rightarrow> 'a memsys_scheme \<Rightarrow> 'a memsys_scheme" where
  "arena_upd a f s = s\<lparr>arenas := (arenas s)(a := f (arenas s a))\<rparr>"

section \<open>Clearing memory\<close>

text \<open>The \<open>k\<close> bytes at \<open>a\<close> lie within the \<open>n\<close> bytes at \<open>p\<close>.\<close>

definition within :: "u32 \<Rightarrow> nat \<Rightarrow> u32 \<Rightarrow> nat \<Rightarrow> bool" where
  "within p n a k \<longleftrightarrow> unat (a - p) + k \<le> n"

definition clear_elems :: "u32 \<Rightarrow> nat \<Rightarrow> lheap \<Rightarrow> lheap" where
  "clear_elems p n h =
     (\<lambda>a. \<lparr>prev = if within p n a 4 then NULL else prev (h a), next = if within p n (a + 4) 4 then NULL else next (h a)\<rparr>)"

definition mapped :: "u32 \<Rightarrow> 'a vmstate_scheme \<Rightarrow> bool" where
  "mapped v s \<longleftrightarrow> walk (phys s) (cr3 s) v \<noteq> None"

text \<open>A PCB of zero bytes; the frames of the kernel stack lie behind it on its page.\<close>

definition zero_task :: "task_struct \<Rightarrow> task_struct" where
  "zero_task t = t\<lparr>self_kstack := 0, pid := 0, status := TASK_RUNNING, name := [], priority := 0, ticks := 0,
     elapsed_ticks := 0, fd_table := replicate 8 0, pgdir := NULL,
     userprog_vaddr := \<lparr>vaddr_bitmap = \<lparr>btmp_bytes_len = 0, bits = 0\<rparr>, vaddr_start = 0\<rparr>, stack_magic := 0\<rparr>"

text \<open>
  The objects on cleared pages. A PCB has a page of its own, with its kernel stack. A semaphore takes 20
  bytes and a lock 28; none of them lies across the border of the pages.
\<close>

definition clear_objects :: "u32 \<Rightarrow> nat \<Rightarrow> 'a memsys_scheme \<Rightarrow> 'a memsys_scheme" where
  "clear_objects p n s =
     s\<lparr>lheap := clear_elems p n (lheap s),
       arenas := (\<lambda>a. if within p n a 12 then \<lparr>desc = NULL, cnt = 0, large = False\<rparr> else arenas s a),
       block_descs := (\<lambda>d. if within p n d 8 then \<lparr>block_size = 0, blocks_per_arena = 0\<rparr> else block_descs s d),
       tasks := (\<lambda>t. if within p n t 4096 then (zero_task (tasks s t))\<lparr>kstack := []\<rparr> else tasks s t),
       sema_value := (\<lambda>a. if within p n a 20 then 0 else sema_value s a),
       lock_holder := (\<lambda>l. if within p n l 28 then NULL else lock_holder s l),
       lock_repeat := (\<lambda>l. if within p n l 28 then 0 else lock_repeat s l)\<rparr>"

text \<open>\<^verbatim>\<open>memset(p, 0, n * PG_SIZE)\<close> on whole pages.\<close>

definition clear_pages :: "u32 \<Rightarrow> nat \<Rightarrow> 'a memsys_scheme \<Rightarrow> 'a memsys_scheme res" where
  "clear_pages p n s =
     ASSERT (p \<noteq> NULL)
       (if list_all (\<lambda>i. mapped (p + PG_SIZE * word_of_nat i) s) [0..<n] then
          Inr (clear_objects p (4096 * n)
            (s\<lparr>kmem := memset_loop (kmem s) p 0 (4096 * n),
               phys := (\<lambda>a. if list_ex (\<lambda>i. walk (phys s) (cr3 s) (p + PG_SIZE * word_of_nat i) = Some (frame a)) [0..<n]
                            then 0 else phys s a)\<rparr>))
        else Inl PAGE_FAULT)"

text \<open>\<^verbatim>\<open>memset(b, 0, n)\<close> on a block inside an arena.\<close>

definition clear_block :: "u32 \<Rightarrow> u32 \<Rightarrow> 'a memsys_scheme \<Rightarrow> 'a memsys_scheme res" where
  "clear_block b n s =
     kbind (memset (kmem s) b 0 n) (\<lambda>m. Inr (s\<lparr>kmem := m, lheap := clear_elems b (unat n) (lheap s)\<rparr>))"

section \<open>Virtual and physical pages\<close>

text \<open>The loops that set or clear a run of bits.\<close>

definition set_bits :: "bitmap \<Rightarrow> u32 \<Rightarrow> u32 \<Rightarrow> u8 \<Rightarrow> 'a memsys_scheme \<Rightarrow> 'a memsys_scheme res" where
  "set_bits btmp bit_idx_start pg_cnt v s =
     kbind (each_res (\<lambda>i m. bitmap_set m btmp (bit_idx_start + word_of_nat i) v) [0..<unat pg_cnt] (kmem s))
       (\<lambda>m. Inr (s\<lparr>kmem := m\<rparr>))"

definition vaddr_get :: "pool_flags \<Rightarrow> u32 \<Rightarrow> 'a memsys_scheme \<Rightarrow> (u32 \<times> 'a memsys_scheme) res" where
  "vaddr_get pf pg_cnt s =
     (let va = vaddr_pool pf s in
      kbind (bitmap_scan (kmem s) (vaddr_bitmap va) pg_cnt) (\<lambda>bit_idx_start.
        if bit_idx_start = -1 then Inr (NULL, s)
        else kbind (set_bits (vaddr_bitmap va) bit_idx_start pg_cnt 1 s) (\<lambda>s.
          let v = vaddr_start va + bit_idx_start * PG_SIZE in
          case pf of PF_KERNEL \<Rightarrow> Inr (v, s) | PF_USER \<Rightarrow> ASSERT (v < 0xc0000000 - PG_SIZE) (Inr (v, s)))))"

definition palloc :: "pool \<Rightarrow> 'a memsys_scheme \<Rightarrow> (u32 \<times> 'a memsys_scheme) res" where
  "palloc m_pool s =
     kbind (bitmap_scan (kmem s) (pool_bitmap m_pool) 1) (\<lambda>bit_idx.
       if bit_idx = -1 then Inr (NULL, s)
       else kbind (bitmap_set (kmem s) (pool_bitmap m_pool) bit_idx 1) (\<lambda>m.
         Inr (bit_idx * PG_SIZE + phy_addr_start m_pool, s\<lparr>kmem := m\<rparr>)))"

text \<open>The new page table is cleared through the window, word by word.\<close>

definition clear_table :: "u32 \<Rightarrow> 'a vmstate_scheme \<Rightarrow> 'a vmstate_scheme res" where
  "clear_table v s = ASSERT (v \<noteq> NULL) (each_res (\<lambda>i. vstore (v + 4 * word_of_nat i) 0) [0..<1024] s)"

definition page_table_add :: "u32 \<Rightarrow> u32 \<Rightarrow> 'a memsys_scheme \<Rightarrow> 'a memsys_scheme res" where
  "page_table_add vaddr page_phyaddr s =
     (let pde = pde_ptr vaddr; pte = pte_ptr vaddr; entry = page_phyaddr OR PG_US_U OR PG_RW_W OR PG_P_1 in
      kbind (vload pde s) (\<lambda>d.
        if d AND 0x00000001 \<noteq> 0 then
          kbind (vload pte s) (\<lambda>e. if e AND 0x00000001 = 0 then vstore pte entry s else Inl PANIC)
        else
          kbind (palloc (kernel_pool s) s) (\<lambda>(pde_phyaddr, s).
          kbind (vstore pde (pde_phyaddr OR PG_US_U OR PG_RW_W OR PG_P_1) s) (\<lambda>s.
          kbind (clear_table (pte AND 0xfffff000) s) (\<lambda>s.
          kbind (vload pte s) (\<lambda>e. ASSERT (e AND 0x00000001 = 0) (vstore pte entry s)))))))"

text \<open>The result tells whether all pages were mapped; what was mapped before a failure stays.\<close>

primrec malloc_page_loop :: "pool \<Rightarrow> nat \<Rightarrow> u32 \<Rightarrow> 'a memsys_scheme \<Rightarrow> (bool \<times> 'a memsys_scheme) res" where
  "malloc_page_loop m_pool 0 vaddr s = Inr (True, s)"
| "malloc_page_loop m_pool (Suc n) vaddr s =
     kbind (palloc m_pool s) (\<lambda>(page_phyaddr, s).
       if page_phyaddr = NULL then Inr (False, s)
       else kbind (page_table_add vaddr page_phyaddr s) (malloc_page_loop m_pool n (vaddr + PG_SIZE)))"

definition malloc_page :: "pool_flags \<Rightarrow> u32 \<Rightarrow> 'a memsys_scheme \<Rightarrow> (u32 \<times> 'a memsys_scheme) res" where
  "malloc_page pf pg_cnt s =
     ASSERT (pg_cnt > 0 \<and> pg_cnt < 3840)
       (kbind (vaddr_get pf pg_cnt s) (\<lambda>(vaddr_start, s).
          if vaddr_start = NULL then Inr (NULL, s)
          else kbind (malloc_page_loop (mem_pool pf s) (unat pg_cnt) vaddr_start s) (\<lambda>(done, s).
            Inr (if done then vaddr_start else NULL, s))))"

definition get_kernel_pages :: "u32 \<Rightarrow> 'a memsys_scheme \<Rightarrow> (u32 \<times> 'a memsys_scheme) res" where
  "get_kernel_pages pg_cnt s =
     kbind (malloc_page PF_KERNEL pg_cnt s) (\<lambda>(vaddr, s).
       if vaddr \<noteq> NULL then kbind (clear_pages vaddr (unat pg_cnt) s) (\<lambda>s. Inr (vaddr, s)) else Inr (vaddr, s))"

definition get_user_pages_locked :: "u32 \<Rightarrow> 'a memsys_scheme \<Rightarrow> (u32 option \<times> 'a memsys_scheme) res" where
  "get_user_pages_locked pg_cnt s =
     kbind (malloc_page PF_USER pg_cnt s) (\<lambda>(vaddr, s).
     kbind (if vaddr \<noteq> NULL then clear_pages vaddr (unat pg_cnt) s else Inr s) (\<lambda>s.
     kbind (lock_release (pool_lock (user_pool s)) s) (\<lambda>s. Inr (Some vaddr, s))))"

definition get_user_pages :: "u32 \<Rightarrow> 'a memsys_scheme \<Rightarrow> (u32 option \<times> 'a memsys_scheme) res" where
  "get_user_pages pg_cnt s =
     after_lock (F_get_user_pages pg_cnt) (pool_lock (user_pool s)) (get_user_pages_locked pg_cnt) s"

text \<open>The index is an \<^verbatim>\<open>int32_t\<close>, so the assertion is a signed comparison.\<close>

definition get_a_page_locked :: "pool_flags \<Rightarrow> u32 \<Rightarrow> 'a memsys_scheme \<Rightarrow> (u32 option \<times> 'a memsys_scheme) res" where
  "get_a_page_locked pf vaddr s =
     (let cur = running_thread s; va = vaddr_pool pf s; bit_idx = (vaddr - vaddr_start va) div PG_SIZE in
      if (pgdir (tasks s cur) \<noteq> NULL \<and> pf = PF_USER) \<or> (pgdir (tasks s cur) = NULL \<and> pf = PF_KERNEL) then
        ASSERT (sint bit_idx > 0)
          (kbind (bitmap_set (kmem s) (vaddr_bitmap va) bit_idx 1) (\<lambda>m.
           kbind (palloc (mem_pool pf s) (s\<lparr>kmem := m\<rparr>)) (\<lambda>(page_phyaddr, s).
             if page_phyaddr = NULL then Inr (Some NULL, s)
             else kbind (page_table_add vaddr page_phyaddr s) (\<lambda>s.
               kbind (lock_release (pool_lock (mem_pool pf s)) s) (\<lambda>s. Inr (Some vaddr, s))))))
      else Inl PANIC)"

definition get_a_page :: "pool_flags \<Rightarrow> u32 \<Rightarrow> 'a memsys_scheme \<Rightarrow> (u32 option \<times> 'a memsys_scheme) res" where
  "get_a_page pf vaddr s =
     after_lock (F_get_a_page pf vaddr) (pool_lock (mem_pool pf s)) (get_a_page_locked pf vaddr) s"

section \<open>Initialisation\<close>

definition put_lines :: "string \<Rightarrow> u32 \<Rightarrow> string \<Rightarrow> u32 \<Rightarrow> 'a devsys_scheme \<Rightarrow> 'a devsys_scheme" where
  "put_lines a x b y s = put_lit ''\<newline>'' (put_int y (put_lit b (put_int x (put_lit a s))))"

definition mem_pool_init :: "u32 \<Rightarrow> 'a memsys_scheme \<Rightarrow> 'a memsys_scheme res" where
  "mem_pool_init all_mem s =
     (let page_table_size = PG_SIZE * 256;
          used_mem = page_table_size + 0x100000;
          free_mem = all_mem - used_mem;
          all_free_page = ucast (free_mem div PG_SIZE) :: u16;
          kernel_free_pages = all_free_page div 2;
          user_free_pages = all_free_page - kernel_free_pages;
          kbm_length = ucast (kernel_free_pages div 8) :: u32;
          ubm_length = ucast (user_free_pages div 8) :: u32;
          kp_start = used_mem;
          up_start = kp_start + ucast kernel_free_pages * PG_SIZE;
          kbm = \<lparr>btmp_bytes_len = kbm_length, bits = MEM_BITMAP_BASE\<rparr>;
          ubm = \<lparr>btmp_bytes_len = ubm_length, bits = MEM_BITMAP_BASE + kbm_length\<rparr>;
          vbm = \<lparr>btmp_bytes_len = kbm_length, bits = MEM_BITMAP_BASE + kbm_length + ubm_length\<rparr>;
          s = put_lit ''mem_pool_init start\<newline>'' s;
          s = s\<lparr>kernel_pool := (kernel_pool s)\<lparr>pool_bitmap := kbm, phy_addr_start := kp_start, pool_size := ucast kernel_free_pages * PG_SIZE\<rparr>,
                user_pool := (user_pool s)\<lparr>pool_bitmap := ubm, phy_addr_start := up_start, pool_size := ucast user_free_pages * PG_SIZE\<rparr>\<rparr>;
          s = lock_init (pool_lock (user_pool s)) (lock_init (pool_lock (kernel_pool s)) s);
          s = put_lines ''kernel_pool_bitmap_start: '' (bits kbm) ''  kernel_pool_phy_addr_start: '' kp_start s;
          s = put_lines ''user_pool_bitmap_start: '' (bits ubm) ''  user_pool_phy_addr_start: '' up_start s
      in kbind (bitmap_init (kmem s) kbm) (\<lambda>m.
         kbind (bitmap_init m ubm) (\<lambda>m.
         let s = s\<lparr>kmem := m, kernel_vaddr := \<lparr>vaddr_bitmap = vbm, vaddr_start = K_HEAP_START\<rparr>\<rparr>;
             s = put_lines ''kernel_vaddr_bitmap_start: '' (bits vbm) ''  kernel_vaddr_start: '' K_HEAP_START s
         in kbind (bitmap_init (kmem s) vbm) (\<lambda>m.
              Inr (put_lit ''mem_pool_init done\<newline>'' (s\<lparr>kmem := m\<rparr>))))))"

text \<open>
  The list operations on free lists, with the words they write: the list's ends and the elements are
  bytes too.
\<close>

definition init_free_list :: "u32 \<Rightarrow> 'a devsys_scheme \<Rightarrow> 'a devsys_scheme" where
  "init_free_list l s =
     (list_init l s)\<lparr>kmem := store32 (store32 (store32 (store32 (kmem s) l NULL) (l + 4) (list_tail l)) (list_tail l) (list_head l))
        (list_tail l + 4) NULL\<rparr>"

definition append_block :: "u32 \<Rightarrow> u32 \<Rightarrow> 'a devsys_scheme \<Rightarrow> 'a devsys_scheme" where
  "append_block l b s =
     (let before = list_tail l; last = prev (lheap s before) in
      (list_append l b s)\<lparr>kmem := store32 (store32 (store32 (store32 (kmem s) (last + 4) b) b last) (b + 4) before) before b\<rparr>)"

definition remove_block :: "u32 \<Rightarrow> 'a devsys_scheme \<Rightarrow> 'a devsys_scheme" where
  "remove_block b s =
     (let p = prev (lheap s b); n = next (lheap s b) in (list_remove b s)\<lparr>kmem := store32 (store32 (kmem s) (p + 4) n) n p\<rparr>)"

definition pop_block :: "u32 \<Rightarrow> 'a devsys_scheme \<Rightarrow> u32 \<times> 'a devsys_scheme" where
  "pop_block l s = (let b = next (lheap s (list_head l)) in (b, remove_block b s))"

definition desc_init_one :: "u32 \<Rightarrow> nat \<Rightarrow> 'a memsys_scheme \<Rightarrow> 'a memsys_scheme" where
  "desc_init_one desc_array desc_idx s =
     (let d = desc_at desc_array desc_idx; bs = 16 * 2 ^ desc_idx in
      init_free_list (free_list d)
        (s\<lparr>block_descs := (block_descs s)(d := \<lparr>block_size = bs, blocks_per_arena = (PG_SIZE - 12) div bs\<rparr>)\<rparr>))"

definition block_desc_init :: "u32 \<Rightarrow> 'a memsys_scheme \<Rightarrow> 'a memsys_scheme" where
  "block_desc_init desc_array s = fold (desc_init_one desc_array) [0..<DESC_CNT] s"

text \<open>The loader leaves the size of the memory at 0xb00.\<close>

definition mem_init :: "'a memsys_scheme \<Rightarrow> 'a memsys_scheme res" where
  "mem_init s =
     (let s = put_lit ''mem_init start\<newline>'' s in
      kbind (mem_pool_init (load32 (kmem s) 0xb00) s) (\<lambda>s.
        Inr (put_lit ''mem_init done\<newline>'' (block_desc_init (k_block_descs s) s))))"

section \<open>Releasing pages\<close>

definition pfree :: "u32 \<Rightarrow> 'a memsys_scheme \<Rightarrow> 'a memsys_scheme res" where
  "pfree pg_phy_addr s =
     (let p = (if pg_phy_addr \<ge> phy_addr_start (user_pool s) then user_pool s else kernel_pool s);
          bit_idx = (pg_phy_addr - phy_addr_start p) div PG_SIZE
      in kbind (bitmap_set (kmem s) (pool_bitmap p) bit_idx 0) (\<lambda>m. Inr (s\<lparr>kmem := m\<rparr>)))"

definition vaddr_remove :: "pool_flags \<Rightarrow> u32 \<Rightarrow> u32 \<Rightarrow> 'a memsys_scheme \<Rightarrow> 'a memsys_scheme res" where
  "vaddr_remove pf vaddr pg_cnt s =
     (let va = vaddr_pool pf s
      in set_bits (vaddr_bitmap va) ((vaddr - vaddr_start va) div PG_SIZE) pg_cnt 0 s)"

text \<open>
  The operand of \<^verbatim>\<open>invlpg\<close> is the variable \<^verbatim>\<open>vaddr\<close> itself: it names the page of the stack that holds the
  parameter and not the page that was taken away.
\<close>

definition page_table_pte_remove :: "u32 \<Rightarrow> 'a memsys_scheme \<Rightarrow> 'a memsys_scheme res" where
  "page_table_pte_remove vaddr s = kbind (clear_pte vaddr s) (\<lambda>s. Inr (invlpg (esp s - vaddr_slot s) s))"

text \<open>The loop that gives back one page after the other; the pages are all the user's or all the kernel's.\<close>

primrec mfree_page_loop :: "bool \<Rightarrow> nat \<Rightarrow> u32 \<Rightarrow> 'a memsys_scheme \<Rightarrow> 'a memsys_scheme res" where
  "mfree_page_loop user 0 vaddr s = Inr s"
| "mfree_page_loop user (Suc n) vaddr s =
     kbind (addr_v2p vaddr s) (\<lambda>pa.
       ASSERT (pa mod PG_SIZE = 0 \<and>
           (if user then pa \<ge> phy_addr_start (user_pool s)
            else pa \<ge> phy_addr_start (kernel_pool s) \<and> pa < phy_addr_start (user_pool s)))
         (kbind (pfree pa s) (\<lambda>s.
          kbind (page_table_pte_remove vaddr s) (mfree_page_loop user n (vaddr + PG_SIZE)))))"

definition mfree_page :: "pool_flags \<Rightarrow> u32 \<Rightarrow> u32 \<Rightarrow> 'a memsys_scheme \<Rightarrow> 'a memsys_scheme res" where
  "mfree_page pf vaddr pg_cnt s =
     ASSERT (pg_cnt \<ge> 1 \<and> vaddr mod PG_SIZE = 0)
       (kbind (addr_v2p vaddr s) (\<lambda>pa.
          ASSERT (pa mod PG_SIZE = 0 \<and> pa \<ge> 0x102000)
            (kbind (mfree_page_loop (pa \<ge> phy_addr_start (user_pool s)) (unat pg_cnt) vaddr s)
              (vaddr_remove pf vaddr pg_cnt))))"

section \<open>The heap\<close>

definition arena2block :: "u32 \<Rightarrow> u32 \<Rightarrow> 'a memsys_scheme \<Rightarrow> u32" where
  "arena2block a idx s = a + 12 + idx * block_size (block_descs s (desc (arenas s a)))"

definition block2arena :: "u32 \<Rightarrow> u32" where
  "block2arena b = b AND 0xfffff000"

text \<open>What the caller's kind decides: a kernel thread uses the kernel's pool and descriptors.\<close>

definition caller_flag :: "'a memsys_scheme \<Rightarrow> pool_flags" where
  "caller_flag s = (if pgdir (tasks s (running_thread s)) = NULL then PF_KERNEL else PF_USER)"

definition caller_descs :: "'a memsys_scheme \<Rightarrow> u32" where
  "caller_descs s = (case caller_flag s of PF_KERNEL \<Rightarrow> k_block_descs s | PF_USER \<Rightarrow> u_block_descs (running_thread s))"

text \<open>The first descriptor whose blocks are large enough; 7 if there is none.\<close>

primrec find_desc :: "u32 \<Rightarrow> u32 \<Rightarrow> nat \<Rightarrow> nat \<Rightarrow> 'a memsys_scheme \<Rightarrow> nat" where
  "find_desc descs sz idx 0 s = idx"
| "find_desc descs sz idx (Suc n) s =
     (if sz \<le> block_size (block_descs s (desc_at descs idx)) then idx else find_desc descs sz (Suc idx) n s)"

definition add_block :: "u32 \<Rightarrow> nat \<Rightarrow> 'a memsys_scheme \<Rightarrow> 'a memsys_scheme res" where
  "add_block a block_idx s =
     (let b = arena2block a (word_of_nat block_idx) s; l = free_list (desc (arenas s a)) in
      kbind (elem_find l b s) (\<lambda>found. ASSERT (\<not> found) (Inr (append_block l b s))))"

definition split_arena :: "u32 \<Rightarrow> u32 \<Rightarrow> 'a memsys_scheme \<Rightarrow> 'a memsys_scheme res" where
  "split_arena a d s =
     (let (old_status, s) = intr_disable s in
      kbind (each_res (add_block a) [0..<unat (blocks_per_arena (block_descs s d))] s) (\<lambda>s.
        Inr (snd (intr_set_status old_status s))))"

definition malloc_large :: "pool_flags \<Rightarrow> u32 \<Rightarrow> 'a memsys_scheme \<Rightarrow> (u32 \<times> 'a memsys_scheme) res" where
  "malloc_large PF sz s =
     (let page_cnt = DIV_ROUND_UP (sz + 12) PG_SIZE in
      kbind (malloc_page PF page_cnt s) (\<lambda>(a, s).
        if a \<noteq> NULL then
          kbind (clear_pages a (unat page_cnt) s) (\<lambda>s.
            Inr (a + 12, arena_upd a (\<lambda>_. \<lparr>desc = NULL, cnt = page_cnt, large = True\<rparr>) s))
        else Inr (NULL, s)))"

text \<open>A new arena for an empty free list; the result tells whether there is one.\<close>

definition new_arena :: "pool_flags \<Rightarrow> u32 \<Rightarrow> 'a memsys_scheme \<Rightarrow> (bool \<times> 'a memsys_scheme) res" where
  "new_arena PF d s =
     kbind (malloc_page PF 1 s) (\<lambda>(a, s).
       if a = NULL then Inr (False, s)
       else kbind (clear_pages a 1 s) (\<lambda>s.
         kbind (split_arena a d (arena_upd a (\<lambda>_. \<lparr>desc = d, cnt = blocks_per_arena (block_descs s d), large = False\<rparr>) s))
           (\<lambda>s. Inr (True, s))))"

definition take_block :: "u32 \<Rightarrow> 'a memsys_scheme \<Rightarrow> (u32 \<times> 'a memsys_scheme) res" where
  "take_block d s =
     (let (b, s) = pop_block (free_list d) s in
      kbind (clear_block b (block_size (block_descs s d)) s) (\<lambda>s.
        Inr (b, arena_upd (block2arena b) (\<lambda>a. a\<lparr>cnt := cnt a - 1\<rparr>) s)))"

definition malloc_small :: "pool_flags \<Rightarrow> u32 \<Rightarrow> u32 \<Rightarrow> 'a memsys_scheme \<Rightarrow> (u32 \<times> 'a memsys_scheme) res" where
  "malloc_small PF descs sz s =
     (let idx = find_desc descs sz 0 DESC_CNT s; d = desc_at descs idx in
      if idx < DESC_CNT then
        kbind (if list_empty (free_list d) s then new_arena PF d s else Inr (True, s)) (\<lambda>(ok, s).
          if ok then take_block d s else Inr (NULL, s))
      else Inl OUT_OF_BOUNDS)"

definition sys_malloc_locked :: "u32 \<Rightarrow> 'a memsys_scheme \<Rightarrow> (u32 option \<times> 'a memsys_scheme) res" where
  "sys_malloc_locked sz s =
     (let PF = caller_flag s in
      kbind (if sz > 1024 then malloc_large PF sz s else malloc_small PF (caller_descs s) sz s) (\<lambda>(p, s).
      kbind (lock_release (pool_lock (mem_pool PF s)) s) (\<lambda>s. Inr (Some p, s))))"

definition sys_malloc :: "u32 \<Rightarrow> 'a memsys_scheme \<Rightarrow> (u32 option \<times> 'a memsys_scheme) res" where
  "sys_malloc sz s =
     (let p = mem_pool (caller_flag s) s in
      if \<not> (sz > 0 \<and> sz < pool_size p) then Inr (Some NULL, s)
      else after_lock (F_sys_malloc sz) (pool_lock p) (sys_malloc_locked sz) s)"

definition drop_block :: "u32 \<Rightarrow> nat \<Rightarrow> 'a memsys_scheme \<Rightarrow> 'a memsys_scheme res" where
  "drop_block a block_idx s =
     (let b = arena2block a (word_of_nat block_idx) s in
      kbind (elem_find (free_list (desc (arenas s a))) b s) (\<lambda>found. ASSERT found (Inr (remove_block b s))))"

definition free_small :: "pool_flags \<Rightarrow> u32 \<Rightarrow> u32 \<Rightarrow> 'a memsys_scheme \<Rightarrow> 'a memsys_scheme res" where
  "free_small PF a b s =
     (let s = append_block (free_list (desc (arenas s a))) b s;
          s = arena_upd a (\<lambda>r. r\<lparr>cnt := cnt r + 1\<rparr>) s;
          n = blocks_per_arena (block_descs s (desc (arenas s a)))
      in if cnt (arenas s a) = n
         then kbind (each_res (drop_block a) [0..<unat n] s) (mfree_page PF a 1)
         else Inr s)"

definition sys_free_locked :: "u32 \<Rightarrow> 'a memsys_scheme \<Rightarrow> (unit option \<times> 'a memsys_scheme) res" where
  "sys_free_locked ptr s =
     (let PF = caller_flag s; a = block2arena ptr in
      kbind (if desc (arenas s a) = NULL \<and> large (arenas s a) then mfree_page PF a (cnt (arenas s a)) s
             else free_small PF a ptr s) (\<lambda>s.
      kbind (lock_release (pool_lock (mem_pool PF s)) s) (\<lambda>s. Inr (Some (), s))))"

definition sys_free :: "u32 \<Rightarrow> 'a memsys_scheme \<Rightarrow> (unit option \<times> 'a memsys_scheme) res" where
  "sys_free ptr s =
     ASSERT (ptr \<noteq> NULL)
       (let PF = caller_flag s in
        ASSERT (PF = PF_KERNEL \<longrightarrow> ptr \<ge> K_HEAP_START)
          (after_lock (F_sys_free ptr) (pool_lock (mem_pool PF s)) (sys_free_locked ptr) s))"

end
