(* ===== verification/Pages.thy ===== *)
theory Pages
  imports Memory
begin

text \<open>
  Correctness of page allocation in \<^verbatim>\<open>kernel/memory.c\<close>. The invariant \<open>vm_ok\<close> connects the bitmap of a
  physical pool, the bitmap of the virtual addresses served from it, and the page tables: only
  pages whose bit is set are mapped, to frames whose bit is set, and no two pages share a frame.
\<close>

section \<open>Page numbers\<close>

definition pg :: "u32 \<Rightarrow> nat \<Rightarrow> u32" where
  "pg base i = base + 4096 * word_of_nat i"

lemma PG_SIZE_mult [simp]: "base + word_of_nat i * PG_SIZE = pg base i" "base + PG_SIZE * word_of_nat i = pg base i"
  "word_of_nat i * PG_SIZE + base = pg base i"
  by (simp_all add: pg_def PG_SIZE_def mult.commute add.commute)

lemma pg_Suc: "pg base i + PG_SIZE = pg base (Suc i)"
  by (simp add: pg_def PG_SIZE_def algebra_simps)

lemma unat_frame: "unat (frame v) = unat v div 4096 * 4096"
proof -
  have d: "unat (drop_bit 12 v) = unat v div 4096" by (simp add: unat_drop_bit_eq drop_bit_nat_def)
  have "frame v = drop_bit 12 v * 4096" by (simp add: frame_eq push_bit_eq_mult)
  moreover have "unat v div 4096 * 4096 < 4294967296" using unat_u32_lt [of v] div_times_less_eq_dividend [of "unat v" 4096] by linarith
  ultimately show ?thesis using unat_mult_u32 [of "drop_bit 12 v" 4096] d by simp
qed

lemma frame_id_iff: "frame v = v \<longleftrightarrow> 4096 dvd unat v"
proof
  assume "frame v = v"
  then show "4096 dvd unat v" using unat_frame [of v] by (metis dvd_triv_right)
next
  assume "4096 dvd unat v"
  then have "unat (frame v) = unat v" by (simp add: unat_frame)
  then show "frame v = v" by (simp only: unsigned_word_eqI)
qed

lemma mod_PG_SIZE: "v mod PG_SIZE = 0 \<longleftrightarrow> frame v = v"
proof -
  have "v mod PG_SIZE = 0 \<longleftrightarrow> unat (v mod PG_SIZE) = 0" by (simp add: unat_eq_zero)
  also have "\<dots> \<longleftrightarrow> 4096 dvd unat v" by (simp add: unat_mod_u32 PG_SIZE_def dvd_eq_mod_eq_0)
  finally show ?thesis by (simp add: frame_id_iff)
qed

text \<open>A page-aligned base with \<open>n\<close> pages behind it that do not wrap around.\<close>

definition pages :: "u32 \<Rightarrow> nat \<Rightarrow> bool" where
  "pages base n \<longleftrightarrow> frame base = base \<and> base \<noteq> NULL \<and> unat base + 4096 * n \<le> 4294967296"

lemma unat_pg: "pages base n \<Longrightarrow> i < n \<Longrightarrow> unat (pg base i) = unat base + 4096 * i"
proof -
  assume a: "pages base n" "i < n"
  then have l: "unat base + 4096 * i < 4294967296" by (simp add: pages_def)
  then have "unat (4096 * word_of_nat i :: u32) = 4096 * i"
    using unat_mult_u32 [of 4096 "word_of_nat i"] unat_word_of_nat_u32 [of i] by simp
  then show ?thesis using l unat_add_u32 [of base "4096 * word_of_nat i"] by (simp add: pg_def)
qed

lemma frame_pg: "pages base n \<Longrightarrow> i < n \<Longrightarrow> frame (pg base i) = pg base i"
  by (simp add: frame_id_iff unat_pg) (simp add: pages_def frame_id_iff)

lemma pg_inj:
  assumes "pages base n" "i < n" "j < n"
  shows "pg base i = pg base j \<longleftrightarrow> i = j"
proof
  assume "pg base i = pg base j"
  then have "unat (pg base i) = unat (pg base j)" by (rule arg_cong)
  then show "i = j" unfolding unat_pg [OF assms(1,2)] unat_pg [OF assms(1,3)] by simp
qed simp

lemma pg_nonzero: "pages base n \<Longrightarrow> i < n \<Longrightarrow> pg base i \<noteq> NULL"
proof
  assume "pages base n" "i < n" "pg base i = NULL"
  then have "unat base = 0" using unat_pg [of base n i] by simp
  then show False using \<open>pages base n\<close> by (simp add: pages_def unat_eq_zero)
qed

text \<open>The index that \<^verbatim>\<open>pfree\<close> and \<^verbatim>\<open>vaddr_remove\<close> compute from an address.\<close>

lemma pg_index: "pages base n \<Longrightarrow> i < n \<Longrightarrow> (pg base i - base) div PG_SIZE = word_of_nat i"
proof -
  assume a: "pages base n" "i < n"
  then have l: "4096 * i < 4294967296" by (simp add: pages_def)
  have "unat (pg base i - base) = 4096 * i"
    using l unat_mult_u32 [of 4096 "word_of_nat i"] unat_word_of_nat_u32 [of i] by (simp add: pg_def)
  then have "unat ((pg base i - base) div PG_SIZE) = i" by (simp add: unat_div_u32 PG_SIZE_def)
  then have "(word_of_nat (unat ((pg base i - base) div PG_SIZE)) :: u32) = word_of_nat i" by (rule arg_cong)
  then show ?thesis by simp
qed

section \<open>Entries\<close>

lemma entry_bits: "frame pa = pa \<Longrightarrow> frame (pa OR PG_US_U OR PG_RW_W OR PG_P_1) = pa"
  "present (pa OR PG_US_U OR PG_RW_W OR PG_P_1)"
proof -
  have "frame (pa OR PG_US_U OR PG_RW_W OR PG_P_1) = frame pa"
    unfolding frame_eq PG_US_U_def PG_RW_W_def PG_P_1_def
    by (rule bit_word_eqI) (auto simp: bit_simps bit_numeral_rec)
  then show "frame pa = pa \<Longrightarrow> frame (pa OR PG_US_U OR PG_RW_W OR PG_P_1) = pa" by simp
  have "bit (pa OR PG_US_U OR PG_RW_W OR PG_P_1) 0" by (simp add: bit_simps PG_P_1_def)
  then show "present (pa OR PG_US_U OR PG_RW_W OR PG_P_1)"
    unfolding present_def by (metis and_exp_eq_0_iff_not_bit power_0)
qed

lemma offset_of_frame: "frame v = v \<Longrightarrow> v AND 0x00000fff = 0"
  using frame_offset [of v] by simp

lemma walk_frame:
  assumes "frame v = frame w"
  shows "walk ph c v = map_option (\<lambda>pa. pa + (v AND 0x00000fff)) (walk ph c (frame w))"
proof -
  have i: "PDE_IDX (frame w) = PDE_IDX v" "PTE_IDX (frame w) = PTE_IDX v"
    using idx_frame [of "frame w" v] assms by simp_all
  have "frame w AND 0x00000fff = 0" by (rule offset_of_frame) simp
  then show ?thesis by (simp add: walk_def pde_addr_def pte_addr_def i)
qed

lemma walk_entry_frame: "walk ph c v = Some pa \<Longrightarrow> frame v = v \<Longrightarrow> frame pa = pa"
  by (auto simp: walk_def offset_of_frame split: if_splits)

lemma tables_separate_pte:
  assumes "tables_separate ph c" "present (ph (pde_addr c v))" "PDE_IDX v \<noteq> mask 10"
  shows "tables_separate (ph(pte_addr ph c v := e)) c"
proof -
  have "(ph(pte_addr ph c v := e)) (pde_addr c w) = ph (pde_addr c w)" for w
    using pte_not_pde [OF assms, of w] by auto
  then show ?thesis
    using assms(1) unfolding tables_separate_def self_mapped_def pde_addr_last [symmetric] by simp
qed

section \<open>The invariant\<close>

text \<open>A frame that holds the directory or a page table.\<close>

definition table_frame :: "(u32 \<Rightarrow> u32) \<Rightarrow> u32 \<Rightarrow> u32 \<Rightarrow> bool" where
  "table_frame ph c f \<longleftrightarrow> (\<exists>v. present (ph (pde_addr c v)) \<and> frame (ph (pde_addr c v)) = f)"

abbreviation pfn :: "pool \<Rightarrow> nat" where "pfn p \<equiv> nbits (pool_bitmap p)"
abbreviation vpn :: "virtual_addr \<Rightarrow> nat" where "vpn va \<equiv> nbits (vaddr_bitmap va)"
abbreviation ppg :: "pool \<Rightarrow> nat \<Rightarrow> u32" where "ppg p \<equiv> pg (phy_addr_start p)"
abbreviation vpg :: "virtual_addr \<Rightarrow> nat \<Rightarrow> u32" where "vpg va \<equiv> pg (vaddr_start va)"

definition pools_ok :: "pool \<Rightarrow> virtual_addr \<Rightarrow> bool" where
  "pools_ok p va \<longleftrightarrow> bm_ok (pool_bitmap p) \<and> bm_ok (vaddr_bitmap va) \<and>
     rng (bits (pool_bitmap p)) (unat (btmp_bytes_len (pool_bitmap p))) \<inter>
       rng (bits (vaddr_bitmap va)) (unat (btmp_bytes_len (vaddr_bitmap va))) = {} \<and>
     pages (phy_addr_start p) (pfn p) \<and> pages (vaddr_start va) (vpn va)"

text \<open>The tables for all pages exist, as the loader creates them for the kernel's half.\<close>

definition tables_ok :: "virtual_addr \<Rightarrow> (u32 \<Rightarrow> u32) \<Rightarrow> u32 \<Rightarrow> bool" where
  "tables_ok va ph c \<longleftrightarrow> tables_separate ph c \<and>
     (\<forall>i < vpn va. present (ph (pde_addr c (vpg va i))) \<and> PDE_IDX (vpg va i) \<noteq> mask 10)"

definition maps_ok :: "pool \<Rightarrow> virtual_addr \<Rightarrow> mem \<Rightarrow> (u32 \<Rightarrow> u32) \<Rightarrow> u32 \<Rightarrow> bool" where
  "maps_ok p va m ph c \<longleftrightarrow>
     (\<forall>i < vpn va. \<forall>pa. walk ph c (vpg va i) = Some pa \<longrightarrow>
        bm_bit m (vaddr_bitmap va) i \<and> (\<exists>j < pfn p. pa = ppg p j \<and> bm_bit m (pool_bitmap p) j) \<and> \<not> table_frame ph c pa) \<and>
     (\<forall>i < vpn va. \<forall>k < vpn va. \<forall>pa. walk ph c (vpg va i) = Some pa \<and> walk ph c (vpg va k) = Some pa \<longrightarrow> i = k) \<and>
     (\<forall>j < pfn p. \<not> bm_bit m (pool_bitmap p) j \<longrightarrow> \<not> table_frame ph c (ppg p j))"

definition vm_ok :: "pool \<Rightarrow> virtual_addr \<Rightarrow> mem \<Rightarrow> (u32 \<Rightarrow> u32) \<Rightarrow> u32 \<Rightarrow> bool" where
  "vm_ok p va m ph c \<longleftrightarrow> pools_ok p va \<and> tables_ok va ph c \<and> maps_ok p va m ph c"

definition free_frames :: "pool \<Rightarrow> mem \<Rightarrow> nat set" where
  "free_frames p m = {j. j < pfn p \<and> \<not> bm_bit m (pool_bitmap p) j}"

lemma pools_okD:
  assumes "pools_ok p va"
  shows "bm_ok (pool_bitmap p)" "bm_ok (vaddr_bitmap va)" "pages (phy_addr_start p) (pfn p)" "pages (vaddr_start va) (vpn va)"
    "pfn p < 4294967296" "vpn va < 4294967296"
  using assms nbits_lt [of "pool_bitmap p"] nbits_lt [of "vaddr_bitmap va"] by (simp_all add: pools_ok_def)

lemma tables_okD:
  assumes "tables_ok va ph c"
  shows "tables_separate ph c" "self_mapped ph c"
    "i < vpn va \<Longrightarrow> present (ph (pde_addr c (vpg va i)))" "i < vpn va \<Longrightarrow> PDE_IDX (vpg va i) \<noteq> mask 10"
  using assms by (simp_all add: tables_ok_def tables_separate_def)

lemma maps_okD:
  assumes "maps_ok p va m ph c"
  shows "i < vpn va \<Longrightarrow> walk ph c (vpg va i) = Some pa \<Longrightarrow> bm_bit m (vaddr_bitmap va) i"
    "i < vpn va \<Longrightarrow> walk ph c (vpg va i) = Some pa \<Longrightarrow> \<exists>j < pfn p. pa = ppg p j \<and> bm_bit m (pool_bitmap p) j"
    "i < vpn va \<Longrightarrow> walk ph c (vpg va i) = Some pa \<Longrightarrow> \<not> table_frame ph c pa"
    "i < vpn va \<Longrightarrow> k < vpn va \<Longrightarrow> walk ph c (vpg va i) = Some pa \<Longrightarrow> walk ph c (vpg va k) = Some pa \<Longrightarrow> i = k"
    "j < pfn p \<Longrightarrow> \<not> bm_bit m (pool_bitmap p) j \<Longrightarrow> \<not> table_frame ph c (ppg p j)"
  using assms unfolding maps_ok_def by blast+

section \<open>One page\<close>

text \<open>Setting a bit of one bitmap leaves the other alone.\<close>

lemma pool_bit_vaddr:
  assumes "pools_ok p va" "j < pfn p" "i < vpn va"
  shows "bm_bit (set_bit_at m (pool_bitmap p) j v) (vaddr_bitmap va) i = bm_bit m (vaddr_bitmap va) i"
proof (rule bm_bit_cong [of _ "unat (btmp_bytes_len (vaddr_bitmap va))"])
  show "\<forall>a\<in>rng (bits (vaddr_bitmap va)) (unat (btmp_bytes_len (vaddr_bitmap va))).
      set_bit_at m (pool_bitmap p) j v a = m a"
    using assms(1,2) pools_okD(5) [OF assms(1)]
    by (auto simp: pools_ok_def intro!: set_bit_at_frame [of _ _ "unat (btmp_bytes_len (pool_bitmap p))"])
qed (use assms(3) pools_okD(6) [OF assms(1)] in auto)

lemma vaddr_bit_pool:
  assumes "pools_ok p va" "j < pfn p" "i < vpn va"
  shows "bm_bit (set_bit_at m (vaddr_bitmap va) i v) (pool_bitmap p) j = bm_bit m (pool_bitmap p) j"
proof (rule bm_bit_cong [of _ "unat (btmp_bytes_len (pool_bitmap p))"])
  show "\<forall>a\<in>rng (bits (pool_bitmap p)) (unat (btmp_bytes_len (pool_bitmap p))).
      set_bit_at m (vaddr_bitmap va) i v a = m a"
    using assms(1,3) pools_okD(6) [OF assms(1)]
    by (auto simp: pools_ok_def intro!: set_bit_at_frame [of _ _ "unat (btmp_bytes_len (vaddr_bitmap va))"])
qed (use assms(2) pools_okD(5) [OF assms(1)] in auto)

lemma palloc_ok:
  assumes "pools_ok p va" "free_frames p (kmem s) \<noteq> {}"
  shows "\<exists>j. j \<in> free_frames p (kmem s) \<and>
    palloc p s = Inr (ppg p j, s\<lparr>kmem := set_bit_at (kmem s) (pool_bitmap p) j True\<rparr>)"
proof -
  obtain i where "i < pfn p" "\<not> bm_bit (kmem s) (pool_bitmap p) i" using assms(2) by (auto simp: free_frames_def)
  then obtain j where j: "bitmap_scan (kmem s) (pool_bitmap p) 1 = Inr j" "unat j < pfn p" "\<not> bm_bit (kmem s) (pool_bitmap p) (unat j)"
    using bm.scan1_free [OF pools_okD(1) [OF assms(1)]] by blast
  have "j \<noteq> -1" by (rule bm.scan1_not_minus_one [OF pools_okD(1) [OF assms(1)] j(1)])
  moreover have "j * PG_SIZE + phy_addr_start p = ppg p (unat j)" by (simp add: pg_def PG_SIZE_def mult.commute add.commute)
  ultimately show ?thesis using j by (intro exI [of _ "unat j"]) (simp add: palloc_def bitmap_set_eq free_frames_def)
qed

lemma free_frames_take:
  assumes "pools_ok p va" "j \<in> free_frames p m"
  shows "free_frames p (set_bit_at m (pool_bitmap p) j True) = free_frames p m - {j}"
  using assms pools_okD(5) [OF assms(1)] by (auto simp: free_frames_def bm_bit_set_bit_at split: if_splits)

lemma page_table_add_present:
  assumes "self_mapped (phys s) (cr3 s)" "present (phys s (pde_addr (cr3 s) v))"
    "\<not> present (phys s (pte_addr (phys s) (cr3 s) v))"
  shows "page_table_add v pa s = Inr (s\<lparr>phys := (phys s)(pte_addr (phys s) (cr3 s) v := pa OR PG_US_U OR PG_RW_W OR PG_P_1)\<rparr>)"
proof -
  have "vload (pde_ptr v) s = Inr (phys s (pde_addr (cr3 s) v))" using assms(1) by (simp add: vload_def walk_pde_ptr)
  then show ?thesis
    using assms vload_pte [OF assms(1), of v] vstore_pte [OF assms(1,2)]
    by (simp add: page_table_add_def present_def Let_def)
qed

lemma table_frame_pte:
  assumes "tables_separate ph c" "present (ph (pde_addr c v))" "PDE_IDX v \<noteq> mask 10"
  shows "table_frame (ph(pte_addr ph c v := e)) c f \<longleftrightarrow> table_frame ph c f"
proof -
  have "(ph(pte_addr ph c v := e)) (pde_addr c w) = ph (pde_addr c w)" for w
    using pte_not_pde [OF assms, of w] by auto
  then show ?thesis by (simp add: table_frame_def)
qed

text \<open>Mapping a taken, unmapped page to a free frame.\<close>

lemma walk_none_pte:
  assumes "tables_ok va ph c" "k < vpn va" "walk ph c (vpg va k) = None"
  shows "\<not> present (ph (pte_addr ph c (vpg va k)))"
  using assms tables_okD(3) [OF assms(1,2)] by (auto simp: walk_def split: if_splits)

lemma map_page_ok:
  assumes ok: "vm_ok p va m ph c" and k: "k < vpn va" "bm_bit m (vaddr_bitmap va) k" "walk ph c (vpg va k) = None"
    and j: "j \<in> free_frames p m"
  defines "ph' \<equiv> ph(pte_addr ph c (vpg va k) := ppg p j OR PG_US_U OR PG_RW_W OR PG_P_1)"
    and "m' \<equiv> set_bit_at m (pool_bitmap p) j True"
  shows "vm_ok p va m' ph' c" "walk ph' c (vpg va k) = Some (ppg p j)" "\<And>w. frame w \<noteq> vpg va k \<Longrightarrow> walk ph' c w = walk ph c w"
proof -
  have po: "pools_ok p va" and to: "tables_ok va ph c" and mo: "maps_ok p va m ph c" using ok by (simp_all add: vm_ok_def)
  note pk = tables_okD(1) [OF to] tables_okD(3,4) [OF to k(1)]
  have jl: "j < pfn p" "\<not> bm_bit m (pool_bitmap p) j" using j by (simp_all add: free_frames_def)
  note fp = frame_pg [OF pools_okD(4) [OF po]] and fj = frame_pg [OF pools_okD(3) [OF po] jl(1)]
  show same: "walk ph' c (vpg va k) = Some (ppg p j)"
    unfolding ph'_def using walk_update_same [OF pk] entry_bits(1) [OF fj] entry_bits(2) offset_of_frame [OF fp [OF k(1)]] by simp
  show other: "walk ph' c w = walk ph c w" if "frame w \<noteq> vpg va k" for w
    unfolding ph'_def using walk_update_other [OF pk] that fp [OF k(1)] by simp
  have oi: "walk ph' c (vpg va i) = (if i = k then Some (ppg p j) else walk ph c (vpg va i))" if "i < vpn va" for i
    using same other [of "vpg va i"] fp [OF that] pg_inj [OF pools_okD(4) [OF po] that k(1)] by auto
  have tf: "table_frame ph' c f \<longleftrightarrow> table_frame ph c f" for f unfolding ph'_def by (rule table_frame_pte [OF pk])
  have bv: "bm_bit m' (vaddr_bitmap va) i = bm_bit m (vaddr_bitmap va) i" if "i < vpn va" for i
    unfolding m'_def by (rule pool_bit_vaddr [OF po jl(1) that])
  have bp: "bm_bit m' (pool_bitmap p) i = (i = j \<or> bm_bit m (pool_bitmap p) i)" if "i < pfn p" for i
    unfolding m'_def using bm_bit_set_bit_at [of j i] that jl pools_okD(5) [OF po] by auto
  have nj: "walk ph c (vpg va i) \<noteq> Some (ppg p j)" if "i < vpn va" for i
  proof
    assume "walk ph c (vpg va i) = Some (ppg p j)"
    from maps_okD(2) [OF mo that this] obtain j' where "j' < pfn p" "ppg p j = ppg p j'" "bm_bit m (pool_bitmap p) j'" by blast
    then show False using jl pg_inj [OF pools_okD(3) [OF po] jl(1)] by simp
  qed
  have "pde_addr c w \<noteq> pte_addr ph c (vpg va k)" for w using pte_not_pde [OF pk, of w] by simp
  then have "tables_ok va ph' c"
    using to tables_separate_pte [OF pk] unfolding tables_ok_def ph'_def by simp
  moreover have "maps_ok p va m' ph' c"
    unfolding maps_ok_def
  proof (intro conjI allI impI)
    fix i pa assume i: "i < vpn va" and w: "walk ph' c (vpg va i) = Some pa"
    then have c: "i = k \<and> pa = ppg p j \<or> i \<noteq> k \<and> walk ph c (vpg va i) = Some pa" using oi [OF i] by (cases "i = k") auto
    show "bm_bit m' (vaddr_bitmap va) i" using c k(2) maps_okD(1) [OF mo i] bv [OF i] by blast
    show "\<exists>j<pfn p. pa = ppg p j \<and> bm_bit m' (pool_bitmap p) j" using c jl maps_okD(2) [OF mo i] bp by blast
    show "\<not> table_frame ph' c pa" using c maps_okD(3) [OF mo i] maps_okD(5) [OF mo jl] tf by blast
  next
    fix i k' pa assume "i < vpn va" "k' < vpn va" "walk ph' c (vpg va i) = Some pa \<and> walk ph' c (vpg va k') = Some pa"
    then show "i = k'"
      using oi [of i] oi [of k'] nj [of i] nj [of k'] maps_okD(4) [OF mo, of i k' pa] by (auto split: if_splits)
  next
    fix i assume "i < pfn p" "\<not> bm_bit m' (pool_bitmap p) i"
    then show "\<not> table_frame ph' c (ppg p i)" using bp maps_okD(5) [OF mo] tf by auto
  qed
  ultimately show "vm_ok p va m' ph' c" using po by (simp add: vm_ok_def)
qed

section \<open>The loop of malloc\_page\<close>

lemma malloc_page_loop_ok:
  assumes "vm_ok p va (kmem s) (phys s) (cr3 s)" "k + n \<le> vpn va" "n \<le> card (free_frames p (kmem s))"
    and "\<And>i. i < n \<Longrightarrow> bm_bit (kmem s) (vaddr_bitmap va) (k + i) \<and> walk (phys s) (cr3 s) (vpg va (k + i)) = None"
  shows "\<exists>m ph. malloc_page_loop p n (vpg va k) s = Inr (True, s\<lparr>kmem := m, phys := ph\<rparr>) \<and> vm_ok p va m ph (cr3 s) \<and>
    (\<forall>i < n. \<exists>j \<in> free_frames p (kmem s). walk ph (cr3 s) (vpg va (k + i)) = Some (ppg p j)) \<and>
    (\<forall>w. (\<forall>i < n. frame w \<noteq> vpg va (k + i)) \<longrightarrow> walk ph (cr3 s) w = walk (phys s) (cr3 s) w) \<and>
    (\<forall>i < vpn va. bm_bit m (vaddr_bitmap va) i = bm_bit (kmem s) (vaddr_bitmap va) i) \<and>
    (\<forall>j < pfn p. bm_bit m (pool_bitmap p) j =
       (bm_bit (kmem s) (pool_bitmap p) j \<or> (\<exists>i < n. walk ph (cr3 s) (vpg va (k + i)) = Some (ppg p j))))"
  using assms
proof (induction n arbitrary: k s)
  case 0
  then show ?case by (intro exI [of _ "kmem s"] exI [of _ "phys s"]) simp
next
  case (Suc n)
  let ?c = "cr3 s"
  have po: "pools_ok p va" and to: "tables_ok va (phys s) ?c" using Suc.prems(1) by (simp_all add: vm_ok_def)
  have k: "k < vpn va" "bm_bit (kmem s) (vaddr_bitmap va) k" "walk (phys s) ?c (vpg va k) = None"
    using Suc.prems(2) Suc.prems(4) [of 0] by auto
  have "free_frames p (kmem s) \<noteq> {}" using Suc.prems(3) by auto
  then obtain j where j: "j \<in> free_frames p (kmem s)"
    "palloc p s = Inr (ppg p j, s\<lparr>kmem := set_bit_at (kmem s) (pool_bitmap p) j True\<rparr>)"
    using palloc_ok [OF po] by blast
  define m1 where "m1 = set_bit_at (kmem s) (pool_bitmap p) j True"
  define ph1 where "ph1 = (phys s)(pte_addr (phys s) ?c (vpg va k) := ppg p j OR PG_US_U OR PG_RW_W OR PG_P_1)"
  define s1 where "s1 = s\<lparr>kmem := m1, phys := ph1\<rparr>"
  have jn: "j < pfn p" using j(1) by (simp add: free_frames_def)
  have nz: "ppg p j \<noteq> NULL" by (rule pg_nonzero [OF pools_okD(3) [OF po] jn])
  note mp = map_page_ok [OF Suc.prems(1) k j(1), folded m1_def ph1_def]
  have add: "page_table_add (vpg va k) (ppg p j) (s\<lparr>kmem := m1\<rparr>) = Inr s1"
    using page_table_add_present [of "s\<lparr>kmem := m1\<rparr>" "vpg va k" "ppg p j"] tables_okD(2,3) [OF to] k(1)
      walk_none_pte [OF to k(1,3)] by (simp add: s1_def ph1_def)
  have fr: "free_frames p m1 = free_frames p (kmem s) - {j}" unfolding m1_def by (rule free_frames_take [OF po j(1)])
  have unm: "frame (vpg va (Suc k + i)) \<noteq> vpg va k" if "i < n" for i
    using that Suc.prems(2) pg_inj [OF pools_okD(4) [OF po], of "Suc k + i" k] frame_pg [OF pools_okD(4) [OF po], of "Suc k + i"] k(1)
    by simp
  have "\<exists>m ph. malloc_page_loop p n (vpg va (Suc k)) s1 = Inr (True, s1\<lparr>kmem := m, phys := ph\<rparr>) \<and> vm_ok p va m ph (cr3 s1) \<and>
    (\<forall>i < n. \<exists>j \<in> free_frames p (kmem s1). walk ph (cr3 s1) (vpg va (Suc k + i)) = Some (ppg p j)) \<and>
    (\<forall>w. (\<forall>i < n. frame w \<noteq> vpg va (Suc k + i)) \<longrightarrow> walk ph (cr3 s1) w = walk (phys s1) (cr3 s1) w) \<and>
    (\<forall>i < vpn va. bm_bit m (vaddr_bitmap va) i = bm_bit (kmem s1) (vaddr_bitmap va) i) \<and>
    (\<forall>j < pfn p. bm_bit m (pool_bitmap p) j =
       (bm_bit (kmem s1) (pool_bitmap p) j \<or> (\<exists>i < n. walk ph (cr3 s1) (vpg va (Suc k + i)) = Some (ppg p j))))"
  proof (rule Suc.IH)
    show "vm_ok p va (kmem s1) (phys s1) (cr3 s1)" using mp(1) by (simp add: s1_def)
    show "Suc k + n \<le> vpn va" using Suc.prems(2) by simp
    have "finite (free_frames p (kmem s))" by (simp add: free_frames_def)
    then show "n \<le> card (free_frames p (kmem s1))" using Suc.prems(3) j(1) fr by (simp add: s1_def card_Diff_singleton)
    show "bm_bit (kmem s1) (vaddr_bitmap va) (Suc k + i) \<and> walk (phys s1) (cr3 s1) (vpg va (Suc k + i)) = None" if "i < n" for i
      using Suc.prems(2) Suc.prems(4) [of "Suc i"] that pool_bit_vaddr [OF po jn, of "Suc k + i" "kmem s" True] mp(3) [OF unm [OF that]]
      by (simp add: s1_def m1_def)
  qed
  then obtain m ph where IH: "malloc_page_loop p n (vpg va (Suc k)) s1 = Inr (True, s\<lparr>kmem := m, phys := ph\<rparr>)" "vm_ok p va m ph ?c"
    "\<And>i. i < n \<Longrightarrow> \<exists>j \<in> free_frames p m1. walk ph ?c (vpg va (Suc k + i)) = Some (ppg p j)"
    "\<And>w. (\<forall>i < n. frame w \<noteq> vpg va (Suc k + i)) \<Longrightarrow> walk ph ?c w = walk ph1 ?c w"
    "\<And>i. i < vpn va \<Longrightarrow> bm_bit m (vaddr_bitmap va) i = bm_bit m1 (vaddr_bitmap va) i"
    "\<And>j. j < pfn p \<Longrightarrow> bm_bit m (pool_bitmap p) j =
       (bm_bit m1 (pool_bitmap p) j \<or> (\<exists>i < n. walk ph ?c (vpg va (Suc k + i)) = Some (ppg p j)))"
    by (auto simp: s1_def)
  have w0: "walk ph ?c (vpg va k) = Some (ppg p j)"
    using IH(4) [of "vpg va k"] mp(2) unm frame_pg [OF pools_okD(4) [OF po] k(1)] Suc.prems(2)
      frame_pg [OF pools_okD(4) [OF po]] by fastforce
  have "malloc_page_loop p (Suc n) (vpg va k) s = Inr (True, s\<lparr>kmem := m, phys := ph\<rparr>)"
    using IH(1) nz add by (simp add: j(2) m1_def [symmetric] pg_Suc)
  moreover have "\<forall>i < Suc n. \<exists>j \<in> free_frames p (kmem s). walk ph ?c (vpg va (k + i)) = Some (ppg p j)"
  proof (intro allI impI)
    fix i assume "i < Suc n"
    then show "\<exists>j \<in> free_frames p (kmem s). walk ph ?c (vpg va (k + i)) = Some (ppg p j)"
      using w0 j(1) IH(3) [of "i - 1"] fr by (cases i) auto
  qed
  moreover have "walk ph ?c w = walk (phys s) ?c w" if "\<forall>i < Suc n. frame w \<noteq> vpg va (k + i)" for w
    using IH(4) [of w] mp(3) [of w] that by (metis Suc_mono add_0_right add_Suc_shift zero_less_Suc)
  moreover have "bm_bit m (vaddr_bitmap va) i = bm_bit (kmem s) (vaddr_bitmap va) i" if "i < vpn va" for i
    using IH(5) [OF that] pool_bit_vaddr [OF po jn that] by (simp add: m1_def)
  moreover have "bm_bit m (pool_bitmap p) i = (bm_bit (kmem s) (pool_bitmap p) i \<or>
      (\<exists>l < Suc n. walk ph ?c (vpg va (k + l)) = Some (ppg p i)))" if "i < pfn p" for i
  proof -
    have "bm_bit m1 (pool_bitmap p) i = (i = j \<or> bm_bit (kmem s) (pool_bitmap p) i)"
      using that jn pools_okD(5) [OF po] by (simp add: m1_def bm_bit_set_bit_at)
    moreover have "i = j \<longleftrightarrow> walk ph ?c (vpg va k) = Some (ppg p i)"
      using w0 pg_inj [OF pools_okD(3) [OF po] that jn] by auto
    ultimately show ?thesis using IH(6) [OF that] by (auto simp: Ex_less_Suc2)
  qed
  ultimately show ?case using IH(2) by blast
qed

section \<open>Runs of virtual pages\<close>

primrec set_run :: "mem \<Rightarrow> bitmap \<Rightarrow> nat \<Rightarrow> nat \<Rightarrow> bool \<Rightarrow> mem" where
  "set_run m b k 0 v = m"
| "set_run m b k (Suc n) v = set_bit_at (set_run m b k n v) b (k + n) v"

lemma bm_bit_set_run:
  "k + n \<le> 4294967296 \<Longrightarrow> i < 4294967296 \<Longrightarrow>
    bm_bit (set_run m b k n v) b i = (if k \<le> i \<and> i < k + n then v else bm_bit m b i)"
  by (induction n) (auto simp: bm_bit_set_bit_at)

lemma set_run_pool:
  assumes "pools_ok p va" "k + n \<le> vpn va" "j < pfn p"
  shows "bm_bit (set_run m (vaddr_bitmap va) k n v) (pool_bitmap p) j = bm_bit m (pool_bitmap p) j"
  using assms(2) by (induction n) (simp_all add: vaddr_bit_pool [OF assms(1,3)])

lemma set_bits_eq:
  assumes "unat start + unat n \<le> 4294967296"
  shows "set_bits b start n (if v then 1 else 0) s = Inr (s\<lparr>kmem := set_run (kmem s) b (unat start) (unat n) v\<rparr>)"
proof -
  have "each_res (\<lambda>i m. bitmap_set m b (start + word_of_nat i) (if v then 1 else 0)) [0..<l] (kmem s) =
      Inr (set_run (kmem s) b (unat start) l v)" if "unat start + l \<le> 4294967296" for l
    using that
  proof (induction l)
    case (Suc l)
    then have "unat (start + word_of_nat l) = unat start + l"
      using unat_add_u32 [of start "word_of_nat l"] unat_word_of_nat_u32 [of l] by simp
    then show ?case using Suc by (simp add: each_res_append bitmap_set_eq)
  qed simp
  then show ?thesis using assms by (simp add: set_bits_def)
qed

lemma vaddr_get_ok:
  assumes po: "pools_ok p va" and va: "va = vaddr_pool pf s" and n: "n \<noteq> 0"
    and r: "s0 + unat n \<le> vpn va" "run_free (kmem s) (vaddr_bitmap va) s0 (unat n)"
    and u: "pf = PF_USER \<longrightarrow> unat (vaddr_start va) + 4096 * (s0 + unat n) \<le> 0xbffff000"
  shows "\<exists>k. k + unat n \<le> vpn va \<and> run_free (kmem s) (vaddr_bitmap va) k (unat n) \<and>
    vaddr_get pf n s = Inr (vpg va k, s\<lparr>kmem := set_run (kmem s) (vaddr_bitmap va) k (unat n) True\<rparr>)"
proof -
  let ?b = "vaddr_bitmap va" and ?m = "kmem s"
  define k where "k = (LEAST k. run_free ?m ?b k (unat n))"
  have k: "run_free ?m ?b k (unat n)" "k \<le> s0" unfolding k_def using r(2) by (rule LeastI, rule Least_le)
  have n1: "1 \<le> unat n" using n by (simp add: Suc_le_eq unat_gt_0)
  have kl: "k < vpn va" using k(2) r(1) n1 by linarith
  have "\<not> bm_bit ?m ?b s0" using r(2) n1 by (auto simp: run_free_def Suc_le_eq dest: spec [of _ 0])
  then have "\<exists>i < vpn va. \<not> bm_bit ?m ?b i" using r(1) n1 by (intro exI [of _ s0]) auto
  moreover have "\<exists>s. s + unat n \<le> vpn va + 1 \<and> run_free ?m ?b s (unat n)" using r by (intro exI [of _ s0]) simp
  ultimately have scan: "bitmap_scan ?m ?b n = Inr (word_of_nat k)"
    using bitmap_scan_run [OF pools_okD(2) [OF po] n, of ?m] by (simp add: k_def)
  have uk: "unat (word_of_nat k :: u32) = k" using kl pools_okD(6) [OF po] by (intro unat_word_of_nat_u32) simp
  have "vpn va < 4294967295" using nbits_lt [OF pools_okD(2) [OF po]] by simp
  then have "unat (word_of_nat k :: u32) \<noteq> unat (-1 :: u32)"
    using uk kl by (simp add: unsigned_minus_1_eq_mask mask_eq_exp_minus_1)
  then have "(word_of_nat k :: u32) \<noteq> -1" by metis
  moreover have "set_bits ?b (word_of_nat k) n 1 s = Inr (s\<lparr>kmem := set_run ?m ?b k (unat n) True\<rparr>)"
    using set_bits_eq [of "word_of_nat k" n ?b True s] uk k(2) r(1) pools_okD(6) [OF po] by simp
  moreover have "vpg va k < 0xc0000000 - PG_SIZE" if "pf = PF_USER"
    using u that unat_pg [OF pools_okD(4) [OF po] kl] k(2) n1 by (simp add: word_less_nat_alt PG_SIZE_def)
  ultimately have "vaddr_get pf n s = Inr (vpg va k, s\<lparr>kmem := set_run ?m ?b k (unat n) True\<rparr>)"
    using scan by (simp add: vaddr_get_def va [symmetric] Let_def split: pool_flags.split)
  then show ?thesis using k r(1) by (intro exI [of _ k]) simp
qed

lemma maps_ok_mono:
  assumes "maps_ok p va m ph c"
    and "\<And>j. j < pfn p \<Longrightarrow> bm_bit m' (pool_bitmap p) j = bm_bit m (pool_bitmap p) j"
    and "\<And>i. i < vpn va \<Longrightarrow> walk ph c (vpg va i) \<noteq> None \<Longrightarrow> bm_bit m' (vaddr_bitmap va) i"
  shows "maps_ok p va m' ph c"
  unfolding maps_ok_def
proof (intro conjI allI impI)
  fix i pa assume i: "i < vpn va" and w: "walk ph c (vpg va i) = Some pa"
  show "bm_bit m' (vaddr_bitmap va) i" using assms(3) [OF i] w by simp
  show "\<exists>j<pfn p. pa = ppg p j \<and> bm_bit m' (pool_bitmap p) j" using maps_okD(2) [OF assms(1) i w] assms(2) by blast
  show "\<not> table_frame ph c pa" by (rule maps_okD(3) [OF assms(1) i w])
next
  fix i k pa assume "i < vpn va" "k < vpn va" "walk ph c (vpg va i) = Some pa \<and> walk ph c (vpg va k) = Some pa"
  then show "i = k" using maps_okD(4) [OF assms(1)] by blast
next
  fix j assume "j < pfn p" "\<not> bm_bit m' (pool_bitmap p) j"
  then show "\<not> table_frame ph c (ppg p j)" using maps_okD(5) [OF assms(1)] assms(2) by blast
qed

lemma vm_ok_set_run:
  assumes "vm_ok p va m ph c" "k + n \<le> vpn va" "v \<or> (\<forall>i < n. walk ph c (vpg va (k + i)) = None)"
  shows "vm_ok p va (set_run m (vaddr_bitmap va) k n v) ph c"
proof -
  have po: "pools_ok p va" and mo: "maps_ok p va m ph c" using assms(1) by (simp_all add: vm_ok_def)
  have "maps_ok p va (set_run m (vaddr_bitmap va) k n v) ph c"
  proof (rule maps_ok_mono [OF mo])
    show "bm_bit (set_run m (vaddr_bitmap va) k n v) (pool_bitmap p) j = bm_bit m (pool_bitmap p) j" if "j < pfn p" for j
      by (rule set_run_pool [OF po assms(2) that])
    fix i assume i: "i < vpn va" "walk ph c (vpg va i) \<noteq> None"
    then have "v \<or> \<not> (k \<le> i \<and> i < k + n)" using assms(3) by (metis le_add_diff_inverse less_diff_conv2 add.commute)
    moreover have "bm_bit m (vaddr_bitmap va) i" using maps_okD(1) [OF mo i(1)] i(2) by auto
    ultimately show "bm_bit (set_run m (vaddr_bitmap va) k n v) (vaddr_bitmap va) i"
      using i(1) assms(2) pools_okD(6) [OF po] by (auto simp: bm_bit_set_run)
  qed
  then show ?thesis using assms(1) by (simp add: vm_ok_def)
qed

text \<open>The new mapping of \<open>n\<close> pages from page \<open>k\<close> on.\<close>

definition pages_mapped :: "pool \<Rightarrow> virtual_addr \<Rightarrow> nat \<Rightarrow> nat \<Rightarrow> mem \<Rightarrow> (u32 \<Rightarrow> u32) \<Rightarrow> (u32 \<Rightarrow> u32) \<Rightarrow> u32 \<Rightarrow> bool" where
  "pages_mapped p va k n m ph ph' c \<longleftrightarrow>
     (\<forall>i < n. \<exists>j \<in> free_frames p m. walk ph' c (vpg va (k + i)) = Some (ppg p j)) \<and>
     (\<forall>w. (\<forall>i < n. frame w \<noteq> vpg va (k + i)) \<longrightarrow> walk ph' c w = walk ph c w)"

lemma malloc_page_ok:
  assumes p: "p = mem_pool pf s" and va: "va = vaddr_pool pf s" and ok: "vm_ok p va (kmem s) (phys s) (cr3 s)"
    and n: "0 < n" "n < 3840" and r: "s0 + unat n \<le> vpn va" "run_free (kmem s) (vaddr_bitmap va) s0 (unat n)"
    and u: "pf = PF_USER \<longrightarrow> unat (vaddr_start va) + 4096 * (s0 + unat n) \<le> 0xbffff000"
    and f: "unat n \<le> card (free_frames p (kmem s))"
  shows "\<exists>k m ph. malloc_page pf n s = Inr (vpg va k, s\<lparr>kmem := m, phys := ph\<rparr>) \<and> k + unat n \<le> vpn va \<and>
    run_free (kmem s) (vaddr_bitmap va) k (unat n) \<and> vm_ok p va m ph (cr3 s) \<and>
    pages_mapped p va k (unat n) (kmem s) (phys s) ph (cr3 s) \<and>
    (\<forall>i < vpn va. bm_bit m (vaddr_bitmap va) i = (k \<le> i \<and> i < k + unat n \<or> bm_bit (kmem s) (vaddr_bitmap va) i)) \<and>
    (\<forall>j < pfn p. bm_bit m (pool_bitmap p) j =
       (bm_bit (kmem s) (pool_bitmap p) j \<or> (\<exists>i < unat n. walk ph (cr3 s) (vpg va (k + i)) = Some (ppg p j))))"
proof -
  let ?b = "vaddr_bitmap va"
  have po: "pools_ok p va" and mo: "maps_ok p va (kmem s) (phys s) (cr3 s)" using ok by (simp_all add: vm_ok_def)
  from vaddr_get_ok [OF po va _ r] u n obtain k where k: "k + unat n \<le> vpn va" "run_free (kmem s) ?b k (unat n)"
    "vaddr_get pf n s = Inr (vpg va k, s\<lparr>kmem := set_run (kmem s) ?b k (unat n) True\<rparr>)" by auto
  define m1 where "m1 = set_run (kmem s) ?b k (unat n) True"
  define s1 where "s1 = s\<lparr>kmem := m1\<rparr>"
  have m1: "bm_bit m1 ?b i = (k \<le> i \<and> i < k + unat n \<or> bm_bit (kmem s) ?b i)" if "i < vpn va" for i
    using that k(1) pools_okD(6) [OF po] by (auto simp: m1_def bm_bit_set_run)
  have ff: "free_frames p m1 = free_frames p (kmem s)"
    unfolding free_frames_def m1_def using set_run_pool [OF po k(1)] by blast
  have "\<exists>m ph. malloc_page_loop p (unat n) (vpg va k) s1 = Inr (True, s1\<lparr>kmem := m, phys := ph\<rparr>) \<and> vm_ok p va m ph (cr3 s1) \<and>
    (\<forall>i < unat n. \<exists>j \<in> free_frames p (kmem s1). walk ph (cr3 s1) (vpg va (k + i)) = Some (ppg p j)) \<and>
    (\<forall>w. (\<forall>i < unat n. frame w \<noteq> vpg va (k + i)) \<longrightarrow> walk ph (cr3 s1) w = walk (phys s1) (cr3 s1) w) \<and>
    (\<forall>i < vpn va. bm_bit m ?b i = bm_bit (kmem s1) ?b i) \<and>
    (\<forall>j < pfn p. bm_bit m (pool_bitmap p) j =
       (bm_bit (kmem s1) (pool_bitmap p) j \<or> (\<exists>i < unat n. walk ph (cr3 s1) (vpg va (k + i)) = Some (ppg p j))))"
  proof (rule malloc_page_loop_ok)
    show "vm_ok p va (kmem s1) (phys s1) (cr3 s1)" using vm_ok_set_run [OF ok k(1)] by (simp add: s1_def m1_def)
    show "unat n \<le> card (free_frames p (kmem s1))" using f ff by (simp add: s1_def)
    show "bm_bit (kmem s1) ?b (k + i) \<and> walk (phys s1) (cr3 s1) (vpg va (k + i)) = None" if "i < unat n" for i
    proof -
      have "k + i < vpn va" "\<not> bm_bit (kmem s) ?b (k + i)" using that k(1,2) by (auto simp: run_free_def)
      then show ?thesis using that m1 [of "k + i"] maps_okD(1) [OF mo, of "k + i"]
        by (cases "walk (phys s) (cr3 s) (vpg va (k + i))") (auto simp: s1_def)
    qed
  qed (rule k(1))
  then obtain m ph where L: "malloc_page_loop p (unat n) (vpg va k) s1 = Inr (True, s\<lparr>kmem := m, phys := ph\<rparr>)"
    "vm_ok p va m ph (cr3 s)" "pages_mapped p va k (unat n) (kmem s) (phys s) ph (cr3 s)"
    "\<forall>i < vpn va. bm_bit m ?b i = bm_bit m1 ?b i"
    "\<forall>j < pfn p. bm_bit m (pool_bitmap p) j =
       (bm_bit m1 (pool_bitmap p) j \<or> (\<exists>i < unat n. walk ph (cr3 s) (vpg va (k + i)) = Some (ppg p j)))"
    by (auto simp: s1_def ff pages_mapped_def)
  have mp: "bm_bit m1 (pool_bitmap p) j = bm_bit (kmem s) (pool_bitmap p) j" if "j < pfn p" for j
    unfolding m1_def by (rule set_run_pool [OF po k(1) that])
  have "0 < unat n" using n(1) by (simp add: word_less_nat_alt)
  then have "vpg va k \<noteq> NULL" using pg_nonzero [OF pools_okD(4) [OF po], of k] k(1) by simp
  moreover have "mem_pool pf s1 = p" by (simp add: s1_def p mem_pool_def split: pool_flags.split)
  ultimately have "malloc_page pf n s = Inr (vpg va k, s\<lparr>kmem := m, phys := ph\<rparr>)"
    using n k(3) L(1) by (simp add: malloc_page_def s1_def m1_def)
  then show ?thesis using k(1,2) L m1 mp by auto
qed

section \<open>Giving pages back\<close>

lemma unmap_page_ok:
  assumes ok: "vm_ok p va m ph c" and k: "k < vpn va" "walk ph c (vpg va k) = Some (ppg p j)" "j < pfn p"
  defines "ph' \<equiv> ph(pte_addr ph c (vpg va k) := ph (pte_addr ph c (vpg va k)) AND NOT PG_P_1)"
    and "m' \<equiv> set_bit_at m (pool_bitmap p) j False"
  shows "vm_ok p va m' ph' c" "walk ph' c (vpg va k) = None" "\<And>w. frame w \<noteq> vpg va k \<Longrightarrow> walk ph' c w = walk ph c w"
proof -
  have po: "pools_ok p va" and to: "tables_ok va ph c" and mo: "maps_ok p va m ph c" using ok by (simp_all add: vm_ok_def)
  note pk = tables_okD(1) [OF to] tables_okD(3,4) [OF to k(1)]
  note fp = frame_pg [OF pools_okD(4) [OF po]]
  show same: "walk ph' c (vpg va k) = None"
    unfolding ph'_def using walk_update_same [OF pk] not_present_cleared by simp
  show other: "walk ph' c w = walk ph c w" if "frame w \<noteq> vpg va k" for w
    unfolding ph'_def using walk_update_other [OF pk] that fp [OF k(1)] by simp
  have oi: "walk ph' c (vpg va i) = (if i = k then None else walk ph c (vpg va i))" if "i < vpn va" for i
    using same other [of "vpg va i"] fp [OF that] pg_inj [OF pools_okD(4) [OF po] that k(1)] by auto
  have tf: "table_frame ph' c f \<longleftrightarrow> table_frame ph c f" for f unfolding ph'_def by (rule table_frame_pte [OF pk])
  have bv: "bm_bit m' (vaddr_bitmap va) i = bm_bit m (vaddr_bitmap va) i" if "i < vpn va" for i
    unfolding m'_def by (rule pool_bit_vaddr [OF po k(3) that])
  have bp: "bm_bit m' (pool_bitmap p) i = (i \<noteq> j \<and> bm_bit m (pool_bitmap p) i)" if "i < pfn p" for i
    unfolding m'_def using bm_bit_set_bit_at [of j i] that k(3) pools_okD(5) [OF po] by auto
  have "pde_addr c w \<noteq> pte_addr ph c (vpg va k)" for w using pte_not_pde [OF pk, of w] by simp
  then have "tables_ok va ph' c"
    using to tables_separate_pte [OF pk] unfolding tables_ok_def ph'_def by simp
  moreover have "maps_ok p va m' ph' c"
    unfolding maps_ok_def
  proof (intro conjI allI impI)
    fix i pa assume i: "i < vpn va" and w: "walk ph' c (vpg va i) = Some pa"
    then have c: "i \<noteq> k" "walk ph c (vpg va i) = Some pa" using oi [OF i] by (cases "i = k"; simp)+
    show "bm_bit m' (vaddr_bitmap va) i" using maps_okD(1) [OF mo i c(2)] bv [OF i] by simp
    have "pa \<noteq> ppg p j" using maps_okD(4) [OF mo i k(1) c(2)] k(2) c(1) by blast
    then show "\<exists>j<pfn p. pa = ppg p j \<and> bm_bit m' (pool_bitmap p) j" using maps_okD(2) [OF mo i c(2)] bp by blast
    show "\<not> table_frame ph' c pa" using maps_okD(3) [OF mo i c(2)] tf by simp
  next
    fix i k' pa assume a: "i < vpn va" "k' < vpn va" "walk ph' c (vpg va i) = Some pa \<and> walk ph' c (vpg va k') = Some pa"
    then have "walk ph c (vpg va i) = Some pa" "walk ph c (vpg va k') = Some pa"
      using oi [of i] oi [of k'] by (cases "i = k"; cases "k' = k"; simp)+
    then show "i = k'" using maps_okD(4) [OF mo a(1,2)] by blast
  next
    fix i assume "i < pfn p" "\<not> bm_bit m' (pool_bitmap p) i"
    then show "\<not> table_frame ph' c (ppg p i)" using bp maps_okD(5) [OF mo] maps_okD(3) [OF mo k(1,2)] tf by blast
  qed
  ultimately show "vm_ok p va m' ph' c" using po by (simp add: vm_ok_def)
qed

text \<open>\<^verbatim>\<open>pfree\<close> tells the pools apart by the address: the kernel's frames lie below those of the user.\<close>

definition side_ok :: "bool \<Rightarrow> pool \<Rightarrow> 'a memsys_scheme \<Rightarrow> bool" where
  "side_ok user p s \<longleftrightarrow> (if user then p = user_pool s
     else p = kernel_pool s \<and> unat (phy_addr_start p) + 4096 * pfn p \<le> unat (phy_addr_start (user_pool s)))"

lemma side_frame:
  assumes "pools_ok p va" "side_ok user p s" "j < pfn p"
  shows "ppg p j \<ge> phy_addr_start (user_pool s) \<longleftrightarrow> user" "ppg p j \<ge> phy_addr_start p"
  using unat_pg [OF pools_okD(3) [OF assms(1)] assms(3)] assms(2,3)
  by (auto simp: side_ok_def word_le_nat_alt split: if_splits)

lemma pfree_ok:
  assumes "pools_ok p va" "side_ok user p s" "j < pfn p"
  shows "pfree (ppg p j) s = Inr (s\<lparr>kmem := set_bit_at (kmem s) (pool_bitmap p) j False\<rparr>)"
proof -
  have "(if ppg p j \<ge> phy_addr_start (user_pool s) then user_pool s else kernel_pool s) = p"
    using side_frame(1) [OF assms] assms(2) by (auto simp: side_ok_def split: if_splits)
  moreover have "unat (word_of_nat j :: u32) = j" using assms(3) pools_okD(5) [OF assms(1)] by (intro unat_word_of_nat_u32) simp
  ultimately show ?thesis
    using pg_index [OF pools_okD(3) [OF assms(1)] assms(3)] bitmap_set_eq [of 0 "kmem s" "pool_bitmap p" "word_of_nat j"]
    by (simp add: pfree_def)
qed

text \<open>
  The pages whose old translation the processor may still use after \<open>n\<close> pages from \<open>k\<close> on were given back: all of
  them, but for the page of the stack that \<^verbatim>\<open>invlpg\<close> names.
\<close>

definition stale_after :: "virtual_addr \<Rightarrow> nat \<Rightarrow> nat \<Rightarrow> 'a memsys_scheme \<Rightarrow> u32 set" where
  "stale_after va k n s = (if n = 0 then stale s else (stale s \<union> vpg va ` {k..<k + n}) - {frame (esp s - vaddr_slot s)})"

lemma stale_after_Suc:
  assumes "esp s' = esp s" "vaddr_slot s' = vaddr_slot s" "stale s' = insert (vpg va k) (stale s) - {frame (esp s - vaddr_slot s)}"
  shows "stale_after va (Suc k) n s' = stale_after va k (Suc n) s"
proof -
  have "{k..<k + Suc n} = insert k {Suc k..<Suc k + n}" by auto
  then show ?thesis using assms by (auto simp: stale_after_def)
qed

lemma mfree_page_loop_ok:
  assumes "vm_ok p va (kmem s) (phys s) (cr3 s)" "side_ok user p s" "k + n \<le> vpn va"
    and "\<And>i. i < n \<Longrightarrow> walk (phys s) (cr3 s) (vpg va (k + i)) \<noteq> None"
  shows "\<exists>m ph. mfree_page_loop user n (vpg va k) s = Inr (s\<lparr>kmem := m, phys := ph, stale := stale_after va k n s\<rparr>) \<and> vm_ok p va m ph (cr3 s) \<and>
    (\<forall>i < n. walk ph (cr3 s) (vpg va (k + i)) = None) \<and>
    (\<forall>w. (\<forall>i < n. frame w \<noteq> vpg va (k + i)) \<longrightarrow> walk ph (cr3 s) w = walk (phys s) (cr3 s) w) \<and>
    (\<forall>i < vpn va. bm_bit m (vaddr_bitmap va) i = bm_bit (kmem s) (vaddr_bitmap va) i) \<and>
    (\<forall>j < pfn p. bm_bit m (pool_bitmap p) j =
       (bm_bit (kmem s) (pool_bitmap p) j \<and> (\<forall>i < n. walk (phys s) (cr3 s) (vpg va (k + i)) \<noteq> Some (ppg p j))))"
  using assms
proof (induction n arbitrary: k s)
  case 0
  then show ?case by (intro exI [of _ "kmem s"] exI [of _ "phys s"]) (simp add: stale_after_def)
next
  case (Suc n)
  let ?c = "cr3 s"
  have po: "pools_ok p va" and to: "tables_ok va (phys s) ?c" and mo: "maps_ok p va (kmem s) (phys s) ?c"
    using Suc.prems(1) by (simp_all add: vm_ok_def)
  note vp = pools_okD(4) [OF po]
  have k: "k < vpn va" using Suc.prems(3) by simp
  obtain pa where "walk (phys s) ?c (vpg va k) = Some pa" using Suc.prems(4) [of 0] by auto
  with maps_okD(2) [OF mo k] obtain j where w: "walk (phys s) ?c (vpg va k) = Some (ppg p j)" and j: "j < pfn p" by blast
  define m1 where "m1 = set_bit_at (kmem s) (pool_bitmap p) j False"
  define ph1 where "ph1 = (phys s)(pte_addr (phys s) ?c (vpg va k) := phys s (pte_addr (phys s) ?c (vpg va k)) AND NOT PG_P_1)"
  define s1 where "s1 = s\<lparr>kmem := m1, phys := ph1, stale := insert (vpg va k) (stale s) - {frame (esp s - vaddr_slot s)}\<rparr>"
  note up = unmap_page_ok [OF Suc.prems(1) k w j, folded m1_def ph1_def]
  have v2p: "addr_v2p (vpg va k) s = Inr (ppg p j)" by (rule addr_v2p_walk [OF tables_okD(2) [OF to] w])
  have fj: "ppg p j mod PG_SIZE = 0" using frame_pg [OF pools_okD(3) [OF po] j] mod_PG_SIZE by simp
  have rem: "page_table_pte_remove (vpg va k) (s\<lparr>kmem := m1\<rparr>) = Inr s1"
    using clear_pte_eq [of "s\<lparr>kmem := m1\<rparr>" "vpg va k"] tables_okD(1) [OF to] tables_okD(3) [OF to k] frame_pg [OF vp k]
    by (simp add: page_table_pte_remove_def invlpg_def s1_def ph1_def)
  have side: "if user then ppg p j \<ge> phy_addr_start (user_pool s)
      else ppg p j \<ge> phy_addr_start (kernel_pool s) \<and> ppg p j < phy_addr_start (user_pool s)"
    using side_frame [OF po Suc.prems(2) j] Suc.prems(2) by (auto simp: side_ok_def not_le split: if_splits)
  have ne: "frame (vpg va (Suc k + i)) \<noteq> vpg va k" "vpg va (Suc k + i) \<noteq> vpg va k" if "i < n" for i
    using that Suc.prems(3) pg_inj [OF vp, of "Suc k + i" k] frame_pg [OF vp, of "Suc k + i"] k by simp_all
  have o: "walk ph1 ?c (vpg va (Suc k + i)) = walk (phys s) ?c (vpg va (Suc k + i))" if "i < n" for i
    using up(3) [OF ne(1) [OF that]] .
  have "\<exists>m ph. mfree_page_loop user n (vpg va (Suc k)) s1 = Inr (s1\<lparr>kmem := m, phys := ph, stale := stale_after va (Suc k) n s1\<rparr>) \<and> vm_ok p va m ph (cr3 s1) \<and>
    (\<forall>i < n. walk ph (cr3 s1) (vpg va (Suc k + i)) = None) \<and>
    (\<forall>w. (\<forall>i < n. frame w \<noteq> vpg va (Suc k + i)) \<longrightarrow> walk ph (cr3 s1) w = walk (phys s1) (cr3 s1) w) \<and>
    (\<forall>i < vpn va. bm_bit m (vaddr_bitmap va) i = bm_bit (kmem s1) (vaddr_bitmap va) i) \<and>
    (\<forall>j < pfn p. bm_bit m (pool_bitmap p) j =
       (bm_bit (kmem s1) (pool_bitmap p) j \<and> (\<forall>i < n. walk (phys s1) (cr3 s1) (vpg va (Suc k + i)) \<noteq> Some (ppg p j))))"
  proof (rule Suc.IH)
    show "vm_ok p va (kmem s1) (phys s1) (cr3 s1)" using up(1) by (simp add: s1_def)
    show "side_ok user p s1" using Suc.prems(2) by (cases user) (auto simp: side_ok_def s1_def)
    show "Suc k + n \<le> vpn va" using Suc.prems(3) by simp
    show "walk (phys s1) (cr3 s1) (vpg va (Suc k + i)) \<noteq> None" if "i < n" for i
      using o [OF that] Suc.prems(4) [of "Suc i"] that by (simp add: s1_def)
  qed
  then obtain m ph where IH: "mfree_page_loop user n (vpg va (Suc k)) s1 = Inr (s\<lparr>kmem := m, phys := ph, stale := stale_after va k (Suc n) s\<rparr>)" "vm_ok p va m ph ?c"
    "\<And>i. i < n \<Longrightarrow> walk ph ?c (vpg va (Suc k + i)) = None"
    "\<And>w. (\<forall>i < n. frame w \<noteq> vpg va (Suc k + i)) \<Longrightarrow> walk ph ?c w = walk ph1 ?c w"
    "\<And>i. i < vpn va \<Longrightarrow> bm_bit m (vaddr_bitmap va) i = bm_bit m1 (vaddr_bitmap va) i"
    "\<And>j. j < pfn p \<Longrightarrow> bm_bit m (pool_bitmap p) j =
       (bm_bit m1 (pool_bitmap p) j \<and> (\<forall>i < n. walk ph1 ?c (vpg va (Suc k + i)) \<noteq> Some (ppg p j)))"
    using stale_after_Suc [of s1 s va k n] by (auto simp: s1_def)
  have "\<forall>i < n. frame (vpg va k) \<noteq> vpg va (Suc k + i)" using ne(2) frame_pg [OF vp k] by metis
  then have w0: "walk ph ?c (vpg va k) = None" using IH(4) up(2) by simp
  have "mfree_page_loop user (Suc n) (vpg va k) s = Inr (s\<lparr>kmem := m, phys := ph, stale := stale_after va k (Suc n) s\<rparr>)"
    using IH(1) side fj rem pfree_ok [OF po Suc.prems(2) j] by (simp add: v2p m1_def [symmetric] pg_Suc)
  moreover have "\<forall>i < Suc n. walk ph ?c (vpg va (k + i)) = None"
  proof (intro allI impI)
    fix i assume "i < Suc n"
    then show "walk ph ?c (vpg va (k + i)) = None" using w0 IH(3) [of "i - 1"] by (cases i) auto
  qed
  moreover have "walk ph ?c v = walk (phys s) ?c v" if "\<forall>i < Suc n. frame v \<noteq> vpg va (k + i)" for v
    using IH(4) [of v] up(3) [of v] that by (metis Suc_mono add_0_right add_Suc_shift zero_less_Suc)
  moreover have "bm_bit m (vaddr_bitmap va) i = bm_bit (kmem s) (vaddr_bitmap va) i" if "i < vpn va" for i
    using IH(5) [OF that] pool_bit_vaddr [OF po j that] by (simp add: m1_def)
  moreover have "bm_bit m (pool_bitmap p) i = (bm_bit (kmem s) (pool_bitmap p) i \<and>
      (\<forall>l < Suc n. walk (phys s) ?c (vpg va (k + l)) \<noteq> Some (ppg p i)))" if "i < pfn p" for i
  proof -
    have "bm_bit m1 (pool_bitmap p) i = (i \<noteq> j \<and> bm_bit (kmem s) (pool_bitmap p) i)"
      using that j pools_okD(5) [OF po] by (simp add: m1_def bm_bit_set_bit_at)
    moreover have "i = j \<longleftrightarrow> walk (phys s) ?c (vpg va k) = Some (ppg p i)"
      using w pg_inj [OF pools_okD(3) [OF po] that j] by auto
    moreover have "(\<forall>l < Suc n. walk (phys s) ?c (vpg va (k + l)) \<noteq> Some (ppg p i)) \<longleftrightarrow>
        walk (phys s) ?c (vpg va k) \<noteq> Some (ppg p i) \<and> (\<forall>l < n. walk (phys s) ?c (vpg va (Suc k + l)) \<noteq> Some (ppg p i))"
      by (simp add: All_less_Suc2)
    ultimately show ?thesis using IH(6) [OF that] o by auto
  qed
  ultimately show ?case using IH(2) by blast
qed

lemma mfree_page_ok:
  assumes p: "side_ok user p s" and va: "va = vaddr_pool pf s" and ok: "vm_ok p va (kmem s) (phys s) (cr3 s)"
    and n: "1 \<le> n" "k + unat n \<le> vpn va" and lo: "0x102000 \<le> unat (phy_addr_start p)"
    and m: "\<And>i. i < unat n \<Longrightarrow> walk (phys s) (cr3 s) (vpg va (k + i)) \<noteq> None"
  shows "\<exists>m ph. mfree_page pf (vpg va k) n s = Inr (s\<lparr>kmem := m, phys := ph, stale := stale_after va k (unat n) s\<rparr>) \<and> vm_ok p va m ph (cr3 s) \<and>
    (\<forall>i < unat n. walk ph (cr3 s) (vpg va (k + i)) = None) \<and>
    (\<forall>w. (\<forall>i < unat n. frame w \<noteq> vpg va (k + i)) \<longrightarrow> walk ph (cr3 s) w = walk (phys s) (cr3 s) w) \<and>
    (\<forall>i < vpn va. bm_bit m (vaddr_bitmap va) i = (bm_bit (kmem s) (vaddr_bitmap va) i \<and> \<not> (k \<le> i \<and> i < k + unat n))) \<and>
    (\<forall>j < pfn p. bm_bit m (pool_bitmap p) j =
       (bm_bit (kmem s) (pool_bitmap p) j \<and> (\<forall>i < unat n. walk (phys s) (cr3 s) (vpg va (k + i)) \<noteq> Some (ppg p j))))"
proof -
  let ?b = "vaddr_bitmap va" and ?c = "cr3 s"
  have po: "pools_ok p va" and to: "tables_ok va (phys s) ?c" and mo: "maps_ok p va (kmem s) (phys s) ?c"
    using ok by (simp_all add: vm_ok_def)
  have n0: "0 < unat n" using n(1) by (simp add: word_le_nat_alt)
  then have k: "k < vpn va" using n(2) by simp
  obtain pa where "walk (phys s) ?c (vpg va k) = Some pa" using m [of 0] n0 by auto
  with maps_okD(2) [OF mo k] obtain j where w: "walk (phys s) ?c (vpg va k) = Some (ppg p j)" and j: "j < pfn p" by blast
  have v2p: "addr_v2p (vpg va k) s = Inr (ppg p j)" by (rule addr_v2p_walk [OF tables_okD(2) [OF to] w])
  have al: "vpg va k mod PG_SIZE = 0" "ppg p j mod PG_SIZE = 0"
    using frame_pg [OF pools_okD(4) [OF po] k] frame_pg [OF pools_okD(3) [OF po] j] mod_PG_SIZE by simp_all
  define st where "st = stale_after va k (unat n) s"
  have "ppg p j \<ge> 0x102000" using unat_pg [OF pools_okD(3) [OF po] j] lo by (simp add: word_le_nat_alt)
  moreover from mfree_page_loop_ok [OF ok p n(2) m, folded st_def] obtain m1 ph where L:
    "mfree_page_loop user (unat n) (vpg va k) s = Inr (s\<lparr>kmem := m1, phys := ph, stale := st\<rparr>)" "vm_ok p va m1 ph ?c"
    "\<forall>i < unat n. walk ph ?c (vpg va (k + i)) = None"
    "\<forall>w. (\<forall>i < unat n. frame w \<noteq> vpg va (k + i)) \<longrightarrow> walk ph ?c w = walk (phys s) ?c w"
    "\<forall>i < vpn va. bm_bit m1 ?b i = bm_bit (kmem s) ?b i"
    "\<forall>j < pfn p. bm_bit m1 (pool_bitmap p) j = (bm_bit (kmem s) (pool_bitmap p) j \<and>
       (\<forall>i < unat n. walk (phys s) ?c (vpg va (k + i)) \<noteq> Some (ppg p j)))"
    by blast
  define m2 where "m2 = set_run m1 ?b k (unat n) False"
  have uk: "unat (word_of_nat k :: u32) = k" using k pools_okD(6) [OF po] by (intro unat_word_of_nat_u32) simp
  have "vaddr_pool pf (s\<lparr>kmem := m1, phys := ph, stale := st\<rparr>) = va"
    by (simp add: va vaddr_pool_def running_thread_def split: pool_flags.split)
  then have "vaddr_remove pf (vpg va k) n (s\<lparr>kmem := m1, phys := ph, stale := st\<rparr>) = Inr (s\<lparr>kmem := m2, phys := ph, stale := st\<rparr>)"
    using set_bits_eq [of "word_of_nat k" n ?b False "s\<lparr>kmem := m1, phys := ph, stale := st\<rparr>"] uk n(2) pools_okD(6) [OF po]
      pg_index [OF pools_okD(4) [OF po] k] by (simp add: vaddr_remove_def m2_def)
  ultimately have "mfree_page pf (vpg va k) n s = Inr (s\<lparr>kmem := m2, phys := ph, stale := st\<rparr>)"
    using n(1) al v2p side_frame(1) [OF po p j] L(1) by (simp add: mfree_page_def)
  moreover have "vm_ok p va m2 ph ?c" unfolding m2_def by (rule vm_ok_set_run [OF L(2) n(2)]) (use L(3) in simp)
  moreover have "bm_bit m2 ?b i = (bm_bit (kmem s) ?b i \<and> \<not> (k \<le> i \<and> i < k + unat n))" if "i < vpn va" for i
    using that L(5) n(2) pools_okD(6) [OF po] by (auto simp: m2_def bm_bit_set_run)
  moreover have "bm_bit m2 (pool_bitmap p) j = bm_bit m1 (pool_bitmap p) j" if "j < pfn p" for j
    unfolding m2_def by (rule set_run_pool [OF po n(2) that])
  ultimately show ?thesis using L(3,4,6) unfolding st_def by auto
qed

section \<open>A small system\<close>

text \<open>Eight frames from 0x200000 for the kernel and eight behind them for the user; eight pages at the start of the heap.\<close>

definition demo_kpool :: pool where
  "demo_kpool = \<lparr>pool_bitmap = \<lparr>btmp_bytes_len = 1, bits = 0xc009a000\<rparr>, phy_addr_start = 0x200000, pool_size = 0x8000,
     pool_lock = 0xc0007300\<rparr>"

definition demo_upool :: pool where
  "demo_upool = \<lparr>pool_bitmap = \<lparr>btmp_bytes_len = 1, bits = 0xc009a001\<rparr>, phy_addr_start = 0x208000, pool_size = 0x8000,
     pool_lock = 0xc0007400\<rparr>"

definition demo_va :: virtual_addr where
  "demo_va = \<lparr>vaddr_bitmap = \<lparr>btmp_bytes_len = 1, bits = 0xc009a002\<rparr>, vaddr_start = 0xc0100000\<rparr>"

definition demo_mem :: memsys where
  "demo_mem = consys.extend demo_con \<lparr>kernel_pool = demo_kpool, user_pool = demo_upool, kernel_vaddr = demo_va,
     block_descs = (\<lambda>_. \<lparr>block_size = 0, blocks_per_arena = 0\<rparr>), arenas = (\<lambda>_. \<lparr>desc = NULL, cnt = 0, large = False\<rparr>),
     k_block_descs = 0xc0007800, vaddr_slot = 0x20\<rparr>"

lemma demo_mem_fields:
  "kernel_pool demo_mem = demo_kpool" "user_pool demo_mem = demo_upool" "kernel_vaddr demo_mem = demo_va"
  "kmem demo_mem = (\<lambda>_. 0)(0xc0008000 := 0x4f, 0xc0008001 := 0x4b)" "phys demo_mem = demo_phys" "cr3 demo_mem = 0x100000"
proof -
  show "kmem demo_mem = (\<lambda>_. 0)(0xc0008000 := 0x4f, 0xc0008001 := 0x4b)"
    using demo_con_facts(8) by (simp add: demo_mem_def consys.defs)
  show "phys demo_mem = demo_phys" "cr3 demo_mem = 0x100000"
    by (simp_all add: demo_mem_def consys.defs demo_con_def lock_init_fields console_init_def demo_kbd_def demo_dev_def kbdsys.defs devsys.defs
        tsys.defs demo_tsys_fields)
qed (simp_all add: demo_mem_def consys.defs)

lemma demo_bit: "\<not> bm_bit (kmem demo_mem) \<lparr>btmp_bytes_len = 1, bits = b\<rparr> i"
  if "b \<in> {0xc009a000, 0xc009a001, 0xc009a002}" "i < 8"
  using that by (auto simp: demo_mem_fields bm_bit_def)

lemma demo_page:
  assumes "i < 8"
  shows "PDE_IDX (pg 0xc0100000 i) = 0x300" "PTE_IDX (pg 0xc0100000 i) = 0x100 + word_of_nat i"
proof -
  have "i \<in> set [0..<8]" using assms by simp
  moreover have "\<forall>i\<in>set [0..<8]. PDE_IDX (pg 0xc0100000 i) = 0x300 \<and> PTE_IDX (pg 0xc0100000 i) = 0x100 + word_of_nat i"
    by (simp add: upt_rec pg_def PDE_IDX_def PTE_IDX_def)
  ultimately show "PDE_IDX (pg 0xc0100000 i) = 0x300" "PTE_IDX (pg 0xc0100000 i) = 0x100 + word_of_nat i" by blast+
qed

lemma demo_unmapped: "i < 8 \<Longrightarrow> walk demo_phys 0x100000 (pg 0xc0100000 i) = None"
proof -
  assume i: "i < 8"
  then have "i \<in> set [0..<8]" by simp
  moreover have "\<forall>i\<in>set [0..<8]. demo_phys (0x101000 + (0x100 + word_of_nat i) * 4) = 0"
    by (simp add: upt_rec demo_phys_def)
  ultimately have "demo_phys (0x101000 + (0x100 + word_of_nat i) * 4) = 0" by blast
  moreover have "frame (demo_phys (pde_addr 0x100000 (pg 0xc0100000 i))) = 0x101000"
    by (simp add: pde_addr_def demo_page(1) [OF i] demo_phys_def frame_def)
  ultimately show ?thesis
    by (simp add: walk_def pte_addr_def demo_page(2) [OF i] present_def)
qed

lemma demo_table_frames: "table_frame demo_phys 0x100000 f \<Longrightarrow> f = 0x100000 \<or> f = 0x101000"
  unfolding table_frame_def demo_pde by (auto simp: pde_addr_def frame_def demo_phys_def)

lemma demo_vm_ok: "vm_ok demo_kpool demo_va (kmem demo_mem) (phys demo_mem) (cr3 demo_mem)"
proof -
  have "pools_ok demo_kpool demo_va"
    using rng_disjoint [of 1 "0xc009a002" "0xc009a000" 1]
    by (simp add: pools_ok_def demo_kpool_def demo_va_def bm_ok_def pages_def frame_def)
  moreover have "tables_ok demo_va demo_phys 0x100000"
    using demo_tables demo_page(1) by (auto simp: tables_ok_def demo_va_def demo_pde mask_eq_exp_minus_1)
  moreover have "maps_ok demo_kpool demo_va (kmem demo_mem) demo_phys 0x100000"
  proof -
    have "\<forall>j\<in>set [0..<8]. pg 0x200000 j \<noteq> 0x100000 \<and> pg 0x200000 j \<noteq> 0x101000" by (simp add: upt_rec pg_def)
    then have "\<not> table_frame demo_phys 0x100000 (pg 0x200000 j)" if "j < 8" for j
      using demo_table_frames [of "pg 0x200000 j"] bspec [of "set [0..<8]" _ j] that by auto
    then show ?thesis using demo_unmapped by (simp add: maps_ok_def demo_va_def demo_kpool_def)
  qed
  ultimately show ?thesis by (simp add: vm_ok_def demo_mem_fields)
qed

lemma demo_free:
  "free_frames demo_kpool (kmem demo_mem) = {0..<8}" "run_free (kmem demo_mem) (vaddr_bitmap demo_va) 0 3"
  "side_ok False demo_kpool demo_mem"
  using demo_bit by (auto simp: free_frames_def demo_kpool_def demo_upool_def demo_va_def run_free_def side_ok_def demo_mem_fields)

section \<open>Properties\<close>

text \<open>
  C17: Page allocation: when the virtual addresses have a run of \<open>n\<close> free pages and the pool has \<open>n\<close>
  free frames, \<^verbatim>\<open>malloc_page\<close> returns the address of such a run and maps its pages to frames that
  were free; every other address translates as before; only the bits of the run change; and the
  invariant is kept, so no frame is ever mapped twice.
\<close>
theorem malloc_page_maps:
  assumes "vm_ok (mem_pool pf s) (vaddr_pool pf s) (kmem s) (phys s) (cr3 s)" "0 < n" "n < 3840"
    and "s0 + unat n \<le> vpn (vaddr_pool pf s)" "run_free (kmem s) (vaddr_bitmap (vaddr_pool pf s)) s0 (unat n)"
    and "pf = PF_USER \<longrightarrow> unat (vaddr_start (vaddr_pool pf s)) + 4096 * (s0 + unat n) \<le> 0xbffff000"
    and "unat n \<le> card (free_frames (mem_pool pf s) (kmem s))"
  shows "\<exists>k s'. malloc_page pf n s = Inr (vpg (vaddr_pool pf s) k, s') \<and>
    vm_ok (mem_pool pf s) (vaddr_pool pf s) (kmem s') (phys s') (cr3 s) \<and>
    pages_mapped (mem_pool pf s) (vaddr_pool pf s) k (unat n) (kmem s) (phys s) (phys s') (cr3 s) \<and>
    run_free (kmem s) (vaddr_bitmap (vaddr_pool pf s)) k (unat n) \<and>
    (\<forall>i < vpn (vaddr_pool pf s). bm_bit (kmem s') (vaddr_bitmap (vaddr_pool pf s)) i =
      (k \<le> i \<and> i < k + unat n \<or> bm_bit (kmem s) (vaddr_bitmap (vaddr_pool pf s)) i))"
  proof -
  from malloc_page_ok [OF refl refl assms] obtain k m ph where
    "malloc_page pf n s = Inr (vpg (vaddr_pool pf s) k, s\<lparr>kmem := m, phys := ph\<rparr>)"
    "run_free (kmem s) (vaddr_bitmap (vaddr_pool pf s)) k (unat n)"
    "vm_ok (mem_pool pf s) (vaddr_pool pf s) m ph (cr3 s)"
    "pages_mapped (mem_pool pf s) (vaddr_pool pf s) k (unat n) (kmem s) (phys s) ph (cr3 s)"
    "\<forall>i < vpn (vaddr_pool pf s). bm_bit m (vaddr_bitmap (vaddr_pool pf s)) i =
      (k \<le> i \<and> i < k + unat n \<or> bm_bit (kmem s) (vaddr_bitmap (vaddr_pool pf s)) i)" by blast
  then show ?thesis by (intro exI [of _ k] exI [of _ "s\<lparr>kmem := m, phys := ph\<rparr>"]) simp
qed

theorem malloc_page_maps_witness:
  "\<exists>k s'. malloc_page PF_KERNEL 3 demo_mem = Inr (vpg demo_va k, s') \<and> vm_ok demo_kpool demo_va (kmem s') (phys s') 0x100000"
proof -
  have "3 \<le> vpn demo_va" by (simp add: demo_va_def)
  then show ?thesis
    using malloc_page_maps [of PF_KERNEL demo_mem 3 0] demo_vm_ok demo_free
    by (simp add: mem_pool_def vaddr_pool_def demo_mem_fields) blast
qed

text \<open>
  C18: \<^verbatim>\<open>mfree_page\<close> undoes \<^verbatim>\<open>malloc_page\<close> in the tables: giving back the pages just allocated succeeds, and afterwards
  the page tables translate every address as before the allocation and every bit of both bitmaps is as it
  was. It does not undo what the processor remembers: since \<^verbatim>\<open>invlpg\<close> names the variable and not the page,
  every page given back is left with a stale translation, and only the page of the stack that holds the
  variable is flushed.
\<close>
theorem mfree_page_undoes_malloc_page:
  assumes "vm_ok (mem_pool pf s) (vaddr_pool pf s) (kmem s) (phys s) (cr3 s)" "0 < n" "n < 3840"
    and "s0 + unat n \<le> vpn (vaddr_pool pf s)" "run_free (kmem s) (vaddr_bitmap (vaddr_pool pf s)) s0 (unat n)"
    and "pf = PF_USER \<longrightarrow> unat (vaddr_start (vaddr_pool pf s)) + 4096 * (s0 + unat n) \<le> 0xbffff000"
    and "unat n \<le> card (free_frames (mem_pool pf s) (kmem s))"
    and "side_ok (pf = PF_USER) (mem_pool pf s) s" "0x102000 \<le> unat (phy_addr_start (mem_pool pf s))"
  shows "\<exists>k s1 s2. malloc_page pf n s = Inr (vpg (vaddr_pool pf s) k, s1) \<and> mfree_page pf (vpg (vaddr_pool pf s) k) n s1 = Inr s2 \<and>
    stale s2 = (stale s \<union> vpg (vaddr_pool pf s) ` {k..<k + unat n}) - {frame (esp s - vaddr_slot s)} \<and>
    (\<forall>w. walk (phys s2) (cr3 s2) w = walk (phys s) (cr3 s) w) \<and>
    (\<forall>i < vpn (vaddr_pool pf s). bm_bit (kmem s2) (vaddr_bitmap (vaddr_pool pf s)) i = bm_bit (kmem s) (vaddr_bitmap (vaddr_pool pf s)) i) \<and>
    (\<forall>j < pfn (mem_pool pf s). bm_bit (kmem s2) (pool_bitmap (mem_pool pf s)) j = bm_bit (kmem s) (pool_bitmap (mem_pool pf s)) j)"
proof -
  let ?p = "mem_pool pf s" and ?va = "vaddr_pool pf s" and ?b = "vaddr_bitmap (vaddr_pool pf s)" and ?c = "cr3 s"
  obtain k m ph where M: "malloc_page pf n s = Inr (vpg ?va k, s\<lparr>kmem := m, phys := ph\<rparr>)" "k + unat n \<le> vpn ?va"
    "run_free (kmem s) ?b k (unat n)" "vm_ok ?p ?va m ph ?c" "pages_mapped ?p ?va k (unat n) (kmem s) (phys s) ph ?c"
    "\<forall>i < vpn ?va. bm_bit m ?b i = (k \<le> i \<and> i < k + unat n \<or> bm_bit (kmem s) ?b i)"
    "\<forall>j < pfn ?p. bm_bit m (pool_bitmap ?p) j =
       (bm_bit (kmem s) (pool_bitmap ?p) j \<or> (\<exists>i < unat n. walk ph ?c (vpg ?va (k + i)) = Some (ppg ?p j)))"
    using malloc_page_ok [OF refl refl assms(1-7)] by blast
  define s1 where "s1 = s\<lparr>kmem := m, phys := ph\<rparr>"
  have mo: "maps_ok ?p ?va (kmem s) (phys s) ?c" and po: "pools_ok ?p ?va" using assms(1) by (simp_all add: vm_ok_def)
  have "side_ok (pf = PF_USER) ?p s1" using assms(8) by (cases pf) (auto simp: side_ok_def s1_def)
  moreover have "?va = vaddr_pool pf s1" by (simp add: s1_def vaddr_pool_def running_thread_def split: pool_flags.split)
  moreover have "vm_ok ?p ?va (kmem s1) (phys s1) (cr3 s1)" "1 \<le> n"
    using M(4) assms(2) by (simp_all add: s1_def word_le_nat_alt word_less_nat_alt)
  moreover have "walk (phys s1) (cr3 s1) (vpg ?va (k + i)) \<noteq> None" if "i < unat n" for i
    using M(5) that by (auto simp: pages_mapped_def s1_def)
  ultimately obtain m2 ph2 where F: "mfree_page pf (vpg ?va k) n s1 = Inr (s1\<lparr>kmem := m2, phys := ph2, stale := stale_after ?va k (unat n) s1\<rparr>)"
    "\<forall>i < unat n. walk ph2 ?c (vpg ?va (k + i)) = None"
    "\<forall>w. (\<forall>i < unat n. frame w \<noteq> vpg ?va (k + i)) \<longrightarrow> walk ph2 ?c w = walk ph ?c w"
    "\<forall>i < vpn ?va. bm_bit m2 ?b i = (bm_bit m ?b i \<and> \<not> (k \<le> i \<and> i < k + unat n))"
    "\<forall>j < pfn ?p. bm_bit m2 (pool_bitmap ?p) j = (bm_bit m (pool_bitmap ?p) j \<and>
       (\<forall>i < unat n. walk ph ?c (vpg ?va (k + i)) \<noteq> Some (ppg ?p j)))"
    using mfree_page_ok [of "pf = PF_USER" ?p s1 ?va pf n k] M(2) assms(9) by (auto simp: s1_def)
  have "walk ph2 ?c w = walk (phys s) ?c w" for w
  proof (cases "\<exists>i < unat n. frame w = vpg ?va (k + i)")
    case True
    then obtain i where i: "i < unat n" "frame w = vpg ?va (k + i)" by blast
    then have "k + i < vpn ?va" "\<not> bm_bit (kmem s) ?b (k + i)" using M(2,3) by (auto simp: run_free_def)
    then have "walk (phys s) ?c (vpg ?va (k + i)) = None" using maps_okD(1) [OF mo] by (metis option.exhaust)
    then show ?thesis
      using F(2) i walk_frame [of w w ph2 ?c] walk_frame [of w w "phys s" ?c] by simp
  next
    case False
    then show ?thesis using F(3) M(5) by (auto simp: pages_mapped_def)
  qed
  moreover have "bm_bit m2 ?b i = bm_bit (kmem s) ?b i" if "i < vpn ?va" for i
    using that F(4) M(3,6) unfolding run_free_def by (metis add.commute le_add_diff_inverse2 less_diff_conv2)
  moreover have "bm_bit m2 (pool_bitmap ?p) j = bm_bit (kmem s) (pool_bitmap ?p) j" if j: "j < pfn ?p" for j
  proof -
    have "walk ph ?c (vpg ?va (k + i)) \<noteq> Some (ppg ?p j)" if "i < unat n" "bm_bit (kmem s) (pool_bitmap ?p) j" for i
    proof
      assume w: "walk ph ?c (vpg ?va (k + i)) = Some (ppg ?p j)"
      from M(5) that(1) obtain j' where "j' \<in> free_frames ?p (kmem s)" "walk ph ?c (vpg ?va (k + i)) = Some (ppg ?p j')"
        unfolding pages_mapped_def by blast
      then show False using w that(2) j pg_inj [OF pools_okD(3) [OF po] j, of j'] by (auto simp: free_frames_def)
    qed
    then show ?thesis using F(5) M(7) j by blast
  qed
  moreover have "stale_after ?va k (unat n) s1 = (stale s \<union> vpg ?va ` {k..<k + unat n}) - {frame (esp s - vaddr_slot s)}"
    using assms(2) by (simp add: stale_after_def s1_def unat_eq_zero)
  ultimately show ?thesis using M(1) F(1)
    by (intro exI [of _ k] exI [of _ s1] exI [of _ "s1\<lparr>kmem := m2, phys := ph2, stale := stale_after ?va k (unat n) s1\<rparr>"]) (simp add: s1_def)
qed

theorem mfree_page_undoes_malloc_page_witness:
  "\<exists>k s1 s2. malloc_page PF_KERNEL 3 demo_mem = Inr (vpg demo_va k, s1) \<and> mfree_page PF_KERNEL (vpg demo_va k) 3 s1 = Inr s2 \<and>
    stale s2 = (stale demo_mem \<union> vpg demo_va ` {k..<k + 3}) - {frame (esp demo_mem - vaddr_slot demo_mem)} \<and>
    (\<forall>w. walk (phys s2) (cr3 s2) w = walk demo_phys 0x100000 w)"
proof -
  have "0x102000 \<le> unat (phy_addr_start demo_kpool)" "3 \<le> vpn demo_va" by (simp_all add: demo_kpool_def demo_va_def)
  then show ?thesis
    using mfree_page_undoes_malloc_page [of PF_KERNEL demo_mem 3 0] demo_vm_ok demo_free
    by (simp add: mem_pool_def vaddr_pool_def demo_mem_fields) blast
qed

end
