(* ===== verification/Heap.thy ===== *)
theory Heap
  imports Pages
begin

text \<open>
  The heap of small blocks in \<^verbatim>\<open>kernel/memory.c\<close>: where the blocks of an arena lie, and what \<^verbatim>\<open>sys_malloc\<close> and
  \<^verbatim>\<open>sys_free\<close> do to the free list and the counter of an arena.
\<close>

section \<open>Geometry\<close>

text \<open>A block of \<open>n\<close> bytes: behind the header of its page, at a multiple of its size, inside the page.\<close>

definition in_class :: "nat \<Rightarrow> u32 \<Rightarrow> bool" where
  "in_class n b \<longleftrightarrow> (\<exists>i. unat b mod 4096 = 12 + i * n \<and> 12 + (i + 1) * n \<le> 4096)"

lemma in_class_fits: "in_class n b \<Longrightarrow> unat b mod 4096 + n \<le> 4096"
  by (auto simp: in_class_def)

lemma in_class_end: "in_class n b \<Longrightarrow> unat b + n \<le> 4294967296"
proof -
  assume "in_class n b"
  then have "unat b mod 4096 + n \<le> 4096" by (rule in_class_fits)
  moreover have "unat b = 4096 * (unat b div 4096) + unat b mod 4096" by simp
  moreover have "unat b div 4096 < 1048576" using unat_u32_lt [of b] by (simp add: less_mult_imp_div_less)
  ultimately show ?thesis by linarith
qed

lemma in_class_arena: "in_class n b \<Longrightarrow> x \<in> rng b n \<Longrightarrow> block2arena x = block2arena b"
proof -
  assume c: "in_class n b" and x: "x \<in> rng b n"
  have x': "unat b \<le> unat x" "unat x < unat b + n" using x rng_interval [OF in_class_end [OF c]] by simp_all
  obtain p r where p: "unat b = 4096 * p + r" "r < 4096" "unat b div 4096 = p" "unat b mod 4096 = r"
    using mult_div_mod_eq [of 4096 "unat b"] mod_less_divisor [of 4096 "unat b"] by (metis zero_less_numeral)
  then have "r + n \<le> 4096" using in_class_fits [OF c] by simp
  then have "unat b + n \<le> 4096 * (p + 1)" unfolding p(1) by simp
  then have "unat x < 4096 * (p + 1)" using x'(2) by (rule less_le_trans [rotated])
  moreover have "4096 * p \<le> unat x" using x'(1) unfolding p(1) by simp
  ultimately have "unat x div 4096 = unat b div 4096" unfolding p(3) by (intro div_nat_eqI) simp_all
  then have "unat (frame x) = unat (frame b)" by (simp add: unat_frame)
  then show ?thesis by (simp add: block2arena_def frame_def word_unat_eq_iff)
qed

text \<open>Different blocks of one size do not overlap.\<close>

lemma in_class_apart:
  assumes "in_class n b" "in_class n c" "b \<noteq> c"
  shows "rng b n \<inter> rng c n = {}"
proof (rule equals0I)
  fix x assume x: "x \<in> rng b n \<inter> rng c n"
  then have "block2arena b = block2arena c" using in_class_arena assms(1,2) by (metis IntD1 IntD2)
  then have "unat (frame b) = unat (frame c)" by (simp add: block2arena_def frame_def)
  then have p: "unat b div 4096 = unat c div 4096" by (simp add: unat_frame)
  obtain i j where i: "unat b mod 4096 = 12 + i * n" and j: "unat c mod 4096 = 12 + j * n" using assms(1,2) by (auto simp: in_class_def)
  have b: "unat b = 4096 * (unat b div 4096) + (12 + i * n)" "unat c = 4096 * (unat b div 4096) + (12 + j * n)"
    using i j p by (metis mult_div_mod_eq)+
  then have "i \<noteq> j" using assms(3) by (auto simp: word_unat_eq_iff)
  then consider "i + 1 \<le> j" | "j + 1 \<le> i" by linarith
  then show False
  proof cases
    case 1
    then have "(i + 1) * n \<le> j * n" by (rule mult_le_mono1)
    then show False using x b in_class_end [OF assms(1)] in_class_end [OF assms(2)] by (auto simp: rng_interval)
  next
    case 2
    then have "(j + 1) * n \<le> i * n" by (rule mult_le_mono1)
    then show False using x b in_class_end [OF assms(1)] in_class_end [OF assms(2)] by (auto simp: rng_interval)
  qed
qed

text \<open>The blocks that \<^verbatim>\<open>arena2block\<close> cuts from an arena are of this kind, and \<^verbatim>\<open>block2arena\<close> leads back.\<close>

lemma arena2block_class:
  assumes "frame a = a" "d = desc (arenas s a)" "n = unat (block_size (block_descs s d))" "unat idx < (4096 - 12) div n"
  shows "in_class n (arena2block a idx s)" "block2arena (arena2block a idx s) = a"
proof -
  have n: "0 < n" using assms(4) by (cases n) simp_all
  have "(unat idx + 1) * n \<le> (4096 - 12) div n * n" using assms(4) by (intro mult_le_mono1) linarith
  then have le: "12 + (unat idx + 1) * n \<le> 4096" using div_times_less_eq_dividend [of "4096 - 12" n] by linarith
  then have lt: "12 + unat idx * n < 4096" using n by (simp add: algebra_simps)
  have "4096 dvd unat a" using assms(1) by (simp add: frame_id_iff)
  then obtain p where p: "unat a = 4096 * p" by (auto elim: dvdE)
  then have "p < 1048576" using unat_u32_lt [of a] by linarith
  then have "unat a + 4096 \<le> 4294967296" using p by simp
  moreover have i: "unat (idx * block_size (block_descs s d)) = unat idx * n" using lt assms(3) by (subst unat_mult_u32) simp_all
  ultimately have u: "unat (arena2block a idx s) = 4096 * p + (12 + unat idx * n)"
    using lt p unfolding arena2block_def assms(2) [symmetric] by (subst unat_add_u32; subst unat_add_u32; simp)
  then have "unat (arena2block a idx s) mod 4096 = 12 + unat idx * n" using lt by (metis mod_mult_self4 mod_less add.commute)
  then show c: "in_class n (arena2block a idx s)" using le by (auto simp: in_class_def)
  have "unat (arena2block a idx s) div 4096 = p" using u lt by simp
  then have "unat (frame (arena2block a idx s)) = unat a" using p by (simp add: unat_frame)
  then show "block2arena (arena2block a idx s) = a" by (simp add: block2arena_def frame_def word_unat_eq_iff)
qed

section \<open>Links in the bytes of free blocks\<close>

text \<open>A free block is a list element in its first eight bytes; so are the ends of the list in the descriptor.\<close>

definition link_area :: "u32 \<Rightarrow> u32 list \<Rightarrow> u32 set" where
  "link_area l bs = (\<Union>y \<in> nodes l bs. rng y 8)"

definition links_in :: "u32 set \<Rightarrow> lheap \<Rightarrow> mem \<Rightarrow> bool" where
  "links_in N h m \<longleftrightarrow> (\<forall>y \<in> N. load32 m y = prev (h y) \<and> load32 m (y + 4) = next (h y))"

definition elems_apart :: "u32 set \<Rightarrow> bool" where
  "elems_apart N \<longleftrightarrow> (\<forall>y \<in> N. \<forall>z \<in> N. y \<noteq> z \<longrightarrow> rng y 8 \<inter> rng z 8 = {})"

lemma rng_8: "rng y 8 = rng y 4 \<union> rng (y + 4) 4" "rng y 4 \<inter> rng (y + 4) 4 = {}"
  using rng_add [of 4 4 y] by (simp_all add: rng_4)

lemma elem_words:
  assumes "elems_apart N" "y \<in> N" "z \<in> N"
  shows "load32 (store32 m z w) y = (if y = z then w else load32 m y)"
    "load32 (store32 m z w) (y + 4) = load32 m (y + 4)"
    "load32 (store32 m (z + 4) w) y = load32 m y"
    "load32 (store32 m (z + 4) w) (y + 4) = (if y = z then w else load32 m (y + 4))"
proof -
  have d: "y \<noteq> z \<Longrightarrow> (rng y 4 \<union> rng (y + 4) 4) \<inter> (rng z 4 \<union> rng (z + 4) 4) = {}"
    using assms unfolding elems_apart_def rng_8(1) by blast
  show "load32 (store32 m z w) y = (if y = z then w else load32 m y)"
    "load32 (store32 m (z + 4) w) (y + 4) = (if y = z then w else load32 m (y + 4))"
    using d by (auto intro!: load32_store32_other)
  have "rng (y + 4) 4 \<inter> rng z 4 = {}" "rng y 4 \<inter> rng (z + 4) 4 = {}" using d rng_8(2) [of y] by (cases "y = z"; blast)+
  then show "load32 (store32 m z w) (y + 4) = load32 m (y + 4)" "load32 (store32 m (z + 4) w) y = load32 m y"
    by (simp_all add: load32_store32_other)
qed

lemma store32_link_area:
  assumes "y \<in> nodes l bs" "x \<notin> link_area l bs"
  shows "store32 m y w x = m x" "store32 m (y + 4) w x = m x"
  using assms by (auto simp: link_area_def rng_8 intro!: store32_outside)

lemma pop_block_eq:
  assumes l: "dlist (lheap s) l (b # bs)" and n: "elems_apart (nodes l bs)" "links_in (nodes l bs) (lheap s) (kmem s)"
  shows "\<exists>h m. pop_block l s = (b, s\<lparr>lheap := h, kmem := m\<rparr>) \<and> dlist h l bs \<and> links_in (nodes l bs) h m \<and>
    (\<forall>x. x \<notin> nodes l (b # bs) \<longrightarrow> h x = lheap s x) \<and> (\<forall>x. x \<notin> link_area l bs \<longrightarrow> m x = kmem s x)"
proof -
  define e where "e = hd (bs @ [list_tail l])"
  let ?h = "unlink b (lheap s)" and ?m = "store32 (store32 (kmem s) (l + 4) e) e l"
  have e: "e \<in> nodes l bs" "l \<in> nodes l bs" by (cases bs; simp add: e_def nodes_def)+
  have p: "next (lheap s l) = b" "prev (lheap s b) = l" "next (lheap s b) = e" "b \<noteq> l" "b \<noteq> e" "l \<noteq> e"
    using l by (cases bs; auto simp: dlist_def e_def)+
  have h: "?h = (lheap s)(l := (lheap s l)\<lparr>next := e\<rparr>, e := (lheap s e)\<lparr>prev := l\<rparr>)" using p by (subst unlink_eq) auto
  have "pop_block l s = (b, s\<lparr>lheap := ?h, kmem := ?m\<rparr>)" by (simp add: pop_block_def remove_block_def list_remove_eq p)
  moreover have "dlist ?h l bs" using dlist_remove [OF l, of b] by (simp add: list_remove_eq)
  moreover have "links_in (nodes l bs) ?h ?m"
    using n(2) e p unfolding links_in_def h by (auto simp: elem_words [OF n(1)])
  moreover have "?h x = lheap s x" if "x \<notin> nodes l (b # bs)" for x
    using list_remove_frame [OF l _ that, of b] by (simp add: list_remove_eq)
  moreover have "?m x = kmem s x" if "x \<notin> link_area l bs" for x using that e by (simp add: store32_link_area)
  ultimately show ?thesis by (intro exI [of _ ?h] exI [of _ ?m]) blast
qed

lemma append_block_eq:
  assumes l: "dlist (lheap s) l bs" "b \<notin> nodes l bs" and n: "elems_apart (nodes l (bs @ [b]))" "links_in (nodes l bs) (lheap s) (kmem s)"
  shows "\<exists>h m. append_block l b s = s\<lparr>lheap := h, kmem := m\<rparr> \<and> dlist h l (bs @ [b]) \<and> links_in (nodes l (bs @ [b])) h m \<and>
    prev (h b) = last (list_head l # bs) \<and> next (h b) = list_tail l \<and>
    (\<forall>x. x \<notin> nodes l (bs @ [b]) \<longrightarrow> h x = lheap s x) \<and> (\<forall>x. x \<notin> link_area l (bs @ [b]) \<longrightarrow> m x = kmem s x)"
proof -
  define a t where "a = last (list_head l # bs)" and "t = list_tail l"
  let ?h = "link_before t b (lheap s)" and ?m = "store32 (store32 (store32 (store32 (kmem s) (a + 4) b) b a) (b + 4) t) t b"
  have e: "a \<in> nodes l (bs @ [b])" "b \<in> nodes l (bs @ [b])" "t \<in> nodes l (bs @ [b])" "a \<in> nodes l bs"
    by (cases bs rule: rev_cases; simp add: a_def t_def nodes_def)+
  have "links (lheap s) (butlast (list_head l # bs) @ [a, t])" "a \<noteq> t"
    using l(1) unfolding a_def t_def by (cases bs rule: rev_cases; auto simp: dlist_def)+
  then have p: "prev (lheap s t) = a" "b \<noteq> t" "a \<noteq> b" "a \<noteq> t"
    using links_split [of "lheap s" "butlast (list_head l # bs)" a "[t]"] l(2) e(4) by (auto simp: t_def nodes_def)
  have h: "?h = ((lheap s)(b := \<lparr>prev = a, next = t\<rparr>))(a := (lheap s a)\<lparr>next := b\<rparr>, t := (lheap s t)\<lparr>prev := b\<rparr>)"
    using p by (subst link_before_eq) auto
  have q: "list_append l b s = s\<lparr>lheap := ?h\<rparr>" by (simp add: list_append_def list_insert_before_eq t_def)
  then have "append_block l b s = s\<lparr>lheap := ?h, kmem := ?m\<rparr>" using p(1) by (simp add: append_block_def t_def Let_def)
  moreover have "dlist ?h l (bs @ [b])" using dlist_append [OF l] q by simp
  moreover have "links_in (nodes l (bs @ [b])) ?h ?m"
    unfolding links_in_def
  proof
    fix y assume y: "y \<in> nodes l (bs @ [b])"
    then have "y = b \<or> load32 (kmem s) y = prev (lheap s y) \<and> load32 (kmem s) (y + 4) = next (lheap s y)"
      using n(2) by (auto simp: links_in_def nodes_def)
    then show "load32 ?m y = prev (?h y) \<and> load32 ?m (y + 4) = next (?h y)"
      using p y e unfolding h by (auto simp: elem_words [OF n(1)])
  qed
  moreover have "?h x = lheap s x" if "x \<notin> nodes l (bs @ [b])" for x
    using list_append_frame [OF l, of x] that q by (simp add: nodes_def)
  moreover have "?m x = kmem s x" if "x \<notin> link_area l (bs @ [b])" for x using that e by (simp add: store32_link_area)
  moreover have "prev (?h b) = a" "next (?h b) = t" using p unfolding h by auto
  ultimately show ?thesis unfolding a_def [symmetric] t_def [symmetric] by (intro exI [of _ ?h] exI [of _ ?m]) blast
qed

section \<open>Taking and returning a block\<close>

text \<open>
  The free list \<open>bs\<close> of a size class: whole blocks with the links in their first bytes, apart from the
  list's ends and from the waiters of the pool's lock.
\<close>

definition pool_waiters :: "'a memsys_scheme \<Rightarrow> u32" where
  "pool_waiters s = sema_waiters (lock_semaphore (pool_lock (kernel_pool s)))"

definition free_blocks :: "u32 \<Rightarrow> nat \<Rightarrow> u32 list \<Rightarrow> 'a memsys_scheme \<Rightarrow> bool" where
  "free_blocks d n bs s \<longleftrightarrow> n = unat (block_size (block_descs s d)) \<and> 8 \<le> n \<and> dlist (lheap s) (free_list d) bs \<and>
     links_in (nodes (free_list d) bs) (lheap s) (kmem s) \<and>
     pool_waiters s \<notin> {list_head (free_list d), list_tail (free_list d)} \<and>
     (\<forall>x \<in> set bs. in_class n x \<and> rng (free_list d) 16 \<inter> rng x n = {} \<and> rng (pool_waiters s) 8 \<inter> rng x n = {})"

lemma free_blocks_apart:
  assumes "free_blocks d n bs s"
  shows "pool_waiters s \<notin> nodes (free_list d) bs"
proof
  assume "pool_waiters s \<in> nodes (free_list d) bs"
  then have "pool_waiters s \<in> set bs" using assms by (auto simp: nodes_def free_blocks_def)
  then have "rng (pool_waiters s) 8 \<inter> rng (pool_waiters s) n = {}" "8 \<le> n" using assms by (auto simp: free_blocks_def)
  moreover have "pool_waiters s \<in> rng (pool_waiters s) 8" "pool_waiters s \<in> rng (pool_waiters s) n"
    using \<open>8 \<le> n\<close> by (simp_all add: rng_def)
  ultimately show False by blast
qed

lemma ends_apart: "rng l 8 \<union> rng (l + 8) 8 = rng l 16" "rng l 8 \<inter> rng (l + 8) 8 = {}"
proof -
  show "rng l 8 \<union> rng (l + 8) 8 = rng l 16" using rng_add [of 8 8 l] by simp
  have "off l 8 + off 0 i \<notin> rng l 8" if "i < 8" for i using off_notin_rng [of 8 "8 + i" l] that by (simp add: algebra_simps)
  then show "rng l 8 \<inter> rng (l + 8) 8 = {}" by (auto simp: rng_mem_off [of _ "l + 8"])
qed

lemma node_apart:
  assumes "8 \<le> n" "\<And>x. x \<in> set bs \<Longrightarrow> in_class n x" "in_class n b" "b \<notin> set bs" "rng l 16 \<inter> rng b n = {}" "y \<in> nodes l bs"
  shows "rng y 8 \<inter> rng b n = {}"
proof (cases "y \<in> set bs")
  case True
  then have "rng y n \<inter> rng b n = {}" using assms(2-4) by (intro in_class_apart) auto
  then show ?thesis using rng_mono [OF assms(1), of y] by blast
next
  case False
  then show ?thesis using assms(5,6) ends_apart(1) [of l] by (auto simp: nodes_def)
qed

lemma nodes_elems_apart:
  assumes "8 \<le> n" "\<And>x. x \<in> set bs \<Longrightarrow> in_class n x \<and> rng l 16 \<inter> rng x n = {}" "distinct bs"
  shows "elems_apart (nodes l bs)"
proof -
  have b: "rng y 8 \<inter> rng z 8 = {}" if "y \<in> nodes l bs" "z \<in> set bs" "y \<noteq> z" for y z
  proof -
    have "y \<in> nodes l (remove1 z bs)" "z \<notin> set (remove1 z bs)" "\<And>x. x \<in> set (remove1 z bs) \<Longrightarrow> in_class n x"
      using that assms(2,3) by (auto simp: nodes_def)
    then have "rng y 8 \<inter> rng z n = {}" using node_apart [OF assms(1)] assms(2) [OF that(2)] by blast
    then show ?thesis using rng_mono [OF assms(1), of z] by blast
  qed
  have "rng y 8 \<inter> rng z 8 = {}" if "y \<in> nodes l bs" "z \<in> nodes l bs" "y \<noteq> z" for y z
  proof (cases "z \<in> set bs \<or> y \<in> set bs")
    case False
    then show ?thesis using that ends_apart(2) [of l] by (auto simp: nodes_def)
  qed (use b [of y z] b [of z y] that in blast)
  then show ?thesis by (simp add: elems_apart_def)
qed

lemma clear_elems_far: "rng x 8 \<inter> rng p n = {} \<Longrightarrow> clear_elems p n h x = h x"
proof -
  assume d: "rng x 8 \<inter> rng p n = {}"
  have "x \<in> rng x 8" "x + 4 \<in> rng x 8" by (simp_all add: rng_def)
  then have "x \<notin> rng p n" "x + 4 \<notin> rng p n" using d by blast+
  then show ?thesis by (simp add: clear_elems_def within_def rng_def)
qed

text \<open>The first block of a non-empty free list: it is zeroed and taken, the rest of the list is as before.\<close>

lemma take_block_ok:
  assumes fb: "free_blocks d n (b # bs) s" and z: "b \<noteq> NULL"
  defines "a \<equiv> block2arena b"
  shows "\<exists>h m. take_block d s = Inr (b, s\<lparr>lheap := h, kmem := m, arenas := (arenas s)(a := (arenas s a)\<lparr>cnt := cnt (arenas s a) - 1\<rparr>)\<rparr>) \<and>
    dlist h (free_list d) bs \<and> links_in (nodes (free_list d) bs) h m \<and>
    (\<forall>x \<in> rng b n. m x = 0) \<and> (\<forall>x. x \<notin> rng b n \<longrightarrow> x \<notin> link_area (free_list d) bs \<longrightarrow> m x = kmem s x) \<and>
    (\<forall>x. x \<notin> nodes (free_list d) (b # bs) \<longrightarrow> rng x 8 \<inter> rng b n = {} \<longrightarrow> h x = lheap s x)"
proof -
  let ?l = "free_list d"
  have f: "n = unat (block_size (block_descs s d))" "8 \<le> n" "dlist (lheap s) ?l (b # bs)" "in_class n b" "rng ?l 16 \<inter> rng b n = {}"
    "\<And>x. x \<in> set bs \<Longrightarrow> in_class n x \<and> rng ?l 16 \<inter> rng x n = {}" "links_in (nodes ?l bs) (lheap s) (kmem s)"
    using fb by (auto simp: free_blocks_def links_in_def nodes_def)
  have di: "distinct bs" "b \<notin> set bs" using f(3) by (simp_all add: dlist_def)
  obtain h m where p: "pop_block ?l s = (b, s\<lparr>lheap := h, kmem := m\<rparr>)" "dlist h ?l bs" "links_in (nodes ?l bs) h m"
    "\<forall>x. x \<notin> nodes ?l (b # bs) \<longrightarrow> h x = lheap s x" "\<forall>x. x \<notin> link_area ?l bs \<longrightarrow> m x = kmem s x"
    using pop_block_eq [OF f(3) nodes_elems_apart [OF f(2,6) di(1)] f(7)] by blast
  let ?h = "clear_elems b n h" and ?m = "\<lambda>x. if x \<in> rng b n then 0 else m x"
  have ap: "rng y 8 \<inter> rng b n = {}" if "y \<in> nodes ?l bs" for y using node_apart [OF f(2) _ f(4) di(2) f(5) that] f(6) by blast
  then have e: "?h y = h y" if "y \<in> nodes ?l bs" for y using that clear_elems_far by blast
  have "take_block d s = Inr (b, s\<lparr>lheap := ?h, kmem := ?m, arenas := (arenas s)(a := (arenas s a)\<lparr>cnt := cnt (arenas s a) - 1\<rparr>)\<rparr>)"
    using z f(1) by (simp add: take_block_def p(1) clear_block_def memset_eq arena_upd_def a_def cong: if_cong)
  moreover have "dlist ?h ?l bs" by (rule dlist_frame [OF p(2) e])
  moreover have "load32 ?m y = load32 m y" "load32 ?m (y + 4) = load32 m (y + 4)" if "y \<in> nodes ?l bs" for y
    using ap [OF that] unfolding rng_8(1) [of y] by (intro load32_cong; auto)+
  then have "links_in (nodes ?l bs) ?h ?m" using p(3) e by (simp add: links_in_def)
  moreover have "?h x = lheap s x" if "x \<notin> nodes ?l (b # bs)" "rng x 8 \<inter> rng b n = {}" for x
    using p(4) that clear_elems_far [OF that(2), of h] by simp
  ultimately show ?thesis using p(5) by (intro exI [of _ ?h] exI [of _ ?m]) auto
qed

lemma find_desc_at:
  assumes "i < n" "sz \<le> block_size (block_descs s (desc_at descs (k + i)))"
    "\<And>j. j < i \<Longrightarrow> block_size (block_descs s (desc_at descs (k + j))) < sz"
  shows "find_desc descs sz k n s = k + i"
  using assms
proof (induction n arbitrary: k i)
  case (Suc n)
  show ?case
  proof (cases i)
    case (Suc m)
    have "find_desc descs sz (Suc k) n s = Suc k + m"
    proof (rule Suc.IH)
      show "block_size (block_descs s (desc_at descs (Suc k + j))) < sz" if "j < m" for j
        using Suc.prems(3) [of "Suc j"] that Suc by simp
    qed (use Suc.prems Suc in auto)
    then show ?thesis using Suc.prems(3) [of 0] Suc by simp
  qed (use Suc.prems in simp)
qed simp

section \<open>The heap routines of a kernel thread\<close>

text \<open>A kernel thread on a free pool.\<close>

definition heap_ready :: "'a memsys_scheme \<Rightarrow> bool" where
  "heap_ready s \<longleftrightarrow> pgdir (tasks s (running_thread s)) = NULL \<and> running_thread s \<noteq> NULL \<and> lock_free (pool_lock (kernel_pool s)) s"

lemma locked_mem:
  "kernel_pool (locked l s) = kernel_pool s" "block_descs (locked l s) = block_descs s" "arenas (locked l s) = arenas s"
  "k_block_descs (locked l s) = k_block_descs s" "kmem (locked l s) = kmem s"
  by (simp_all add: locked_def set_sema_def set_holder_def set_repeat_def)

lemma release_changed:
  assumes "lock_free l s" "next (h (sema_waiters (lock_semaphore l))) = next (lheap s (sema_waiters (lock_semaphore l)))"
  shows "lock_release l ((locked l s)\<lparr>lheap := h, kmem := m, arenas := x\<rparr>) = Inr (s\<lparr>lheap := h, kmem := m, arenas := x\<rparr>)"
proof -
  have "(locked l s)\<lparr>lheap := h, kmem := m, arenas := x\<rparr> = locked l (s\<lparr>lheap := h, kmem := m, arenas := x\<rparr>)"
    by (simp add: locked_def set_sema_def set_holder_def set_repeat_def running_thread_def)
  moreover have "lock_free l (s\<lparr>lheap := h, kmem := m, arenas := x\<rparr>)"
    using assms by (simp add: lock_free_def list_empty_def)
  ultimately show ?thesis by (simp add: release_locked)
qed

lemma free_blocks_locked: "free_blocks d n bs (locked l s) = free_blocks d n bs s"
proof -
  have "pool_waiters (locked l s) = pool_waiters s" by (simp add: pool_waiters_def locked_mem)
  moreover have "lheap (locked l s) = lheap s" by (simp add: locked_def set_sema_def set_holder_def set_repeat_def)
  ultimately show ?thesis by (simp add: free_blocks_def locked_mem)
qed

text \<open>The two routines on a free list: states, lists and what they leave alone.\<close>

lemma malloc_small_step:
  assumes r: "heap_ready s" and sz: "0 < sz" "sz \<le> 1024" "sz < pool_size (kernel_pool s)"
    and i: "i < DESC_CNT" "d = desc_at (k_block_descs s) i" "sz \<le> block_size (block_descs s d)"
      "\<And>j. j < i \<Longrightarrow> block_size (block_descs s (desc_at (k_block_descs s) j)) < sz"
    and fb: "free_blocks d n (b # bs) s" and b: "K_HEAP_START \<le> b" "a = block2arena b"
  shows "\<exists>h m s'. s' = s\<lparr>lheap := h, kmem := m, arenas := (arenas s)(a := (arenas s a)\<lparr>cnt := cnt (arenas s a) - 1\<rparr>)\<rparr> \<and>
    sys_malloc sz s = Inr (Some b, s') \<and> heap_ready s' \<and> free_blocks d n bs s' \<and>
    (\<forall>x \<in> rng b n. m x = 0) \<and> (\<forall>x. x \<notin> rng b n \<longrightarrow> x \<notin> link_area (free_list d) bs \<longrightarrow> m x = kmem s x) \<and>
    (\<forall>x. x \<notin> nodes (free_list d) (b # bs) \<longrightarrow> rng x 8 \<inter> rng b n = {} \<longrightarrow> h x = lheap s x)"
proof -
  let ?l = "pool_lock (kernel_pool s)"
  let ?t = "locked ?l s"
  have z: "b \<noteq> NULL" using b(1) by (auto simp: K_HEAP_START_def)
  have k: "caller_flag u = PF_KERNEL" if "tasks u = tasks s" "running_thread u = running_thread s" for u :: "'a memsys_scheme"
    using r that by (simp add: caller_flag_def heap_ready_def)
  have f: "mem_pool PF_KERNEL ?t = kernel_pool s" "caller_descs ?t = k_block_descs s" "lheap ?t = lheap s"
    using k [of ?t] by (simp_all add: mem_pool_def locked_mem caller_descs_def)
  obtain h m where t: "take_block d ?t = Inr (b, ?t\<lparr>lheap := h, kmem := m, arenas := (arenas ?t)(a := (arenas ?t a)\<lparr>cnt := cnt (arenas ?t a) - 1\<rparr>)\<rparr>)"
    and h: "dlist h (free_list d) bs" "links_in (nodes (free_list d) bs) h m" "\<forall>x \<in> rng b n. m x = 0"
      "\<forall>x. x \<notin> rng b n \<longrightarrow> x \<notin> link_area (free_list d) bs \<longrightarrow> m x = kmem s x"
      "\<forall>x. x \<notin> nodes (free_list d) (b # bs) \<longrightarrow> rng x 8 \<inter> rng b n = {} \<longrightarrow> h x = lheap s x"
    using take_block_ok [of d n b bs ?t] fb z unfolding b(2) free_blocks_locked f(3) locked_mem(5) by blast
  have w: "pool_waiters s \<notin> nodes (free_list d) (b # bs)" "rng (pool_waiters s) 8 \<inter> rng b n = {}"
    using free_blocks_apart [OF fb] fb by (auto simp: free_blocks_def)
  have hw: "h (pool_waiters s) = lheap s (pool_waiters s)" using h(5) w by simp
  define s' where "s' = s\<lparr>lheap := h, kmem := m, arenas := (arenas s)(a := (arenas s a)\<lparr>cnt := cnt (arenas s a) - 1\<rparr>)\<rparr>"
  have "find_desc (k_block_descs s) sz 0 DESC_CNT ?t = i"
    using find_desc_at [of i DESC_CNT sz ?t "k_block_descs s" 0] i by (simp add: locked_mem)
  moreover have "dlist (lheap ?t) (free_list d) (b # bs)" using fb f(3) by (simp add: free_blocks_def)
  ultimately have ms: "malloc_small PF_KERNEL (k_block_descs s) sz ?t = take_block d ?t"
    using i(1,2) list_empty_iff [of ?t "free_list d" "b # bs"] by (simp add: malloc_small_def Let_def)
  have "sys_malloc sz s = sys_malloc_locked sz ?t"
    using r sz k [of s] by (simp add: sys_malloc_def Let_def mem_pool_def heap_ready_def after_lock_free)
  also have "\<dots> = Inr (Some b, s')"
    using not_less [THEN iffD2, OF sz(2)] k [of ?t] f ms t hw r release_changed [of ?l s h]
    by (simp add: sys_malloc_locked_def Let_def locked_mem mem_pool_def pool_waiters_def heap_ready_def s'_def)
  finally have "sys_malloc sz s = Inr (Some b, s')" .
  moreover have "heap_ready s'" using r hw by (simp add: heap_ready_def s'_def lock_free_def list_empty_def pool_waiters_def running_thread_def)
  moreover have "free_blocks d n bs s'" using fb h(1,2) by (auto simp: free_blocks_def s'_def pool_waiters_def)
  ultimately show ?thesis using h(3-5) s'_def by blast
qed

lemma free_small_step:
  assumes r: "heap_ready s" and fb: "free_blocks d n bs s" and b: "K_HEAP_START \<le> b"
    and a: "a = block2arena b" "arenas s a = \<lparr>desc = d, cnt = k, large = False\<rparr>" and k: "k + 1 \<noteq> blocks_per_arena (block_descs s d)"
    and c: "b \<notin> nodes (free_list d) bs" "in_class n b" "rng (free_list d) 16 \<inter> rng b n = {}" "rng (pool_waiters s) 8 \<inter> rng b n = {}"
  shows "\<exists>h m s'. s' = s\<lparr>lheap := h, kmem := m, arenas := (arenas s)(a := \<lparr>desc = d, cnt = k + 1, large = False\<rparr>)\<rparr> \<and>
    sys_free b s = Inr (Some (), s') \<and> heap_ready s' \<and> free_blocks d n (bs @ [b]) s' \<and>
    load32 m b = last (list_head (free_list d) # bs) \<and> load32 m (b + 4) = list_tail (free_list d) \<and>
    (\<forall>x. x \<notin> link_area (free_list d) (bs @ [b]) \<longrightarrow> m x = kmem s x) \<and>
    (\<forall>x. x \<notin> nodes (free_list d) (bs @ [b]) \<longrightarrow> h x = lheap s x)"
proof -
  let ?l = "pool_lock (kernel_pool s)" and ?L = "free_list d"
  let ?t = "locked ?l s" and ?x = "(arenas s)(a := \<lparr>desc = d, cnt = k + 1, large = False\<rparr>)"
  have nz: "b \<noteq> NULL" using b by (auto simp: K_HEAP_START_def)
  have f: "8 \<le> n" "dlist (lheap ?t) ?L bs" "links_in (nodes ?L bs) (lheap ?t) (kmem ?t)"
    "\<And>x. x \<in> set (bs @ [b]) \<Longrightarrow> in_class n x \<and> rng ?L 16 \<inter> rng x n = {}"
    using fb c unfolding free_blocks_def locked_mem by auto
  have "distinct (bs @ [b])" using f(2) c(1) by (auto simp: dlist_def nodes_def)
  from append_block_eq [OF f(2) c(1) nodes_elems_apart [OF f(1,4) this] f(3)]
  obtain h m where h: "append_block ?L b ?t = ?t\<lparr>lheap := h, kmem := m\<rparr>" "dlist h ?L (bs @ [b])" "links_in (nodes ?L (bs @ [b])) h m"
    "prev (h b) = last (list_head ?L # bs)" "next (h b) = list_tail ?L"
    "\<forall>x. x \<notin> nodes ?L (bs @ [b]) \<longrightarrow> h x = lheap ?t x" "\<forall>x. x \<notin> link_area ?L (bs @ [b]) \<longrightarrow> m x = kmem ?t x" by blast
  have lh: "lheap ?t = lheap s" by (simp add: locked_def set_sema_def set_holder_def set_repeat_def)
  have "pool_waiters s \<in> rng (pool_waiters s) 8" "b \<in> rng b n" using f(1) by (simp_all add: rng_def)
  then have wb: "pool_waiters s \<noteq> b" using c(4) by blast
  then have hw: "h (pool_waiters s) = lheap s (pool_waiters s)" using h(6) free_blocks_apart [OF fb] by (simp add: nodes_def lh)
  define s' where "s' = s\<lparr>lheap := h, kmem := m, arenas := ?x\<rparr>"
  have kf: "caller_flag u = PF_KERNEL" if "tasks u = tasks s" "running_thread u = running_thread s" for u :: "'a memsys_scheme"
    using r that by (simp add: caller_flag_def heap_ready_def)
  have fs: "free_small PF_KERNEL a b ?t = Inr (?t\<lparr>lheap := h, kmem := m, arenas := ?x\<rparr>)"
    using a(2) k by (simp add: free_small_def locked_mem h(1) arena_upd_def Let_def)
  have "sys_free b s = sys_free_locked b ?t"
    using r b nz kf [of s] by (simp add: sys_free_def Let_def mem_pool_def heap_ready_def after_lock_free)
  also have "\<dots> = kbind (lock_release ?l (?t\<lparr>lheap := h, kmem := m, arenas := ?x\<rparr>)) (\<lambda>s. Inr (Some (), s))"
    using kf [of ?t] fs a by (simp add: sys_free_locked_def Let_def locked_mem mem_pool_def)
  also have "\<dots> = Inr (Some (), s')"
    using release_changed [of ?l s h ?x m] r hw by (simp add: pool_waiters_def heap_ready_def s'_def)
  finally have "sys_free b s = Inr (Some (), s')" .
  moreover have "heap_ready s'" using r hw by (simp add: heap_ready_def s'_def lock_free_def list_empty_def pool_waiters_def running_thread_def)
  moreover have "free_blocks d n (bs @ [b]) s'" using fb c(2-4) h(2,3) by (auto simp: free_blocks_def s'_def pool_waiters_def)
  moreover have "load32 m b = last (list_head ?L # bs)" "load32 m (b + 4) = list_tail ?L"
    using h(3-5) by (simp_all add: links_in_def nodes_def)
  ultimately show ?thesis using h(6,7) s'_def unfolding lh locked_mem by blast
qed

section \<open>Property\<close>

text \<open>
  C19: \<^verbatim>\<open>sys_malloc\<close> by a kernel thread, for a size whose class has free blocks, returns the first of them: a
  whole block of the class, at least as long as asked for and zeroed, apart from all that remain
  free; no byte changes but those of the block and the links of the list, and the counter of its arena
  goes down by one. \<^verbatim>\<open>sys_free\<close> puts the block at the end of the list: its first eight bytes are the
  links to the last element and to the end of the list, the others stay as they are, the links of the list
  are the only bytes that change, and the counter is what it was. Both leave the pool's lock free and
  the list well formed.
\<close>
theorem malloc_free_small:
  assumes "heap_ready s" "0 < sz" "sz \<le> 1024" "sz < pool_size (kernel_pool s)"
    and "i < DESC_CNT" "d = desc_at (k_block_descs s) i" "sz \<le> block_size (block_descs s d)"
      "\<And>j. j < i \<Longrightarrow> block_size (block_descs s (desc_at (k_block_descs s) j)) < sz"
    and "free_blocks d n (b # bs) s" "K_HEAP_START \<le> b"
    and "a = block2arena b" "arenas s a = \<lparr>desc = d, cnt = k, large = False\<rparr>" "k \<noteq> blocks_per_arena (block_descs s d)"
  shows "\<exists>s' s''. sys_malloc sz s = Inr (Some b, s') \<and> unat sz \<le> n \<and> in_class n b \<and> heap_ready s' \<and> free_blocks d n bs s' \<and>
    (\<forall>x \<in> set bs. rng x n \<inter> rng b n = {}) \<and> (\<forall>x \<in> rng b n. kmem s' x = 0) \<and>
    (\<forall>x. x \<notin> rng b n \<and> x \<notin> link_area (free_list d) bs \<longrightarrow> kmem s' x = kmem s x) \<and> cnt (arenas s' a) = k - 1 \<and>
    sys_free b s' = Inr (Some (), s'') \<and> heap_ready s'' \<and> free_blocks d n (bs @ [b]) s'' \<and> arenas s'' = arenas s \<and>
    load32 (kmem s'') b = last (list_head (free_list d) # bs) \<and> load32 (kmem s'') (b + 4) = list_tail (free_list d) \<and>
    (\<forall>x. x \<notin> link_area (free_list d) (bs @ [b]) \<longrightarrow> kmem s'' x = kmem s' x)"
proof -
  let ?x = "(arenas s)(a := \<lparr>desc = d, cnt = k - 1, large = False\<rparr>)"
  have fb: "dlist (lheap s) (free_list d) (b # bs)" "in_class n b" "\<And>x. x \<in> set bs \<Longrightarrow> in_class n x"
    "rng (free_list d) 16 \<inter> rng b n = {}" "rng (pool_waiters s) 8 \<inter> rng b n = {}" "n = unat (block_size (block_descs s d))"
    using assms(9) by (auto simp: free_blocks_def)
  obtain h m s' where s': "s' = s\<lparr>lheap := h, kmem := m, arenas := ?x\<rparr>" "sys_malloc sz s = Inr (Some b, s')" "heap_ready s'"
    "free_blocks d n bs s'" "\<forall>x \<in> rng b n. m x = 0" "\<forall>x. x \<notin> rng b n \<longrightarrow> x \<notin> link_area (free_list d) bs \<longrightarrow> m x = kmem s x"
    using malloc_small_step [OF assms(1-11)] assms(12) by auto
  have f: "arenas s' a = \<lparr>desc = d, cnt = k - 1, large = False\<rparr>" "block_descs s' = block_descs s" "pool_waiters s' = pool_waiters s" "kmem s' = m"
    by (simp_all add: s'(1) pool_waiters_def)
  have nb: "b \<notin> nodes (free_list d) bs" using fb(1) by (auto simp: nodes_def dlist_def)
  have k: "k - 1 + 1 \<noteq> blocks_per_arena (block_descs s' d)" using assms(13) f(2) by simp
  obtain h' m' s'' where s'': "s'' = s'\<lparr>lheap := h', kmem := m', arenas := (arenas s')(a := \<lparr>desc = d, cnt = k - 1 + 1, large = False\<rparr>)\<rparr>"
    "sys_free b s' = Inr (Some (), s'')" "heap_ready s''" "free_blocks d n (bs @ [b]) s''"
    "load32 m' b = last (list_head (free_list d) # bs)" "load32 m' (b + 4) = list_tail (free_list d)"
    "\<forall>x. x \<notin> link_area (free_list d) (bs @ [b]) \<longrightarrow> m' x = m x"
    using free_small_step [OF s'(3,4) assms(10,11) f(1) k nb fb(2,4)] fb(5) unfolding f(3,4) by blast
  have g: "arenas s'' = arenas s" "kmem s'' = m'" using assms(12) by (auto simp: s''(1) s'(1))
  moreover have "unat sz \<le> n" using assms(7) fb(6) by (simp add: word_le_nat_alt)
  moreover have "\<forall>x \<in> set bs. rng x n \<inter> rng b n = {}"
    using fb(1-3) by (intro ballI in_class_apart) (auto simp: dlist_def)
  moreover have "cnt (arenas s' a) = k - 1" by (simp add: s'(1))
  ultimately show ?thesis using s'(2-6) s''(2-7) fb(2) unfolding f(4) [symmetric] g(2) [symmetric] by blast
qed

text \<open>The small system with one free block of sixteen bytes, at 0xc010000c in the arena 0xc0100000.\<close>

definition demo_heap :: memsys where
  "demo_heap = (let s = lock_init 0xc0007300 demo_mem in
     s\<lparr>block_descs := \<lambda>_. \<lparr>block_size = 16, blocks_per_arena = 255\<rparr>,
       arenas := (arenas demo_mem)(0xc0100000 := \<lparr>desc = 0xc0007800, cnt = 254, large = False\<rparr>),
       lheap := (lheap s)(0xc0007808 := \<lparr>prev = NULL, next = 0xc010000c\<rparr>, 0xc010000c := \<lparr>prev = 0xc0007808, next = 0xc0007810\<rparr>,
         0xc0007810 := \<lparr>prev = 0xc010000c, next = NULL\<rparr>),
       kmem := store32 (store32 (store32 (store32 (\<lambda>_. 0) 0xc000780c 0xc010000c) 0xc010000c 0xc0007808) 0xc0100010 0xc0007810)
         0xc0007810 0xc010000c\<rparr>)"

lemma demo_heap_facts:
  "heap_ready demo_heap" "free_blocks 0xc0007800 16 [0xc010000c] demo_heap" "pool_size (kernel_pool demo_heap) = 0x8000"
  "k_block_descs demo_heap = 0xc0007800" "block_descs demo_heap d = \<lparr>block_size = 16, blocks_per_arena = 255\<rparr>"
  "arenas demo_heap 0xc0100000 = \<lparr>desc = 0xc0007800, cnt = 254, large = False\<rparr>"
proof -
  have p: "kernel_pool demo_heap = demo_kpool" "k_block_descs demo_heap = 0xc0007800" "block_descs demo_heap d = \<lparr>block_size = 16, blocks_per_arena = 255\<rparr>"
    "arenas demo_heap 0xc0100000 = \<lparr>desc = 0xc0007800, cnt = 254, large = False\<rparr>" for d
    by (simp_all add: demo_heap_def Let_def lock_init_def sema_init_def list_init_def set_sema_def set_repeat_def set_holder_def demo_mem_def consys.defs)
  then show "pool_size (kernel_pool demo_heap) = 0x8000" "k_block_descs demo_heap = 0xc0007800"
    "block_descs demo_heap d = \<lparr>block_size = 16, blocks_per_arena = 255\<rparr>" "arenas demo_heap 0xc0100000 = \<lparr>desc = 0xc0007800, cnt = 254, large = False\<rparr>"
    by (simp_all add: demo_kpool_def)
  have w: "pool_waiters demo_heap = 0xc0007308" by (simp add: pool_waiters_def p demo_kpool_def sema_waiters_def lock_semaphore_def)
  have "tasks demo_heap = tasks demo_con" "running_thread demo_heap = running_thread demo_con"
    by (simp_all add: demo_heap_def Let_def lock_init_fields demo_mem_def consys.defs) (simp_all add: running_thread_def lock_init_fields demo_mem_def consys.defs)
  moreover have "pgdir (tasks demo_con 0xc009e000) = NULL"
    by (simp add: demo_con_def console_init_def lock_init_fields demo_kbd_def demo_dev_def kbdsys.defs devsys.defs tsys.defs demo_tsys_fields demo_task_def)
  moreover have "lock_free 0xc0007300 demo_heap"
    by (simp add: lock_free_def list_empty_def demo_heap_def Let_def lock_init_def sema_init_def list_init_def set_sema_def set_repeat_def set_holder_def
        set_next_def set_prev_def sema_waiters_def lock_semaphore_def)
  ultimately show "heap_ready demo_heap" using demo_con_facts(6) by (simp add: heap_ready_def p demo_kpool_def)
  have "in_class 16 0xc010000c" unfolding in_class_def by (rule exI [of _ 0]) simp
  moreover have "dlist (lheap demo_heap) 0xc0007808 [0xc010000c]" by (simp add: dlist_def demo_heap_def Let_def)
  moreover have "links_in (nodes 0xc0007808 [0xc010000c]) (lheap demo_heap) (kmem demo_heap)"
    by (simp add: links_in_def nodes_def demo_heap_def Let_def load32_def store32_def)
  moreover have "rng 0xc0007808 16 \<inter> rng 0xc010000c 16 = {}" "rng 0xc0007308 8 \<inter> rng 0xc010000c 16 = {}" by (rule rng_disjoint; simp)+
  ultimately show "free_blocks 0xc0007800 16 [0xc010000c] demo_heap" by (simp add: free_blocks_def p w free_list_def)
qed

theorem malloc_free_small_witness:
  "\<exists>s' s''. sys_malloc 10 demo_heap = Inr (Some 0xc010000c, s') \<and> free_blocks 0xc0007800 16 [] s' \<and>
    sys_free 0xc010000c s' = Inr (Some (), s'') \<and> free_blocks 0xc0007800 16 [0xc010000c] s''"
proof -
  have d: "0xc0007800 = desc_at (k_block_descs demo_heap) 0" "0xc0100000 = block2arena 0xc010000c"
    by (simp_all add: demo_heap_facts desc_at_def block2arena_def)
  show ?thesis
    using malloc_free_small [OF demo_heap_facts(1) _ _ _ _ d(1) _ _ demo_heap_facts(2) _ d(2) demo_heap_facts(6), of 10]
    by (simp add: demo_heap_facts(3,5) DESC_CNT_def K_HEAP_START_def) blast
qed

end
