(* ===== verification/Tasks.thy ===== *)
theory Tasks
  imports Pages
begin

text \<open>
  Creation of kernel threads: the rest of \<^verbatim>\<open>thread/thread.c\<close>. A PCB is a page of the kernel's heap;
  \<^verbatim>\<open>memset\<close> on it clears the record, the list tags and the block descriptors it contains. The
  kernel stack in the upper part of the page, and with it the frames, is not touched.
  The main theorem: \<^verbatim>\<open>thread_init\<close> turns the running boot code into a task, creates the idle thread and
  establishes the scheduler's invariant.
\<close>

section \<open>The routines\<close>

text \<open>
  The idle thread blocks at once; when it is woken because nobody else can run, it opens the
  interrupts, halts until one arrives and blocks again.
\<close>

definition idle :: "'a tsys_scheme \<Rightarrow> 'a tsys_scheme res" where
  "idle s = thread_block TASK_BLOCKED (push_frame (running_thread s) (F_at ''idle'' []) s)"

definition idle_woken :: "'a tsys_scheme \<Rightarrow> 'a tsys_scheme res" where
  "idle_woken s = idle (sti s)"

text \<open>The body of a new thread up to the call of its function.\<close>

definition kernel_thread :: "u32 \<Rightarrow> u32 \<Rightarrow> 'a tsys_scheme \<Rightarrow> (u32 \<times> u32) \<times> 'a tsys_scheme" where
  "kernel_thread function func_arg s = ((function, func_arg), snd (intr_enable s))"

definition allocate_pid_locked :: "'a tsys_scheme \<Rightarrow> (u16 option \<times> 'a tsys_scheme) res" where
  "allocate_pid_locked s =
     kbind (lock_release (pid_lock s) (s\<lparr>next_pid := next_pid s + 1\<rparr>)) (\<lambda>s. Inr (Some (next_pid s), s))"

definition allocate_pid :: "'a tsys_scheme \<Rightarrow> (u16 option \<times> 'a tsys_scheme) res" where
  "allocate_pid s = after_lock F_allocate_pid (pid_lock s) allocate_pid_locked s"

text \<open>\<^verbatim>\<open>memset(pthread, 0, sizeof(*pthread))\<close>: 272 bytes, with two list tags and seven block descriptors.\<close>

definition clear_task :: "u32 \<Rightarrow> 'a memsys_scheme \<Rightarrow> 'a memsys_scheme res" where
  "clear_task pthread s =
     kbind (memset (kmem s) pthread 0 272) (\<lambda>m.
       Inr (task_upd pthread zero_task
         (s\<lparr>kmem := m, lheap := clear_elems pthread 272 (lheap s),
           block_descs := (\<lambda>d. if within pthread 272 d 8 then \<lparr>block_size = 0, blocks_per_arena = 0\<rparr> else block_descs s d)\<rparr>)))"

definition MAX_FILES_OPEN_PER_PROC :: nat where "MAX_FILES_OPEN_PER_PROC = 8"

text \<open>
  What \<^verbatim>\<open>init_thread\<close> stores once it has the pid. The name goes into 16 bytes with its final NUL; a
  longer one would run over the fields behind it.
\<close>

definition set_identity :: "u32 \<Rightarrow> u8 list \<Rightarrow> int \<Rightarrow> u16 \<Rightarrow> 'a memsys_scheme \<Rightarrow> (unit option \<times> 'a memsys_scheme) res" where
  "set_identity pthread nam prio p s =
     (if length nam < 16 then
        Inr (Some (), task_upd pthread (\<lambda>t. t\<lparr>pid := p, self_kstack := pthread + PG_SIZE,
          status := (if pthread = main_thread s then TASK_RUNNING else TASK_READY), name := nam,
          priority := word_of_int prio, ticks := word_of_int prio, elapsed_ticks := 0, pgdir := NULL,
          fd_table := [0, 1, 2] @ replicate (MAX_FILES_OPEN_PER_PROC - 3) (-1), stack_magic := 0x12345678\<rparr>) s)
      else Inl OUT_OF_BOUNDS)"

definition init_thread :: "u32 \<Rightarrow> u8 list \<Rightarrow> int \<Rightarrow> 'a memsys_scheme \<Rightarrow> (unit option \<times> 'a memsys_scheme) res" where
  "init_thread pthread nam prio s =
     kbind (clear_task pthread s)
       (after_call (F_init_thread pthread nam prio) allocate_pid (set_identity pthread nam prio))"

text \<open>The new thread enters both lists.\<close>

definition enter_lists :: "u32 \<Rightarrow> 'a tsys_scheme \<Rightarrow> 'a tsys_scheme res" where
  "enter_lists thread s =
     kbind (elem_find (thread_ready_list s) (general_tag thread) s) (\<lambda>found. ASSERT (\<not> found)
       (let s = list_append (thread_ready_list s) (general_tag thread) s in
        kbind (elem_find (thread_ready_list s) (general_tag thread) s) (\<lambda>found. ASSERT found
        (kbind (elem_find (thread_all_list s) (all_list_tag thread) s) (\<lambda>found. ASSERT (\<not> found)
          (Inr (list_append (thread_all_list s) (all_list_tag thread) s)))))))"

definition thread_start :: "u8 list \<Rightarrow> int \<Rightarrow> u32 \<Rightarrow> u32 \<Rightarrow> 'a memsys_scheme \<Rightarrow> (u32 option \<times> 'a memsys_scheme) res" where
  "thread_start nam prio function func_arg s =
     kbind (get_kernel_pages 1 s) (\<lambda>(thread, s).
       after_call (F_thread_start thread function func_arg) (init_thread thread nam prio)
         (\<lambda>_ s. kbind (enter_lists thread (thread_create thread function func_arg s)) (\<lambda>s. Inr (Some thread, s))) s)"

definition make_main_thread :: "'a memsys_scheme \<Rightarrow> (unit option \<times> 'a memsys_scheme) res" where
  "make_main_thread s =
     (let s = s\<lparr>main_thread := running_thread s\<rparr> in
      after_call F_make_main_thread (init_thread (main_thread s) (map of_char ''main'') 31)
        (\<lambda>_ s. kbind (elem_find (thread_all_list s) (all_list_tag (main_thread s)) s) (\<lambda>found. ASSERT (\<not> found)
          (Inr (Some (), list_append (thread_all_list s) (all_list_tag (main_thread s)) s)))) s)"

text \<open>\<open>idle_fn\<close> is the address of the code of \<^verbatim>\<open>idle\<close>.\<close>

definition thread_init :: "u32 \<Rightarrow> 'a memsys_scheme \<Rightarrow> (unit option \<times> 'a memsys_scheme) res" where
  "thread_init idle_fn s =
     (let s = put_lit ''thread_init start\<newline>'' s;
          s = lock_init (pid_lock s) (list_init (thread_all_list s) (list_init (thread_ready_list s) s))
      in after_call F_thread_init make_main_thread
           (\<lambda>_. after_call F_thread_init_idle (thread_start (map of_char ''idle'') 10 idle_fn NULL)
              (\<lambda>t s. Inr (Some (), put_lit ''thread_init done\<newline>'' (s\<lparr>idle_thread := t\<rparr>)))) s)"

section \<open>A page from the kernel's heap\<close>

lemma within_page: "frame p = p \<Longrightarrow> within p 4096 a k \<Longrightarrow> 0 < k \<Longrightarrow> frame a = p"
proof -
  assume a: "frame p = p" "within p 4096 a k" "0 < k"
  then have l: "unat (a - p) < 4096" by (simp add: within_def)
  from a(1) have d: "4096 dvd unat p" by (simp add: frame_id_iff)
  then have "unat p \<le> 4294967296 - 4096" using unat_u32_lt [of p] by (elim dvdE) simp
  then have "unat a = unat p + unat (a - p)" using unat_add_u32 [of p "a - p"] l by simp
  moreover have "(unat p + r) div 4096 * 4096 = unat p" if "r < 4096" for r
    using d that by (elim dvdE) simp
  ultimately have "unat (frame a) = unat p" using l by (simp add: unat_frame)
  then show "frame a = p" by (simp only: unsigned_word_eqI)
qed

lemma within_mono: "within p n a k \<Longrightarrow> n \<le> n' \<Longrightarrow> within p n' a k"
  by (simp add: within_def)

lemma clear_elems_other:
  assumes "frame p = p" "n \<le> 4096" "frame x \<noteq> p" "frame (x + 4) \<noteq> p"
  shows "clear_elems p n h x = h x"
  using assms within_page [of p x 4] within_page [of p "x + 4" 4] within_mono [of p n _ 4 4096]
  by (auto simp: clear_elems_def)

lemma memset_other:
  assumes "frame p = p" "n \<le> 4096" "frame x \<noteq> p"
  shows "memset_loop m p v n x = m x"
proof -
  have "x \<notin> rng p n" using assms within_page [of p x 1] by (auto simp: rng_def within_def)
  then show ?thesis using assms(2) by (simp add: memset_loop_eq)
qed

lemma frame_entry: "drop_bit 10 idx = 0 \<Longrightarrow> frame (frame a + idx * 4) = frame a" for idx :: u32
proof -
  assume d: "drop_bit 10 idx = 0"
  have e: "frame a + idx * 4 = frame a OR push_bit 2 idx" by (rule entry_add [OF d])
  show "frame (frame a + idx * 4) = frame a"
    unfolding e unfolding frame_eq
    by (rule bit_word_eqI) (auto simp: bit_simps dest: bit_below10 [OF _ d])
qed

lemmas frame_pde_addr = frame_entry [OF idx_small(1), folded pde_addr_def]
lemmas frame_pte_addr = frame_entry [OF idx_small(2), of "ph (pde_addr c v)" v for ph c v, folded pte_addr_def]

text \<open>Writing into a frame that holds no page table changes no translation.\<close>

lemma walk_off_frame:
  assumes "self_mapped ph c" "\<not> table_frame ph c f" "\<And>a. frame a \<noteq> f \<Longrightarrow> ph' a = ph a"
  shows "walk ph' c w = walk ph c w" "table_frame ph' c g = table_frame ph c g"
    "tables_separate ph' c = tables_separate ph c" "ph' (pde_addr c w) = ph (pde_addr c w)" "self_mapped ph' c"
proof -
  have "present (ph (pde_addr c 0xffffffff)) \<and> frame (ph (pde_addr c 0xffffffff)) = frame c"
    using assms(1) by (simp add: pde_addr_last self_mapped_def)
  then have c: "f \<noteq> frame c" using assms(2) by (auto simp: table_frame_def)
  have pde: "ph' (pde_addr c v) = ph (pde_addr c v)" for v
    using c frame_pde_addr [of c v] assms(3) by auto
  then show "ph' (pde_addr c w) = ph (pde_addr c w)" .
  have "ph' (pte_addr ph c w) = ph (pte_addr ph c w)" if "present (ph (pde_addr c w))"
    using assms(2,3) that frame_pte_addr [of ph c w] by (auto simp: table_frame_def)
  then show "walk ph' c w = walk ph c w" unfolding walk_def pte_addr_def pde by (auto simp: pte_addr_def)
  show "table_frame ph' c g = table_frame ph c g" unfolding table_frame_def pde ..
  have sm: "self_mapped ph' c = self_mapped ph c" unfolding self_mapped_def pde_addr_last [symmetric] pde ..
  then show "self_mapped ph' c" using assms(1) by simp
  show "tables_separate ph' c = tables_separate ph c" unfolding tables_separate_def pde sm ..
qed

lemma pg_0: "pg base 0 = base"
  by (simp add: pg_def)

lemma maps_ok_cong:
  assumes "\<And>w. walk ph' c w = walk ph c w" "\<And>g. table_frame ph' c g = table_frame ph c g"
    and "\<And>i. i < vpn va \<Longrightarrow> bm_bit m' (vaddr_bitmap va) i = bm_bit m (vaddr_bitmap va) i"
    and "\<And>j. j < pfn p \<Longrightarrow> bm_bit m' (pool_bitmap p) j = bm_bit m (pool_bitmap p) j"
  shows "maps_ok p va m' ph' c = maps_ok p va m ph c"
  unfolding maps_ok_def assms(1,2) using assms(3,4) by blast

text \<open>The bytes of the bitmaps are not on page \<open>q\<close>.\<close>

definition bitmaps_off :: "pool \<Rightarrow> virtual_addr \<Rightarrow> u32 \<Rightarrow> bool" where
  "bitmaps_off p va q \<longleftrightarrow>
     (\<forall>x \<in> rng (bits (pool_bitmap p)) (unat (btmp_bytes_len (pool_bitmap p))). frame x \<noteq> q) \<and>
     (\<forall>x \<in> rng (bits (vaddr_bitmap va)) (unat (btmp_bytes_len (vaddr_bitmap va))). frame x \<noteq> q)"

lemma bm_bit_memset:
  assumes "frame q = q" "n \<le> 4096" "i < nbits b" "\<forall>x \<in> rng (bits b) (unat (btmp_bytes_len b)). frame x \<noteq> q"
  shows "bm_bit (memset_loop m q v n) b i = bm_bit m b i"
proof -
  have i: "i div 8 < unat (btmp_bytes_len b)" using assms(3) by simp
  then have "i div 8 < 4294967296" using unat_u32_lt [of "btmp_bytes_len b"] by (rule less_trans)
  then have "off (bits b) (i div 8) \<in> rng (bits b) (unat (btmp_bytes_len b))"
    using i by (simp add: rng_def unat_word_of_nat_u32)
  then show ?thesis using memset_other [OF assms(1,2)] assms(4) by (simp add: bm_bit_def)
qed

lemma vm_ok_memset:
  assumes "vm_ok p va m ph c" "frame q = q" "n \<le> 4096" "bitmaps_off p va q"
  shows "vm_ok p va (memset_loop m q v n) ph c" "free_frames p (memset_loop m q v n) = free_frames p m"
  using assms bm_bit_memset [OF assms(2,3)]
  by (auto simp: vm_ok_def bitmaps_off_def free_frames_def maps_ok_cong [of ph c ph va "memset_loop m q v n" m p])

text \<open>An element that is not on page \<open>q\<close>, not even in part.\<close>

definition off_page :: "u32 \<Rightarrow> u32 \<Rightarrow> bool" where
  "off_page q x \<longleftrightarrow> frame x \<noteq> q \<and> frame (x + 4) \<noteq> q"

lemma lock_off_page:
  assumes "frame p = p" "off_page p (sema_waiters (lock_semaphore l))"
  shows "\<not> within p 4096 l 28" "\<not> within p 4096 (lock_semaphore l) 20"
proof -
  have n: "\<not> within p 4096 (l + 8) 4" using assms within_page [of p "l + 8" 4] by (auto simp: off_page_def sema_waiters_def lock_semaphore_def add.assoc)
  have w: "within p 4096 (a + d) 4" if "within p 4096 a k" "unat d + 4 \<le> k" for a d k
  proof -
    have "unat (a - p + d) = unat (a - p) + unat d" using that by (intro unat_add_u32) (simp add: within_def)
    then show ?thesis using that unfolding within_def diff_add_eq by simp
  qed
  show "\<not> within p 4096 l 28" using w [of l 28 8] n by auto
  show "\<not> within p 4096 (lock_semaphore l) 20" using w [of "l + 4" 20 4] n by (auto simp: lock_semaphore_def add.assoc)
qed

text \<open>
  A page for the kernel, cleared: the frame behind it was free and now holds zeros, and the objects that are
  not on the page are as before.
\<close>

lemma get_kernel_page_ok:
  assumes ok: "vm_ok p va (kmem s) (phys s) (cr3 s)" and p: "p = kernel_pool s" "va = kernel_vaddr s"
    and r: "s0 < vpn va" "\<not> bm_bit (kmem s) (vaddr_bitmap va) s0" and f: "free_frames p (kmem s) \<noteq> {}"
    and o: "\<And>k. k < vpn va \<Longrightarrow> bitmaps_off p va (vpg va k)"
  shows "\<exists>k m ph a b z sv lh lr pa. get_kernel_pages 1 s = Inr (vpg va k, s\<lparr>kmem := m, lheap := clear_elems (vpg va k) 4096 (lheap s),
      arenas := a, block_descs := b, tasks := (tasks s)(vpg va k := z), sema_value := sv, lock_holder := lh, lock_repeat := lr, phys := ph\<rparr>) \<and>
    (\<forall>l. off_page (vpg va k) (sema_waiters (lock_semaphore l)) \<longrightarrow>
      sv (lock_semaphore l) = sema_value s (lock_semaphore l) \<and> lh l = lock_holder s l \<and> lr l = lock_repeat s l) \<and> k < vpn va \<and> \<not> bm_bit (kmem s) (vaddr_bitmap va) k \<and> vm_ok p va m ph (cr3 s) \<and>
    walk ph (cr3 s) (vpg va k) = Some pa \<and> (\<exists>j \<in> free_frames p (kmem s). pa = ppg p j) \<and> (\<forall>x. frame x = pa \<longrightarrow> ph x = 0) \<and>
    (\<forall>w. frame w \<noteq> vpg va k \<longrightarrow> walk ph (cr3 s) w = walk (phys s) (cr3 s) w)"
proof -
  have fin: "finite (free_frames p (kmem s))" by (simp add: free_frames_def)
  then have "1 \<le> card (free_frames p (kmem s))" using f by (simp add: Suc_le_eq card_gt_0_iff)
  moreover have "run_free (kmem s) (vaddr_bitmap va) s0 (unat (1::u32))" using r(2) by simp
  ultimately obtain k m ph where M: "malloc_page PF_KERNEL 1 s = Inr (vpg va k, s\<lparr>kmem := m, phys := ph\<rparr>)"
    "k < vpn va" "\<not> bm_bit (kmem s) (vaddr_bitmap va) k" "vm_ok p va m ph (cr3 s)"
    "pages_mapped p va k 1 (kmem s) (phys s) ph (cr3 s)"
    using malloc_page_ok [of p PF_KERNEL s va 1 s0] ok p r(1)
    by (auto simp: mem_pool_def vaddr_pool_def word_less_nat_alt Suc_le_eq)
  let ?v = "vpg va k" and ?c = "cr3 s"
  have po: "pools_ok p va" and to: "tables_ok va ph ?c" and mo: "maps_ok p va m ph ?c" using M(4) by (simp_all add: vm_ok_def)
  from M(5) obtain j where j: "j \<in> free_frames p (kmem s)" "walk ph ?c ?v = Some (ppg p j)" by (auto simp: pages_mapped_def)
  define f where "f = ppg p j"
  have f: "\<not> table_frame ph ?c f" using maps_okD(3) [OF mo M(2) j(2)] by (simp add: f_def)
  define ph' where "ph' = (\<lambda>a. if frame a = f then 0 else ph a)"
  have out: "frame a \<noteq> f \<Longrightarrow> ph' a = ph a" for a by (simp add: ph'_def)
  note clr = walk_off_frame [OF tables_okD(2) [OF to] f out]
  have v: "frame ?v = ?v" "?v \<noteq> NULL" using frame_pg pg_nonzero pools_okD(4) [OF po] M(2) by blast+
  define m' where "m' = memset_loop m ?v 0 4096"
  have "bm_bit m' (vaddr_bitmap va) i = bm_bit m (vaddr_bitmap va) i" if "i < vpn va" for i
    using bm_bit_memset [OF v(1) _ that] o [OF M(2)] by (simp add: m'_def bitmaps_off_def)
  moreover have "bm_bit m' (pool_bitmap p) i = bm_bit m (pool_bitmap p) i" if "i < pfn p" for i
    using bm_bit_memset [OF v(1) _ that] o [OF M(2)] by (simp add: m'_def bitmaps_off_def)
  ultimately have "maps_ok p va m' ph' ?c" using mo maps_ok_cong [of ph' ?c ph va m' m p] clr(1,2) by blast
  moreover have "tables_ok va ph' ?c" using to clr(3,4) by (simp add: tables_ok_def)
  ultimately have vm: "vm_ok p va m' ph' ?c" using po by (simp add: vm_ok_def)
  have eq: "ppg p j = frame a \<longleftrightarrow> frame a = ppg p j" for a by (rule eq_commute)
  define u where "u = clear_objects ?v 4096 (s\<lparr>kmem := m', phys := ph'\<rparr>)"
  have "get_kernel_pages 1 s = Inr (?v, u)"
    using M(1) v(2) j(2) eq by (simp add: pg_0 get_kernel_pages_def clear_pages_def mapped_def u_def ph'_def m'_def f_def cong: if_cong)
  moreover have "within ?v 4096 t 4096 \<longleftrightarrow> t = ?v" for t by (simp add: within_def unat_eq_zero)
  then have "u = s\<lparr>kmem := m', lheap := clear_elems ?v 4096 (lheap s), arenas := arenas u, block_descs := block_descs u,
      tasks := (tasks s)(?v := tasks u ?v), sema_value := sema_value u, lock_holder := lock_holder u, lock_repeat := lock_repeat u, phys := ph'\<rparr>"
    by (simp add: u_def clear_objects_def fun_upd_def cong: if_cong)
  ultimately have "get_kernel_pages 1 s = Inr (?v, s\<lparr>kmem := m', lheap := clear_elems ?v 4096 (lheap s), arenas := arenas u, block_descs := block_descs u,
      tasks := (tasks s)(?v := tasks u ?v), sema_value := sema_value u, lock_holder := lock_holder u, lock_repeat := lock_repeat u, phys := ph'\<rparr>)" by simp
  moreover have "sema_value u (lock_semaphore l) = sema_value s (lock_semaphore l) \<and> lock_holder u l = lock_holder s l \<and> lock_repeat u l = lock_repeat s l"
    if "off_page ?v (sema_waiters (lock_semaphore l))" for l
    using lock_off_page [OF v(1) that] by (simp add: u_def clear_objects_def)
  moreover have "walk ph' ?c w = walk (phys s) ?c w" if "frame w \<noteq> ?v" for w
    using M(5) that clr(1) by (simp add: pages_mapped_def)
  moreover have "ph' x = 0" if "frame x = f" for x using that by (simp add: ph'_def)
  moreover have "walk ph' ?c ?v = Some f" using j(2) clr(1) by (simp add: f_def)
  ultimately show ?thesis using M(2,3) vm j(1) f_def
    by (intro exI [of _ k] exI [of _ m'] exI [of _ ph'] exI [of _ "arenas u"] exI [of _ "block_descs u"] exI [of _ "tasks u ?v"]
        exI [of _ "sema_value u"] exI [of _ "lock_holder u"] exI [of _ "lock_repeat u"] exI [of _ f]) (simp, blast)
qed

section \<open>Initialising a PCB\<close>

lemma after_call_returns:
  assumes "f (push_frame (running_thread s) fr s) = Inr (Some x, push_frame (running_thread s) fr s')"
    "running_thread s' = running_thread s"
  shows "after_call fr f k s = k x s'"
  using assms(1) push_pop_frame [of s' fr] assms(2) by (simp add: after_call_def)

lemma allocate_pid_free:
  assumes "lock_free (pid_lock s) s" "running_thread s \<noteq> NULL"
  shows "allocate_pid s = Inr (Some (next_pid s + 1), s\<lparr>next_pid := next_pid s + 1\<rparr>)"
proof -
  let ?s = "s\<lparr>next_pid := next_pid s + 1\<rparr>"
  have f: "lock_free (pid_lock s) ?s" using assms(1) by (simp add: lock_free_def list_empty_def)
  have e: "(locked l s)\<lparr>next_pid := n\<rparr> = locked l (s\<lparr>next_pid := n\<rparr>)" "pid_lock (locked l s) = pid_lock s"
    "next_pid (locked l s) = next_pid s" for l n
    by (simp_all add: locked_def set_repeat_def set_holder_def set_sema_def running_thread_def)
  show ?thesis
    using release_locked [OF f] by (simp add: allocate_pid_def after_lock_free [OF assms] allocate_pid_locked_def e)
qed

definition new_task :: "u32 \<Rightarrow> u8 list \<Rightarrow> int \<Rightarrow> u16 \<Rightarrow> bool \<Rightarrow> task_struct \<Rightarrow> task_struct" where
  "new_task pthread nam prio p m t = (zero_task t)\<lparr>pid := p, self_kstack := pthread + PG_SIZE,
     status := (if m then TASK_RUNNING else TASK_READY), name := nam, priority := word_of_int prio, ticks := word_of_int prio,
     elapsed_ticks := 0, pgdir := NULL, fd_table := [0, 1, 2] @ replicate 5 (-1), stack_magic := 0x12345678\<rparr>"

definition inited :: "u32 \<Rightarrow> u8 list \<Rightarrow> int \<Rightarrow> 'a memsys_scheme \<Rightarrow> 'a memsys_scheme" where
  "inited pthread nam prio s =
     task_upd pthread (new_task pthread nam prio (next_pid s + 1) (pthread = main_thread s))
       (s\<lparr>kmem := memset_loop (kmem s) pthread 0 272, lheap := clear_elems pthread 272 (lheap s),
         block_descs := (\<lambda>d. if within pthread 272 d 8 then \<lparr>block_size = 0, blocks_per_arena = 0\<rparr> else block_descs s d),
         next_pid := next_pid s + 1\<rparr>)"

lemma new_task_blank:
  "(new_task q nam prio p m t)\<lparr>self_kstack := a, kstack := ks\<rparr> = (new_task q nam prio p m t')\<lparr>self_kstack := a, kstack := ks\<rparr>"
  by (rule task_struct.equality) (simp_all add: new_task_def zero_task_def)

lemma new_task_kstack: "self_kstack (new_task q nam prio p m t) = q + PG_SIZE"
  by (simp add: new_task_def)

lemma inited_push: "inited t nam prio (push_frame r fr s) = push_frame r fr (inited t nam prio s)"
  by (auto simp: inited_def push_frame_def task_upd_def new_task_def zero_task_def fun_eq_iff)

lemma init_thread_ok:
  assumes "lock_free (pid_lock s) s" "running_thread s \<noteq> NULL" "t \<noteq> NULL" "frame t = t" "length nam < 16"
    and "frame (sema_waiters (lock_semaphore (pid_lock s))) \<noteq> t" "frame (sema_waiters (lock_semaphore (pid_lock s)) + 4) \<noteq> t"
  shows "init_thread t nam prio s = Inr (Some (), inited t nam prio s)"
proof -
  let ?s = "task_upd t zero_task (s\<lparr>kmem := memset_loop (kmem s) t 0 272, lheap := clear_elems t 272 (lheap s),
    block_descs := (\<lambda>d. if within t 272 d 8 then \<lparr>block_size = 0, blocks_per_arena = 0\<rparr> else block_descs s d)\<rparr>)"
  let ?f = "F_init_thread t nam prio"
  have c: "clear_task t s = Inr ?s" using assms(3) by (simp add: clear_task_def memset_def)
  have r: "running_thread ?s = running_thread s" "next_pid ?s = next_pid s" "pid_lock ?s = pid_lock s" "main_thread ?s = main_thread s"
    by (simp_all add: task_upd_def running_thread_def)
  have "lock_free (pid_lock s) (push_frame r fr ?s)" for r fr
    using assms(1,6,7) clear_elems_other [OF assms(4), of 272 "sema_waiters (lock_semaphore (pid_lock s))"]
    by (simp add: lock_free_def list_empty_def push_frame_def task_upd_def)
  moreover have "pid_lock (push_frame r fr ?s) = pid_lock s" for r fr by (simp add: push_frame_def task_upd_def)
  ultimately have "allocate_pid (push_frame (running_thread ?s) ?f ?s) =
      Inr (Some (next_pid s + 1), push_frame (running_thread ?s) ?f (?s\<lparr>next_pid := next_pid s + 1\<rparr>))"
    using assms(2) r by (simp add: allocate_pid_free) (simp add: push_frame_def task_upd_def)
  moreover have "running_thread (?s\<lparr>next_pid := next_pid s + 1\<rparr>) = running_thread ?s" by (simp add: running_thread_def)
  ultimately have "init_thread t nam prio s = set_identity t nam prio (next_pid s + 1) (?s\<lparr>next_pid := next_pid s + 1\<rparr>)"
    unfolding init_thread_def c by (simp add: after_call_returns)
  then show ?thesis
    using assms(5) by (simp add: set_identity_def inited_def task_upd_def new_task_def zero_task_def MAX_FILES_OPEN_PER_PROC_def)
qed

section \<open>Starting threads\<close>

lemma dlist_clear:
  assumes "dlist h l xs" "frame q = q" "n \<le> 4096" "\<And>x. x \<in> nodes l xs \<Longrightarrow> off_page q x"
  shows "dlist (clear_elems q n h) l xs"
  by (rule dlist_frame [OF assms(1)]) (use assms(2-4) in \<open>simp add: clear_elems_other off_page_def\<close>)

lemma nodes_snoc: "nodes l (xs @ [e]) = insert e (nodes l xs)"
  by (auto simp: nodes_def)

lemma frame_tag:
  assumes "frame t = t" "d \<in> {68, 72, 76, 80}"
  shows "frame (t + d) = t"
proof -
  have "within t 4096 (t + d) 4" using assms(2) by (auto simp: within_def)
  then show ?thesis by (rule within_page [OF assms(1)]) simp
qed

lemma tag_off_page: "frame t = t \<Longrightarrow> frame q = q \<Longrightarrow> t \<noteq> q \<Longrightarrow> off_page q (general_tag t) \<and> off_page q (all_list_tag t)"
  using frame_tag [of t 68] frame_tag [of t 72] frame_tag [of t 76] frame_tag [of t 80]
  by (simp add: off_page_def general_tag_def all_list_tag_def add.assoc)

lemma tag_on_page: "frame t = t \<Longrightarrow> \<not> off_page t (general_tag t) \<and> \<not> off_page t (all_list_tag t)"
  using frame_tag [of t 68] frame_tag [of t 76] by (simp add: off_page_def general_tag_def all_list_tag_def)

text \<open>A new kernel thread: entering its PCB into both lists.\<close>

lemma enter_lists_ok:
  assumes "dlist (lheap s) (thread_ready_list s) rs" "dlist (lheap s) (thread_all_list s) as"
    and "general_tag t \<notin> nodes (thread_ready_list s) rs" "all_list_tag t \<notin> nodes (thread_all_list s) as"
    and "nodes (thread_ready_list s) (rs @ [general_tag t]) \<inter> nodes (thread_all_list s) (as @ [all_list_tag t]) = {}"
  shows "\<exists>h. enter_lists t s = Inr (s\<lparr>lheap := h\<rparr>) \<and> dlist h (thread_ready_list s) (rs @ [general_tag t]) \<and>
    dlist h (thread_all_list s) (as @ [all_list_tag t]) \<and>
    (\<forall>x. x \<notin> nodes (thread_ready_list s) (rs @ [general_tag t]) \<longrightarrow> x \<notin> nodes (thread_all_list s) (as @ [all_list_tag t]) \<longrightarrow> h x = lheap s x)"
proof -
  let ?r = "thread_ready_list s" and ?a = "thread_all_list s" and ?g = "general_tag t" and ?e = "all_list_tag t"
  let ?s1 = "list_append ?r ?g s" let ?s2 = "list_append ?a ?e ?s1"
  have a: "thread_all_list ?s1 = ?a" by (subst list_op_fields(2)) simp
  have r1: "dlist (lheap ?s1) ?r (rs @ [?g])" by (rule dlist_append [OF assms(1,3)])
  have fr1: "lheap ?s1 x = lheap s x" if "x \<notin> nodes ?r (rs @ [?g])" for x
    using list_append_frame [OF assms(1,3)] that by (simp add: nodes_def)
  have a1: "dlist (lheap ?s1) ?a as"
  proof (rule dlist_frame [OF assms(2)])
    fix x assume "x \<in> nodes ?a as"
    then have "x \<in> nodes ?a (as @ [?e])" by (auto simp: nodes_def)
    then show "lheap ?s1 x = lheap s x" using fr1 assms(5) by blast
  qed
  have a2: "dlist (lheap ?s2) ?a (as @ [?e])" by (rule dlist_append [OF a1 assms(4)])
  have fr2: "lheap ?s2 x = lheap ?s1 x" if "x \<notin> nodes ?a (as @ [?e])" for x
    using list_append_frame [OF a1 assms(4)] that by (simp add: nodes_def)
  have r2: "dlist (lheap ?s2) ?r (rs @ [?g])"
    by (rule dlist_frame [OF r1]) (use fr2 assms(5) in blast)
  have "?g \<notin> set rs" "?e \<notin> set as" using assms(3,4) by (simp_all add: nodes_def)
  then have "enter_lists t s = Inr ?s2"
    using elem_find_dlist [OF assms(1)] elem_find_dlist [OF r1] elem_find_dlist [OF a1] by (simp add: enter_lists_def a)
  moreover have "?s2 = s\<lparr>lheap := lheap ?s2\<rparr>" by (subst list_op_fields(2), subst (2) list_op_fields(2)) simp
  ultimately show ?thesis using r2 a2 fr1 fr2 by (intro exI [of _ "lheap ?s2"]) simp
qed

text \<open>
  The state in which \<^verbatim>\<open>thread_init\<close> is called: memory is initialised, a page and a frame are free, and
  the three list heads and the bitmaps lie neither on the page of the boot stack nor on a page of the heap.
\<close>

definition pid_waiters :: "'a tsys_scheme \<Rightarrow> u32" where
  "pid_waiters s = sema_waiters (lock_semaphore (pid_lock s))"

definition boot_ok :: "'a memsys_scheme \<Rightarrow> bool" where
  "boot_ok s \<longleftrightarrow>
     (let p = kernel_pool s; va = kernel_vaddr s; heads = [thread_ready_list s, thread_all_list s, pid_waiters s];
          heap = set (map (vpg va) [0..<vpn va])
      in vm_ok p va (kmem s) (phys s) (cr3 s) \<and> cr3 s = 0x100000 \<and> running_thread s \<noteq> NULL \<and> running_thread s \<notin> heap \<and>
         (\<exists>i < vpn va. \<not> bm_bit (kmem s) (vaddr_bitmap va) i) \<and> free_frames p (kmem s) \<noteq> {} \<and>
         (\<forall>q \<in> insert (running_thread s) heap. bitmaps_off p va q \<and> (\<forall>l \<in> set heads. off_page q l \<and> off_page q (list_tail l))) \<and>
         distinct (heads @ map list_tail heads))"

lemma empty_lists_init:
  assumes "boot_ok s"
  defines "s1 \<equiv> lock_init (pid_lock s) (list_init (thread_all_list s) (list_init (thread_ready_list s) s))"
  shows "dlist (lheap s1) (thread_ready_list s) []" "dlist (lheap s1) (thread_all_list s) []" "lock_free (pid_lock s) s1"
proof -
  let ?r = "thread_ready_list s" and ?a = "thread_all_list s" and ?w = "pid_waiters s"
  have d: "distinct [?r, ?a, ?w, list_tail ?r, list_tail ?a, list_tail ?w]" using assms(1) by (auto simp: boot_ok_def Let_def)
  define t where "t = set_sema (lock_semaphore (pid_lock s)) 1 (set_repeat (pid_lock s) 0 (set_holder (pid_lock s) NULL
    (list_init ?a (list_init ?r s))))"
  have t: "lheap s1 = lheap (list_init ?w t)" "lheap t = lheap (list_init ?a (list_init ?r s))"
    by (simp_all add: s1_def lock_init_def sema_init_def pid_waiters_def t_def)
  have "dlist (lheap t) ?r []" unfolding t
    by (rule dlist_frame [OF dlist_init [of ?r s]]) (use d in \<open>auto simp: nodes_def intro!: list_init_frame\<close>)
  then show "dlist (lheap s1) ?r []" unfolding t(1)
    by (rule dlist_frame) (use d in \<open>auto simp: nodes_def intro!: list_init_frame\<close>)
  have "dlist (lheap t) ?a []" unfolding t(2) by (rule dlist_init)
  then show "dlist (lheap s1) ?a []" unfolding t(1)
    by (rule dlist_frame) (use d in \<open>auto simp: nodes_def intro!: list_init_frame\<close>)
  have "dlist (lheap s1) ?w []" unfolding t(1) by (rule dlist_init)
  then have "list_empty ?w s1" by (simp add: list_empty_iff)
  then show "lock_free (pid_lock s) s1"
    by (simp add: lock_free_def pid_waiters_def s1_def lock_init_def sema_init_def list_init_def set_sema_def set_repeat_def set_holder_def)
qed

lemma thread_start_ok:
  fixes s :: "'a memsys_scheme"
  assumes ok: "vm_ok p va (kmem s) (phys s) (cr3 s)" and p: "p = kernel_pool s" "va = kernel_vaddr s"
    and r: "s0 < vpn va" "\<not> bm_bit (kmem s) (vaddr_bitmap va) s0" and f: "free_frames p (kmem s) \<noteq> {}"
    and o: "\<And>k. k < vpn va \<Longrightarrow> bitmaps_off p va (vpg va k) \<and> off_page (vpg va k) (pid_waiters s) \<and> vpg va k \<noteq> main_thread s"
    and l: "dlist (lheap s) (thread_ready_list s) rs" "dlist (lheap s) (thread_all_list s) as"
      "nodes (thread_ready_list s) rs \<inter> nodes (thread_all_list s) as = {}"
    and off: "\<And>k x. k < vpn va \<Longrightarrow> \<not> bm_bit (kmem s) (vaddr_bitmap va) k \<Longrightarrow>
      x \<in> nodes (thread_ready_list s) rs \<union> nodes (thread_all_list s) as \<Longrightarrow> off_page (vpg va k) x"
    and pid: "lock_free (pid_lock s) s" "running_thread s \<noteq> NULL" and nam: "length nam < 16"
  shows "\<exists>k m h a b sv lh lr ph. thread_start nam prio fn arg s = Inr (Some (vpg va k), task_upd (vpg va k)
      (\<lambda>t. (new_task (vpg va k) nam prio (next_pid s + 1) False t)\<lparr>self_kstack := vpg va k + PG_SIZE - 4 * 76 - 4 * 32,
         kstack := [F_kernel_thread fn arg]\<rparr>)
      (s\<lparr>kmem := m, lheap := h, arenas := a, block_descs := b, sema_value := sv, lock_holder := lh, lock_repeat := lr, phys := ph, next_pid := next_pid s + 1\<rparr>)) \<and>
    k < vpn va \<and> \<not> bm_bit (kmem s) (vaddr_bitmap va) k \<and> vm_ok p va m ph (cr3 s) \<and>
    dlist h (thread_ready_list s) (rs @ [general_tag (vpg va k)]) \<and> dlist h (thread_all_list s) (as @ [all_list_tag (vpg va k)])"
proof -
  have "\<And>k. k < vpn va \<Longrightarrow> bitmaps_off p va (vpg va k)" using o by blast
  from get_kernel_page_ok [OF ok p r f this] obtain k m ph a b0 z sv lh lr where K:
    "get_kernel_pages 1 s = Inr (vpg va k, s\<lparr>kmem := m, lheap := clear_elems (vpg va k) 4096 (lheap s), arenas := a, block_descs := b0,
      tasks := (tasks s)(vpg va k := z), sema_value := sv, lock_holder := lh, lock_repeat := lr, phys := ph\<rparr>)"
    "k < vpn va" "\<not> bm_bit (kmem s) (vaddr_bitmap va) k" "vm_ok p va m ph (cr3 s)"
    "\<forall>l. off_page (vpg va k) (sema_waiters (lock_semaphore l)) \<longrightarrow>
      sv (lock_semaphore l) = sema_value s (lock_semaphore l) \<and> lh l = lock_holder s l \<and> lr l = lock_repeat s l" by blast
  define t where "t = vpg va k"
  define s1 where "s1 = s\<lparr>kmem := m, lheap := clear_elems t 4096 (lheap s), arenas := a, block_descs := b0,
    tasks := (tasks s)(t := z), sema_value := sv, lock_holder := lh, lock_repeat := lr, phys := ph\<rparr>"
  have po: "pools_ok p va" using ok by (simp add: vm_ok_def)
  have t: "frame t = t" "t \<noteq> NULL" "t \<noteq> main_thread s" "bitmaps_off p va t" "off_page t (pid_waiters s)"
    using frame_pg [OF pools_okD(4) [OF po] K(2)] pg_nonzero [OF pools_okD(4) [OF po] K(2)] o [OF K(2)] by (simp_all add: t_def)
  have off_t: "off_page t x" if "x \<in> nodes (thread_ready_list s) rs \<union> nodes (thread_all_list s) as" for x
    using off [OF K(2,3) that] by (simp add: t_def)
  let ?fr = "F_thread_start t fn arg"
  define u where "u = push_frame (running_thread s1) ?fr s1"
  have "list_empty (pid_waiters s) s1"
    using pid(1) t(5) clear_elems_other [OF t(1), of 4096 "pid_waiters s" "lheap s"]
    by (simp add: lock_free_def list_empty_def pid_waiters_def s1_def off_page_def)
  then have "lock_free (pid_lock s) s1" using pid(1) K(5) t(5) by (simp add: lock_free_def pid_waiters_def s1_def t_def)
  then have "lock_free (pid_lock u) u" by (simp add: u_def lock_free_def list_empty_def push_frame_def task_upd_def s1_def)
  moreover have "running_thread u \<noteq> NULL" "off_page t (pid_waiters u)"
    using pid(2) t(5) by (simp_all add: u_def s1_def running_thread_def pid_waiters_def push_frame_def task_upd_def)
  ultimately have "init_thread t nam prio u = Inr (Some (), inited t nam prio u)"
    using init_thread_ok [of u t nam prio] t nam by (simp add: off_page_def pid_waiters_def)
  then have "init_thread t nam prio (push_frame (running_thread s1) ?fr s1) =
      Inr (Some (), push_frame (running_thread s1) ?fr (inited t nam prio s1))"
    by (simp add: u_def inited_push)
  moreover have "running_thread (inited t nam prio s1) = running_thread s1"
    by (simp add: inited_def task_upd_def running_thread_def)
  ultimately have st: "thread_start nam prio fn arg s =
      kbind (enter_lists t (thread_create t fn arg (inited t nam prio s1))) (\<lambda>s. Inr (Some t, s))"
    using K(1) by (simp add: thread_start_def s1_def [symmetric] t_def [symmetric] after_call_returns)
  define s2 where "s2 = thread_create t fn arg (inited t nam prio s1)"
  have h2: "lheap s2 = clear_elems t 272 (clear_elems t 4096 (lheap s))" "thread_ready_list s2 = thread_ready_list s"
    "thread_all_list s2 = thread_all_list s"
    by (simp_all add: s2_def thread_create_def inited_def s1_def task_upd_def)
  have d: "dlist (lheap s2) (thread_ready_list s2) rs" "dlist (lheap s2) (thread_all_list s2) as"
    unfolding h2 using off_t by (intro dlist_clear l t(1); simp)+
  have nr: "general_tag t \<notin> nodes (thread_ready_list s) rs" "all_list_tag t \<notin> nodes (thread_ready_list s) rs"
    and na: "general_tag t \<notin> nodes (thread_all_list s) as" "all_list_tag t \<notin> nodes (thread_all_list s) as"
    using off_t tag_on_page [OF t(1)] by blast+
  have "general_tag t \<noteq> all_list_tag t" by (simp add: general_tag_def all_list_tag_def)
  then have "nodes (thread_ready_list s) (rs @ [general_tag t]) \<inter> nodes (thread_all_list s) (as @ [all_list_tag t]) = {}"
    using l(3) nr na unfolding nodes_snoc by blast
  then obtain h where h: "enter_lists t s2 = Inr (s2\<lparr>lheap := h\<rparr>)" "dlist h (thread_ready_list s) (rs @ [general_tag t])"
    "dlist h (thread_all_list s) (as @ [all_list_tag t])"
    using enter_lists_ok [OF d, of t] nr na unfolding h2 by blast
  define b where "b = (\<lambda>d. if within t 272 d 8 then \<lparr>block_size = 0, blocks_per_arena = 0\<rparr> else b0 d)"
  have "s2\<lparr>lheap := h\<rparr> = task_upd t
      (\<lambda>t'. (new_task t nam prio (next_pid s + 1) False t')\<lparr>self_kstack := t + PG_SIZE - 4 * 76 - 4 * 32, kstack := [F_kernel_thread fn arg]\<rparr>)
      (s\<lparr>kmem := memset_loop m t 0 272, lheap := h, arenas := a, block_descs := b, sema_value := sv, lock_holder := lh, lock_repeat := lr, phys := ph, next_pid := next_pid s + 1\<rparr>)"
    using t(3) new_task_blank [where t = z and t' = "tasks s t"]
    by (simp add: s2_def thread_create_def inited_def s1_def task_upd_def b_def new_task_kstack cong: if_cong)
  moreover have "vm_ok p va (memset_loop m t 0 272) ph (cr3 s)" using vm_ok_memset [OF K(4) t(1) _ t(4)] by simp
  moreover have "thread_start nam prio fn arg s = Inr (Some t, s2\<lparr>lheap := h\<rparr>)" using st h(1) by (simp add: s2_def)
  ultimately show ?thesis using h K(2,3)
    by (intro exI [of _ k] exI [of _ "memset_loop m t 0 272"] exI [of _ h] exI [of _ a] exI [of _ b] exI [of _ sv] exI [of _ lh] exI [of _ lr] exI [of _ ph])
      (simp add: t_def)
qed

lemma make_main_thread_ok:
  assumes "lock_free (pid_lock s) s" "running_thread s \<noteq> NULL" "dlist (lheap s) (thread_all_list s) []"
    and "off_page (running_thread s) (pid_waiters s)" "\<And>x. x \<in> nodes (thread_all_list s) [] \<Longrightarrow> off_page (running_thread s) x"
  shows "make_main_thread s = Inr (Some (), list_append (thread_all_list s) (all_list_tag (running_thread s))
    (inited (running_thread s) (map of_char ''main'') 31 (s\<lparr>main_thread := running_thread s\<rparr>)))"
proof -
  define t where "t = running_thread s"
  define s1 where "s1 = s\<lparr>main_thread := t\<rparr>"
  let ?u = "push_frame (running_thread s1) F_make_main_thread s1"
  have t: "frame t = t" by (simp add: t_def running_thread_frame)
  have r: "running_thread s1 = t" by (simp add: s1_def t_def running_thread_def)
  have "lock_free (pid_lock ?u) ?u" using assms(1)
    by (simp add: lock_free_def list_empty_def push_frame_def task_upd_def s1_def)
  moreover have "pid_waiters ?u = pid_waiters s" by (simp add: pid_waiters_def push_frame_def task_upd_def s1_def)
  ultimately have "init_thread t (map of_char ''main'') 31 ?u = Inr (Some (), inited t (map of_char ''main'') 31 ?u)"
    using init_thread_ok [of ?u t "map of_char ''main''" 31] assms(2,4) t r
    by (simp add: off_page_def pid_waiters_def t_def [symmetric])
  then have i: "init_thread t (map of_char ''main'') 31 ?u =
      Inr (Some (), push_frame (running_thread s1) F_make_main_thread (inited t (map of_char ''main'') 31 s1))"
    by (simp add: inited_push)
  have f: "thread_all_list (inited t n q s1) = thread_all_list s" "main_thread (inited t n q s1) = t"
    "lheap (inited t n q s1) = clear_elems t 272 (lheap s)" "running_thread (inited t n q s1) = running_thread s1" for n q
    by (simp_all add: inited_def s1_def task_upd_def running_thread_def)
  have "dlist (clear_elems t 272 (lheap s)) (thread_all_list s) []"
    using dlist_clear [OF assms(3) t, of 272] assms(5) by (simp add: t_def)
  then have "elem_find (thread_all_list s) (all_list_tag t) (inited t n q s1) = Inr False" for n q
    using elem_find_dlist [of "inited t n q s1" "thread_all_list s" "[]"] by (simp add: f)
  then have "after_call F_make_main_thread (init_thread t (map of_char ''main'') 31)
      (\<lambda>_ s. kbind (elem_find (thread_all_list s) (all_list_tag (main_thread s)) s) (\<lambda>found. ASSERT (\<not> found)
          (Inr (Some (), list_append (thread_all_list s) (all_list_tag (main_thread s)) s)))) s1 =
      Inr (Some (), list_append (thread_all_list s) (all_list_tag t) (inited t (map of_char ''main'') 31 s1))"
    by (subst after_call_returns [where f = "init_thread t (map of_char ''main'') 31", OF i f(4)]) (simp add: f)
  then show ?thesis by (simp add: make_main_thread_def t_def s1_def)
qed

text \<open>The state after \<^verbatim>\<open>make_main_thread\<close>.\<close>

definition main_made :: "'a memsys_scheme \<Rightarrow> 'a memsys_scheme" where
  "main_made s = list_append (thread_all_list s) (all_list_tag (running_thread s))
     (inited (running_thread s) (map of_char ''main'') 31 (s\<lparr>main_thread := running_thread s\<rparr>))"

lemma list_append_push: "list_append l e (push_frame r fr s) = push_frame r fr (list_append l e s)"
  by (simp add: list_append_def list_insert_before_eq push_frame_def task_upd_def)

lemma main_made_push: "main_made (push_frame r fr s) = push_frame r fr (main_made s)"
proof -
  have "(push_frame r fr s)\<lparr>main_thread := x\<rparr> = push_frame r fr (s\<lparr>main_thread := x\<rparr>)" for x
    by (simp add: push_frame_def task_upd_def)
  moreover have "thread_all_list (push_frame r fr s) = thread_all_list s" by (simp add: push_frame_def task_upd_def)
  ultimately show ?thesis by (simp add: main_made_def inited_push list_append_push)
qed

lemma main_made_eq:
  "main_made s = task_upd (running_thread s) (new_task (running_thread s) (map of_char ''main'') 31 (next_pid s + 1) True)
     (s\<lparr>main_thread := running_thread s, kmem := memset_loop (kmem s) (running_thread s) 0 272, lheap := lheap (main_made s),
       block_descs := block_descs (main_made s), next_pid := next_pid s + 1\<rparr>)"
  by (simp add: main_made_def list_append_def list_insert_before_eq inited_def task_upd_def)

lemma main_made_ok:
  assumes "dlist (lheap s) (thread_ready_list s) []" "dlist (lheap s) (thread_all_list s) []" "lock_free (pid_lock s) s"
    and "\<And>l x. l \<in> {thread_ready_list s, thread_all_list s, pid_waiters s} \<Longrightarrow> x \<in> nodes l [] \<Longrightarrow> off_page (running_thread s) x"
    and "nodes (thread_ready_list s) [] \<inter> nodes (thread_all_list s) [] = {}"
      "nodes (pid_waiters s) [] \<inter> nodes (thread_all_list s) [] = {}" "running_thread s \<noteq> NULL"
  shows "make_main_thread (push_frame (running_thread s) fr s) = Inr (Some (), push_frame (running_thread s) fr (main_made s))"
    "dlist (lheap (main_made s)) (thread_ready_list s) []"
    "dlist (lheap (main_made s)) (thread_all_list s) [all_list_tag (running_thread s)]"
    "lock_free (pid_lock s) (main_made s)"
proof -
  let ?m = "running_thread s" and ?r = "thread_ready_list s" and ?a = "thread_all_list s" and ?w = "pid_waiters s"
  let ?u = "push_frame ?m fr s" and ?i = "inited ?m (map of_char ''main'') 31 (s\<lparr>main_thread := ?m\<rparr>)"
  have fr: "frame ?m = ?m" by (simp add: running_thread_frame)
  have w: "?w \<in> nodes ?w []" by (simp add: nodes_def)
  have "make_main_thread ?u = Inr (Some (), main_made ?u)"
    using make_main_thread_ok [of ?u] assms(2,3,7) assms(4) [OF _ w] assms(4) [of ?a]
    by (simp add: main_made_def lock_free_def list_empty_def) (simp add: push_frame_def task_upd_def pid_waiters_def)
  then show "make_main_thread ?u = Inr (Some (), push_frame ?m fr (main_made s))" by (simp add: main_made_push)
  have h: "lheap ?i = clear_elems ?m 272 (lheap s)" by (simp add: inited_def)
  have d: "dlist (lheap ?i) ?r []" "dlist (lheap ?i) ?a []"
    unfolding h by (rule dlist_clear [OF assms(1) fr _ assms(4) [of ?r]], simp_all)
      (rule dlist_clear [OF assms(2) fr _ assms(4) [of ?a]], simp_all)
  have e: "all_list_tag ?m \<notin> nodes ?a []" "all_list_tag ?m \<notin> nodes ?r []" "all_list_tag ?m \<notin> nodes ?w []"
    using assms(4) tag_on_page [OF fr] by blast+
  show "dlist (lheap (main_made s)) ?a [all_list_tag ?m]"
    using dlist_append [OF d(2) e(1)] by (simp add: main_made_def)
  have o: "lheap (main_made s) x = lheap ?i x" if "x \<notin> nodes ?a []" "x \<noteq> all_list_tag ?m" for x
    using list_append_frame [OF d(2) e(1) that] by (simp add: main_made_def)
  show "dlist (lheap (main_made s)) ?r []"
    by (rule dlist_frame [OF d(1)]) (use o assms(5) e(2) in blast)
  have "?w \<notin> nodes ?a []" using assms(6) w by blast
  moreover have "?w \<noteq> all_list_tag ?m" using e(3) by (auto simp: nodes_def)
  moreover have "off_page ?m ?w" by (rule assms(4) [OF _ w]) simp
  ultimately have "lheap (main_made s) ?w = lheap s ?w"
    using o [of ?w] clear_elems_other [OF fr, of 272 ?w "lheap s"] h by (simp add: off_page_def)
  then show "lock_free (pid_lock s) (main_made s)"
    using assms(3) unfolding lock_free_def list_empty_def pid_waiters_def
    by (simp add: main_made_def inited_def task_upd_def list_append_def list_insert_before_eq)
qed

section \<open>Property\<close>

lemma boot_okD:
  assumes "boot_ok s"
  shows "vm_ok (kernel_pool s) (kernel_vaddr s) (kmem s) (phys s) (cr3 s)" "cr3 s = 0x100000" "running_thread s \<noteq> NULL"
    "k < vpn (kernel_vaddr s) \<Longrightarrow> vpg (kernel_vaddr s) k \<noteq> running_thread s"
    "\<exists>i < vpn (kernel_vaddr s). \<not> bm_bit (kmem s) (vaddr_bitmap (kernel_vaddr s)) i" "free_frames (kernel_pool s) (kmem s) \<noteq> {}"
    "k < vpn (kernel_vaddr s) \<Longrightarrow> bitmaps_off (kernel_pool s) (kernel_vaddr s) (vpg (kernel_vaddr s) k)"
    "bitmaps_off (kernel_pool s) (kernel_vaddr s) (running_thread s)"
    "l \<in> {thread_ready_list s, thread_all_list s, pid_waiters s} \<Longrightarrow> x \<in> nodes l [] \<Longrightarrow> off_page (running_thread s) x"
    "l \<in> {thread_ready_list s, thread_all_list s, pid_waiters s} \<Longrightarrow> x \<in> nodes l [] \<Longrightarrow> k < vpn (kernel_vaddr s) \<Longrightarrow>
      off_page (vpg (kernel_vaddr s) k) x"
    "nodes (thread_ready_list s) [] \<inter> nodes (thread_all_list s) [] = {}"
proof -
  show "k < vpn (kernel_vaddr s) \<Longrightarrow> vpg (kernel_vaddr s) k \<noteq> running_thread s"
    using assms by (auto simp: boot_ok_def Let_def image_iff dest: sym)
qed (use assms in \<open>auto simp: boot_ok_def Let_def nodes_def\<close>)

lemma boot_ok_screen: "boot_ok (s\<lparr>screen := x\<rparr>) = boot_ok s"
  by (simp add: boot_ok_def pid_waiters_def running_thread_def)

text \<open>The kernel's two first tasks satisfy the scheduler's invariant.\<close>

lemma first_tasks:
  assumes "main \<noteq> t" "frame main = main" "frame t = t" "main \<noteq> NULL" "t \<noteq> NULL"
    and "running_thread s = main" "idle_thread s = t" "cr3 s = 0x100000"
    and "status (tasks s main) = TASK_RUNNING" "status (tasks s t) = TASK_READY" "self_kstack (tasks s t) = t + 3664"
    and "\<And>u. u \<in> {main, t} \<Longrightarrow> stack_magic (tasks s u) = 0x12345678 \<and> pgdir (tasks s u) = NULL \<and>
      off_page u (thread_ready_list s) \<and> off_page u (list_tail (thread_ready_list s))"
    and "dlist (lheap s) (thread_ready_list s) [general_tag t]"
  shows "sched_inv s [t] [main, t] (\<lambda>_. 0x100000)"
proof -
  have "within t 4096 (t + 3684) 4" by (simp add: within_def)
  then have "frame (t + 3684) = t" using within_page [OF assms(3), of "t + 3684" 4] by simp
  then have "frame (t + 3664 + 20) = t" by (simp add: add.assoc)
  moreover have "general_tag u \<noteq> thread_ready_list s \<and> general_tag u \<noteq> list_tail (thread_ready_list s)" if "u \<in> {main, t}" for u
    using assms(12) [OF that] tag_on_page [of u] assms(2,3) that by auto
  ultimately show ?thesis
    using assms by (auto simp: sched_inv_def sched_wf_def page_dirs_def ready_list_def idle_ok_def)
qed

text \<open>The three stages of \<^verbatim>\<open>thread_init\<close>: the lists, the main thread, the idle thread.\<close>

definition lists_made :: "'a memsys_scheme \<Rightarrow> 'a memsys_scheme" where
  "lists_made s = lock_init (pid_lock s) (list_init (thread_all_list s) (list_init (thread_ready_list s)
     (put_lit ''thread_init start\<newline>'' s)))"

abbreviation finish_init :: "u32 \<Rightarrow> 'a memsys_scheme \<Rightarrow> 'a memsys_scheme" where
  "finish_init t s \<equiv> put_lit ''thread_init done\<newline>'' (s\<lparr>idle_thread := t\<rparr>)"

lemma lists_made_fields:
  "running_thread (lists_made s) = running_thread s" "thread_ready_list (lists_made s) = thread_ready_list s"
  "thread_all_list (lists_made s) = thread_all_list s" "pid_lock (lists_made s) = pid_lock s"
  "pid_waiters (lists_made s) = pid_waiters s" "kmem (lists_made s) = kmem s" "phys (lists_made s) = phys s" "cr3 (lists_made s) = cr3 s"
  "kernel_pool (lists_made s) = kernel_pool s" "kernel_vaddr (lists_made s) = kernel_vaddr s" "next_pid (lists_made s) = next_pid s"
  by (simp_all add: lists_made_def put_lit_def lock_init_def sema_init_def list_init_def set_sema_def set_repeat_def set_holder_def
      running_thread_def pid_waiters_def)

lemma lists_made_ok:
  assumes "boot_ok s"
  shows "dlist (lheap (lists_made s)) (thread_ready_list s) []" "dlist (lheap (lists_made s)) (thread_all_list s) []"
    "lock_free (pid_lock s) (lists_made s)"
proof -
  let ?s = "put_lit ''thread_init start\<newline>'' s"
  have "boot_ok ?s" using assms by (simp add: put_lit_def boot_ok_screen)
  moreover have "thread_ready_list ?s = thread_ready_list s" "thread_all_list ?s = thread_all_list s" "pid_lock ?s = pid_lock s"
    by (simp_all add: put_lit_def)
  ultimately show "dlist (lheap (lists_made s)) (thread_ready_list s) []" "dlist (lheap (lists_made s)) (thread_all_list s) []"
    "lock_free (pid_lock s) (lists_made s)"
    using empty_lists_init [of ?s] by (simp_all add: lists_made_def)
qed

definition with_main :: "'a memsys_scheme \<Rightarrow> 'a memsys_scheme" where
  "with_main s = main_made (lists_made s)"

lemma with_main_eq:
  "with_main s = task_upd (running_thread s) (new_task (running_thread s) (map of_char ''main'') 31 (next_pid s + 1) True)
     ((lists_made s)\<lparr>main_thread := running_thread s, kmem := memset_loop (kmem s) (running_thread s) 0 272, lheap := lheap (with_main s),
       block_descs := block_descs (with_main s), next_pid := next_pid s + 1\<rparr>)"
  using main_made_eq [of "lists_made s"] by (simp add: with_main_def lists_made_fields)

lemma with_main_fields:
  "running_thread (with_main s) = running_thread s" "thread_ready_list (with_main s) = thread_ready_list s"
  "thread_all_list (with_main s) = thread_all_list s" "pid_lock (with_main s) = pid_lock s" "pid_waiters (with_main s) = pid_waiters s"
  "kmem (with_main s) = memset_loop (kmem s) (running_thread s) 0 272" "phys (with_main s) = phys s" "cr3 (with_main s) = cr3 s"
  "kernel_pool (with_main s) = kernel_pool s" "kernel_vaddr (with_main s) = kernel_vaddr s" "next_pid (with_main s) = next_pid s + 1"
  "main_thread (with_main s) = running_thread s"
  by (subst with_main_eq, simp add: task_upd_def lists_made_fields running_thread_def pid_waiters_def
      lists_made_fields(1) [unfolded running_thread_def] lists_made_fields(5) [unfolded pid_waiters_def])+

lemma with_main_ok:
  assumes "boot_ok s"
  shows "make_main_thread (push_frame (running_thread s) fr (lists_made s)) =
      Inr (Some (), push_frame (running_thread s) fr (with_main s))"
    "dlist (lheap (with_main s)) (thread_ready_list s) []" "dlist (lheap (with_main s)) (thread_all_list s) [all_list_tag (running_thread s)]"
    "lock_free (pid_lock s) (with_main s)"
    "vm_ok (kernel_pool s) (kernel_vaddr s) (kmem (with_main s)) (phys s) (cr3 s)" "free_frames (kernel_pool s) (kmem (with_main s)) \<noteq> {}"
    "k < vpn (kernel_vaddr s) \<Longrightarrow>
      bm_bit (kmem (with_main s)) (vaddr_bitmap (kernel_vaddr s)) k = bm_bit (kmem s) (vaddr_bitmap (kernel_vaddr s)) k"
proof -
  note B = boot_okD [OF assms]
  have dj: "nodes (pid_waiters s) [] \<inter> nodes (thread_all_list s) [] = {}" using assms by (auto simp: boot_ok_def Let_def nodes_def)
  note M = main_made_ok [of "lists_made s", unfolded lists_made_fields, OF lists_made_ok [OF assms] B(9) B(11) dj B(3), folded with_main_def]
  show "make_main_thread (push_frame (running_thread s) fr (lists_made s)) = Inr (Some (), push_frame (running_thread s) fr (with_main s))"
    "dlist (lheap (with_main s)) (thread_ready_list s) []" "dlist (lheap (with_main s)) (thread_all_list s) [all_list_tag (running_thread s)]"
    "lock_free (pid_lock s) (with_main s)" by (rule M; assumption)+
  have fm: "frame (running_thread s) = running_thread s" by (simp add: running_thread_frame)
  show "vm_ok (kernel_pool s) (kernel_vaddr s) (kmem (with_main s)) (phys s) (cr3 s)" "free_frames (kernel_pool s) (kmem (with_main s)) \<noteq> {}"
    using vm_ok_memset [OF B(1) fm _ B(8)] B(6) by (simp_all add: with_main_fields)
  show "k < vpn (kernel_vaddr s) \<Longrightarrow>
      bm_bit (kmem (with_main s)) (vaddr_bitmap (kernel_vaddr s)) k = bm_bit (kmem s) (vaddr_bitmap (kernel_vaddr s)) k"
    using bm_bit_memset [OF fm, of 272] B(8) by (simp add: with_main_fields bitmaps_off_def)
qed

definition idle_task :: "u32 \<Rightarrow> u32 \<Rightarrow> u16 \<Rightarrow> task_struct \<Rightarrow> task_struct" where
  "idle_task idle_fn t p r = (new_task t (map of_char ''idle'') 10 p False r)\<lparr>self_kstack := t + PG_SIZE - 4 * 76 - 4 * 32,
     kstack := [F_kernel_thread idle_fn NULL]\<rparr>"

lemma start_idle:
  fixes s :: "'a memsys_scheme"
  assumes "boot_ok s"
  shows "\<exists>k m h a b sv lh lr ph s3. k < vpn (kernel_vaddr s) \<and>
    s3 = task_upd (vpg (kernel_vaddr s) k) (idle_task idle_fn (vpg (kernel_vaddr s) k) (next_pid s + 2))
      ((with_main s)\<lparr>kmem := m, lheap := h, arenas := a, block_descs := b, sema_value := sv, lock_holder := lh, lock_repeat := lr, phys := ph, next_pid := next_pid s + 2\<rparr>) \<and>
    thread_start (map of_char ''idle'') 10 idle_fn NULL (push_frame (running_thread s) fr (with_main s)) =
      Inr (Some (vpg (kernel_vaddr s) k), push_frame (running_thread s) fr s3) \<and>
    vm_ok (kernel_pool s) (kernel_vaddr s) m ph (cr3 s) \<and>
    dlist h (thread_ready_list s) [general_tag (vpg (kernel_vaddr s) k)] \<and>
    dlist h (thread_all_list s) [all_list_tag (running_thread s), all_list_tag (vpg (kernel_vaddr s) k)]"
proof -
  note B = boot_okD [OF assms] and W = with_main_ok [OF assms]
  let ?va = "kernel_vaddr s" and ?p = "kernel_pool s" and ?main = "running_thread s"
  define u where "u = push_frame ?main fr (with_main s)"
  have F: "running_thread u = ?main" "thread_ready_list u = thread_ready_list s" "thread_all_list u = thread_all_list s"
    "pid_lock u = pid_lock s" "pid_waiters u = pid_waiters s" "kmem u = kmem (with_main s)" "phys u = phys s" "cr3 u = cr3 s"
    "kernel_pool u = ?p" "kernel_vaddr u = ?va" "next_pid u = next_pid s + 1" "main_thread u = ?main" "lheap u = lheap (with_main s)"
    by (simp_all add: u_def with_main_fields) (simp_all add: push_frame_def task_upd_def with_main_fields pid_waiters_def [symmetric], simp add: pid_waiters_def with_main_fields)
  obtain i where i: "i < vpn ?va" "\<not> bm_bit (kmem s) (vaddr_bitmap ?va) i" using B(5) by blast
  have fm: "frame ?main = ?main" by (simp add: running_thread_frame)
  have po: "pools_ok ?p ?va" using B(1) by (simp add: vm_ok_def)
  have offk: "bitmaps_off ?p ?va (vpg ?va k) \<and> off_page (vpg ?va k) (pid_waiters u) \<and> vpg ?va k \<noteq> main_thread u" if "k < vpn ?va" for k
    using B(4,7) [OF that] B(10) [of "pid_waiters s" "pid_waiters s", OF _ _ that] by (simp add: F nodes_def)
  have offn: "off_page (vpg ?va k) x" if "k < vpn ?va" "x \<in> nodes (thread_ready_list u) [] \<union> nodes (thread_all_list u) [all_list_tag ?main]" for k x
    using that B(10) [OF _ _ that(1)] tag_off_page [OF fm frame_pg [OF pools_okD(4) [OF po] that(1)]] B(4) [OF that(1)]
    by (auto simp: F nodes_def)
  have lf: "lock_free (pid_lock u) u"
    using W(4) unfolding F by (simp add: u_def lock_free_def list_empty_def push_frame_def task_upd_def)
  have dj: "nodes (thread_ready_list u) [] \<inter> nodes (thread_all_list u) [all_list_tag ?main] = {}"
    using B(11) B(9) [of "thread_ready_list s"] tag_on_page [OF fm] by (auto simp: F nodes_def)
  have vm: "vm_ok ?p ?va (kmem u) (phys u) (cr3 u)" "free_frames ?p (kmem u) \<noteq> {}"
    "dlist (lheap u) (thread_ready_list u) []" "dlist (lheap u) (thread_all_list u) [all_list_tag ?main]"
    using W(2,3,5,6) by (simp_all add: F)
  have n2: "next_pid u + 1 = next_pid s + 2" by (simp add: F)
  obtain k m h a b sv lh lr ph where K: "thread_start (map of_char ''idle'') 10 idle_fn NULL u = Inr (Some (vpg ?va k), task_upd (vpg ?va k)
      (idle_task idle_fn (vpg ?va k) (next_pid s + 2))
      (u\<lparr>kmem := m, lheap := h, arenas := a, block_descs := b, sema_value := sv, lock_holder := lh, lock_repeat := lr, phys := ph, next_pid := next_pid s + 2\<rparr>))"
    "k < vpn ?va" "vm_ok ?p ?va m ph (cr3 u)" "dlist h (thread_ready_list u) [general_tag (vpg ?va k)]"
    "dlist h (thread_all_list u) [all_list_tag ?main, all_list_tag (vpg ?va k)]"
    using thread_start_ok [OF vm(1) F(9,10) [symmetric] i(1) _ vm(2) offk vm(3,4) dj offn lf,
        of "map of_char ''idle''" 10 idle_fn NULL, unfolded n2 idle_task_def [symmetric]]
      i(2) W(7) [OF i(1)] B(3) by (auto simp: F)
  define s3 where "s3 = task_upd (vpg ?va k) (idle_task idle_fn (vpg ?va k) (next_pid s + 2))
      ((with_main s)\<lparr>kmem := m, lheap := h, arenas := a, block_descs := b, sema_value := sv, lock_holder := lh, lock_repeat := lr, phys := ph, next_pid := next_pid s + 2\<rparr>)"
  have "thread_start (map of_char ''idle'') 10 idle_fn NULL u = Inr (Some (vpg ?va k), push_frame ?main fr s3)"
    using K(1) B(4) [OF K(2)] unfolding u_def by (simp add: s3_def push_frame_def task_upd_def fun_upd_twist)
  then show ?thesis using K(2-5) s3_def
    unfolding u_def [symmetric] F by (intro exI [of _ k] exI [of _ m] exI [of _ h] exI [of _ a] exI [of _ b] exI [of _ sv] exI [of _ lh] exI [of _ lr] exI [of _ ph] exI [of _ s3]) simp
qed

text \<open>
  C27: \<^verbatim>\<open>thread_init\<close> builds the scheduler: called on the boot stack with initialised memory, it returns,
  the boot code is the running task \<^verbatim>\<open>main\<close>, a fresh page of the heap holds the idle thread, whose
  first frame enters \<^verbatim>\<open>idle\<close>, both are in the list of all tasks in this order, their pids are
  consecutive, and the scheduler's invariant holds with the idle thread as the only ready one. The
  invariant of the memory manager is kept.
\<close>
theorem thread_init_establishes:
  assumes "boot_ok s"
  shows "\<exists>s' t. thread_init idle_fn s = Inr (Some (), s') \<and> idle_thread s' = t \<and> main_thread s' = running_thread s \<and>
    running_thread s' = running_thread s \<and> sched_inv s' [t] [running_thread s, t] (\<lambda>_. 0x100000) \<and>
    dlist (lheap s') (thread_all_list s) [all_list_tag (running_thread s), all_list_tag t] \<and>
    kstack (tasks s' t) = [F_kernel_thread idle_fn NULL] \<and> pid (tasks s' (running_thread s)) = next_pid s + 1 \<and> pid (tasks s' t) = next_pid s + 2 \<and>
    vm_ok (kernel_pool s) (kernel_vaddr s) (kmem s') (phys s') (cr3 s')"
proof -
  note B = boot_okD [OF assms]
  let ?main = "running_thread s" and ?va = "kernel_vaddr s" and ?p = "kernel_pool s"
  obtain k m h a b sv lh lr ph s3 where K: "k < vpn ?va"
    "s3 = task_upd (vpg ?va k) (idle_task idle_fn (vpg ?va k) (next_pid s + 2))
      ((with_main s)\<lparr>kmem := m, lheap := h, arenas := a, block_descs := b, sema_value := sv, lock_holder := lh, lock_repeat := lr, phys := ph, next_pid := next_pid s + 2\<rparr>)"
    "thread_start (map of_char ''idle'') 10 idle_fn NULL (push_frame ?main F_thread_init_idle (with_main s)) =
      Inr (Some (vpg ?va k), push_frame ?main F_thread_init_idle s3)"
    "vm_ok ?p ?va m ph (cr3 s)" "dlist h (thread_ready_list s) [general_tag (vpg ?va k)]"
    "dlist h (thread_all_list s) [all_list_tag ?main, all_list_tag (vpg ?va k)]"
    using start_idle [OF assms, of idle_fn F_thread_init_idle] by (elim exE conjE)
  define t where "t = vpg ?va k"
  have po: "pools_ok ?p ?va" using B(1) by (simp add: vm_ok_def)
  have t: "frame t = t" "t \<noteq> NULL" "?main \<noteq> t" and fm: "frame ?main = ?main"
    using frame_pg pg_nonzero pools_okD(4) [OF po] K(1) B(4) [OF K(1)] by (auto simp: t_def running_thread_frame)
  define s4 where "s4 = finish_init t s3"
  have r3: "running_thread s3 = ?main" by (simp add: K(2) with_main_fields(1) running_thread_def with_main_fields(1) [unfolded running_thread_def])
  have r4: "running_thread (s3\<lparr>idle_thread := x, screen := y\<rparr>) = ?main" for x y using r3 by (simp add: running_thread_def)
  have "after_call F_thread_init_idle (thread_start (map of_char ''idle'') 10 idle_fn NULL)
      (\<lambda>t s. Inr (Some (), finish_init t s)) (with_main s) = Inr (Some (), s4)"
    by (subst after_call_returns [where f = "thread_start (map of_char ''idle'') 10 idle_fn NULL" and s = "with_main s", unfolded with_main_fields(1), OF K(3) r3])
      (simp add: s4_def t_def)
  moreover have "thread_init idle_fn s = after_call F_thread_init_idle (thread_start (map of_char ''idle'') 10 idle_fn NULL)
      (\<lambda>t s. Inr (Some (), finish_init t s)) (with_main s)"
  proof -
    have "thread_init idle_fn s = after_call F_thread_init make_main_thread
        (\<lambda>_. after_call F_thread_init_idle (thread_start (map of_char ''idle'') 10 idle_fn NULL) (\<lambda>t s. Inr (Some (), finish_init t s)))
        (lists_made s)"
      by (simp add: thread_init_def Let_def lists_made_def) (simp add: put_lit_def)
    also have "\<dots> = after_call F_thread_init_idle (thread_start (map of_char ''idle'') 10 idle_fn NULL)
      (\<lambda>t s. Inr (Some (), finish_init t s)) (with_main s)"
      by (rule after_call_returns [where f = make_main_thread]) (simp_all only: lists_made_fields with_main_fields with_main_ok(1) [OF assms])
    finally show ?thesis .
  qed
  ultimately have "thread_init idle_fn s = Inr (Some (), s4)" by simp
  moreover have T: "tasks s4 = (tasks (lists_made s))(?main := new_task ?main (map of_char ''main'') 31 (next_pid s + 1) True (tasks (lists_made s) ?main),
      t := idle_task idle_fn t (next_pid s + 2) (tasks (lists_made s) t))"
    unfolding s4_def K(2) by (subst with_main_eq) (use t(3) in \<open>simp add: put_lit_def t_def\<close>)
  moreover have F4: "idle_thread s4 = t" "main_thread s4 = ?main" "running_thread s4 = ?main" "thread_ready_list s4 = thread_ready_list s"
    "lheap s4 = h" "kmem s4 = m" "phys s4 = ph" "cr3 s4 = cr3 s"
    by (simp_all add: s4_def put_lit_def r4) (simp_all add: K(2) task_upd_def with_main_fields)
  moreover have "sched_inv s4 [t] [?main, t] (\<lambda>_. 0x100000)"
  proof (rule first_tasks [OF t(3) fm t(1) B(3) t(2) F4(3,1)])
    show "self_kstack (tasks s4 t) = t + 3664" by (simp add: T PG_SIZE_def idle_task_def)
    fix v assume "v \<in> {?main, t}"
    then show "stack_magic (tasks s4 v) = 0x12345678 \<and> pgdir (tasks s4 v) = NULL \<and>
      off_page v (thread_ready_list s4) \<and> off_page v (list_tail (thread_ready_list s4))"
      using B(9) [of "thread_ready_list s"] B(10) [of "thread_ready_list s", OF _ _ K(1)] t(3)
      by (auto simp: T F4 new_task_def idle_task_def nodes_def t_def)
  qed (use K(5) t(3) B(2) in \<open>simp_all add: F4 T new_task_def idle_task_def t_def\<close>)
  ultimately show ?thesis using K(4,6) t(3) by (auto simp: idle_task_def new_task_def t_def)
qed

lemma demo_boot: "boot_ok demo_mem"
proof -
  have f: "thread_ready_list demo_mem = 0xc0005000" "thread_all_list demo_mem = 0xc0005010" "pid_waiters demo_mem = 0xc0005028"
    "running_thread demo_mem = 0xc009e000"
    by (simp_all add: demo_mem_def consys.defs demo_con_def console_init_def demo_kbd_def demo_dev_def kbdsys.defs devsys.defs
        tsys.defs demo_tsys_def list_init_def list_append_def list_insert_before_eq lock_init_def sema_init_def set_sema_def set_repeat_def
        set_holder_def pid_waiters_def sema_waiters_def lock_semaphore_def running_thread_def)
  have r: "rng b (Suc 0) = {b}" for b by (auto simp: rng_def unat_eq_zero)
  have q: "bitmaps_off demo_kpool demo_va q \<and> (\<forall>l \<in> {0xc0005000, 0xc0005010, 0xc0005028}. off_page q l \<and> off_page q (list_tail l))"
    if "q \<in> insert 0xc009e000 (set (map (pg 0xc0100000) [0..<8]))" for q
    using that by (auto simp: bitmaps_off_def demo_kpool_def demo_va_def r off_page_def frame_def upt_rec pg_def)
  have "\<exists>i < vpn demo_va. \<not> bm_bit (kmem demo_mem) (vaddr_bitmap demo_va) i"
    using demo_bit [of "0xc009a002" 0] by (intro exI [of _ 0]) (simp add: demo_va_def)
  moreover have "0xc009e000 \<notin> set (map (pg 0xc0100000) [0..<8])" by (simp add: upt_rec pg_def)
  ultimately show ?thesis
    using demo_vm_ok demo_free(1) q by (simp add: boot_ok_def Let_def demo_mem_fields f) (simp add: demo_va_def)
qed

theorem thread_init_establishes_witness:
  "\<exists>s'. thread_init 0xc0001500 demo_mem = Inr (Some (), s') \<and>
    sched_inv s' [idle_thread s'] [running_thread demo_mem, idle_thread s'] (\<lambda>_. 0x100000)"
  using thread_init_establishes [OF demo_boot, of "0xc0001500"] by blast

end
