(* ===== verification/Process.thy ===== *)
theory Process
  imports Tasks
begin

text \<open>
  User processes: \<^verbatim>\<open>userprog/process.c\<close> and \<^verbatim>\<open>userprog/tss.c\<close>. A process has its own page directory, whose
  upper quarter is a copy of the kernel's, a bitmap of user addresses and block descriptors in its
  PCB. It enters user mode through a prepared interrupt frame. The segment descriptors and the task
  state segment through which the processor finds the kernel stack are built here too.
\<close>

section \<open>Descriptors and the task state segment\<close>

definition SELECTOR_K_STACK :: u32 where "SELECTOR_K_STACK = push_bit 3 2 + push_bit 2 0 + 0"
definition SELECTOR_U_CODE :: u32 where "SELECTOR_U_CODE = push_bit 3 5 + push_bit 2 0 + 3"
definition SELECTOR_U_DATA :: u32 where "SELECTOR_U_DATA = push_bit 3 6 + push_bit 2 0 + 3"
definition SELECTOR_TSS :: u16 where "SELECTOR_TSS = push_bit 3 4 + push_bit 2 0 + 0"

definition GDT_ATTR_HIGH :: u8 where "GDT_ATTR_HIGH = push_bit 7 1 + push_bit 6 1 + push_bit 5 0 + push_bit 4 0"
definition GDT_CODE_ATTR_LOW_DPL3 :: u8 where "GDT_CODE_ATTR_LOW_DPL3 = push_bit 7 1 + push_bit 5 3 + push_bit 4 1 + 8"
definition GDT_DATA_ATTR_LOW_DPL3 :: u8 where "GDT_DATA_ATTR_LOW_DPL3 = push_bit 7 1 + push_bit 5 3 + push_bit 4 1 + 2"
definition TSS_ATTR_HIGH :: u8 where "TSS_ATTR_HIGH = push_bit 7 1 + push_bit 6 0 + push_bit 5 0 + push_bit 4 0 + 0"
definition TSS_ATTR_LOW :: u8 where "TSS_ATTR_LOW = push_bit 7 1 + push_bit 5 0 + push_bit 4 0 + 9"

definition EFLAGS_MBS :: u32 where "EFLAGS_MBS = push_bit 1 1"
definition EFLAGS_IF_1 :: u32 where "EFLAGS_IF_1 = push_bit 9 1"
definition EFLAGS_IOPL_0 :: u32 where "EFLAGS_IOPL_0 = push_bit 12 0"

record gdt_desc =
  limit_low_word :: u16
  base_low_word :: u16
  base_mid_byte :: u8
  attr_low_byte :: u8
  limit_high_attr_high :: u8
  base_high_byte :: u8

definition make_gdt_desc :: "u32 \<Rightarrow> u32 \<Rightarrow> u8 \<Rightarrow> u8 \<Rightarrow> gdt_desc" where
  "make_gdt_desc desc_base limit attr_low attr_high =
     \<lparr>limit_low_word = ucast (limit AND 0x0000ffff), base_low_word = ucast (desc_base AND 0x0000ffff),
      base_mid_byte = ucast (drop_bit 16 (desc_base AND 0x00ff0000)), attr_low_byte = attr_low,
      limit_high_attr_high = ucast (drop_bit 16 (limit AND 0x000f0000) + ucast attr_high), base_high_byte = ucast (drop_bit 24 desc_base)\<rparr>"

text \<open>The 27 words of \<^verbatim>\<open>struct tss\<close>, without \<^verbatim>\<open>esp0\<close>, which is \<open>tss_esp0\<close> of the scheduler's state.\<close>

record tss =
  backlink :: u32
  ss0 :: u32
  esp1 :: u32
  ss1 :: u32
  esp2 :: u32
  ss2 :: u32
  tss_cr3 :: u32
  tss_eip :: u32
  tss_eflags :: u32
  tss_eax :: u32
  tss_ecx :: u32
  tss_edx :: u32
  tss_ebx :: u32
  tss_esp :: u32
  tss_ebp :: u32
  tss_esi :: u32
  tss_edi :: u32
  tss_es :: u32
  tss_cs :: u32
  tss_ss :: u32
  tss_ds :: u32
  tss_fs :: u32
  tss_gs :: u32
  tss_idt :: u32
  trace :: u32
  io_base :: u32

definition zero_tss :: tss where
  "zero_tss = \<lparr>backlink = 0, ss0 = 0, esp1 = 0, ss1 = 0, esp2 = 0, ss2 = 0, tss_cr3 = 0, tss_eip = 0, tss_eflags = 0,
     tss_eax = 0, tss_ecx = 0, tss_edx = 0, tss_ebx = 0, tss_esp = 0, tss_ebp = 0, tss_esi = 0, tss_edi = 0, tss_es = 0, tss_cs = 0,
     tss_ss = 0, tss_ds = 0, tss_fs = 0, tss_gs = 0, tss_idt = 0, trace = 0, io_base = 0\<rparr>"

text \<open>\<^verbatim>\<open>struct intr_stack\<close>: what \<^verbatim>\<open>intr_exit\<close> pops.\<close>

record intr_stack =
  vec_no :: u32
  edi :: u32
  esi :: u32
  ebp :: u32
  esp_dummy :: u32
  ebx :: u32
  edx :: u32
  ecx :: u32
  eax :: u32
  i_gs :: u32
  i_fs :: u32
  i_es :: u32
  i_ds :: u32
  err_code :: u32
  eip :: u32
  i_cs :: u32
  u_eflags :: u32
  u_esp :: u32
  i_ss :: u32

text \<open>
  \<open>tss_addr\<close> is the address of the segment, \<open>gdt\<close> the descriptors by their address, \<open>gdtr\<close> and \<open>tr\<close>
  the registers loaded by \<^verbatim>\<open>lgdt\<close> and \<^verbatim>\<open>ltr\<close>; \<open>intr_stacks\<close> the interrupt frames on kernel stacks.
\<close>

record procsys = memsys +
  tss_addr :: u32
  tss_seg :: tss
  gdt :: "u32 \<Rightarrow> gdt_desc"
  gdtr :: "u16 \<times> u32"
  tr :: u16
  intr_stacks :: "u32 \<Rightarrow> intr_stack"

definition tss_init :: "'a procsys_scheme \<Rightarrow> 'a procsys_scheme" where
  "tss_init s =
     (let s = put_lit ''tss_init start\<newline>'' s;
          tss_size = 108;
          s = s\<lparr>tss_esp0 := 0, tss_seg := zero_tss\<lparr>ss0 := SELECTOR_K_STACK, io_base := tss_size\<rparr>\<rparr>;
          s = s\<lparr>gdt := (gdt s)(0xc0000920 := make_gdt_desc (tss_addr s) (tss_size - 1) TSS_ATTR_LOW TSS_ATTR_HIGH,
                  0xc0000928 := make_gdt_desc 0 0xfffff GDT_CODE_ATTR_LOW_DPL3 GDT_ATTR_HIGH,
                  0xc0000930 := make_gdt_desc 0 0xfffff GDT_DATA_ATTR_LOW_DPL3 GDT_ATTR_HIGH)\<rparr>;
          lgdt_operand = (8 * 7 - 1) OR push_bit 16 (0xc0000900 :: 64 word)
      in put_lit ''tss_init and ltr done\<newline>'' (s\<lparr>gdtr := (ucast lgdt_operand, ucast (drop_bit 16 lgdt_operand)), tr := SELECTOR_TSS\<rparr>))"

section \<open>Creating a process\<close>

definition USER_VADDR_START :: u32 where "USER_VADDR_START = 0x8048000"
definition USER_STACK3_VADDR :: u32 where "USER_STACK3_VADDR = 0xc0000000 - 0x1000"
definition default_prio :: int where "default_prio = 10"

text \<open>A message on the console, under its lock; \<open>fr\<close> is the frame of the caller.\<close>

definition console_lit :: "kframe \<Rightarrow> u8 list \<Rightarrow> 'a consys_scheme \<Rightarrow> (unit option \<times> 'a consys_scheme) res" where
  "console_lit fr txt s = after_lock fr (console_lock s)
     (\<lambda>s. kbind (console_release (s\<lparr>screen := screen s @ txt\<rparr>)) (\<lambda>s. Inr (Some (), s))) s"

text \<open>\<^verbatim>\<open>memcpy\<close> of the 256 upper entries from the window, word by word.\<close>

definition copy_kernel_pdes :: "u32 \<Rightarrow> 'a vmstate_scheme \<Rightarrow> 'a vmstate_scheme res" where
  "copy_kernel_pdes page_dir_vaddr s =
     each_res (\<lambda>i s. kbind (vload (0xfffff000 + 0x300 * 4 + 4 * word_of_nat i) s)
       (\<lambda>e. vstore (page_dir_vaddr + 0x300 * 4 + 4 * word_of_nat i) e s)) [0..<256] s"

definition fill_page_dir :: "u32 \<Rightarrow> 'a vmstate_scheme \<Rightarrow> 'a vmstate_scheme res" where
  "fill_page_dir page_dir_vaddr s =
     kbind (copy_kernel_pdes page_dir_vaddr s) (\<lambda>s.
     kbind (addr_v2p page_dir_vaddr s) (\<lambda>new_page_dir_phy_addr.
       vstore (page_dir_vaddr + 4 * 1023) (new_page_dir_phy_addr OR PG_US_U OR PG_RW_W OR PG_P_1) s))"

definition create_page_dir :: "'a memsys_scheme \<Rightarrow> (u32 option \<times> 'a memsys_scheme) res" where
  "create_page_dir s =
     kbind (get_kernel_pages 1 s) (\<lambda>(page_dir_vaddr, s).
       if page_dir_vaddr = NULL then
         kbind (console_lit (F_at ''create_page_dir'' []) (map of_char ''create_page_dir: get_kernel_page failed!'') s)
           (\<lambda>(r, s). Inr (map_option (\<lambda>_. NULL) r, s))
       else kbind (fill_page_dir page_dir_vaddr s) (\<lambda>s. Inr (Some page_dir_vaddr, s)))"

definition create_user_vaddr_bitmap :: "u32 \<Rightarrow> 'a memsys_scheme \<Rightarrow> 'a memsys_scheme res" where
  "create_user_vaddr_bitmap user_prog s =
     (let bitmap_pg_cnt = DIV_ROUND_UP ((0xc0000000 - USER_VADDR_START) div PG_SIZE div 8) PG_SIZE in
      kbind (get_kernel_pages bitmap_pg_cnt s) (\<lambda>(b, s).
        let va = \<lparr>vaddr_bitmap = \<lparr>btmp_bytes_len = (0xc0000000 - USER_VADDR_START) div PG_SIZE div 8, bits = b\<rparr>,
                  vaddr_start = USER_VADDR_START\<rparr>;
            s = task_upd user_prog (userprog_vaddr_update (\<lambda>_. va)) s
        in kbind (bitmap_init (kmem s) (vaddr_bitmap va)) (\<lambda>m. Inr (s\<lparr>kmem := m\<rparr>))))"

text \<open>The end of \<^verbatim>\<open>process_execute\<close>, once the directory exists.\<close>

definition process_ready :: "u32 \<Rightarrow> u32 \<Rightarrow> 'a memsys_scheme \<Rightarrow> (unit option \<times> 'a memsys_scheme) res" where
  "process_ready thread pd s =
     (let s = block_desc_init (u_block_descs thread) (task_upd thread (pgdir_update (\<lambda>_. pd)) s);
          (old_status, s) = intr_disable s
      in kbind (elem_find (thread_ready_list s) (general_tag thread) s) (\<lambda>found. ASSERT (\<not> found)
           (let s = list_append (thread_ready_list s) (general_tag thread) s in
            kbind (elem_find (thread_all_list s) (all_list_tag thread) s) (\<lambda>found. ASSERT (\<not> found)
              (Inr (Some (), snd (intr_set_status old_status (list_append (thread_all_list s) (all_list_tag thread) s))))))))"

text \<open>\<open>start_fn\<close> is the address of the code of \<^verbatim>\<open>start_process\<close>.\<close>

definition process_execute :: "u32 \<Rightarrow> u32 \<Rightarrow> u8 list \<Rightarrow> 'a memsys_scheme \<Rightarrow> (unit option \<times> 'a memsys_scheme) res" where
  "process_execute start_fn filename nam s =
     kbind (get_kernel_pages 1 s) (\<lambda>(thread, s).
       after_call (F_process_execute thread filename) (init_thread thread nam default_prio)
         (\<lambda>_ s. kbind (create_user_vaddr_bitmap thread s) (\<lambda>s.
            after_call (F_at ''process_execute'' [thread]) create_page_dir (process_ready thread)
              (thread_create thread start_fn filename s))) s)"

text \<open>
  The first code of a process. \<^verbatim>\<open>self_kstack\<close> moves back over the thread stack, again in units of four
  bytes; \<^verbatim>\<open>intr_exit\<close> pops the frame built there and enters user mode with it.
\<close>

definition enter_user :: "u32 \<Rightarrow> u32 \<Rightarrow> 'a procsys_scheme \<Rightarrow> (intr_stack option \<times> 'a procsys_scheme) res" where
  "enter_user proc_stack page s =
     (let fr = (intr_stacks s proc_stack)\<lparr>u_esp := page + PG_SIZE, i_ss := SELECTOR_U_DATA\<rparr>
      in Inr (Some fr, s\<lparr>intr_stacks := (intr_stacks s)(proc_stack := fr), esp := proc_stack + 76, eflags := u_eflags fr\<rparr>))"

definition start_process :: "u32 \<Rightarrow> 'a procsys_scheme \<Rightarrow> (intr_stack option \<times> 'a procsys_scheme) res" where
  "start_process filename s =
     (let cur = running_thread s;
          s = task_upd cur (self_kstack_update (\<lambda>k. k + 4 * 32)) s;
          proc_stack = self_kstack (tasks s cur);
          fr = (intr_stacks s proc_stack)\<lparr>edi := 0, esi := 0, ebp := 0, esp_dummy := 0, ebx := 0, edx := 0, ecx := 0, eax := 0,
            i_gs := 0, i_ds := SELECTOR_U_DATA, i_es := SELECTOR_U_DATA, i_fs := SELECTOR_U_DATA, eip := filename, i_cs := SELECTOR_U_CODE,
            u_eflags := EFLAGS_IOPL_0 OR EFLAGS_MBS OR EFLAGS_IF_1\<rparr>
      in after_call (F_start_process proc_stack) (get_a_page PF_USER USER_STACK3_VADDR) (enter_user proc_stack)
           (s\<lparr>intr_stacks := (intr_stacks s)(proc_stack := fr)\<rparr>))"

section \<open>The page directory of a process\<close>

lemma page_offset: "frame v = v \<Longrightarrow> drop_bit 10 idx = 0 \<Longrightarrow> (v + idx * 4) AND 0x00000fff = idx * 4" for idx :: u32
proof -
  assume v: "frame v = v" and d: "drop_bit 10 idx = 0"
  have "frame v + idx * 4 = frame v OR push_bit 2 idx" by (rule entry_add [OF d])
  then have e: "v + idx * 4 = frame v OR push_bit 2 idx" using v by simp
  show ?thesis unfolding e unfolding times4 frame_eq mask_consts
    by (rule bit_word_eqI) (auto simp: bit_simps dest: bit_below10 [OF _ d])
qed

lemma walk_in_page:
  assumes "walk ph c v = Some pa" "frame v = v" "drop_bit 10 idx = 0"
  shows "walk ph c (v + idx * 4) = Some (pa + idx * 4)"
proof -
  have f: "frame (v + idx * 4) = v" using frame_entry [OF assms(3), of v] assms(2) by simp
  show ?thesis
    using walk_frame [of "v + idx * 4" v ph c] assms(1,2) f by (simp add: page_offset [OF assms(2,3)])
qed

lemma pde_idx_exists: "drop_bit 10 idx = 0 \<Longrightarrow> PDE_IDX (push_bit 22 idx) = idx" for idx :: u32
  unfolding PDE_IDX_eq by (rule bit_word_eqI) (auto simp: bit_simps dest: bit_below10)

text \<open>One step of the copy: the entry of the active directory goes to the same index of the new page.\<close>

lemma copy_pde:
  fixes s :: "'a vmstate_scheme"
  assumes "self_mapped (phys s) (cr3 s)" "walk (phys s) (cr3 s) v = Some pa" "frame v = v" "drop_bit 10 idx = 0"
  shows "kbind (vload (0xfffff000 + idx * 4) s) (\<lambda>e. vstore (v + idx * 4) e s) =
    Inr (s\<lparr>phys := (phys s)(pa + idx * 4 := phys s (frame (cr3 s) + idx * 4))\<rparr>)"
proof -
  let ?w = "push_bit 22 idx"
  have "pde_ptr ?w = 0xfffff000 + idx * 4" using pde_idx_exists [OF assms(4)] by (simp add: pde_ptr_def)
  then have "walk (phys s) (cr3 s) (0xfffff000 + idx * 4) = Some (frame (cr3 s) + idx * 4)"
    using walk_pde_ptr [OF assms(1), of ?w] pde_idx_exists [OF assms(4)] by (simp add: pde_addr_def)
  then show ?thesis using walk_in_page [OF assms(2-4)] by (simp add: vload_def vstore_def)
qed

definition entry_no :: "nat \<Rightarrow> u32" where "entry_no i = word_of_nat (0x300 + i)"

lemma entry_no: "i < 256 \<Longrightarrow> drop_bit 10 (entry_no i) = 0" "i < 256 \<Longrightarrow> unat (entry_no i) = 0x300 + i"
proof -
  assume i: "i < 256"
  show u: "unat (entry_no i) = 0x300 + i" unfolding entry_no_def by (rule unat_word_of_nat_u32) (use i in simp)
  have "unat (drop_bit 10 (entry_no i)) = 0" using i u by (simp add: unat_drop_bit_eq drop_bit_nat_def)
  then show "drop_bit 10 (entry_no i) = 0" by (simp add: unat_eq_zero)
qed

lemma entry_no_addr: "a + 0x300 * 4 + 4 * word_of_nat i = a + entry_no i * 4" for a :: u32
  by (simp add: entry_no_def algebra_simps)

lemma copy_kernel_pdes_ok:
  fixes s :: "'a vmstate_scheme"
  assumes sm: "self_mapped (phys s) (cr3 s)" and w: "walk (phys s) (cr3 s) v = Some pa" and v: "frame v = v"
    and tf: "\<not> table_frame (phys s) (cr3 s) pa" and pa: "frame pa = pa"
  shows "\<exists>ph. copy_kernel_pdes v s = Inr (s\<lparr>phys := ph\<rparr>) \<and> (\<forall>a. frame a \<noteq> pa \<longrightarrow> ph a = phys s a) \<and>
    (\<forall>i < 256. ph (pa + entry_no i * 4) = phys s (frame (cr3 s) + entry_no i * 4)) \<and>
    (\<forall>a. (\<forall>i < 256. a \<noteq> pa + entry_no i * 4) \<longrightarrow> ph a = phys s a)"
proof -
  let ?step = "\<lambda>i s. kbind (vload (0xfffff000 + 0x300 * 4 + 4 * word_of_nat i) s) (\<lambda>e. vstore (v + 0x300 * 4 + 4 * word_of_nat i) e s)"
  have "table_frame (phys s) (cr3 s) (frame (cr3 s))"
    unfolding table_frame_def using sm by (intro exI [of _ "0xffffffff"]) (simp add: self_mapped_def pde_addr_last)
  then have cf: "frame (cr3 s) \<noteq> pa" using tf by auto
  have fp: "frame (pa + entry_no i * 4) = pa" if "i < 256" for i
    using frame_entry [OF entry_no(1) [OF that], of pa] pa by simp
  have fc: "frame (frame (cr3 s) + entry_no i * 4) = frame (cr3 s)" if "i < 256" for i
    by (rule frame_entry [OF entry_no(1) [OF that]])
  have "\<exists>ph. each_res ?step [0..<n] s = Inr (s\<lparr>phys := ph\<rparr>) \<and> (\<forall>a. frame a \<noteq> pa \<longrightarrow> ph a = phys s a) \<and>
    (\<forall>i < n. ph (pa + entry_no i * 4) = phys s (frame (cr3 s) + entry_no i * 4)) \<and>
    (\<forall>a. (\<forall>i < n. a \<noteq> pa + entry_no i * 4) \<longrightarrow> ph a = phys s a)" if "n \<le> 256" for n
    using that
  proof (induction n)
    case (Suc n)
    then obtain ph where IH: "each_res ?step [0..<n] s = Inr (s\<lparr>phys := ph\<rparr>)" "\<forall>a. frame a \<noteq> pa \<longrightarrow> ph a = phys s a"
      "\<forall>i < n. ph (pa + entry_no i * 4) = phys s (frame (cr3 s) + entry_no i * 4)"
      "\<forall>a. (\<forall>i < n. a \<noteq> pa + entry_no i * 4) \<longrightarrow> ph a = phys s a" by auto
    have n: "n < 256" using Suc by simp
    note off = walk_off_frame [OF sm tf, of ph]
    have "?step n (s\<lparr>phys := ph\<rparr>) = Inr (s\<lparr>phys := ph(pa + entry_no n * 4 := ph (frame (cr3 s) + entry_no n * 4))\<rparr>)"
      unfolding entry_no_addr
      using copy_pde [of "s\<lparr>phys := ph\<rparr>" v pa "entry_no n"] off(1,5) IH(2) w v entry_no(1) [OF n] by simp
    moreover have "ph (frame (cr3 s) + entry_no n * 4) = phys s (frame (cr3 s) + entry_no n * 4)"
      using IH(2) fc [OF n] cf by simp
    ultimately have e: "each_res ?step [0..<Suc n] s =
        Inr (s\<lparr>phys := ph(pa + entry_no n * 4 := phys s (frame (cr3 s) + entry_no n * 4))\<rparr>)"
      using IH(1) by (simp add: each_res_append)
    have ne: "pa + entry_no i * 4 \<noteq> pa + entry_no n * 4" if "i < n" for i
      using entry_inj [OF entry_no(1) entry_no(1), of i n pa pa] entry_no(2) [of i] entry_no(2) [of n] that n pa by auto
    define ph' where "ph' = ph(pa + entry_no n * 4 := phys s (frame (cr3 s) + entry_no n * 4))"
    have "\<forall>a. frame a \<noteq> pa \<longrightarrow> ph' a = phys s a" using IH(2) fp [OF n] by (auto simp: ph'_def)
    moreover have "\<forall>i < Suc n. ph' (pa + entry_no i * 4) = phys s (frame (cr3 s) + entry_no i * 4)"
      using IH(3) ne by (auto simp: ph'_def less_Suc_eq)
    moreover have "\<forall>a. (\<forall>i < Suc n. a \<noteq> pa + entry_no i * 4) \<longrightarrow> ph' a = phys s a" using IH(4) by (simp add: ph'_def)
    ultimately show ?case using e unfolding ph'_def [symmetric] by blast
  qed (auto intro: exI [of _ "phys s"])
  from this [of 256] show ?thesis unfolding copy_kernel_pdes_def by simp
qed

lemma pde_idx_entry:
  "PDE_IDX u < 0x300 \<or> PDE_IDX u = entry_no (unat (PDE_IDX u) - 0x300) \<and> unat (PDE_IDX u) - 0x300 < 256"
proof -
  have "unat (drop_bit 10 (PDE_IDX u)) = 0" using idx_small(1) [of u] by simp
  then have l: "unat (PDE_IDX u) < 1024" by (simp add: unat_drop_bit_eq drop_bit_nat_def)
  have "PDE_IDX u = entry_no (unat (PDE_IDX u) - 0x300)" if "0x300 \<le> unat (PDE_IDX u)"
  proof -
    have "entry_no (unat (PDE_IDX u) - 0x300) = word_of_nat (unat (PDE_IDX u))"
      unfolding entry_no_def by (rule arg_cong [of _ _ word_of_nat]) (rule le_add_diff_inverse [OF that])
    then show ?thesis by simp
  qed
  then show ?thesis using l by (auto simp: word_less_nat_alt)
qed

text \<open>
  The new directory: its upper quarter translates as the active directory does, its lower three
  quarters are empty, and its last entry opens the window onto itself.
\<close>

lemma fill_page_dir_ok:
  fixes s :: "'a vmstate_scheme"
  assumes sm: "self_mapped (phys s) (cr3 s)" and w: "walk (phys s) (cr3 s) v = Some pa" and v: "frame v = v"
    and tf: "\<not> table_frame (phys s) (cr3 s) pa" and pa: "frame pa = pa" and z: "\<forall>x. frame x = pa \<longrightarrow> phys s x = 0"
  shows "\<exists>ph. fill_page_dir v s = Inr (s\<lparr>phys := ph\<rparr>) \<and> self_mapped ph pa \<and>
    (\<forall>u. walk ph (cr3 s) u = walk (phys s) (cr3 s) u) \<and>
    (\<forall>u. PDE_IDX u < 0x300 \<longrightarrow> walk ph pa u = None) \<and>
    (\<forall>u. 0x300 \<le> PDE_IDX u \<and> PDE_IDX u < 0x3ff \<longrightarrow> walk ph pa u = walk ph (cr3 s) u)"
proof -
  from copy_kernel_pdes_ok [OF sm w v tf pa] obtain ph where C: "copy_kernel_pdes v s = Inr (s\<lparr>phys := ph\<rparr>)"
    "\<forall>a. frame a \<noteq> pa \<longrightarrow> ph a = phys s a" "\<forall>i < 256. ph (pa + entry_no i * 4) = phys s (frame (cr3 s) + entry_no i * 4)"
    "\<forall>a. (\<forall>i < 256. a \<noteq> pa + entry_no i * 4) \<longrightarrow> ph a = phys s a" by blast
  have off: "frame a \<noteq> pa \<Longrightarrow> ph a = phys s a" for a using C(2) by blast
  note W = walk_off_frame [OF sm tf off]
  define e where "e = pa OR PG_US_U OR PG_RW_W OR PG_P_1"
  define ph' where "ph' = ph(pa + mask 10 * 4 := e)"
  have e: "frame e = pa" "present e" unfolding e_def by (rule entry_bits(1) [OF pa], rule entry_bits(2))
  have "addr_v2p v (s\<lparr>phys := ph\<rparr>) = Inr pa" using addr_v2p_translates [of "s\<lparr>phys := ph\<rparr>" v pa] W(1,5) w by simp
  moreover have "walk ph (cr3 s) (v + mask 10 * 4) = Some (pa + mask 10 * 4)"
    using walk_in_page [OF _ v idx_small(3), of ph "cr3 s" pa] W(1) w by simp
  ultimately have f: "fill_page_dir v s = Inr (s\<lparr>phys := ph'\<rparr>)"
    using C(1) by (simp add: fill_page_dir_def vstore_def ph'_def e_def mask_eq_exp_minus_1)
  have last: "frame (pa + mask 10 * 4) = pa" using frame_entry [OF idx_small(3), of pa] pa by simp
  have off': "frame a \<noteq> pa \<Longrightarrow> ph' a = phys s a" for a using last off by (auto simp: ph'_def)
  note W' = walk_off_frame [OF sm tf off']
  have pde: "ph' (pde_addr pa u) = (if PDE_IDX u = mask 10 then e else if PDE_IDX u < 0x300 then 0 else phys s (pde_addr (cr3 s) u))" for u
  proof -
    have a: "pde_addr pa u = pa + PDE_IDX u * 4" by (simp add: pde_addr_def pa)
    have inj: "pa + PDE_IDX u * 4 = pa + j * 4 \<longleftrightarrow> PDE_IDX u = j" if "drop_bit 10 j = 0" for j
      using entry_inj [OF idx_small(1) that, of pa u pa] pa by auto
    have ph: "ph' (pde_addr pa u) = ph (pa + PDE_IDX u * 4)" if "PDE_IDX u \<noteq> mask 10"
      using that inj [OF idx_small(3)] by (simp add: a ph'_def)
    consider "PDE_IDX u = mask 10" | "PDE_IDX u \<noteq> mask 10" "PDE_IDX u < 0x300"
      | "PDE_IDX u \<noteq> mask 10" "\<not> PDE_IDX u < 0x300" "PDE_IDX u = entry_no (unat (PDE_IDX u) - 0x300)" "unat (PDE_IDX u) - 0x300 < 256"
      using pde_idx_entry [of u] by blast
    then show ?thesis
    proof cases
      case 2
      have "PDE_IDX u \<noteq> entry_no i" if "i < 256" for i using 2(2) entry_no(2) [OF that] by (auto simp: word_less_nat_alt)
      then have "ph (pa + PDE_IDX u * 4) = phys s (pa + PDE_IDX u * 4)" using C(4) inj [OF entry_no(1)] by simp
      then show ?thesis using 2 ph z frame_pde_addr [of pa u] pa by (simp add: a)
    next
      case 3
      then have "ph (pa + PDE_IDX u * 4) = phys s (frame (cr3 s) + PDE_IDX u * 4)" using C(3) by metis
      then show ?thesis using 3(1,2) ph by (simp add: pde_addr_def)
    qed (simp add: a ph'_def)
  qed
  have "self_mapped ph' pa"
    using pde [of "0xffffffff"] e pa unfolding self_mapped_def pde_addr_last [symmetric] PDE_IDX_eq by (simp add: mask_eq_exp_minus_1)
  moreover have "walk ph' pa u = None" if "PDE_IDX u < 0x300" for u
    using pde [of u] that by (auto simp: walk_def present_def mask_eq_exp_minus_1)
  moreover have "walk ph' pa u = walk ph' (cr3 s) u" if "0x300 \<le> PDE_IDX u" "PDE_IDX u < 0x3ff" for u
  proof -
    have "ph' (pde_addr pa u) = ph' (pde_addr (cr3 s) u)"
      using pde [of u] W'(4) [of u] that by (auto simp: mask_eq_exp_minus_1)
    then show ?thesis by (simp add: walk_def pte_addr_def)
  qed
  ultimately show ?thesis using f W'(1) by blast
qed

section \<open>How the processor reads the descriptors\<close>

definition gdt_base :: "gdt_desc \<Rightarrow> u32" where
  "gdt_base d = ucast (base_low_word d) OR push_bit 16 (ucast (base_mid_byte d)) OR push_bit 24 (ucast (base_high_byte d))"

text \<open>The last valid offset; bit 7 of the attributes makes the limit count pages.\<close>

definition gdt_limit :: "gdt_desc \<Rightarrow> u32" where
  "gdt_limit d =
     (let raw = ucast (limit_low_word d) OR push_bit 16 (ucast (limit_high_attr_high d AND 0xf))
      in if bit (limit_high_attr_high d) 7 then push_bit 12 raw OR 0xfff else raw)"

definition gdt_dpl :: "gdt_desc \<Rightarrow> u8" where "gdt_dpl d = drop_bit 5 (attr_low_byte d) AND 3"

definition tss_words :: "'a procsys_scheme \<Rightarrow> u32 list" where
  "tss_words s = (let t = tss_seg s in
     [backlink t, tss_esp0 s, ss0 t, esp1 t, ss1 t, esp2 t, ss2 t, tss_cr3 t, tss_eip t, tss_eflags t, tss_eax t, tss_ecx t, tss_edx t,
      tss_ebx t, tss_esp t, tss_ebp t, tss_esi t, tss_edi t, tss_es t, tss_cs t, tss_ss t, tss_ds t, tss_fs t, tss_gs t, tss_idt t,
      trace t, io_base t])"

text \<open>
  The processor takes the offset of the I/O permission bitmap from bytes 102 and 103 of the
  segment; code above IOPL may use a port when its bit in the bitmap is zero.
\<close>

definition io_map_base :: "'a procsys_scheme \<Rightarrow> nat" where
  "io_map_base s = unat (drop_bit 16 (tss_words s ! 25))"

definition io_permitted :: "nat \<Rightarrow> 'a procsys_scheme \<Rightarrow> bool" where
  "io_permitted port s \<longleftrightarrow>
     (let i = 8 * io_map_base s + port
      in i div 8 + 1 \<le> unat (gdt_limit (gdt s 0xc0000920)) \<and> i div 32 < 27 \<and> \<not> bit (tss_words s ! (i div 32)) (i mod 32))"

lemma gdt_base_make: "gdt_base (make_gdt_desc b l al ah) = b"
proof -
  have c: "(0x0000ffff :: u32) = mask 16" "(0x00ff0000 :: u32) = push_bit 16 (mask 8)"
    by (simp_all add: mask_eq_exp_minus_1 push_bit_eq_mult)
  have "bit (gdt_base (make_gdt_desc b l al ah)) n = bit b n" if "n < 32" for n
    unfolding gdt_base_def make_gdt_desc_def c using that by (cases "n < 24") (auto simp: bit_simps)
  then show ?thesis by (intro bit_word_eqI) simp
qed

section \<open>Properties\<close>

text \<open>
  C28: The page directory of a new process: with a free page and a free frame \<^verbatim>\<open>create_page_dir\<close> returns a
  page whose frame is a directory that maps every kernel address as the active directory does, maps
  no user address and opens the window onto itself; no other translation of the active directory
  changes.
\<close>
theorem create_page_dir_shares_kernel:
  fixes s :: "'a memsys_scheme"
  assumes "vm_ok (kernel_pool s) (kernel_vaddr s) (kmem s) (phys s) (cr3 s)"
    and "i < vpn (kernel_vaddr s)" "\<not> bm_bit (kmem s) (vaddr_bitmap (kernel_vaddr s)) i" "free_frames (kernel_pool s) (kmem s) \<noteq> {}"
    and "\<And>k. k < vpn (kernel_vaddr s) \<Longrightarrow> bitmaps_off (kernel_pool s) (kernel_vaddr s) (vpg (kernel_vaddr s) k)"
  shows "\<exists>v pa s'. create_page_dir s = Inr (Some v, s') \<and> walk (phys s') (cr3 s) v = Some pa \<and> self_mapped (phys s') pa \<and>
    (\<forall>u. PDE_IDX u < 0x300 \<longrightarrow> walk (phys s') pa u = None) \<and>
    (\<forall>u. 0x300 \<le> PDE_IDX u \<and> PDE_IDX u < 0x3ff \<longrightarrow> walk (phys s') pa u = walk (phys s') (cr3 s) u) \<and>
    (\<forall>u. frame u \<noteq> v \<longrightarrow> walk (phys s') (cr3 s) u = walk (phys s) (cr3 s) u)"
proof -
  let ?p = "kernel_pool s" and ?va = "kernel_vaddr s"
  obtain k m ph a b z sv lh lr pa where K: "get_kernel_pages 1 s = Inr (vpg ?va k, s\<lparr>kmem := m, lheap := clear_elems (vpg ?va k) 4096 (lheap s),
      arenas := a, block_descs := b, tasks := (tasks s)(vpg ?va k := z), sema_value := sv, lock_holder := lh, lock_repeat := lr, phys := ph\<rparr>)" "k < vpn ?va" "vm_ok ?p ?va m ph (cr3 s)" "walk ph (cr3 s) (vpg ?va k) = Some pa"
    "\<forall>x. frame x = pa \<longrightarrow> ph x = 0" "\<forall>w. frame w \<noteq> vpg ?va k \<longrightarrow> walk ph (cr3 s) w = walk (phys s) (cr3 s) w"
    using get_kernel_page_ok [OF assms(1) refl refl assms(2-5)] by blast
  let ?v = "vpg ?va k" and ?s = "s\<lparr>kmem := m, lheap := clear_elems (vpg ?va k) 4096 (lheap s), arenas := a, block_descs := b,
      tasks := (tasks s)(vpg ?va k := z), sema_value := sv, lock_holder := lh, lock_repeat := lr, phys := ph\<rparr>"
  have po: "pools_ok ?p ?va" and to: "tables_ok ?va ph (cr3 s)" and mo: "maps_ok ?p ?va m ph (cr3 s)"
    using K(3) by (simp_all add: vm_ok_def)
  have v: "frame ?v = ?v" "?v \<noteq> NULL" using frame_pg pg_nonzero pools_okD(4) [OF po] K(2) by blast+
  have "frame pa = pa" by (rule walk_entry_frame [OF K(4) v(1)])
  then obtain ph' where F: "fill_page_dir ?v ?s = Inr (?s\<lparr>phys := ph'\<rparr>)" "self_mapped ph' pa"
    "\<forall>u. walk ph' (cr3 s) u = walk ph (cr3 s) u" "\<forall>u. PDE_IDX u < 0x300 \<longrightarrow> walk ph' pa u = None"
    "\<forall>u. 0x300 \<le> PDE_IDX u \<and> PDE_IDX u < 0x3ff \<longrightarrow> walk ph' pa u = walk ph' (cr3 s) u"
    using fill_page_dir_ok [of ?s ?v pa] tables_okD(2) [OF to] maps_okD(3) [OF mo K(2,4)] K(4,5) v(1) by auto
  have "create_page_dir s = Inr (Some ?v, ?s\<lparr>phys := ph'\<rparr>)" using K(1) F(1) v(2) by (simp add: create_page_dir_def)
  moreover have "walk ph' (cr3 s) ?v = Some pa" using F(3) K(4) by simp
  ultimately show ?thesis using F K(6)
    by (intro exI [of _ ?v] exI [of _ pa] exI [of _ "?s\<lparr>phys := ph'\<rparr>"]) simp
qed

theorem create_page_dir_shares_kernel_witness:
  "\<exists>v pa s'. create_page_dir demo_mem = Inr (Some v, s') \<and> walk (phys s') 0x100000 v = Some pa \<and>
    walk (phys s') pa 0xc0001234 = walk (phys s') 0x100000 0xc0001234"
proof -
  obtain i where "i < vpn (kernel_vaddr demo_mem)" "\<not> bm_bit (kmem demo_mem) (vaddr_bitmap (kernel_vaddr demo_mem)) i"
    using boot_okD(5) [OF demo_boot] by blast
  moreover have "0x300 \<le> PDE_IDX 0xc0001234 \<and> PDE_IDX 0xc0001234 < 0x3ff" by (simp add: PDE_IDX_def)
  moreover have "cr3 demo_mem = 0x100000" by (simp add: demo_mem_fields)
  ultimately show ?thesis
    using create_page_dir_shares_kernel [OF boot_okD(1) [OF demo_boot] _ _ boot_okD(6) [OF demo_boot] boot_okD(7) [OF demo_boot], of i]
    by metis
qed

text \<open>
  What \<^verbatim>\<open>tss_init\<close> leaves in the descriptors and in the segment, computed: the ports are open. The word \<^verbatim>\<open>io_base\<close>
  lies behind the field the processor reads, which is zero, and the limit counts pages, so the segment
  itself serves as the permission bitmap and user code may, for instance, read and write the data port
  of the disk.
\<close>

lemma tss_init_opens_ports:
  "(let s' = tss_init s in
     gdt_base (gdt s' 0xc0000920) = tss_addr s \<and> gdt_limit (gdt s' 0xc0000920) = 0x6bfff \<and>
     gdt_base (gdt s' 0xc0000928) = 0 \<and> gdt_limit (gdt s' 0xc0000928) = 0xffffffff \<and> gdt_dpl (gdt s' 0xc0000928) = 3 \<and>
     gdt_base (gdt s' 0xc0000930) = 0 \<and> gdt_limit (gdt s' 0xc0000930) = 0xffffffff \<and> gdt_dpl (gdt s' 0xc0000930) = 3 \<and>
     gdtr s' = (55, 0xc0000900) \<and> tr s' = 0x20 \<and> io_base (tss_seg s') = 108 \<and> io_map_base s' = 0 \<and> io_permitted 0x1f0 s')"
proof -
  have l: "gdt_limit (make_gdt_desc b 107 TSS_ATTR_LOW TSS_ATTR_HIGH) = 0x6bfff" for b
    by (simp add: gdt_limit_def make_gdt_desc_def TSS_ATTR_HIGH_def)
  have u: "gdt_limit (make_gdt_desc b 0xfffff al GDT_ATTR_HIGH) = 0xffffffff" for b al
    by (simp add: gdt_limit_def make_gdt_desc_def GDT_ATTR_HIGH_def)
  have d: "gdt_dpl (make_gdt_desc b x GDT_CODE_ATTR_LOW_DPL3 ah) = 3" "gdt_dpl (make_gdt_desc b x GDT_DATA_ATTR_LOW_DPL3 ah) = 3" for b x ah
    by (simp_all add: gdt_dpl_def make_gdt_desc_def GDT_CODE_ATTR_LOW_DPL3_def GDT_DATA_ATTR_LOW_DPL3_def)
  have m: "io_map_base (tss_init s) = 0"
    by (simp add: io_map_base_def tss_words_def tss_init_def zero_tss_def put_lit_def Let_def)
  moreover have "io_permitted 0x1f0 (tss_init s)"
    by (simp add: io_permitted_def m) (simp add: tss_words_def tss_init_def zero_tss_def put_lit_def Let_def l)
  ultimately show ?thesis
    by (simp add: Let_def) (simp add: tss_init_def put_lit_def gdt_base_make l u d SELECTOR_TSS_def)
qed

end
