(* ===== verification/Syscall.thy ===== *)
theory Syscall
  imports Process
begin

text \<open>
  System calls: the table and its routines of \<^verbatim>\<open>userprog/syscall-init.c\<close>, the entry of vector 0x80 in
  \<^verbatim>\<open>kernel/kernel.S\<close>, the user's side in \<^verbatim>\<open>lib/user/syscall.c\<close>, and \<^verbatim>\<open>printf\<close> of \<^verbatim>\<open>lib/stdio.c\<close>.
\<close>

section \<open>The routines\<close>

text \<open>What the entries of \<^verbatim>\<open>syscall_table\<close> point at; \<open>None\<close> is a NULL entry.\<close>

datatype sysfun = Sys_getpid | Sys_write | Sys_malloc | Sys_free

datatype SYSCALL_NR = SYS_GETPID | SYS_WRITE | SYS_MALLOC | SYS_FREE

fun syscall_no :: "SYSCALL_NR \<Rightarrow> nat" where
  "syscall_no SYS_GETPID = 0"
| "syscall_no SYS_WRITE = 1"
| "syscall_no SYS_MALLOC = 2"
| "syscall_no SYS_FREE = 3"

definition syscall_nr :: nat where "syscall_nr = 32"

record callsys = procsys +
  syscall_table :: "sysfun option list"

definition sys_getpid :: "'a callsys_scheme \<Rightarrow> (u32 option \<times> 'a callsys_scheme) res" where
  "sys_getpid s = Inr (Some (scast (pid (tasks s (running_thread s)))), s)"

definition sys_write_shown :: "u32 \<Rightarrow> unit \<Rightarrow> 'a callsys_scheme \<Rightarrow> (u32 option \<times> 'a callsys_scheme) res" where
  "sys_write_shown str _ s = kbind (strlen (kmem s) str) (\<lambda>n. Inr (Some n, s))"

definition sys_write :: "u32 \<Rightarrow> 'a callsys_scheme \<Rightarrow> (u32 option \<times> 'a callsys_scheme) res" where
  "sys_write str s = after_call (F_sys_write str) (console_put_str str) (sys_write_shown str) s"

definition syscall_init :: "'a callsys_scheme \<Rightarrow> 'a callsys_scheme" where
  "syscall_init s =
     (let s = put_lit ''syscall_init start\<newline>'' s;
          t = (syscall_table s)[syscall_no SYS_GETPID := Some Sys_getpid];
          t = t[syscall_no SYS_WRITE := Some Sys_write];
          t = t[syscall_no SYS_MALLOC := Some Sys_malloc];
          t = t[syscall_no SYS_FREE := Some Sys_free]
      in put_lit ''syscall_init done\<newline>'' (s\<lparr>syscall_table := t\<rparr>))"

text \<open>The routine a table entry points at, called with the argument in EBX; a void routine leaves no value.\<close>

fun call_sysfun :: "sysfun \<Rightarrow> u32 \<Rightarrow> 'a callsys_scheme \<Rightarrow> (u32 option \<times> 'a callsys_scheme) res" where
  "call_sysfun Sys_getpid arg1 s = sys_getpid s"
| "call_sysfun Sys_write arg1 s = sys_write arg1 s"
| "call_sysfun Sys_malloc arg1 s = sys_malloc arg1 s"
| "call_sysfun Sys_free arg1 s = kbind (sys_free arg1 s) (\<lambda>(r, s). Inr (map_option (\<lambda>_. 0) r, s))"

text \<open>
  The entry of vector 0x80. The gate clears the interrupt flag, \<^verbatim>\<open>iret\<close> restores it. The number in EAX
  is not checked: a number outside the table, or one without a routine, jumps to whatever the word
  there says.
\<close>

definition syscall_dispatch :: "nat \<Rightarrow> u32 \<Rightarrow> 'a callsys_scheme \<Rightarrow> (u32 option \<times> 'a callsys_scheme) res" where
  "syscall_dispatch nr arg1 s =
     (if nr < syscall_nr then (case syscall_table s ! nr of Some f \<Rightarrow> call_sysfun f arg1 s | None \<Rightarrow> Inl OUT_OF_BOUNDS)
      else Inl OUT_OF_BOUNDS)"

definition syscall_handler :: "nat \<Rightarrow> u32 \<Rightarrow> 'a callsys_scheme \<Rightarrow> (u32 option \<times> 'a callsys_scheme) res" where
  "syscall_handler nr arg1 s =
     after_call (F_at ''syscall_handler'' [eflags s]) (syscall_dispatch nr arg1)
       (\<lambda>r s'. Inr (Some r, s'\<lparr>eflags := eflags s\<rparr>)) (cli s)"

section \<open>The user's side\<close>

text \<open>
  The registers at \<^verbatim>\<open>int 0x80\<close> and the macros that load them. The entry pushes EDX, ECX and EBX as the arguments of the
  routine; the routines of the table take at most one. A register that a macro does not load keeps
  its value; the wrappers below let it be zero.
\<close>

record call_regs =
  reg_eax :: u32
  reg_ebx :: u32
  reg_ecx :: u32
  reg_edx :: u32

definition int_0x80 :: "call_regs \<Rightarrow> 'a callsys_scheme \<Rightarrow> (u32 option \<times> 'a callsys_scheme) res" where
  "int_0x80 r s = syscall_handler (unat (reg_eax r)) (reg_ebx r) s"

definition syscall0 :: "nat \<Rightarrow> call_regs \<Rightarrow> 'a callsys_scheme \<Rightarrow> (u32 option \<times> 'a callsys_scheme) res" where
  "syscall0 number r s = int_0x80 (r\<lparr>reg_eax := word_of_nat number\<rparr>) s"

definition syscall1 :: "nat \<Rightarrow> u32 \<Rightarrow> call_regs \<Rightarrow> 'a callsys_scheme \<Rightarrow> (u32 option \<times> 'a callsys_scheme) res" where
  "syscall1 number arg1 r s = int_0x80 (r\<lparr>reg_eax := word_of_nat number, reg_ebx := arg1\<rparr>) s"

definition syscall2 :: "nat \<Rightarrow> u32 \<Rightarrow> u32 \<Rightarrow> call_regs \<Rightarrow> 'a callsys_scheme \<Rightarrow> (u32 option \<times> 'a callsys_scheme) res" where
  "syscall2 number arg1 arg2 r s = int_0x80 (r\<lparr>reg_eax := word_of_nat number, reg_ebx := arg1, reg_ecx := arg2\<rparr>) s"

definition syscall3 :: "nat \<Rightarrow> u32 \<Rightarrow> u32 \<Rightarrow> u32 \<Rightarrow> call_regs \<Rightarrow> 'a callsys_scheme \<Rightarrow> (u32 option \<times> 'a callsys_scheme) res" where
  "syscall3 number arg1 arg2 arg3 r s =
     int_0x80 (r\<lparr>reg_eax := word_of_nat number, reg_ebx := arg1, reg_ecx := arg2, reg_edx := arg3\<rparr>) s"

definition zero_regs :: call_regs where
  "zero_regs = \<lparr>reg_eax = 0, reg_ebx = 0, reg_ecx = 0, reg_edx = 0\<rparr>"

definition getpid :: "'a callsys_scheme \<Rightarrow> (u32 option \<times> 'a callsys_scheme) res" where
  "getpid s = syscall0 (syscall_no SYS_GETPID) zero_regs s"

definition write_call :: "u32 \<Rightarrow> 'a callsys_scheme \<Rightarrow> (u32 option \<times> 'a callsys_scheme) res" where
  "write_call str s = syscall1 (syscall_no SYS_WRITE) str zero_regs s"

definition malloc :: "u32 \<Rightarrow> 'a callsys_scheme \<Rightarrow> (u32 option \<times> 'a callsys_scheme) res" where
  "malloc sz s = syscall1 (syscall_no SYS_MALLOC) sz zero_regs s"

definition free :: "u32 \<Rightarrow> 'a callsys_scheme \<Rightarrow> (unit option \<times> 'a callsys_scheme) res" where
  "free ptr s = kbind (syscall1 (syscall_no SYS_FREE) ptr zero_regs s) (\<lambda>(r, s). Inr (map_option (\<lambda>_. ()) r, s))"

text \<open>\<open>bp\<close> is the address of the 1024 zeroed bytes on the stack of \<^verbatim>\<open>printf\<close>, \<open>args\<close> that of its parameter \<^verbatim>\<open>format\<close>.\<close>

definition printf :: "u32 \<Rightarrow> u32 \<Rightarrow> u32 \<Rightarrow> 'a callsys_scheme \<Rightarrow> (u32 option \<times> 'a callsys_scheme) res" where
  "printf bp format args s =
     kbind (vsprintf (memset_loop (kmem s) bp 0 1024) bp format args) (\<lambda>(_, m). write_call bp (s\<lparr>kmem := m\<rparr>))"

section \<open>A call that does not sleep\<close>

text \<open>The table as \<^verbatim>\<open>syscall_init\<close> leaves it.\<close>

definition table_ok :: "'a callsys_scheme \<Rightarrow> bool" where
  "table_ok s \<longleftrightarrow> length (syscall_table s) = syscall_nr \<and>
     (\<forall>n. syscall_table s ! syscall_no n = Some (case n of SYS_GETPID \<Rightarrow> Sys_getpid | SYS_WRITE \<Rightarrow> Sys_write
        | SYS_MALLOC \<Rightarrow> Sys_malloc | SYS_FREE \<Rightarrow> Sys_free))"

lemma syscall_init_table: "length (syscall_table s) = syscall_nr \<Longrightarrow> table_ok (syscall_init s)"
  unfolding table_ok_def
proof (intro conjI allI)
  assume l: "length (syscall_table s) = syscall_nr"
  show "length (syscall_table (syscall_init s)) = syscall_nr" using l by (simp add: syscall_init_def put_lit_def)
  show "syscall_table (syscall_init s) ! syscall_no n = Some (case n of SYS_GETPID \<Rightarrow> Sys_getpid | SYS_WRITE \<Rightarrow> Sys_write
        | SYS_MALLOC \<Rightarrow> Sys_malloc | SYS_FREE \<Rightarrow> Sys_free)" for n
    using l by (cases n) (simp_all add: syscall_init_def put_lit_def syscall_nr_def)
qed

text \<open>The number of a call arrives in EAX; a call without arguments does not depend on the other registers.\<close>

lemma syscall1_eq: "syscall1 (syscall_no n) arg1 r s = syscall_handler (syscall_no n) arg1 s"
  by (cases n) (simp_all add: syscall1_def int_0x80_def)

lemma getpid_regs: "syscall_table s ! 0 = Some Sys_getpid \<Longrightarrow> syscall0 (syscall_no SYS_GETPID) r s = getpid s"
  by (simp add: getpid_def syscall0_def int_0x80_def syscall_handler_def after_call_def syscall_dispatch_def syscall_nr_def push_frame_def
      task_upd_def cli_def)

lemma push_fields:
  "lock_free l (push_frame r f s) = lock_free l s" "console_lock (push_frame r f s) = console_lock s"
  "kmem (push_frame r f s) = kmem s" "screen (push_frame r f s) = screen s"
  "syscall_table (push_frame r f t) = syscall_table t"
  "(push_frame r f s)\<lparr>screen := x\<rparr> = push_frame r f (s\<lparr>screen := x\<rparr>)"
  by (simp_all add: lock_free_def list_empty_def) (simp_all add: push_frame_def task_upd_def)

lemma sys_write_free:
  assumes "lock_free (console_lock s) s" "running_thread s \<noteq> NULL" "cstr (kmem s) str xs" "str \<noteq> NULL"
  shows "sys_write str s = Inr (Some (word_of_nat (length xs)), s\<lparr>screen := screen s @ xs\<rparr>)"
proof -
  let ?t = "s\<lparr>screen := screen s @ xs\<rparr>" and ?f = "F_sys_write str"
  have e: "console_put_str str (push_frame (running_thread s) ?f s) = Inr (Some (), push_frame (running_thread s) ?f ?t)"
    using console_put_str_free [of "push_frame (running_thread s) ?f s" str xs] assms(1-3) by (simp add: push_fields)
  have r: "running_thread ?t = running_thread s" by (simp add: running_thread_def)
  have "sys_write str s = sys_write_shown str () ?t"
    unfolding sys_write_def by (rule after_call_returns [where f = "console_put_str str", OF e r])
  then show ?thesis using strlen_cstr [OF assms(3,4)] by (simp add: sys_write_shown_def)
qed

lemma write_call_free:
  assumes "table_ok s" "lock_free (console_lock s) s" "running_thread s \<noteq> NULL" "cstr (kmem s) str xs" "str \<noteq> NULL"
  shows "write_call str s = Inr (Some (word_of_nat (length xs)), s\<lparr>screen := screen s @ xs\<rparr>)"
proof -
  let ?s = "cli s" and ?f = "F_at ''syscall_handler'' [eflags s]"
  let ?t = "?s\<lparr>screen := screen s @ xs\<rparr>"
  have "lock_free (console_lock ?s) ?s" "running_thread ?s \<noteq> NULL" "cstr (kmem ?s) str xs" "screen ?s = screen s"
    using assms(2-4) by (simp_all add: cli_def lock_free_def list_empty_def running_thread_def)
  then have w: "sys_write str (push_frame (running_thread ?s) ?f ?s) = Inr (Some (word_of_nat (length xs)), push_frame (running_thread ?s) ?f ?t)"
    using sys_write_free [of "push_frame (running_thread ?s) ?f ?s" str xs] assms(5) by (simp add: push_fields)
  have "syscall_table ?s ! syscall_no SYS_WRITE = Some Sys_write"
    using assms(1) by (simp add: table_ok_def cli_def del: syscall_no.simps)
  then have e: "syscall_dispatch 1 str (push_frame (running_thread ?s) ?f ?s) =
      Inr (Some (word_of_nat (length xs)), push_frame (running_thread ?s) ?f ?t)"
    using w by (simp add: syscall_dispatch_def syscall_nr_def push_fields)
  have r: "running_thread ?t = running_thread ?s" by (simp add: running_thread_def)
  have "syscall_handler 1 str s = Inr (Some (word_of_nat (length xs)), ?t\<lparr>eflags := eflags s\<rparr>)"
    unfolding syscall_handler_def
    by (rule trans [OF after_call_returns [where s = ?s and f = "syscall_dispatch 1 str", OF e r]]) simp
  then show ?thesis using syscall1_eq [of SYS_WRITE str zero_regs s] by (simp add: write_call_def cli_def)
qed

section \<open>Property\<close>

text \<open>
  C29: \<^verbatim>\<open>printf\<close> from end to end: with the table of \<^verbatim>\<open>syscall_init\<close>, a free console and a text of fewer than
  1024 characters, the formatted text appears on the screen, its length is returned through the
  system call, the interrupt flag is as before and memory changes only in the buffer on the stack.
\<close>
theorem printf_shows:
  assumes "fmt cs as = Some out" "cstr (kmem s) format cs" "R = rng bp 1024" "NULL \<notin> R" "args_ok (kmem s) R args as"
    and "rng format (Suc (length cs)) \<inter> R = {}" "length cs < 4294967295" "length out < 1024" "0 \<notin> set out"
    and "table_ok s" "lock_free (console_lock s) s" "running_thread s \<noteq> NULL"
  shows "\<exists>m. printf bp format args s = Inr (Some (word_of_nat (length out)), s\<lparr>kmem := m, screen := screen s @ out\<rparr>) \<and>
    (\<forall>x. x \<notin> R \<longrightarrow> m x = kmem s x)"
proof -
  let ?m = "memset_loop (kmem s) bp 0 1024"
  have m: "?m x = (if x \<in> R then 0 else kmem s x)" for x using assms(3) by (simp add: memset_loop_eq)
  have sub: "rng bp (Suc (length out)) \<subseteq> R" using assms(3,8) by (auto simp: rng_def)
  have "off bp (length out) \<in> R" using assms(3,8) by (simp add: rng_def unat_word_of_nat_u32)
  then have z: "?m (off bp (length out)) = 0" by (simp add: m)
  have "cstr ?m format cs" by (rule cstr_outside [OF assms(2,6,7)]) (simp add: m)
  moreover have "args_ok ?m R args as" by (rule args_ok_cong [OF assms(5)]) (simp add: m)
  ultimately obtain m' where m': "vsprintf ?m bp format args = Inr (word_of_nat (length out), m')" "cstr m' bp out"
    "\<forall>x. x \<notin> rng bp (Suc (length out)) \<longrightarrow> m' x = ?m x"
    using vsprintf_ok [OF assms(1) _ sub assms(4) _ assms(6,7) _ _ assms(9), of ?m args] assms(8) z by auto
  let ?s = "s\<lparr>kmem := m'\<rparr>"
  have "bp \<noteq> NULL" using assms(3,4) by (auto simp: rng_def)
  moreover have "table_ok ?s" "lock_free (console_lock ?s) ?s" "running_thread ?s \<noteq> NULL" "cstr (kmem ?s) bp out"
    using assms(10-12) m'(2) by (simp_all add: table_ok_def lock_free_def list_empty_def running_thread_def)
  ultimately have "write_call bp ?s = Inr (Some (word_of_nat (length out)), ?s\<lparr>screen := screen s @ out\<rparr>)"
    using write_call_free [of ?s bp out] by simp
  moreover have "m' x = kmem s x" if "x \<notin> R" for x using that m'(3) m sub by auto
  ultimately show ?thesis using m'(1) by (auto simp: printf_def)
qed

text \<open>The small system with the call table; the format \<^verbatim>\<open>"OK"\<close> stands at 0xc0008000.\<close>

definition zero_frame :: intr_stack where
  "zero_frame = \<lparr>vec_no = 0, edi = 0, esi = 0, ebp = 0, esp_dummy = 0, ebx = 0, edx = 0, ecx = 0, eax = 0, i_gs = 0, i_fs = 0, i_es = 0,
     i_ds = 0, err_code = 0, eip = 0, i_cs = 0, u_eflags = 0, u_esp = 0, i_ss = 0\<rparr>"

definition demo_call :: callsys where
  "demo_call = syscall_init (procsys.extend (memsys.extend demo_mem
     \<lparr>tss_addr = 0xc0007900, tss_seg = zero_tss, gdt = (\<lambda>_. make_gdt_desc 0 0 0 0), gdtr = (0, 0), tr = 0, intr_stacks = (\<lambda>_. zero_frame)\<rparr>)
     \<lparr>syscall_table = replicate 32 None\<rparr>)"

lemma demo_call_facts:
  "table_ok demo_call" "lock_free (console_lock demo_call) demo_call" "running_thread demo_call \<noteq> NULL"
  "kmem demo_call = (\<lambda>_. 0)(0xc0008000 := 0x4f, 0xc0008001 := 0x4b)"
proof -
  show "table_ok demo_call" unfolding demo_call_def
    by (rule syscall_init_table) (simp add: procsys.defs syscall_nr_def)
  show "lock_free (console_lock demo_call) demo_call"
    using demo_con_facts(2,5) by (simp add: demo_call_def syscall_init_def put_lit_def procsys.defs memsys.defs demo_mem_def consys.defs
        lock_free_def list_empty_def)
  show "running_thread demo_call \<noteq> NULL" "kmem demo_call = (\<lambda>_. 0)(0xc0008000 := 0x4f, 0xc0008001 := 0x4b)"
    using demo_con_facts(6,8) by (simp_all add: demo_call_def syscall_init_def put_lit_def procsys.defs memsys.defs demo_mem_def consys.defs
        running_thread_def)
qed

theorem printf_shows_witness:
  "\<exists>m. printf 0xc0009000 0xc0008000 0xc000a000 demo_call =
    Inr (Some 2, demo_call\<lparr>kmem := m, screen := screen demo_call @ [0x4f, 0x4b]\<rparr>)"
proof -
  have "rng 0xc0008000 3 \<inter> rng 0xc0009000 1024 = {}" by (rule rng_disjoint) simp_all
  then have d: "rng 0xc0008000 (Suc (length [0x4f, 0x4b :: u8])) \<inter> rng 0xc0009000 1024 = {}" by (simp add: numeral_3_eq_3)
  have "fmt [0x4f, 0x4b] [] = Some [0x4f, 0x4b]" by simp
  from printf_shows [OF this _ refl _ _ d _ _ _ demo_call_facts(1-3), of "0xc000a000"] show ?thesis
    by (simp add: demo_call_facts(4) rng_def) blast
qed

end
