(* ===== verification/Ide.thy ===== *)
theory Ide
  imports Syscall
begin

text \<open>
  The disk driver, \<^verbatim>\<open>device/ide.c\<close>. The controller is its ports: what the driver writes is logged in
  \<open>io_log\<close> (registers) and \<open>data_out\<close> (data words); what it reads comes from \<open>port_in\<close>, the sequence of
  values each port will deliver, with \<open>in_pos\<close> the number of values already taken. The structures
  are views at the addresses of their C layout. Addresses that the compiler chooses, of string
  literals, of local arrays and of pushed arguments, are fields of the state.
\<close>

section \<open>Ports\<close>

record ide_channel =
  port_base :: u16
  irq_no :: u8
  expecting_intr :: bool

record disk =
  my_channel :: u32
  dev_no :: u8

record partition =
  start_lba :: u32
  sec_cnt :: u32
  my_disk :: u32
  sb :: u32
  block_bitmap :: bitmap
  inode_bitmap :: bitmap

record idesys = callsys +
  channels :: u32
  channel_cnt :: u8
  ide_channels :: "u32 \<Rightarrow> ide_channel"
  disks :: "u32 \<Rightarrow> disk"
  partitions :: "u32 \<Rightarrow> partition"
  partition_list :: u32
  ext_lba_base :: u32
  p_no :: u8
  l_no :: u8
  port_in :: "u16 \<Rightarrow> nat \<Rightarrow> u16"
  in_pos :: "u16 \<Rightarrow> nat"
  data_out :: "(u16 \<times> u16) list"
  lit_addr :: "string \<Rightarrow> u32"
  local_addr :: "string \<Rightarrow> u32"
  arg_addr :: u32

definition inb :: "u16 \<Rightarrow> 'a idesys_scheme \<Rightarrow> u8 \<times> 'a idesys_scheme" where
  "inb port s = (ucast (port_in s port (in_pos s port)), s\<lparr>in_pos := (in_pos s)(port := in_pos s port + 1)\<rparr>)"

primrec insw :: "u16 \<Rightarrow> u32 \<Rightarrow> nat \<Rightarrow> 'a idesys_scheme \<Rightarrow> 'a idesys_scheme" where
  "insw port addr 0 s = s"
| "insw port addr (Suc word_cnt) s =
     (let w = port_in s port (in_pos s port)
      in insw port (addr + 2) word_cnt
           (s\<lparr>kmem := (kmem s)(addr := ucast w, addr + 1 := ucast (drop_bit 8 w)), in_pos := (in_pos s)(port := in_pos s port + 1)\<rparr>))"

primrec outsw :: "u16 \<Rightarrow> u32 \<Rightarrow> nat \<Rightarrow> 'a idesys_scheme \<Rightarrow> 'a idesys_scheme" where
  "outsw port addr 0 s = s"
| "outsw port addr (Suc word_cnt) s =
     outsw port (addr + 2) word_cnt
       (s\<lparr>data_out := data_out s @ [(port, ucast (kmem s addr) OR push_bit 8 (ucast (kmem s (addr + 1))))]\<rparr>)"

section \<open>Layout\<close>

definition channel_at :: "nat \<Rightarrow> 'a idesys_scheme \<Rightarrow> u32" where "channel_at i s = channels s + 1632 * word_of_nat i"
definition channel_lock :: "u32 \<Rightarrow> u32" where "channel_lock c = c + 12"
definition disk_done :: "u32 \<Rightarrow> u32" where "disk_done c = c + 44"
definition device_at :: "u32 \<Rightarrow> nat \<Rightarrow> u32" where "device_at c i = c + 64 + 784 * word_of_nat i"
definition prim_parts :: "u32 \<Rightarrow> nat \<Rightarrow> u32" where "prim_parts d i = d + 16 + 64 * word_of_nat i"
definition logic_parts :: "u32 \<Rightarrow> nat \<Rightarrow> u32" where "logic_parts d i = d + 272 + 64 * word_of_nat i"
definition part_tag :: "u32 \<Rightarrow> u32" where "part_tag part = part + 12"
definition part_name :: "u32 \<Rightarrow> u32" where "part_name part = part + 20"
definition open_inodes :: "u32 \<Rightarrow> u32" where "open_inodes part = part + 48"

definition chan :: "u32 \<Rightarrow> 'a idesys_scheme \<Rightarrow> u32" where "chan d s = my_channel (disks s d)"

definition channel_upd :: "u32 \<Rightarrow> (ide_channel \<Rightarrow> ide_channel) \<Rightarrow> 'a idesys_scheme \<Rightarrow> 'a idesys_scheme" where
  "channel_upd c f s = s\<lparr>ide_channels := (ide_channels s)(c := f (ide_channels s c))\<rparr>"

definition part_upd :: "u32 \<Rightarrow> (partition \<Rightarrow> partition) \<Rightarrow> 'a idesys_scheme \<Rightarrow> 'a idesys_scheme" where
  "part_upd p f s = s\<lparr>partitions := (partitions s)(p := f (partitions s p))\<rparr>"

definition reg_data :: "u32 \<Rightarrow> 'a idesys_scheme \<Rightarrow> u16" where "reg_data c s = port_base (ide_channels s c) + 0"
definition reg_sect_cnt :: "u32 \<Rightarrow> 'a idesys_scheme \<Rightarrow> u16" where "reg_sect_cnt c s = port_base (ide_channels s c) + 2"
definition reg_lba_l :: "u32 \<Rightarrow> 'a idesys_scheme \<Rightarrow> u16" where "reg_lba_l c s = port_base (ide_channels s c) + 3"
definition reg_lba_m :: "u32 \<Rightarrow> 'a idesys_scheme \<Rightarrow> u16" where "reg_lba_m c s = port_base (ide_channels s c) + 4"
definition reg_lba_h :: "u32 \<Rightarrow> 'a idesys_scheme \<Rightarrow> u16" where "reg_lba_h c s = port_base (ide_channels s c) + 5"
definition reg_dev :: "u32 \<Rightarrow> 'a idesys_scheme \<Rightarrow> u16" where "reg_dev c s = port_base (ide_channels s c) + 6"
definition reg_status :: "u32 \<Rightarrow> 'a idesys_scheme \<Rightarrow> u16" where "reg_status c s = port_base (ide_channels s c) + 7"
definition reg_cmd :: "u32 \<Rightarrow> 'a idesys_scheme \<Rightarrow> u16" where "reg_cmd c s = reg_status c s"

definition BIT_ALT_STAT_BSY :: u8 where "BIT_ALT_STAT_BSY = 0x80"
definition BIT_ALT_STAT_DRQ :: u8 where "BIT_ALT_STAT_DRQ = 0x8"
definition BIT_DEV_MBS :: u8 where "BIT_DEV_MBS = 0xa0"
definition BIT_DEV_LBA :: u8 where "BIT_DEV_LBA = 0x40"
definition BIT_DEV_DEV :: u8 where "BIT_DEV_DEV = 0x10"
definition CMD_IDENTIFY :: u8 where "CMD_IDENTIFY = 0xec"
definition CMD_READ_SECTOR :: u8 where "CMD_READ_SECTOR = 0x20"
definition CMD_WRITE_SECTOR :: u8 where "CMD_WRITE_SECTOR = 0x30"
definition max_lba :: u32 where "max_lba = 80 * 1024 * 1024 div 512 - 1"

section \<open>Formatted output\<close>

text \<open>
  A call of a routine with a format: the arguments are pushed as words from the parameter \<^verbatim>\<open>format\<close>
  upwards, the format is a string literal.
\<close>

primrec push_args :: "mem \<Rightarrow> u32 \<Rightarrow> u32 list \<Rightarrow> mem" where
  "push_args m p [] = m"
| "push_args m p (w # ws) = push_args (store32 m p w) (p + 4) ws"

definition with_args :: "string \<Rightarrow> u32 list \<Rightarrow> 'a idesys_scheme \<Rightarrow> 'a idesys_scheme" where
  "with_args format args s = s\<lparr>kmem := push_args (kmem s) (arg_addr s) (lit_addr s format # args)\<rparr>"

definition sprintf_lit :: "u32 \<Rightarrow> string \<Rightarrow> u32 list \<Rightarrow> 'a idesys_scheme \<Rightarrow> 'a idesys_scheme res" where
  "sprintf_lit b format args s =
     (let s = with_args format args s in
      kbind (sprintf (kmem s) b (lit_addr s format) (arg_addr s)) (\<lambda>(_, m). Inr (s\<lparr>kmem := m\<rparr>)))"

definition printk_lit :: "string \<Rightarrow> u32 list \<Rightarrow> 'a idesys_scheme \<Rightarrow> (unit option \<times> 'a idesys_scheme) res" where
  "printk_lit format args s = printk (local_addr s ''printk'') (lit_addr s format) (arg_addr s) (with_args format args s)"

definition printf_lit :: "string \<Rightarrow> u32 list \<Rightarrow> 'a idesys_scheme \<Rightarrow> (u32 option \<times> 'a idesys_scheme) res" where
  "printf_lit format args s = printf (local_addr s ''printf'') (lit_addr s format) (arg_addr s) (with_args format args s)"

text \<open>\<^verbatim>\<open>sprintf(error, ...); PANIC(error);\<close>\<close>

definition fail_lit :: "string \<Rightarrow> u32 list \<Rightarrow> 'a idesys_scheme \<Rightarrow> 'b res" where
  "fail_lit format args s = kbind (sprintf_lit (local_addr s ''error'') format args s) (\<lambda>_. Inl PANIC)"

section \<open>Registers and interrupt\<close>

definition intr_hd_handler :: "u8 \<Rightarrow> 'a idesys_scheme \<Rightarrow> 'a idesys_scheme res" where
  "intr_hd_handler irq s =
     ASSERT (irq = 0x2e \<or> irq = 0x2f)
       (let channel_no = irq - 0x2e; c = channel_at (unat channel_no) s in
        ASSERT (irq_no (ide_channels s c) = irq)
          (if expecting_intr (ide_channels s c) then
             kbind (sema_up (disk_done c) (channel_upd c (expecting_intr_update (\<lambda>_. False)) s)) (\<lambda>s.
               Inr (snd (inb (reg_status c s) s)))
           else Inr s))"

definition select_disk :: "u32 \<Rightarrow> 'a idesys_scheme \<Rightarrow> 'a idesys_scheme" where
  "select_disk d s =
     (let reg_device = BIT_DEV_MBS OR BIT_DEV_LBA;
          reg_device = (if dev_no (disks s d) = 1 then reg_device OR BIT_DEV_DEV else reg_device)
      in outb (reg_dev (chan d s) s) reg_device s)"

definition select_sector :: "u32 \<Rightarrow> u32 \<Rightarrow> u8 \<Rightarrow> 'a idesys_scheme \<Rightarrow> 'a idesys_scheme res" where
  "select_sector d lba secs s =
     ASSERT (lba \<le> max_lba)
       (let c = chan d s;
            s1 = outb (reg_sect_cnt c s) secs s;
            s2 = outb (reg_lba_l c s) (ucast lba) s1;
            s3 = outb (reg_lba_m c s) (ucast (drop_bit 8 lba)) s2;
            s4 = outb (reg_lba_h c s) (ucast (drop_bit 16 lba)) s3
        in Inr (outb (reg_dev c s)
             (BIT_DEV_MBS OR BIT_DEV_LBA OR (if dev_no (disks s d) = 1 then BIT_DEV_DEV else 0) OR ucast (drop_bit 24 lba)) s4))"

definition cmd_out :: "u32 \<Rightarrow> u8 \<Rightarrow> 'a idesys_scheme \<Rightarrow> 'a idesys_scheme" where
  "cmd_out c cmd s = outb (reg_cmd c s) cmd (channel_upd c (expecting_intr_update (\<lambda>_. True)) s)"

text \<open>The count of sectors is a byte, zero stands for 256.\<close>

definition size_in_byte :: "u8 \<Rightarrow> nat" where
  "size_in_byte secs = (if secs = 0 then 256 * 512 else unat secs * 512)"

definition read_from_sector :: "u32 \<Rightarrow> u32 \<Rightarrow> u8 \<Rightarrow> 'a idesys_scheme \<Rightarrow> 'a idesys_scheme" where
  "read_from_sector d b secs s = insw (reg_data (chan d s) s) b (size_in_byte secs div 2) s"

definition write2sector :: "u32 \<Rightarrow> u32 \<Rightarrow> u8 \<Rightarrow> 'a idesys_scheme \<Rightarrow> 'a idesys_scheme" where
  "write2sector d b secs s = outsw (reg_data (chan d s) s) b (size_in_byte secs div 2) s"

text \<open>
  \<^verbatim>\<open>time_limit -= 10 >= 0\<close> subtracts the truth value of \<^verbatim>\<open>10 >= 0\<close>, which is one. The argument of the
  loop is the value before the subtraction; a pass that sleeps leaves a frame.
\<close>

definition sleep_10ms :: "'a tsys_scheme \<Rightarrow> (unit option \<times> 'a tsys_scheme) res" where
  "sleep_10ms s = kbind (mtime_sleep 10 s) (\<lambda>(over, s). Inr (if over then Some () else None, s))"

primrec busy_wait_loop :: "nat \<Rightarrow> u32 \<Rightarrow> 'a idesys_scheme \<Rightarrow> (bool option \<times> 'a idesys_scheme) res" where
  "busy_wait_loop 0 d s = Inr (Some False, s)"
| "busy_wait_loop (Suc time_limit) d s =
     (if time_limit = 0 then Inr (Some False, s)
      else let (st, s) = inb (reg_status (chan d s) s) s in
        if st AND BIT_ALT_STAT_BSY = 0 then
          let (st, s) = inb (reg_status (chan d s) s) s in Inr (Some (st AND BIT_ALT_STAT_DRQ \<noteq> 0), s)
        else after_call (F_at ''busy_wait'' [d, word_of_nat time_limit]) sleep_10ms (\<lambda>_. busy_wait_loop time_limit d) s)"

definition busy_wait :: "u32 \<Rightarrow> 'a idesys_scheme \<Rightarrow> (bool option \<times> 'a idesys_scheme) res" where
  "busy_wait d s = busy_wait_loop (30 * 1000) d s"

definition after_sema :: "kframe \<Rightarrow> u32 \<Rightarrow> ('s tsys_scheme \<Rightarrow> ('b option \<times> 's tsys_scheme) res) \<Rightarrow>
    's tsys_scheme \<Rightarrow> ('b option \<times> 's tsys_scheme) res" where
  "after_sema fr psema k s =
     kbind (sema_down psema (push_frame (running_thread s) fr s))
       (\<lambda>(returned, s). if returned then k (pop_frame s) else Inr (None, s))"

section \<open>Reading and writing\<close>

definition chunk :: "u32 \<Rightarrow> u32 \<Rightarrow> u32" where
  "chunk sects secs_done = (if secs_done + 256 \<le> sects then 256 else sects - secs_done)"

text \<open>One pass of the loop of \<^verbatim>\<open>ide_read\<close> around the rest; \<open>n\<close> bounds the number of passes.\<close>

primrec ide_read_loop :: "nat \<Rightarrow> u32 \<Rightarrow> u32 \<Rightarrow> u32 \<Rightarrow> u32 \<Rightarrow> u32 \<Rightarrow> 'a idesys_scheme \<Rightarrow> (unit option \<times> 'a idesys_scheme) res" where
  "ide_read_loop 0 d lba b sects secs_done s = Inl SPIN"
| "ide_read_loop (Suc n) d lba b sects secs_done s =
     (if secs_done < sects then
        let secs_op = chunk sects secs_done; fr = F_at ''ide_read'' [d, lba, b, sects, secs_done] in
        kbind (select_sector d (lba + secs_done) (ucast secs_op) s) (\<lambda>s.
          after_sema fr (disk_done (chan d s))
            (after_call fr (busy_wait d) (\<lambda>ok s.
               if \<not> ok then fail_lit ''%s read sector %d failed!!!\<newline>'' [d, lba] s
               else ide_read_loop n d lba b sects (secs_done + secs_op)
                      (read_from_sector d (b + secs_done * 512) (ucast secs_op) s)))
            (cmd_out (chan d s) CMD_READ_SECTOR s))
      else kbind (lock_release (channel_lock (chan d s)) s) (\<lambda>s. Inr (Some (), s)))"

definition ide_read :: "u32 \<Rightarrow> u32 \<Rightarrow> u32 \<Rightarrow> u32 \<Rightarrow> 'a idesys_scheme \<Rightarrow> (unit option \<times> 'a idesys_scheme) res" where
  "ide_read d lba b sects s =
     ASSERT (lba \<le> max_lba) (ASSERT (sects > 0)
       (after_lock (F_at ''ide_read'' [d, lba, b, sects]) (channel_lock (chan d s))
         (\<lambda>s. ide_read_loop (unat sects + 1) d lba b sects 0 (select_disk d s)) s))"

primrec ide_write_loop :: "nat \<Rightarrow> u32 \<Rightarrow> u32 \<Rightarrow> u32 \<Rightarrow> u32 \<Rightarrow> u32 \<Rightarrow> 'a idesys_scheme \<Rightarrow> (unit option \<times> 'a idesys_scheme) res" where
  "ide_write_loop 0 d lba b sects secs_done s = Inl SPIN"
| "ide_write_loop (Suc n) d lba b sects secs_done s =
     (if secs_done < sects then
        let secs_op = chunk sects secs_done; fr = F_at ''ide_write'' [d, lba, b, sects, secs_done] in
        kbind (select_sector d (lba + secs_done) (ucast secs_op) s) (\<lambda>s.
          after_call fr (busy_wait d) (\<lambda>ok s.
            if \<not> ok then fail_lit ''%s write sector %d failed!!!\<newline>'' [d, lba] s
            else after_sema fr (disk_done (chan d s)) (ide_write_loop n d lba b sects (secs_done + secs_op))
                   (write2sector d (b + secs_done * 512) (ucast secs_op) s))
            (cmd_out (chan d s) CMD_WRITE_SECTOR s))
      else kbind (lock_release (channel_lock (chan d s)) s) (\<lambda>s. Inr (Some (), s)))"

definition ide_write :: "u32 \<Rightarrow> u32 \<Rightarrow> u32 \<Rightarrow> u32 \<Rightarrow> 'a idesys_scheme \<Rightarrow> (unit option \<times> 'a idesys_scheme) res" where
  "ide_write d lba b sects s =
     ASSERT (lba \<le> max_lba) (ASSERT (sects > 0)
       (after_lock (F_at ''ide_write'' [d, lba, b, sects]) (channel_lock (chan d s))
         (\<lambda>s. ide_write_loop (unat sects + 1) d lba b sects 0 (select_disk d s)) s))"

section \<open>Identification\<close>

partial_function (option) swap_pairs_loop :: "mem \<Rightarrow> u32 \<Rightarrow> u32 \<Rightarrow> u32 \<Rightarrow> u8 \<Rightarrow> mem option" where
  "swap_pairs_loop m dst b len idx =
     (let i = ucast idx :: u32 in
      if i < len then swap_pairs_loop (let m = m(b + i + 1 := m dst) in m(b + i := m (dst + 1))) (dst + 2) b len (idx + 2)
      else Some (m(b + i := 0)))"

definition swap_pairs_bytes :: "u32 \<Rightarrow> u32 \<Rightarrow> u32 \<Rightarrow> 'a idesys_scheme \<Rightarrow> 'a idesys_scheme res" where
  "swap_pairs_bytes dst b len s = kbind (of_loop (swap_pairs_loop (kmem s) dst b len 0)) (\<lambda>m. Inr (s\<lparr>kmem := m\<rparr>))"

text \<open>The lines that \<^verbatim>\<open>identify_disk\<close> prints, each from the point where the line before it has been printed.\<close>

definition identify_capacity :: "u32 \<Rightarrow> 'a idesys_scheme \<Rightarrow> (unit option \<times> 'a idesys_scheme) res" where
  "identify_capacity sectors s = printk_lit ''    CAPACITY: %dMB\<newline>'' [sectors * 512 div 1024 div 1024] s"

definition identify_sectors :: "u32 \<Rightarrow> 'a idesys_scheme \<Rightarrow> (unit option \<times> 'a idesys_scheme) res" where
  "identify_sectors d s =
     (let sectors = load32 (kmem s) (local_addr s ''id_info'' + 60 * 2) in
      after_call (F_at ''identify_sectors'' [d, sectors]) (printf_lit ''    SECTORS: %d\<newline>'' [sectors])
        (\<lambda>_. identify_capacity sectors) s)"

definition identify_module :: "u32 \<Rightarrow> 'a idesys_scheme \<Rightarrow> (unit option \<times> 'a idesys_scheme) res" where
  "identify_module d s =
     (let b = local_addr s ''buf'' in
      kbind (memset (kmem s) b 0 64) (\<lambda>m.
        kbind (swap_pairs_bytes (local_addr s ''id_info'' + 27 * 2) b 40 (s\<lparr>kmem := m\<rparr>))
          (after_call (F_at ''identify_module'' [d]) (printk_lit ''    MODULE: %s\<newline>'' [b]) (\<lambda>_. identify_sectors d))))"

definition identify_ready :: "u32 \<Rightarrow> bool \<Rightarrow> 'a idesys_scheme \<Rightarrow> (unit option \<times> 'a idesys_scheme) res" where
  "identify_ready d ok s =
     (if \<not> ok then fail_lit ''%s identify failed!!!\<newline>'' [d] s
      else let id_info = local_addr s ''id_info''; b = local_addr s ''buf'' in
        kbind (swap_pairs_bytes (id_info + 10 * 2) b 20 (read_from_sector d id_info 1 s))
          (after_call (F_at ''identify_disk'' [d]) (printk_lit ''  disk %s info:\<newline>    SN: %s\<newline>'' [d, b]) (\<lambda>_. identify_module d)))"

definition identify_disk :: "u32 \<Rightarrow> 'a idesys_scheme \<Rightarrow> (unit option \<times> 'a idesys_scheme) res" where
  "identify_disk d s =
     (let s = select_disk d s; fr = F_at ''identify_disk'' [d] in
      after_sema fr (disk_done (chan d s)) (after_call fr (busy_wait d) (identify_ready d)) (cmd_out (chan d s) CMD_IDENTIFY s))"

section \<open>Partitions\<close>

text \<open>The fields of a partition table entry at \<open>p\<close>, and of the table in a boot sector at \<open>bs\<close>.\<close>

definition fs_type :: "u32 \<Rightarrow> 'a idesys_scheme \<Rightarrow> u8" where "fs_type p s = kmem s (p + 4)"
definition entry_start :: "u32 \<Rightarrow> 'a idesys_scheme \<Rightarrow> u32" where "entry_start p s = load32 (kmem s) (p + 8)"
definition entry_secs :: "u32 \<Rightarrow> 'a idesys_scheme \<Rightarrow> u32" where "entry_secs p s = load32 (kmem s) (p + 12)"
definition partition_table :: "u32 \<Rightarrow> u32" where "partition_table bs = bs + 446"

text \<open>Recording the entry at \<open>p\<close> as the partition \<open>part\<close> of the disk, with its number in the name.\<close>

definition record_partition :: "u32 \<Rightarrow> u32 \<Rightarrow> u32 \<Rightarrow> u32 \<Rightarrow> u32 \<Rightarrow> 'a idesys_scheme \<Rightarrow> 'a idesys_scheme res" where
  "record_partition d part ext_lba p no s =
     sprintf_lit (part_name part) ''%s%d'' [d, no]
       (list_append (partition_list s) (part_tag part)
         (part_upd part (\<lambda>x. x\<lparr>start_lba := ext_lba + entry_start p s, sec_cnt := entry_secs p s, my_disk := d\<rparr>) s))"

definition add_primary :: "u32 \<Rightarrow> u32 \<Rightarrow> u32 \<Rightarrow> 'a idesys_scheme \<Rightarrow> 'a idesys_scheme res" where
  "add_primary d ext_lba p s =
     (if p_no s < 4 then
        kbind (record_partition d (prim_parts d (unat (p_no s))) ext_lba p (ucast (p_no s) + 1) s) (\<lambda>s.
          let s = s\<lparr>p_no := p_no s + 1\<rparr> in ASSERT (p_no s < 4) (Inr s))
      else Inl OUT_OF_BOUNDS)"

definition add_logic :: "u32 \<Rightarrow> u32 \<Rightarrow> u32 \<Rightarrow> 'a idesys_scheme \<Rightarrow> 'a idesys_scheme res" where
  "add_logic d ext_lba p s =
     (if l_no s < 8 then
        kbind (record_partition d (logic_parts d (unat (l_no s))) ext_lba p (ucast (l_no s) + 5) s) (\<lambda>s. Inr (s\<lparr>l_no := l_no s + 1\<rparr>))
      else Inl OUT_OF_BOUNDS)"

text \<open>
  One table entry: \<open>scan\<close> is the recursive call, \<open>k\<close> the rest of the loop. The return behind the eighth
  logical partition leaves the loop, and the boot sector allocated.
\<close>

definition scan_entry :: "(u32 \<Rightarrow> 'a idesys_scheme \<Rightarrow> (unit option \<times> 'a idesys_scheme) res) \<Rightarrow> kframe \<Rightarrow> u32 \<Rightarrow> u32 \<Rightarrow> u32 \<Rightarrow>
    ('a idesys_scheme \<Rightarrow> (unit option \<times> 'a idesys_scheme) res) \<Rightarrow> 'a idesys_scheme \<Rightarrow> (unit option \<times> 'a idesys_scheme) res" where
  "scan_entry scan fr d ext_lba p k s =
     (if fs_type p s = 0x5 then
        if ext_lba_base s \<noteq> 0 then after_call fr (scan (entry_start p s + ext_lba_base s)) (\<lambda>_. k) s
        else after_call fr (scan (entry_start p s)) (\<lambda>_. k) (s\<lparr>ext_lba_base := entry_start p s\<rparr>)
      else if fs_type p s \<noteq> 0 then
        if ext_lba = 0 then kbind (add_primary d ext_lba p s) k
        else kbind (add_logic d ext_lba p s) (\<lambda>s. if l_no s \<ge> 8 then Inr (Some (), s) else k s)
      else k s)"

primrec scan_entries :: "nat \<Rightarrow> (u32 \<Rightarrow> 'a idesys_scheme \<Rightarrow> (unit option \<times> 'a idesys_scheme) res) \<Rightarrow> u32 \<Rightarrow> u32 \<Rightarrow> u32 \<Rightarrow> u32 \<Rightarrow>
    'a idesys_scheme \<Rightarrow> (unit option \<times> 'a idesys_scheme) res" where
  "scan_entries 0 scan d ext_lba bs p s = sys_free bs s"
| "scan_entries (Suc n) scan d ext_lba bs p s =
     scan_entry scan (F_at ''partition_scan'' [d, ext_lba, bs, p]) d ext_lba p (scan_entries n scan d ext_lba bs (p + 16)) s"

text \<open>
  The first argument bounds the depth of the recursion. Every activation takes at least 64 bytes of
  the page that holds the kernel stack, so 64 nested calls never return on the machine either.
\<close>

primrec partition_scan :: "nat \<Rightarrow> u32 \<Rightarrow> u32 \<Rightarrow> 'a idesys_scheme \<Rightarrow> (unit option \<times> 'a idesys_scheme) res" where
  "partition_scan 0 d ext_lba s = Inl SPIN"
| "partition_scan (Suc n) d ext_lba s =
     after_call (F_at ''partition_scan'' [d, ext_lba]) (sys_malloc 512)
       (\<lambda>bs. after_call (F_at ''partition_scan'' [d, ext_lba, bs]) (ide_read d ext_lba bs 1)
         (\<lambda>_. scan_entries 4 (partition_scan n d) d ext_lba bs (partition_table bs))) s"

definition scan_depth :: nat where "scan_depth = 64"

definition partition_info :: "u32 \<Rightarrow> 'a idesys_scheme \<Rightarrow> (bool option \<times> 'a idesys_scheme) res" where
  "partition_info pelem s =
     (let part = pelem - 12; x = partitions s part in
      after_call (F_at ''partition_info'' [pelem])
        (printk_lit ''  %s start_lba:0x%x, sec_cnt:0x%x\<newline>'' [part_name part, start_lba x, sec_cnt x])
        (\<lambda>_ s. Inr (Some False, s)) s)"

text \<open>
  The walk of \<^verbatim>\<open>list_traversal\<close> with a callback that may sleep; the first argument bounds its length. The
  list of partitions holds at most twelve: each channel starts it anew and only its slave is scanned.
\<close>

primrec traversal_calls :: "nat \<Rightarrow> (u32 \<Rightarrow> 's tsys_scheme \<Rightarrow> (bool option \<times> 's tsys_scheme) res) \<Rightarrow> u32 \<Rightarrow> u32 \<Rightarrow>
    's tsys_scheme \<Rightarrow> (u32 option \<times> 's tsys_scheme) res" where
  "traversal_calls 0 func stop elem s = Inl SPIN"
| "traversal_calls (Suc n) func stop elem s =
     (if elem \<noteq> stop then
        after_call (F_at ''list_traversal'' [stop, elem]) (func elem)
          (\<lambda>found s. if found then Inr (Some elem, s) else traversal_calls n func stop (next (lheap s elem)) s) s
      else Inr (Some NULL, s))"

definition traverse_partitions :: "(u32 \<Rightarrow> 'a idesys_scheme \<Rightarrow> (bool option \<times> 'a idesys_scheme) res) \<Rightarrow>
    'a idesys_scheme \<Rightarrow> (u32 option \<times> 'a idesys_scheme) res" where
  "traverse_partitions func s =
     (let plist = partition_list s in
      if list_empty plist s then Inr (Some NULL, s)
      else traversal_calls 13 func (list_tail plist) (next (lheap s (list_head plist))) s)"

section \<open>Initialisation\<close>

text \<open>A loop whose passes may sleep, over the values of its counter.\<close>

primrec each_call :: "('a \<Rightarrow> kframe) \<Rightarrow> ('a \<Rightarrow> 's tsys_scheme \<Rightarrow> (unit option \<times> 's tsys_scheme) res) \<Rightarrow> 'a list \<Rightarrow>
    's tsys_scheme \<Rightarrow> (unit option \<times> 's tsys_scheme) res" where
  "each_call fr f [] s = Inr (Some (), s)"
| "each_call fr f (x # xs) s = after_call (fr x) (f x) (\<lambda>_. each_call fr f xs) s"

definition reset_numbers :: "'a idesys_scheme \<Rightarrow> (unit option \<times> 'a idesys_scheme) res" where
  "reset_numbers s = Inr (Some (), s\<lparr>p_no := 0, l_no := 0\<rparr>)"

definition disk_init :: "u32 \<Rightarrow> u8 \<Rightarrow> nat \<Rightarrow> 'a idesys_scheme \<Rightarrow> (unit option \<times> 'a idesys_scheme) res" where
  "disk_init c channel_no i s =
     (let d = device_at c i; fr = F_at ''ide_init'' [c, d] in
      kbind (sprintf_lit d ''sd%c'' [0x61 + ucast channel_no * 2 + word_of_nat i]
               (s\<lparr>disks := (disks s)(d := \<lparr>my_channel = c, dev_no = word_of_nat i\<rparr>)\<rparr>))
        (after_call fr (identify_disk d)
          (\<lambda>_. if i \<noteq> 0 then after_call fr (partition_scan scan_depth d 0) (\<lambda>_. reset_numbers) else reset_numbers)))"

definition channel_ports :: "u8 \<Rightarrow> ide_channel \<Rightarrow> ide_channel" where
  "channel_ports channel_no x =
     (if channel_no = 0 then x\<lparr>port_base := 0x1f0, irq_no := 0x20 + 14\<rparr>
      else if channel_no = 1 then x\<lparr>port_base := 0x170, irq_no := 0x20 + 15\<rparr> else x)"

text \<open>\<open>handler\<close> is the address of \<^verbatim>\<open>intr_hd_handler\<close>.\<close>

definition channel_init :: "intr_handler \<Rightarrow> nat \<Rightarrow> 'a idesys_scheme \<Rightarrow> (unit option \<times> 'a idesys_scheme) res" where
  "channel_init handler i s =
     (if i < 2 then
        let c = channel_at i s; channel_no = word_of_nat i in
        kbind (sprintf_lit c ''ide%d'' [ucast channel_no] s) (\<lambda>s.
          let s = channel_upd c (channel_ports channel_no) s in
          kbind (register_handler (irq_no (ide_channels s c)) handler s) (\<lambda>s.
            let s = channel_upd c (expecting_intr_update (\<lambda>_. False)) s;
                s = sema_init (disk_done c) 1 (lock_init (channel_lock c) s);
                s = list_init (partition_list s) s
            in each_call (\<lambda>j. F_at ''ide_init'' [c, word_of_nat j]) (disk_init c channel_no) [0, 1] s))
      else Inl OUT_OF_BOUNDS)"

definition ide_channels_init :: "intr_handler \<Rightarrow> 'a idesys_scheme \<Rightarrow> (unit option \<times> 'a idesys_scheme) res" where
  "ide_channels_init handler s =
     (let hd_cnt = kmem s 0x475 in
      ASSERT (hd_cnt > 0)
        (let s = s\<lparr>channel_cnt := ucast (DIV_ROUND_UP (ucast hd_cnt) 2)\<rparr> in
         each_call (\<lambda>i. F_at ''ide_init'' [word_of_nat i]) (channel_init handler) [0..<unat (channel_cnt s)] s))"

definition ide_init_list :: "'a idesys_scheme \<Rightarrow> (unit option \<times> 'a idesys_scheme) res" where
  "ide_init_list s =
     after_call (F_at ''ide_init'' []) (printk_lit ''\<newline>  all partition info\<newline>'' [])
       (\<lambda>_. after_call (F_at ''ide_init'' []) (traverse_partitions partition_info) (\<lambda>_. printk_lit ''ide_init done\<newline>'' [])) s"

definition ide_init :: "intr_handler \<Rightarrow> 'a idesys_scheme \<Rightarrow> (unit option \<times> 'a idesys_scheme) res" where
  "ide_init handler s =
     after_call (F_at ''ide_init'' []) (printk_lit ''ide_init start\<newline>'' [])
       (\<lambda>_. after_call (F_at ''ide_init'' []) (ide_channels_init handler) (\<lambda>_. ide_init_list)) s"

section \<open>Words on the data port\<close>

text \<open>Words as the bytes they are in memory, and the words that the memory holds.\<close>

definition le_bytes :: "u16 list \<Rightarrow> u8 list" where
  "le_bytes ws = concat (map (\<lambda>w. [ucast w, ucast (drop_bit 8 w)]) ws)"

definition word_at :: "mem \<Rightarrow> u32 \<Rightarrow> u16" where
  "word_at m a = ucast (m a) OR push_bit 8 (ucast (m (a + 1)))"

definition words_at :: "mem \<Rightarrow> u32 \<Rightarrow> nat \<Rightarrow> u16 list" where
  "words_at m a n = map (\<lambda>i. word_at m (off a (2 * i))) [0..<n]"

definition port_words :: "u16 \<Rightarrow> nat \<Rightarrow> 'a idesys_scheme \<Rightarrow> u16 list" where
  "port_words port n s = map (\<lambda>i. port_in s port (in_pos s port + i)) [0..<n]"

lemma map_upt_Suc_shift: "map f [0..<Suc n] = f 0 # map (\<lambda>i. f (Suc i)) [0..<n]"
  by (simp add: map_upt_Suc del: upt_Suc)

lemma length_le_bytes [simp]: "length (le_bytes ws) = 2 * length ws"
  by (induction ws) (simp_all add: le_bytes_def)

lemma insw_eq:
  "insw port a n s = s\<lparr>kmem := put_bytes (kmem s) a (le_bytes (port_words port n s)), in_pos := (in_pos s)(port := in_pos s port + n)\<rparr>"
proof (induction n arbitrary: a s)
  case 0
  show ?case by (simp add: port_words_def le_bytes_def)
next
  case (Suc n)
  let ?w = "port_in s port (in_pos s port)"
  let ?t = "s\<lparr>kmem := (kmem s)(a := ucast ?w, a + 1 := ucast (drop_bit 8 ?w)), in_pos := (in_pos s)(port := in_pos s port + 1)\<rparr>"
  have p: "port_words port (Suc n) s = ?w # port_words port n ?t"
    unfolding port_words_def map_upt_Suc_shift by simp
  have l: "le_bytes (w # ws) = ucast w # ucast (drop_bit 8 w) # le_bytes ws" for w ws by (simp add: le_bytes_def)
  have b: "put_bytes m a (x # y # xs) = put_bytes (m(a := x, a + 1 := y)) (a + 2) xs" for m x y xs by (simp add: algebra_simps)
  have "insw port a (Suc n) s = insw port (a + 2) n ?t" by (simp add: Let_def)
  also have "\<dots> = s\<lparr>kmem := put_bytes (kmem ?t) (a + 2) (le_bytes (port_words port n ?t)),
      in_pos := (in_pos ?t)(port := in_pos ?t port + n)\<rparr>" unfolding Suc by simp
  also have "(in_pos ?t)(port := in_pos ?t port + n) = (in_pos s)(port := in_pos s port + Suc n)" by (rule ext) simp
  also have "kmem ?t = (kmem s)(a := ucast ?w, a + 1 := ucast (drop_bit 8 ?w))" by simp
  finally show ?case unfolding p l b .
qed

lemma outsw_eq: "outsw port a n s = s\<lparr>data_out := data_out s @ map (Pair port) (words_at (kmem s) a n)\<rparr>"
proof (induction n arbitrary: a s)
  case 0
  show ?case by (simp add: words_at_def)
next
  case (Suc n)
  have e: "word_at m (off a (2 * Suc i)) = word_at m (off (a + 2) (2 * i))" for m i by (simp add: algebra_simps)
  have "words_at m a (Suc n) = word_at m a # words_at m (a + 2) n" for m
    unfolding words_at_def map_upt_Suc_shift e by simp
  then show ?case by (simp add: Suc word_at_def)
qed

lemma word_at_bytes: "ucast (word_at m a) = m a" "ucast (drop_bit 8 (word_at m a)) = m (a + 1)"
  by (rule bit_word_eqI; auto simp: word_at_def bit_simps dest: bit_imp_le_length)+

lemma words_bytes: "le_bytes (words_at m a n) = map (\<lambda>i. m (off a i)) [0..<2 * n]"
proof (induction n)
  case (Suc n)
  have "le_bytes (words_at m a (Suc n)) = le_bytes (words_at m a n) @ [m (off a (2 * n)), m (off a (2 * n) + 1)]"
    by (simp add: words_at_def le_bytes_def word_at_bytes)
  then show ?case using Suc by (simp add: algebra_simps)
qed (simp add: words_at_def le_bytes_def)

section \<open>A command that finds the disk ready\<close>

definition device_bits :: "u32 \<Rightarrow> 'a idesys_scheme \<Rightarrow> u8" where
  "device_bits d s = BIT_DEV_MBS OR BIT_DEV_LBA OR (if dev_no (disks s d) = 1 then BIT_DEV_DEV else 0)"

text \<open>The writes that program a transfer of \<open>n\<close> sectors from \<open>lba\<close> on.\<close>

definition sector_regs :: "u32 \<Rightarrow> u32 \<Rightarrow> u8 \<Rightarrow> 'a idesys_scheme \<Rightarrow> (u16 \<times> u8) list" where
  "sector_regs d lba n s =
     (let c = chan d s in
      [(reg_sect_cnt c s, n), (reg_lba_l c s, ucast lba), (reg_lba_m c s, ucast (drop_bit 8 lba)), (reg_lba_h c s, ucast (drop_bit 16 lba)),
       (reg_dev c s, device_bits d s OR ucast (drop_bit 24 lba))])"

lemmas reg_defs = reg_data_def reg_sect_cnt_def reg_lba_l_def reg_lba_m_def reg_lba_h_def reg_dev_def reg_status_def reg_cmd_def

lemma reg_status_data: "reg_data c s \<noteq> reg_status c s"
proof -
  have "(0 :: u16) \<noteq> 7" by simp
  then show ?thesis unfolding reg_defs add_left_cancel .
qed

lemma select_disk_eq: "select_disk d s = s\<lparr>io_log := io_log s @ [(reg_dev (chan d s) s, device_bits d s)]\<rparr>"
  by (simp add: select_disk_def device_bits_def outb_def Let_def or.assoc)

lemma select_sector_eq:
  "lba \<le> max_lba \<Longrightarrow> select_sector d lba n s = Inr (s\<lparr>io_log := io_log s @ sector_regs d lba n s\<rparr>)"
  by (simp add: select_sector_def device_bits_def sector_regs_def outb_def Let_def or.assoc)

lemma cmd_out_eq:
  "cmd_out c cmd s = s\<lparr>io_log := io_log s @ [(reg_cmd c s, cmd)], ide_channels := (ide_channels s)(c := (ide_channels s c)\<lparr>expecting_intr := True\<rparr>)\<rparr>"
  by (simp add: cmd_out_def channel_upd_def outb_def reg_defs)

lemma after_sema_free:
  assumes "sema_value s p = 1"
  shows "after_sema fr p k s = k (set_sema p 0 s)"
proof -
  let ?f = "push_frame (running_thread s) fr s"
  have "sema_value ?f p = 1" using assms by (simp add: push_frame_def task_upd_def)
  then have "sema_down p ?f = Inr (True, set_sema p 0 ?f)" by (rule sema_down_free)
  moreover have "pop_frame (set_sema p 0 ?f) = set_sema p 0 s"
    by (simp add: pop_frame_def push_frame_def task_upd_def set_sema_def running_thread_def)
  ultimately show ?thesis by (simp add: after_sema_def)
qed

text \<open>The status port says that the disk is not busy and, on the next read, whether data is ready.\<close>

definition status_read :: "u32 \<Rightarrow> nat \<Rightarrow> 'a idesys_scheme \<Rightarrow> u8" where
  "status_read c i s = ucast (port_in s (reg_status c s) (in_pos s (reg_status c s) + i))"

lemma busy_wait_loop_idle:
  assumes "2 \<le> n" "status_read (chan d s) 0 s AND BIT_ALT_STAT_BSY = 0"
  defines "st \<equiv> reg_status (chan d s) s"
  shows "busy_wait_loop n d s =
    Inr (Some (status_read (chan d s) 1 s AND BIT_ALT_STAT_DRQ \<noteq> 0), s\<lparr>in_pos := (in_pos s)(st := in_pos s st + 2)\<rparr>)"
proof -
  obtain k where k: "n = Suc (Suc k)" using assms(1) by (metis add_2_eq_Suc le_Suc_ex)
  have "(in_pos s)(st := in_pos s st + 1, st := in_pos s st + 2) = (in_pos s)(st := in_pos s st + 2)" by (rule ext) simp
  then show ?thesis using assms(2)
    by (simp add: k inb_def Let_def status_read_def st_def chan_def reg_status_def del: fun_upd_upd)
qed

lemma busy_wait_idle:
  assumes "status_read (chan d s) 0 s AND BIT_ALT_STAT_BSY = 0"
  shows "after_call fr (busy_wait d) k s = k (status_read (chan d s) 1 s AND BIT_ALT_STAT_DRQ \<noteq> 0)
    (s\<lparr>in_pos := (in_pos s)(reg_status (chan d s) s := in_pos s (reg_status (chan d s) s) + 2)\<rparr>)"
proof -
  let ?p = "push_frame (running_thread s) fr s"
  have f: "status_read c i ?p = status_read c i s" "chan d ?p = chan d s" "reg_status c ?p = reg_status c s" "in_pos ?p = in_pos s" for c i
    by (simp_all add: push_frame_def task_upd_def status_read_def chan_def reg_status_def)
  have u: "?p\<lparr>in_pos := x\<rparr> = push_frame (running_thread s) fr (s\<lparr>in_pos := x\<rparr>)" for x
    by (simp add: push_frame_def task_upd_def)
  have e: "busy_wait d ?p = Inr (Some (status_read (chan d s) 1 s AND BIT_ALT_STAT_DRQ \<noteq> 0), push_frame (running_thread s) fr
      (s\<lparr>in_pos := (in_pos s)(reg_status (chan d s) s := in_pos s (reg_status (chan d s) s) + 2)\<rparr>))"
    using busy_wait_loop_idle [of "30 * 1000" d ?p] assms unfolding f u busy_wait_def by simp
  show ?thesis by (rule after_call_returns [where f = "busy_wait d", OF e]) (simp add: running_thread_def)
qed

lemma locked_ide:
  "chan d (locked l s) = chan d s" "disks (locked l s) = disks s" "ide_channels (locked l s) = ide_channels s"
  "port_in (locked l s) = port_in s" "in_pos (locked l s) = in_pos s" "kmem (locked l s) = kmem s" "io_log (locked l s) = io_log s"
  by (simp_all add: locked_def set_sema_def set_holder_def set_repeat_def chan_def)

lemma lock_not_done: "disk_done c \<noteq> lock_semaphore (channel_lock c)"
proof -
  have "(44 :: u32) \<noteq> 12 + 4" by simp
  then show ?thesis unfolding disk_done_def lock_semaphore_def channel_lock_def add.assoc add_left_cancel .
qed

text \<open>One command of a read: the state after it, and the pass of the loop that issues it.\<close>

definition read_once :: "u32 \<Rightarrow> u32 \<Rightarrow> u32 \<Rightarrow> u32 \<Rightarrow> 'a idesys_scheme \<Rightarrow> 'a idesys_scheme" where
  "read_once d lba b n s =
     (let c = chan d s; data = reg_data c s; st = reg_status c s; words = size_in_byte (ucast n) div 2 in
      s\<lparr>io_log := io_log s @ sector_regs d lba (ucast n) s @ [(reg_cmd c s, CMD_READ_SECTOR)],
        ide_channels := (ide_channels s)(c := (ide_channels s c)\<lparr>expecting_intr := True\<rparr>),
        sema_value := (sema_value s)(disk_done c := 0),
        kmem := put_bytes (kmem s) b (le_bytes (port_words data words s)),
        in_pos := (in_pos s)(st := in_pos s st + 2, data := in_pos s data + words)\<rparr>)"

lemma ide_read_loop_step:
  assumes "secs_done < sects" "lba + secs_done \<le> max_lba" "n = chunk sects secs_done" "c = chan d s"
    and "sema_value s (disk_done c) = 1" "status_read c 0 s AND BIT_ALT_STAT_BSY = 0" "status_read c 1 s AND BIT_ALT_STAT_DRQ \<noteq> 0"
  shows "ide_read_loop (Suc k) d lba b sects secs_done s =
    ide_read_loop k d lba b sects (secs_done + n) (read_once d (lba + secs_done) (b + secs_done * 512) n s)"
proof -
  let ?s1 = "s\<lparr>io_log := io_log s @ sector_regs d (lba + secs_done) (ucast n) s\<rparr>"
  let ?s2 = "cmd_out c CMD_READ_SECTOR ?s1"
  let ?s3 = "set_sema (disk_done c) 0 ?s2"
  let ?s4 = "?s3\<lparr>in_pos := (in_pos s)(reg_status c s := in_pos s (reg_status c s) + 2)\<rparr>"
  have f: "chan d ?s3 = c" "reg_status c ?s3 = reg_status c s" "in_pos ?s3 = in_pos s" "status_read c i ?s3 = status_read c i s"
    "chan d ?s1 = c" "chan d ?s4 = c" "reg_data c ?s4 = reg_data c s" for i
    using assms(4) by (simp_all add: cmd_out_eq set_sema_def chan_def reg_defs status_read_def)
  have sv: "sema_value ?s2 (disk_done c) = 1" using assms(5) by (simp add: cmd_out_eq)
  have r: "read_from_sector d (b + secs_done * 512) (ucast n) ?s4 = read_once d (lba + secs_done) (b + secs_done * 512) n s"
    unfolding read_from_sector_def insw_eq f read_once_def Let_def assms(4) [symmetric]
    using reg_status_data [of c s]
    by (simp add: cmd_out_eq set_sema_def port_words_def reg_cmd_def reg_status_def)
  have w: "after_call fr (busy_wait d) g ?s3 = g True ?s4" for fr g
    using busy_wait_idle [of d ?s3 fr g] assms(6,7) unfolding f by simp
  show ?thesis
    using assms(1) unfolding ide_read_loop.simps Let_def assms(3) [symmetric] select_sector_eq [OF assms(2)] kbind_Inr f
      after_sema_free [OF sv] w r by simp
qed

lemma read_once_locked:
  assumes "l = channel_lock (chan d s)"
  shows "read_once d lba b n (locked l s) = locked l (read_once d lba b n s)"
proof -
  have "reg_data c (locked l s) = reg_data c s" "reg_status c (locked l s) = reg_status c s" "reg_cmd c (locked l s) = reg_cmd c s"
    "sector_regs d lba m (locked l s) = sector_regs d lba m s" "port_words p k (locked l s) = port_words p k s" for c m p k
    by (simp_all add: reg_defs sector_regs_def device_bits_def port_words_def locked_ide Let_def)
  then show ?thesis
    using lock_not_done [of "chan d s"] assms
    by (simp add: read_once_def locked_ide Let_def)
      (simp add: locked_def set_sema_def set_holder_def set_repeat_def running_thread_def fun_upd_twist)
qed

lemma release_read:
  assumes "lock_free l s" "l = channel_lock (chan d s)"
  shows "lock_release l (locked l (read_once d lba b n s)) = Inr (read_once d lba b n s)"
proof (rule release_locked)
  show "lock_free l (read_once d lba b n s)"
    using assms lock_not_done [of "chan d s"] by (auto simp: lock_free_def read_once_def list_empty_def Let_def)
qed

lemma size_in_byte_words:
  assumes "0 < sects" "sects \<le> (256 :: u32)"
  shows "size_in_byte (ucast sects) div 2 = 256 * unat sects"
proof (cases "sects = 256")
  case False
  then have "sects < 256" using assms(2) by simp
  then have u: "unat sects < 256" by (simp add: word_less_nat_alt)
  then have e: "unat (ucast sects :: u8) = unat sects" by (simp add: unsigned_ucast_eq take_bit_nat_eq_self)
  moreover have "unat sects \<noteq> 0" using assms(1) by (simp add: unat_gt_0)
  ultimately have "(ucast sects :: u8) \<noteq> 0" by (metis unat_0)
  then show ?thesis using e by (simp add: size_in_byte_def)
qed (simp add: size_in_byte_def)

text \<open>The state after one command of a write, and the pass of the loop that issues it.\<close>

definition write_once :: "u32 \<Rightarrow> u32 \<Rightarrow> u32 \<Rightarrow> u32 \<Rightarrow> 'a idesys_scheme \<Rightarrow> 'a idesys_scheme" where
  "write_once d lba b n s =
     (let c = chan d s; data = reg_data c s; st = reg_status c s in
      s\<lparr>io_log := io_log s @ sector_regs d lba (ucast n) s @ [(reg_cmd c s, CMD_WRITE_SECTOR)],
        ide_channels := (ide_channels s)(c := (ide_channels s c)\<lparr>expecting_intr := True\<rparr>),
        sema_value := (sema_value s)(disk_done c := 0),
        data_out := data_out s @ map (Pair data) (words_at (kmem s) b (size_in_byte (ucast n) div 2)),
        in_pos := (in_pos s)(st := in_pos s st + 2)\<rparr>)"

lemma ide_write_loop_step:
  assumes "secs_done < sects" "lba + secs_done \<le> max_lba" "n = chunk sects secs_done" "c = chan d s"
    and "sema_value s (disk_done c) = 1" "status_read c 0 s AND BIT_ALT_STAT_BSY = 0" "status_read c 1 s AND BIT_ALT_STAT_DRQ \<noteq> 0"
  shows "ide_write_loop (Suc k) d lba b sects secs_done s =
    ide_write_loop k d lba b sects (secs_done + n) (write_once d (lba + secs_done) (b + secs_done * 512) n s)"
proof -
  let ?s1 = "s\<lparr>io_log := io_log s @ sector_regs d (lba + secs_done) (ucast n) s\<rparr>"
  let ?s2 = "cmd_out c CMD_WRITE_SECTOR ?s1"
  let ?s3 = "?s2\<lparr>in_pos := (in_pos s)(reg_status c s := in_pos s (reg_status c s) + 2)\<rparr>"
  let ?s4 = "write2sector d (b + secs_done * 512) (ucast n) ?s3"
  have f: "chan d ?s2 = c" "reg_status c ?s2 = reg_status c s" "in_pos ?s2 = in_pos s" "status_read c i ?s2 = status_read c i s"
    "chan d ?s1 = c" "chan d ?s3 = c" "reg_data c ?s3 = reg_data c s" for i
    using assms(4) by (simp_all add: cmd_out_eq chan_def reg_defs status_read_def)
  have w: "after_call fr (busy_wait d) g ?s2 = g True ?s3" for fr g
    using busy_wait_idle [of d ?s2 fr g] assms(6,7) unfolding f by simp
  have sv: "sema_value ?s4 (disk_done c) = 1" using assms(5) by (simp add: cmd_out_eq write2sector_def outsw_eq)
  have r: "set_sema (disk_done c) 0 ?s4 = write_once d (lba + secs_done) (b + secs_done * 512) n s"
    unfolding write2sector_def outsw_eq f write_once_def Let_def assms(4) [symmetric]
    by (simp add: cmd_out_eq set_sema_def reg_cmd_def reg_status_def)
  show ?thesis
    using assms(1) unfolding ide_write_loop.simps Let_def assms(3) [symmetric] select_sector_eq [OF assms(2)] kbind_Inr f w
    by (simp only: simp_thms if_True if_False f after_sema_free [OF sv] r)
qed

lemma write_once_locked:
  assumes "l = channel_lock (chan d s)"
  shows "write_once d lba b n (locked l s) = locked l (write_once d lba b n s)"
proof -
  have "reg_data c (locked l s) = reg_data c s" "reg_status c (locked l s) = reg_status c s" "reg_cmd c (locked l s) = reg_cmd c s"
    "sector_regs d lba m (locked l s) = sector_regs d lba m s" for c m
    by (simp_all add: reg_defs sector_regs_def device_bits_def locked_ide Let_def)
  then show ?thesis
    using lock_not_done [of "chan d s"] assms
    by (simp add: write_once_def locked_ide Let_def)
      (simp add: locked_def set_sema_def set_holder_def set_repeat_def running_thread_def fun_upd_twist)
qed

text \<open>The state after a write of one command, which selects the disk first.\<close>

definition wrote :: "u32 \<Rightarrow> u32 \<Rightarrow> u32 \<Rightarrow> u32 \<Rightarrow> 'a idesys_scheme \<Rightarrow> 'a idesys_scheme" where
  "wrote d lba b n s = write_once d lba b n (select_disk d s)"

lemma ide_write_one_command:
  assumes "lba \<le> max_lba" "0 < sects" "sects \<le> 256" "c = chan d s" "lock_free (channel_lock c) s" "running_thread s \<noteq> NULL"
    and "sema_value s (disk_done c) = 1" "status_read c 0 s AND BIT_ALT_STAT_BSY = 0" "status_read c 1 s AND BIT_ALT_STAT_DRQ \<noteq> 0"
  shows "ide_write d lba b sects s = Inr (Some (), wrote d lba b sects s)"
proof -
  let ?l = "channel_lock c" and ?t = "select_disk d s"
  let ?r = "wrote d lba b sects s"
  have t: "select_disk d (locked ?l s) = locked ?l ?t"
    using assms(4) by (simp add: select_disk_eq locked_ide device_bits_def reg_dev_def)
      (simp add: locked_def set_sema_def set_holder_def set_repeat_def running_thread_def)
  have c: "chan d ?t = c" "lock_free ?l ?t" using assms(4,5) by (simp_all add: select_disk_eq chan_def lock_free_def list_empty_def)
  have chunk: "chunk sects 0 = sects" using assms(3) by (auto simp: chunk_def)
  have ready: "sema_value (locked ?l ?t) (disk_done c) = 1" "status_read c i (locked ?l ?t) = status_read c i s" "chan d (locked ?l ?t) = c" for i
    using assms(7) lock_not_done [of c] c
    by (simp_all add: status_read_def reg_status_def locked_ide select_disk_eq) (simp add: locked_def set_sema_def set_holder_def set_repeat_def)
  have "0 < unat sects" using assms(2) by (simp add: word_less_nat_alt)
  then obtain k where k: "unat sects = Suc k" by (auto dest: gr0_implies_Suc)
  have cr: "chan d (locked ?l ?r) = c" using c(1) by (simp add: locked_ide wrote_def) (simp add: write_once_def Let_def chan_def)
  have "lock_free ?l ?r" using c(2) lock_not_done [of c] c(1) by (auto simp: lock_free_def wrote_def write_once_def list_empty_def Let_def)
  then have rel: "lock_release ?l (locked ?l ?r) = Inr ?r" by (rule release_locked)
  have "ide_write_loop (unat sects + 1) d lba b sects 0 (locked ?l ?t) = ide_write_loop (Suc k) d lba b sects sects (locked ?l ?r)"
    unfolding k add_Suc_right One_nat_def add_0_right
    using ide_write_loop_step [of 0 sects lba sects c d "locked ?l ?t" "Suc k" b] assms(1,2,8,9) ready
    by (simp add: chunk write_once_locked [of ?l d ?t] c wrote_def del: ide_write_loop.simps)
  also have "\<dots> = Inr (Some (), ?r)"
    unfolding ide_write_loop.simps cr rel by simp
  finally show ?thesis
    using assms(1,2) unfolding ide_write_def assms(4) [symmetric] after_lock_free [OF assms(5,6)] t by simp
qed

lemma sema_up_idle:
  assumes "sema_value s p = 0" "list_empty (sema_waiters p) s"
  shows "sema_up p s = Inr (set_sema p 1 s)"
proof -
  have "snd (intr_set_status (intr_get_status s) (snd (intr_disable s))) = s" using intr_restore [of s] by simp
  then show ?thesis using assms by (simp add: sema_up_def split_beta Let_def intr_set_status_sema)
qed

text \<open>The state after a read of one command, which selects the disk first.\<close>

definition did_read :: "u32 \<Rightarrow> u32 \<Rightarrow> u32 \<Rightarrow> u32 \<Rightarrow> 'a idesys_scheme \<Rightarrow> 'a idesys_scheme" where
  "did_read d lba b n s = read_once d lba b n (select_disk d s)"

lemma ide_read_returns:
  assumes "lba \<le> max_lba" "0 < sects" "sects \<le> 256" "c = chan d s" "lock_free (channel_lock c) s" "running_thread s \<noteq> NULL"
    and "sema_value s (disk_done c) = 1" "status_read c 0 s AND BIT_ALT_STAT_BSY = 0" "status_read c 1 s AND BIT_ALT_STAT_DRQ \<noteq> 0"
  shows "ide_read d lba b sects s = Inr (Some (), did_read d lba b sects s)"
proof -
  let ?l = "channel_lock c" and ?t = "select_disk d s"
  let ?r = "did_read d lba b sects s"
  have t: "select_disk d (locked ?l s) = locked ?l ?t"
    using assms(4) by (simp add: select_disk_eq locked_ide device_bits_def reg_dev_def)
      (simp add: locked_def set_sema_def set_holder_def set_repeat_def running_thread_def)
  have c: "chan d ?t = c" "lock_free ?l ?t" using assms(4,5) by (simp_all add: select_disk_eq chan_def lock_free_def list_empty_def)
  have chunk: "chunk sects 0 = sects" using assms(3) by (auto simp: chunk_def)
  have ready: "sema_value (locked ?l ?t) (disk_done c) = 1" "status_read c i (locked ?l ?t) = status_read c i s" "chan d (locked ?l ?t) = c" for i
    using assms(7) lock_not_done [of c] c
    by (simp_all add: status_read_def reg_status_def locked_ide select_disk_eq) (simp add: locked_def set_sema_def set_holder_def set_repeat_def)
  have "0 < unat sects" using assms(2) by (simp add: word_less_nat_alt)
  then obtain k where k: "unat sects = Suc k" by (auto dest: gr0_implies_Suc)
  have cr: "chan d (locked ?l ?r) = c" using c(1) by (simp add: locked_ide did_read_def) (simp add: read_once_def Let_def chan_def)
  have rel: "lock_release ?l (locked ?l ?r) = Inr ?r" unfolding did_read_def by (rule release_read [OF c(2)]) (simp only: c(1))
  have "ide_read_loop (unat sects + 1) d lba b sects 0 (locked ?l ?t) = ide_read_loop (Suc k) d lba b sects sects (locked ?l ?r)"
    unfolding k add_Suc_right One_nat_def add_0_right
    using ide_read_loop_step [of 0 sects lba sects c d "locked ?l ?t" "Suc k" b] assms(1,2,8,9) ready
    by (simp add: chunk read_once_locked [of ?l d ?t] c did_read_def del: ide_read_loop.simps)
  also have "\<dots> = Inr (Some (), ?r)"
    unfolding ide_read_loop.simps cr rel by simp
  finally show ?thesis
    using assms(1,2) unfolding ide_read_def assms(4) [symmetric] after_lock_free [OF assms(5,6)] t by simp
qed

lemma did_read_fields:
  assumes "c = chan d s"
  shows "io_log (did_read d lba b n s) = io_log s @ (reg_dev c s, device_bits d s) # sector_regs d lba (ucast n) s @ [(reg_cmd c s, CMD_READ_SECTOR)]"
    "kmem (did_read d lba b n s) = put_bytes (kmem s) b (le_bytes (port_words (reg_data c s) (size_in_byte (ucast n) div 2) s))"
    "lheap (did_read d lba b n s) = lheap s" "sema_value (did_read d lba b n s) = (sema_value s)(disk_done c := 0)"
    "ide_channels (did_read d lba b n s) = (ide_channels s)(c := (ide_channels s c)\<lparr>expecting_intr := True\<rparr>)" "tasks (did_read d lba b n s) = tasks s"
  using assms by (simp_all add: did_read_def select_disk_eq read_once_def Let_def sector_regs_def device_bits_def reg_defs chan_def port_words_def)

text \<open>The interrupt of a disk whose command is under way and for which nobody waits yet.\<close>

lemma disk_interrupt:
  assumes "i < 2" "c = channel_at i s" "irq_no (ide_channels s c) = 0x2e + word_of_nat i" "expecting_intr (ide_channels s c)"
    and "sema_value s (disk_done c) = 0" "next (lheap s (sema_waiters (disk_done c))) = list_tail (sema_waiters (disk_done c))"
  shows "intr_hd_handler (0x2e + word_of_nat i) s = Inr (s\<lparr>ide_channels := (ide_channels s)(c := (ide_channels s c)\<lparr>expecting_intr := False\<rparr>),
    sema_value := (sema_value s)(disk_done c := 1), in_pos := (in_pos s)(reg_status c s := in_pos s (reg_status c s) + 1)\<rparr>)"
proof -
  have n: "unat (word_of_nat i :: u8) = i" "0x2e + word_of_nat i = (0x2e :: u8) \<or> 0x2e + word_of_nat i = (0x2f :: u8)"
    using assms(1) by (auto simp: less_2_cases_iff)
  let ?t = "channel_upd c (expecting_intr_update (\<lambda>_. False)) s"
  have "sema_value ?t (disk_done c) = 0" "list_empty (sema_waiters (disk_done c)) ?t"
    using assms(5,6) by (simp_all add: channel_upd_def list_empty_def)
  then have "sema_up (disk_done c) ?t = Inr (set_sema (disk_done c) 1 ?t)" by (rule sema_up_idle)
  then show ?thesis using n assms(2-4)
    by (simp add: intr_hd_handler_def Let_def inb_def) (simp add: set_sema_def channel_upd_def reg_status_def)
qed

section \<open>Properties\<close>

text \<open>
  C31: \<^verbatim>\<open>ide_read\<close> of up to 256 sectors on a free channel whose disk is ready programs the controller with one
  command, the number of sectors, the sector address and the drive (the count 256 as zero), stores
  exactly the words that the data port delivers, low byte first, and returns with the lock released.
  It has waited for no interrupt: the semaphore starts at one.
\<close>
theorem ide_read_one_command:
  assumes "lba \<le> max_lba" "0 < sects" "sects \<le> 256" "c = chan d s" "lock_free (channel_lock c) s" "running_thread s \<noteq> NULL"
    and "sema_value s (disk_done c) = 1" "status_read c 0 s AND BIT_ALT_STAT_BSY = 0" "status_read c 1 s AND BIT_ALT_STAT_DRQ \<noteq> 0"
  shows "\<exists>s'. ide_read d lba b sects s = Inr (Some (), s') \<and>
    io_log s' = io_log s @ (reg_dev c s, device_bits d s) # sector_regs d lba (ucast sects) s @ [(reg_cmd c s, CMD_READ_SECTOR)] \<and>
    kmem s' = put_bytes (kmem s) b (le_bytes (port_words (reg_data c s) (256 * unat sects) s)) \<and>
    lock_free (channel_lock c) s' \<and> sema_value s' (disk_done c) = 0 \<and> expecting_intr (ide_channels s' c) \<and> tasks s' = tasks s"
proof -
  let ?r = "did_read d lba b sects s"
  note f = did_read_fields [OF assms(4), of lba b sects]
  have "lock_free (channel_lock c) ?r" using assms(5) lock_not_done [of c] unfolding lock_free_def list_empty_def f
    by (auto simp: did_read_def select_disk_eq read_once_def Let_def)
  moreover have "sema_value ?r (disk_done c) = 0 \<and> expecting_intr (ide_channels ?r c) \<and> tasks ?r = tasks s" by (simp add: f)
  ultimately show ?thesis
    using ide_read_returns [OF assms, of b] f(1,2) size_in_byte_words [OF assms(2,3)] by simp
qed

text \<open>A system with one channel and two disks that are always ready; data port word number \<open>i\<close> is \<open>i\<close>.\<close>

definition demo_disks :: idesys where
  "demo_disks = callsys.extend demo_call
     \<lparr>channels = 0xc0020000, channel_cnt = 1,
      ide_channels = (\<lambda>_. \<lparr>port_base = 0x1f0, irq_no = 0x2e, expecting_intr = False\<rparr>),
      disks = (\<lambda>d. \<lparr>my_channel = 0xc0020000, dev_no = if d = device_at 0xc0020000 1 then 1 else 0\<rparr>),
      partitions = (\<lambda>_. \<lparr>start_lba = 0, sec_cnt = 0, my_disk = 0, sb = 0, block_bitmap = \<lparr>btmp_bytes_len = 0, bits = 0\<rparr>,
        inode_bitmap = \<lparr>btmp_bytes_len = 0, bits = 0\<rparr>\<rparr>),
      partition_list = 0xc0021000, ext_lba_base = 0, p_no = 0, l_no = 0, port_in = (\<lambda>port i. if port = 0x1f7 then 8 else word_of_nat i),
      in_pos = (\<lambda>_. 0), data_out = [], lit_addr = (\<lambda>_. 0xc0022000), local_addr = (\<lambda>_. 0xc0023000), arg_addr = 0xc0024000\<rparr>"

definition demo_ide :: idesys where
  "demo_ide = sema_init (disk_done 0xc0020000) 1 (lock_init (channel_lock 0xc0020000) demo_disks)"

lemma demo_ide_eq:
  "demo_ide = demo_disks\<lparr>lheap := lheap demo_ide, sema_value := (sema_value demo_disks)(0xc0020010 := 1, 0xc002002c := 1),
     lock_holder := (lock_holder demo_disks)(0xc002000c := NULL), lock_repeat := (lock_repeat demo_disks)(0xc002000c := 0)\<rparr>"
  by (simp add: demo_ide_def sema_init_def lock_init_def list_init_def set_sema_def set_holder_def set_repeat_def
      disk_done_def channel_lock_def lock_semaphore_def)

lemma demo_ide_facts:
  "chan d demo_ide = 0xc0020000" "lock_free (channel_lock 0xc0020000) demo_ide" "running_thread demo_ide \<noteq> NULL"
  "sema_value demo_ide (disk_done 0xc0020000) = 1" "status_read 0xc0020000 i demo_ide = 8"
  "ide_channels demo_ide c = \<lparr>port_base = 0x1f0, irq_no = 0x2e, expecting_intr = False\<rparr>" "channel_at 0 demo_ide = 0xc0020000"
  "list_empty (sema_waiters (disk_done 0xc0020000)) demo_ide" "kmem demo_ide = kmem demo_call"
  "port_words 0x1f0 n demo_ide = map word_of_nat [0..<n]"
proof -
  have l: "lheap demo_ide = lheap (list_init 0xc0020030 (list_init 0xc0020014 demo_disks))"
    by (simp add: demo_ide_def sema_init_def lock_init_def list_init_def set_sema_def set_holder_def set_repeat_def
        disk_done_def channel_lock_def lock_semaphore_def sema_waiters_def)
  show "list_empty (sema_waiters (disk_done 0xc0020000)) demo_ide"
    by (simp add: list_empty_def l disk_done_def sema_waiters_def list_init_def set_next_def set_prev_def)
  have "list_empty (sema_waiters (lock_semaphore (channel_lock 0xc0020000))) demo_ide"
    by (simp add: list_empty_def l channel_lock_def lock_semaphore_def sema_waiters_def list_init_def set_next_def set_prev_def)
  then show "lock_free (channel_lock 0xc0020000) demo_ide"
    unfolding lock_free_def by (subst (1 2 3) demo_ide_eq) (simp add: channel_lock_def lock_semaphore_def)
  have "running_thread demo_ide = running_thread demo_call"
    by (subst demo_ide_eq) (simp add: running_thread_def demo_disks_def callsys.defs)
  then show "running_thread demo_ide \<noteq> NULL" using demo_call_facts(3) by simp
qed (subst demo_ide_eq; simp add: chan_def disk_done_def status_read_def reg_status_def channel_at_def port_words_def demo_disks_def callsys.defs)+

theorem ide_read_one_command_witness:
  "\<exists>s'. ide_read 0xc0020040 5 0xc0030000 2 demo_ide = Inr (Some (), s') \<and>
    io_log s' = io_log demo_ide @ [(0x1f6, 0xe0), (0x1f2, 2), (0x1f3, 5), (0x1f4, 0), (0x1f5, 0), (0x1f6, 0xe0), (0x1f7, 0x20)] \<and>
    kmem s' = put_bytes (kmem demo_ide) 0xc0030000 (le_bytes (map word_of_nat [0..<512])) \<and> lock_free (channel_lock 0xc0020000) s'"
proof -
  have d: "disks demo_ide 0xc0020040 = \<lparr>my_channel = 0xc0020000, dev_no = 0\<rparr>"
    by (subst demo_ide_eq) (simp add: demo_disks_def callsys.defs device_at_def)
  have "device_bits 0xc0020040 demo_ide = 0xe0" by (simp add: device_bits_def d BIT_DEV_MBS_def BIT_DEV_LBA_def)
  moreover have "reg_data 0xc0020000 demo_ide = 0x1f0" by (simp add: reg_data_def demo_ide_facts)
  ultimately show ?thesis
    using ide_read_one_command [of 5 2 "0xc0020000" "0xc0020040" demo_ide "0xc0030000", OF _ _ _ _ demo_ide_facts(2-4)]
    by (fastforce simp: demo_ide_facts max_lba_def BIT_ALT_STAT_BSY_def BIT_ALT_STAT_DRQ_def sector_regs_def reg_defs CMD_READ_SECTOR_def Let_def)
qed

text \<open>
  C32: The semaphore of a channel starts at one. An interrupt that arrives after the command has been given
  but before the driver reaches \<^verbatim>\<open>sema_down\<close> therefore panics in \<^verbatim>\<open>sema_up\<close>; one that arrives later sets
  the semaphore back to one and is acknowledged by reading the status port.
\<close>
theorem ide_interrupt_early_panics:
  assumes "i < 2" "c = channel_at i s" "irq_no (ide_channels s c) = 0x2e + word_of_nat i" "sema_value s (disk_done c) = 1"
    and "list_empty (sema_waiters (disk_done c)) s"
  shows "intr_hd_handler (0x2e + word_of_nat i) (cmd_out c cmd s) = Inl PANIC \<and>
    (\<exists>s'. intr_hd_handler (0x2e + word_of_nat i) (set_sema (disk_done c) 0 (cmd_out c cmd s)) = Inr s' \<and>
      sema_value s' = sema_value s \<and> \<not> expecting_intr (ide_channels s' c) \<and> in_pos s' (reg_status c s) = in_pos s (reg_status c s) + 1)"
proof -
  have n: "unat (word_of_nat i :: u8) = i" "0x2e + word_of_nat i = (0x2e :: u8) \<or> 0x2e + word_of_nat i = (0x2f :: u8)"
    using assms(1) by (auto simp: less_2_cases_iff)
  let ?h = "intr_hd_handler (0x2e + word_of_nat i)" and ?t = "set_sema (disk_done c) 0 (cmd_out c cmd s)"
  let ?ide = "\<lambda>s. channel_upd c (expecting_intr_update (\<lambda>_. False)) s"
  have f: "channel_at i (cmd_out c cmd s) = c" "channel_at i ?t = c" "irq_no (ide_channels (cmd_out c cmd s) c) = 0x2e + word_of_nat i"
    "expecting_intr (ide_channels (cmd_out c cmd s) c)" "ide_channels ?t = ide_channels (cmd_out c cmd s)"
    "sema_value (?ide (cmd_out c cmd s)) (disk_done c) = 1" "sema_value (?ide ?t) (disk_done c) = 0"
    "list_empty (sema_waiters (disk_done c)) (?ide ?t)"
    using assms(2-5) by (simp_all add: cmd_out_eq channel_at_def set_sema_def channel_upd_def list_empty_def)
  have p: "sema_up (disk_done c) (?ide (cmd_out c cmd s)) = Inl PANIC"
    using f(6) by (simp add: sema_up_def split_beta intr_disable_def cli_def)
  have "?h (cmd_out c cmd s) = Inl PANIC"
    using n f p by (simp add: intr_hd_handler_def Let_def)
  moreover have "?h ?t = Inr (snd (inb (reg_status c (set_sema (disk_done c) 1 (?ide ?t))) (set_sema (disk_done c) 1 (?ide ?t))))"
    using n f sema_up_idle [OF f(7,8)] by (simp add: intr_hd_handler_def Let_def)
  moreover have "sema_value (set_sema (disk_done c) 1 (?ide ?t)) = sema_value s"
    using assms(4) by (auto simp: set_sema_def channel_upd_def cmd_out_eq)
  ultimately show ?thesis
    by (simp add: inb_def) (simp add: set_sema_def channel_upd_def cmd_out_eq reg_status_def)
qed

theorem ide_interrupt_early_panics_witness:
  "intr_hd_handler 0x2e (cmd_out 0xc0020000 CMD_IDENTIFY demo_ide) = Inl PANIC"
  using ide_interrupt_early_panics [of 0 "0xc0020000" demo_ide CMD_IDENTIFY] by (simp add: demo_ide_facts)

text \<open>
  A buffer that \<^verbatim>\<open>write2sector\<close> sends and \<^verbatim>\<open>read_from_sector\<close> gets back word by word is restored byte by
  byte, for every count of sectors, zero (256 sectors) included, and no byte outside it changes.
\<close>
lemma sector_roundtrip:
  assumes "port_words (reg_data (chan d' t) t) (size_in_byte n div 2) t =
      map snd (drop (length (data_out s)) (data_out (write2sector d b n s)))"
  shows "(\<forall>i. i < size_in_byte n \<longrightarrow> kmem (read_from_sector d' b' n t) (off b' i) = kmem s (off b i)) \<and>
    (\<forall>x. x \<notin> rng b' (size_in_byte n) \<longrightarrow> kmem (read_from_sector d' b' n t) x = kmem t x)"
proof -
  let ?k = "size_in_byte n div 2" and ?bs = "map (\<lambda>i. kmem s (off b i)) [0..<size_in_byte n]"
  have even: "2 * ?k = size_in_byte n" by (simp add: size_in_byte_def)
  have "unat n < 256" by simp
  then have small: "size_in_byte n \<le> 4294967296" by (simp add: size_in_byte_def del: unat_u8_lt)
  have "map snd (drop (length (data_out s)) (data_out (write2sector d b n s))) = words_at (kmem s) b ?k"
    by (simp add: write2sector_def outsw_eq o_def)
  then have "kmem (read_from_sector d' b' n t) = put_bytes (kmem t) b' ?bs"
    unfolding read_from_sector_def insw_eq assms words_bytes even by (simp add: words_bytes even)
  then show ?thesis using put_bytes_nth [of _ ?bs "kmem t" b'] put_bytes_outside [of _ b' ?bs "kmem t"] small by simp
qed

end
