(* ===== verification/Fs.thy ===== *)
theory Fs
  imports Ide
begin

text \<open>
  Formatting and mounting, \<^verbatim>\<open>fs/fs.c\<close>: the super block that \<^verbatim>\<open>partition_format\<close> lays out, the bitmaps, the
  inode table and the root directory it writes, and the mounting of the default partition. What goes
  to the disk or comes from it is bytes in memory; the super block is read and written there by the
  offsets of its fields.
\<close>

section \<open>The super block\<close>

definition MAX_FILES_PER_PART :: u32 where "MAX_FILES_PER_PART = 4096"
definition BITS_PER_SECTOR :: u32 where "BITS_PER_SECTOR = 4096"
definition SECTOR_SIZE :: u32 where "SECTOR_SIZE = 512"
definition BLOCK_SIZE :: u32 where "BLOCK_SIZE = SECTOR_SIZE"

datatype file_types = FT_UNKNOWN | FT_REGULAR | FT_DIRECTORY

primrec file_type_no :: "file_types \<Rightarrow> u32" where
  "file_type_no FT_UNKNOWN = 0"
| "file_type_no FT_REGULAR = 1"
| "file_type_no FT_DIRECTORY = 2"

text \<open>\<^verbatim>\<open>sizeof(struct inode)\<close> and \<^verbatim>\<open>sizeof(struct dir_entry)\<close>.\<close>

definition inode_size :: u32 where "inode_size = 76"
definition sizeof_dir_entry :: u32 where "sizeof_dir_entry = 24"

record super_block =
  magic :: u32
  sb_sec_cnt :: u32
  inode_cnt :: u32
  part_lba_base :: u32
  block_bitmap_lba :: u32
  block_bitmap_sects :: u32
  inode_bitmap_lba :: u32
  inode_bitmap_sects :: u32
  inode_table_lba :: u32
  inode_table_sects :: u32
  data_start_lba :: u32
  root_inode_no :: u32
  dir_entry_size :: u32

definition load_sb :: "mem \<Rightarrow> u32 \<Rightarrow> super_block" where
  "load_sb m p =
     \<lparr>magic = load32 m p, sb_sec_cnt = load32 m (p + 4), inode_cnt = load32 m (p + 8), part_lba_base = load32 m (p + 12),
      block_bitmap_lba = load32 m (p + 16), block_bitmap_sects = load32 m (p + 20),
      inode_bitmap_lba = load32 m (p + 24), inode_bitmap_sects = load32 m (p + 28),
      inode_table_lba = load32 m (p + 32), inode_table_sects = load32 m (p + 36),
      data_start_lba = load32 m (p + 40), root_inode_no = load32 m (p + 44), dir_entry_size = load32 m (p + 48)\<rparr>"

definition store_sb :: "mem \<Rightarrow> u32 \<Rightarrow> super_block \<Rightarrow> mem" where
  "store_sb m p x =
     push_args m p [magic x, sb_sec_cnt x, inode_cnt x, part_lba_base x, block_bitmap_lba x, block_bitmap_sects x,
       inode_bitmap_lba x, inode_bitmap_sects x, inode_table_lba x, inode_table_sects x, data_start_lba x, root_inode_no x, dir_entry_size x]"

definition FS_MAGIC :: u32 where "FS_MAGIC = 0x19590318"

record fssys = idesys +
  cur_part :: u32

text \<open>The sectors that \<^verbatim>\<open>partition_format\<close> divides a partition into.\<close>

definition fmt_inode_bitmap_sects :: u32 where
  "fmt_inode_bitmap_sects = DIV_ROUND_UP MAX_FILES_PER_PART BITS_PER_SECTOR"

definition fmt_inode_table_sects :: u32 where
  "fmt_inode_table_sects = DIV_ROUND_UP (inode_size * MAX_FILES_PER_PART) SECTOR_SIZE"

definition fmt_free_sects :: "u32 \<Rightarrow> u32" where
  "fmt_free_sects secs = secs - (1 + 1 + fmt_inode_bitmap_sects + fmt_inode_table_sects)"

definition block_bitmap_bit_len :: "u32 \<Rightarrow> u32" where
  "block_bitmap_bit_len secs = fmt_free_sects secs - DIV_ROUND_UP (fmt_free_sects secs) BITS_PER_SECTOR"

definition format_sb :: "partition \<Rightarrow> super_block" where
  "format_sb part =
     (let base = start_lba part;
          bb_lba = base + 2;
          bb_sects = DIV_ROUND_UP (block_bitmap_bit_len (sec_cnt part)) BITS_PER_SECTOR;
          ib_lba = bb_lba + bb_sects;
          it_lba = ib_lba + fmt_inode_bitmap_sects
      in \<lparr>magic = FS_MAGIC, sb_sec_cnt = sec_cnt part, inode_cnt = MAX_FILES_PER_PART, part_lba_base = base,
          block_bitmap_lba = bb_lba, block_bitmap_sects = bb_sects, inode_bitmap_lba = ib_lba, inode_bitmap_sects = fmt_inode_bitmap_sects,
          inode_table_lba = it_lba, inode_table_sects = fmt_inode_table_sects,
          data_start_lba = it_lba + fmt_inode_table_sects, root_inode_no = 0, dir_entry_size = sizeof_dir_entry\<rparr>)"

section \<open>Formatting\<close>

text \<open>A change of the byte memory that may fail.\<close>

definition mem_step :: "(mem \<Rightarrow> mem res) \<Rightarrow> 'a devsys_scheme \<Rightarrow> 'a devsys_scheme res" where
  "mem_step f s = kbind (f (kmem s)) (\<lambda>m. Inr (s\<lparr>kmem := m\<rparr>))"

definition format_buf_size :: "super_block \<Rightarrow> u32" where
  "format_buf_size x =
     (let n = (if block_bitmap_sects x \<ge> inode_bitmap_sects x then block_bitmap_sects x else inode_bitmap_sects x)
      in (if n \<ge> inode_table_sects x then n else inode_table_sects x) * SECTOR_SIZE)"

text \<open>The image of the block bitmap for \<open>len\<close> blocks in the buffer at \<open>b\<close>.\<close>

definition block_bitmap_image :: "u32 \<Rightarrow> u32 \<Rightarrow> mem \<Rightarrow> mem res" where
  "block_bitmap_image b len m =
     (let m = m(b := m b OR 0x01);
          last_byte = len div 8;
          last_bit = unat (len mod 8);
          last_size = SECTOR_SIZE - last_byte mod SECTOR_SIZE
      in kbind (memset m (b + last_byte) 0xff last_size) (\<lambda>m.
           Inr (fold (\<lambda>bit_idx m. m(b + last_byte := m (b + last_byte) AND NOT (push_bit bit_idx 1))) [0..<Suc last_bit] m)))"

definition inode_bitmap_image :: "u32 \<Rightarrow> u32 \<Rightarrow> mem \<Rightarrow> mem res" where
  "inode_bitmap_image b sz m = kbind (memset m b 0 sz) (\<lambda>m. Inr (m(b := m b OR 0x1)))"

text \<open>Fields of the inode at \<open>i\<close>: \<^verbatim>\<open>i_no\<close>, \<^verbatim>\<open>i_size\<close> and \<^verbatim>\<open>i_sectors[0]\<close> are at the offsets 0, 4 and 16.\<close>

definition inode_table_image :: "super_block \<Rightarrow> u32 \<Rightarrow> u32 \<Rightarrow> mem \<Rightarrow> mem res" where
  "inode_table_image x b sz m =
     kbind (memset m b 0 sz) (\<lambda>m.
       Inr (store32 (store32 (store32 m (b + 4) (dir_entry_size x * 2)) b 0) (b + 16) (data_start_lba x)))"

text \<open>An entry of a directory: name, inode number at 16, type at 20. \<open>dot\<close> and \<open>dots\<close> are the literals.\<close>

definition root_dir_image :: "u32 \<Rightarrow> u32 \<Rightarrow> u32 \<Rightarrow> u32 \<Rightarrow> mem \<Rightarrow> mem res" where
  "root_dir_image dot dots b sz m =
     kbind (memset m b 0 sz) (\<lambda>m.
       kbind (memcpy m b dot 1) (\<lambda>m.
         let m = store32 (store32 m (b + 16) 0) (b + 20) (file_type_no FT_DIRECTORY); p_de = b + sizeof_dir_entry in
         kbind (memcpy m p_de dots 2) (\<lambda>m. Inr (store32 (store32 m (p_de + 16) 0) (p_de + 20) (file_type_no FT_DIRECTORY)))))"

text \<open>The steps of \<^verbatim>\<open>partition_format\<close>, each with what follows it; \<open>d\<close> is the disk, \<open>x\<close> the super block.\<close>

definition format_done :: "u32 \<Rightarrow> super_block \<Rightarrow> u32 \<Rightarrow> 'a fssys_scheme \<Rightarrow> (unit option \<times> 'a fssys_scheme) res" where
  "format_done part x b s =
     (let fr = F_at ''partition_format'' [part, b] in
      after_call fr (printk_lit ''  root_dir_lba:0x%x\<newline>'' [data_start_lba x])
        (\<lambda>_. after_call fr (printk_lit ''%s format done\<newline>'' [part_name part]) (\<lambda>_. sys_free b)) s)"

definition format_root_dir :: "u32 \<Rightarrow> u32 \<Rightarrow> super_block \<Rightarrow> u32 \<Rightarrow> 'a fssys_scheme \<Rightarrow> (unit option \<times> 'a fssys_scheme) res" where
  "format_root_dir part d x b s =
     kbind (mem_step (root_dir_image (lit_addr s ''.'') (lit_addr s ''..'') b (format_buf_size x)) s)
       (after_call (F_at ''partition_format'' [part, b]) (ide_write d (data_start_lba x) b 1) (\<lambda>_. format_done part x b))"

definition format_inode_table :: "u32 \<Rightarrow> u32 \<Rightarrow> super_block \<Rightarrow> u32 \<Rightarrow> 'a fssys_scheme \<Rightarrow> (unit option \<times> 'a fssys_scheme) res" where
  "format_inode_table part d x b s =
     kbind (mem_step (inode_table_image x b (format_buf_size x)) s)
       (after_call (F_at ''partition_format'' [part, b]) (ide_write d (inode_table_lba x) b (inode_table_sects x)) (\<lambda>_. format_root_dir part d x b))"

definition format_inode_bitmap :: "u32 \<Rightarrow> u32 \<Rightarrow> super_block \<Rightarrow> u32 \<Rightarrow> 'a fssys_scheme \<Rightarrow> (unit option \<times> 'a fssys_scheme) res" where
  "format_inode_bitmap part d x b s =
     kbind (mem_step (inode_bitmap_image b (format_buf_size x)) s)
       (after_call (F_at ''partition_format'' [part, b]) (ide_write d (inode_bitmap_lba x) b (inode_bitmap_sects x)) (\<lambda>_. format_inode_table part d x b))"

definition format_block_bitmap :: "u32 \<Rightarrow> u32 \<Rightarrow> super_block \<Rightarrow> u32 \<Rightarrow> 'a fssys_scheme \<Rightarrow> (unit option \<times> 'a fssys_scheme) res" where
  "format_block_bitmap part d x b s =
     kbind (mem_step (block_bitmap_image b (block_bitmap_bit_len (sb_sec_cnt x))) s)
       (after_call (F_at ''partition_format'' [part, b]) (ide_write d (block_bitmap_lba x) b (block_bitmap_sects x)) (\<lambda>_. format_inode_bitmap part d x b))"

definition format_super_block :: "u32 \<Rightarrow> super_block \<Rightarrow> 'a fssys_scheme \<Rightarrow> (unit option \<times> 'a fssys_scheme) res" where
  "format_super_block part x s =
     (let d = my_disk (partitions s part); lba = start_lba (partitions s part) + 1; fr = F_at ''partition_format'' [part] in
      after_call fr (ide_write d lba (local_addr s ''sb'') 1)
        (\<lambda>_. after_call fr (printk_lit ''  super_block_lba:0x%x\<newline>'' [lba])
          (\<lambda>_. after_call fr (sys_malloc (format_buf_size x)) (format_block_bitmap part d x)))
        (s\<lparr>kmem := store_sb (kmem s) (local_addr s ''sb'') x\<rparr>))"

definition layout_format :: string where
  "layout_format = ''  magic:0x%x\<newline>  part_lba_base:0x%x\<newline>  all_sectors:0x%x\<newline>  inode_cnt:0x%x\<newline>  block_bitmap_lba:0x%x\<newline>  block_bitmap_sectors:0x%x\<newline>  inode_bitmap_lba:0x%x\<newline>  inode_bitmap_sectors:0x%x\<newline>  inode_table_lba:0x%x\<newline>  inode_table_sectors:0x%x\<newline>  data_start_lba:0x%x\<newline>''"

definition partition_format :: "u32 \<Rightarrow> 'a fssys_scheme \<Rightarrow> (unit option \<times> 'a fssys_scheme) res" where
  "partition_format part s =
     (let x = format_sb (partitions s part); fr = F_at ''partition_format'' [part] in
      after_call fr (printk_lit ''%s info:\<newline>'' [part_name part])
        (\<lambda>_. after_call fr (printk_lit layout_format
           [magic x, part_lba_base x, sb_sec_cnt x, inode_cnt x, block_bitmap_lba x, block_bitmap_sects x, inode_bitmap_lba x, inode_bitmap_sects x,
            inode_table_lba x, inode_table_sects x, data_start_lba x])
          (\<lambda>_. format_super_block part x)) s)"

section \<open>Mounting\<close>

text \<open>The steps of \<^verbatim>\<open>mount_partition\<close> for the partition that bears the name, each with what follows it.\<close>

definition mount_done :: "u32 \<Rightarrow> 'a fssys_scheme \<Rightarrow> (bool option \<times> 'a fssys_scheme) res" where
  "mount_done part s =
     after_call (F_at ''mount_partition'' [part]) (printk_lit ''mount %s done!'' [part_name part]) (\<lambda>_ s. Inr (Some True, s))
       (list_init (open_inodes (cur_part s)) s)"

definition mount_inode_bitmap :: "u32 \<Rightarrow> u32 \<Rightarrow> u32 \<Rightarrow> u32 \<Rightarrow> 'a fssys_scheme \<Rightarrow> (bool option \<times> 'a fssys_scheme) res" where
  "mount_inode_bitmap part d sb_buf p s =
     (let x = load_sb (kmem s) sb_buf; s = part_upd (cur_part s) (inode_bitmap_update (bits_update (\<lambda>_. p))) s in
      if p = NULL then Inl PANIC
      else after_call (F_at ''mount_partition'' [part, d, sb_buf]) (ide_read d (inode_bitmap_lba x) p (inode_bitmap_sects x)) (\<lambda>_. mount_done part)
             (part_upd (cur_part s) (inode_bitmap_update (btmp_bytes_len_update (\<lambda>_. inode_bitmap_sects x * SECTOR_SIZE))) s))"

definition mount_inode_space :: "u32 \<Rightarrow> u32 \<Rightarrow> u32 \<Rightarrow> 'a fssys_scheme \<Rightarrow> (bool option \<times> 'a fssys_scheme) res" where
  "mount_inode_space part d sb_buf s =
     after_call (F_at ''mount_partition'' [part, d, sb_buf]) (sys_malloc (inode_bitmap_sects (load_sb (kmem s) sb_buf) * SECTOR_SIZE))
       (mount_inode_bitmap part d sb_buf) s"

definition mount_block_bitmap :: "u32 \<Rightarrow> u32 \<Rightarrow> u32 \<Rightarrow> u32 \<Rightarrow> 'a fssys_scheme \<Rightarrow> (bool option \<times> 'a fssys_scheme) res" where
  "mount_block_bitmap part d sb_buf p s =
     (let x = load_sb (kmem s) sb_buf; s = part_upd (cur_part s) (block_bitmap_update (bits_update (\<lambda>_. p))) s in
      if p = NULL then Inl PANIC
      else after_call (F_at ''mount_partition'' [part, d, sb_buf]) (ide_read d (block_bitmap_lba x) p (block_bitmap_sects x)) (\<lambda>_. mount_inode_space part d sb_buf)
             (part_upd (cur_part s) (block_bitmap_update (btmp_bytes_len_update (\<lambda>_. block_bitmap_sects x * SECTOR_SIZE))) s))"

definition mount_block_space :: "u32 \<Rightarrow> u32 \<Rightarrow> u32 \<Rightarrow> 'a fssys_scheme \<Rightarrow> (bool option \<times> 'a fssys_scheme) res" where
  "mount_block_space part d sb_buf s =
     kbind (mem_step (\<lambda>m. memcpy m (sb (partitions s (cur_part s))) sb_buf 512) s) (\<lambda>s.
       after_call (F_at ''mount_partition'' [part, d, sb_buf]) (sys_malloc (block_bitmap_sects (load_sb (kmem s) sb_buf) * SECTOR_SIZE))
         (mount_block_bitmap part d sb_buf) s)"

definition mount_super_block :: "u32 \<Rightarrow> u32 \<Rightarrow> u32 \<Rightarrow> u32 \<Rightarrow> 'a fssys_scheme \<Rightarrow> (bool option \<times> 'a fssys_scheme) res" where
  "mount_super_block part d sb_buf p s =
     (let s = part_upd (cur_part s) (sb_update (\<lambda>_. p)) s in
      if p = NULL then Inl PANIC
      else kbind (mem_step (\<lambda>m. memset m sb_buf 0 SECTOR_SIZE) s) (\<lambda>s.
        after_call (F_at ''mount_partition'' [part, d, sb_buf]) (ide_read d (start_lba (partitions s (cur_part s)) + 1) sb_buf 1)
          (\<lambda>_. mount_block_space part d sb_buf) s))"

definition mount_partition :: "u32 \<Rightarrow> u32 \<Rightarrow> 'a fssys_scheme \<Rightarrow> (bool option \<times> 'a fssys_scheme) res" where
  "mount_partition arg pelem s =
     (let part = pelem - 12 in
      kbind (strcmp (kmem s) (part_name part) arg) (\<lambda>order.
        if order = 0 then
          (let s = s\<lparr>cur_part := part\<rparr>; d = my_disk (partitions s part) in
           after_call (F_at ''mount_partition'' [part, d]) (sys_malloc SECTOR_SIZE)
             (\<lambda>sb_buf. after_call (F_at ''mount_partition'' [part, d, sb_buf]) (sys_malloc 512) (mount_super_block part d sb_buf)) s)
        else Inr (Some False, s)))"

section \<open>The search at start-up\<close>

text \<open>
  The counter \<^verbatim>\<open>part_idx\<close> is not reset for the next disk: the loop over the partitions runs for the slave
  of the first channel only.
\<close>

definition check_magic :: "u32 \<Rightarrow> u32 \<Rightarrow> u32 \<Rightarrow> 'a fssys_scheme \<Rightarrow> (unit option \<times> 'a fssys_scheme) res" where
  "check_magic d part sb_buf s =
     (if magic (load_sb (kmem s) sb_buf) = FS_MAGIC then printk_lit ''%s has file-system\<newline>'' [part_name part] s
      else after_call (F_at ''filesys_init'' [d, part, sb_buf]) (printk_lit ''formatting %s's partition %s......\<newline>'' [d, part_name part])
        (\<lambda>_. partition_format part) s)"

definition check_partition :: "u32 \<Rightarrow> u32 \<Rightarrow> nat \<Rightarrow> 'a fssys_scheme \<Rightarrow> (unit option \<times> 'a fssys_scheme) res" where
  "check_partition d sb_buf part_idx s =
     (let part = (if part_idx < 4 then prim_parts d part_idx else logic_parts d (part_idx - 4)) in
      if sec_cnt (partitions s part) \<noteq> 0 then
        kbind (mem_step (\<lambda>m. memset m sb_buf 0 SECTOR_SIZE) s)
          (after_call (F_at ''filesys_init'' [d, part, sb_buf]) (ide_read d (start_lba (partitions s part) + 1) sb_buf 1) (\<lambda>_. check_magic d part sb_buf))
      else Inr (Some (), s))"

definition check_disk :: "u32 \<Rightarrow> nat \<Rightarrow> 'a fssys_scheme \<Rightarrow> (unit option \<times> 'a fssys_scheme) res" where
  "check_disk sb_buf channel_no s =
     (let d = device_at (channel_at channel_no s) 1 in
      each_call (\<lambda>part_idx. F_at ''filesys_init'' [d, word_of_nat part_idx]) (check_partition d sb_buf) [if channel_no = 0 then 0 else 12..<12] s)"

definition mount_default :: "'a fssys_scheme \<Rightarrow> (unit option \<times> 'a fssys_scheme) res" where
  "mount_default s =
     (let default_part = local_addr s ''default_part'' in
      after_call (F_at ''filesys_init'' [default_part]) (traverse_partitions (mount_partition default_part)) (\<lambda>_ s. Inr (Some (), s))
        (s\<lparr>kmem := put_bytes (kmem s) default_part [0x73, 0x64, 0x62, 0x31, 0, 0, 0, 0]\<rparr>))"

definition search_disks :: "u32 \<Rightarrow> 'a fssys_scheme \<Rightarrow> (unit option \<times> 'a fssys_scheme) res" where
  "search_disks sb_buf s =
     (let fr = F_at ''filesys_init'' [sb_buf] in
      if sb_buf = NULL then Inl PANIC
      else after_call fr (printk_lit ''searching file-system......\<newline>'' [])
        (\<lambda>_ s. after_call fr (each_call (\<lambda>i. F_at ''filesys_init'' [sb_buf, word_of_nat i]) (check_disk sb_buf) [0..<unat (channel_cnt s)])
          (\<lambda>_. after_call fr (sys_free sb_buf) (\<lambda>_. mount_default)) s) s)"

definition filesys_init :: "'a fssys_scheme \<Rightarrow> (unit option \<times> 'a fssys_scheme) res" where
  "filesys_init s = after_call (F_at ''filesys_init'' []) (sys_malloc SECTOR_SIZE) search_disks s"

section \<open>The layout\<close>

lemma round_up_bounds:
  fixes n :: nat
  defines "q \<equiv> (n + 4095) div 4096"
  defines "r \<equiv> (n - q + 4095) div 4096"
  shows "n \<le> 4096 * q" "n - q \<le> 4096 * r" "r \<le> q" "2 \<le> n \<Longrightarrow> q < n" "2 \<le> n \<Longrightarrow> 1 \<le> r"
proof -
  have d: "4096 * ((k + 4095) div 4096) \<le> k + 4095" "k + 4095 < 4096 + 4096 * ((k + 4095) div 4096)" for k :: nat
    by (simp, rule dividend_less_times_div) simp
  note q = d [of n, folded q_def] and r = d [of "n - q", folded r_def]
  show "n \<le> 4096 * q" "n - q \<le> 4096 * r" using q r by linarith+
  show "r \<le> q" unfolding r_def q_def by (intro div_le_mono) simp
  show "q < n" if "2 \<le> n" using that q by linarith
  then show "1 \<le> r" if "2 \<le> n" using that r by linarith
qed

lemma unat_round_up: "unat n < 4294963200 \<Longrightarrow> unat (DIV_ROUND_UP n BITS_PER_SECTOR) = (unat n + 4095) div 4096"
  by (subst DIV_ROUND_UP_unat) (simp_all add: BITS_PER_SECTOR_def)

lemma fmt_sects: "fmt_inode_bitmap_sects = 1" "fmt_inode_table_sects = 608"
  by (simp_all add: fmt_inode_bitmap_sects_def fmt_inode_table_sects_def DIV_ROUND_UP_def MAX_FILES_PER_PART_def BITS_PER_SECTOR_def
      inode_size_def SECTOR_SIZE_def)

lemma unat_free_sects:
  assumes "613 \<le> unat secs"
  shows "unat (fmt_free_sects secs) = unat secs - 611"
proof -
  have "fmt_free_sects secs = secs - 611" by (simp add: fmt_free_sects_def fmt_sects)
  moreover have "(611 :: u32) \<le> secs" using assms by (simp add: word_le_nat_alt)
  ultimately show ?thesis by (simp add: unat_sub)
qed

lemma unat_bit_len:
  assumes "613 \<le> unat secs" "unat secs < 4294963200"
  shows "unat (block_bitmap_bit_len secs) = (unat secs - 611) - (unat secs - 611 + 4095) div 4096"
proof -
  let ?f = "fmt_free_sects secs"
  have f: "unat ?f = unat secs - 611" by (rule unat_free_sects [OF assms(1)])
  have r: "unat (DIV_ROUND_UP ?f BITS_PER_SECTOR) = (unat secs - 611 + 4095) div 4096"
    using unat_round_up [of ?f] f assms(2) by simp
  have "DIV_ROUND_UP ?f BITS_PER_SECTOR \<le> ?f"
    using round_up_bounds(4) [of "unat secs - 611"] assms(1) f r by (simp add: word_le_nat_alt)
  then show ?thesis by (simp add: block_bitmap_bit_len_def unat_sub f r)
qed

text \<open>
  C33: The layout that \<^verbatim>\<open>partition_format\<close> computes, for every partition with room for two data blocks: boot
  block, super block, block bitmap, inode bitmap, inode table and data blocks follow each other
  without gap or overlap, the block bitmap has a bit for every data block, every region that is
  written has at least one sector, and the last data block lies inside the partition.
\<close>
theorem format_layout:
  assumes "613 \<le> unat (sec_cnt part)" "unat (start_lba part) + unat (sec_cnt part) < 4294963200"
  defines "x \<equiv> format_sb part" and "blocks \<equiv> unat (block_bitmap_bit_len (sec_cnt part))"
  shows "unat (block_bitmap_lba x) = unat (start_lba part) + 2 \<and>
    unat (inode_bitmap_lba x) = unat (block_bitmap_lba x) + unat (block_bitmap_sects x) \<and>
    unat (inode_table_lba x) = unat (inode_bitmap_lba x) + unat (inode_bitmap_sects x) \<and>
    unat (data_start_lba x) = unat (inode_table_lba x) + unat (inode_table_sects x) \<and>
    0 < block_bitmap_sects x \<and> 0 < inode_bitmap_sects x \<and> 76 * 4096 = 512 * unat (inode_table_sects x) \<and>
    0 < blocks \<and> blocks \<le> 4096 * unat (block_bitmap_sects x) \<and>
    unat (data_start_lba x) + blocks \<le> unat (start_lba part) + unat (sec_cnt part)"
proof -
  let ?f = "unat (sec_cnt part) - 611"
  have "unat (sec_cnt part) < 4294963200" using assms(2) by linarith
  note len = unat_bit_len [OF assms(1) this]
  note bounds = round_up_bounds [of ?f]
  have q: "unat (block_bitmap_sects x) = (?f - (?f + 4095) div 4096 + 4095) div 4096"
    using assms(2) by (simp add: x_def format_sb_def Let_def unat_round_up len)
  have le: "unat (start_lba part) + 611 + unat (block_bitmap_sects x) + blocks \<le> unat (start_lba part) + unat (sec_cnt part)"
    using bounds(3,4) assms(1) q len unfolding blocks_def by linarith
  have bb: "unat (block_bitmap_lba x) = unat (start_lba part) + 2"
    using assms(2) le by (simp add: x_def format_sb_def Let_def unat_add_u32)
  have ib: "unat (inode_bitmap_lba x) = unat (block_bitmap_lba x) + unat (block_bitmap_sects x)"
    using assms(2) le bb unat_add_u32 [of "block_bitmap_lba x" "block_bitmap_sects x"]
    by (simp add: x_def format_sb_def Let_def)
  have it: "unat (inode_table_lba x) = unat (inode_bitmap_lba x) + 1"
    using assms(2) le bb ib unat_add_u32 [of "inode_bitmap_lba x" 1] by (simp add: x_def format_sb_def Let_def fmt_sects)
  have ds: "unat (data_start_lba x) = unat (inode_table_lba x) + 608"
    using assms(2) le bb ib it unat_add_u32 [of "inode_table_lba x" 608] by (simp add: x_def format_sb_def Let_def fmt_sects)
  have s: "inode_bitmap_sects x = 1" "inode_table_sects x = 608" by (simp_all add: x_def format_sb_def Let_def fmt_sects)
  have "0 < unat (block_bitmap_sects x)" using bounds(5) assms(1) q by linarith
  then have "0 < block_bitmap_sects x" by (simp add: word_less_nat_alt)
  moreover have "0 < blocks" "blocks \<le> 4096 * unat (block_bitmap_sects x)"
    using bounds(2,4) assms(1) len q unfolding blocks_def by linarith+
  ultimately show ?thesis using bb ib it ds s le by simp
qed

theorem format_layout_witness:
  "unat (data_start_lba (format_sb \<lparr>start_lba = 2048, sec_cnt = 20000, my_disk = 0, sb = 0, block_bitmap = \<lparr>btmp_bytes_len = 0, bits = 0\<rparr>,
      inode_bitmap = \<lparr>btmp_bytes_len = 0, bits = 0\<rparr>\<rparr>)) + unat (block_bitmap_bit_len 20000) \<le> 22048"
  using format_layout [of "\<lparr>start_lba = 2048, sec_cnt = 20000, my_disk = 0, sb = 0, block_bitmap = \<lparr>btmp_bytes_len = 0, bits = 0\<rparr>,
      inode_bitmap = \<lparr>btmp_bytes_len = 0, bits = 0\<rparr>\<rparr>"] by simp

section \<open>The image of the block bitmap\<close>

lemma off_in_rng_off:
  assumes "j < 2147483648" "k < 2147483648" "n \<le> 2147483648"
  shows "off b j \<in> rng (off b k) n \<longleftrightarrow> k \<le> j \<and> j < k + n"
proof -
  have "off (off b k) i = off b (k + i)" for i by (simp add: algebra_simps)
  then have "off b j \<in> rng (off b k) n \<longleftrightarrow> (\<exists>i<n. i < 4294967296 \<and> off b j = off b (k + i))" by (simp only: rng_mem_off)
  also have "\<dots> \<longleftrightarrow> (\<exists>i<n. j = k + i)"
  proof (intro ex_cong1 conj_cong refl)
    fix i assume "i < n"
    then have "off b j = off b (k + i) \<longleftrightarrow> j = k + i" using assms by (intro off_eq_iff) linarith+
    then show "(i < 4294967296 \<and> off b j = off b (k + i)) = (j = k + i)" using assms(3) \<open>i < n\<close> by auto
  qed
  also have "\<dots> \<longleftrightarrow> k \<le> j \<and> j < k + n" by (auto simp: le_iff_add)
  finally show ?thesis .
qed

lemma fold_clear_bits:
  "fold (\<lambda>i m. m(p := m p AND NOT (push_bit i 1))) [0..<n] m = m(p := m p AND NOT (mask n))" for m :: mem
proof (induction n)
  case (Suc n)
  have "v AND NOT (mask n) AND NOT (push_bit n 1) = v AND NOT (mask (Suc n))" for v :: u8
    by (rule bit_word_eqI) (auto simp: bit_simps less_Suc_eq)
  then have "(m(p := m p AND NOT (mask n)))(p := (m(p := m p AND NOT (mask n))) p AND NOT (push_bit n 1)) = m(p := m p AND NOT (mask (Suc n)))"
    by (simp only: fun_upd_same fun_upd_upd and.assoc)
  then show ?case unfolding upt_Suc_append [OF le0] fold_append o_apply Suc by simp
qed simp

lemma block_bitmap_image_bytes:
  assumes "off b (unat len div 8) \<noteq> NULL" "unat len < 2147483648"
  defines "k \<equiv> unat len div 8" and "n \<equiv> 512 - unat len div 8 mod 512"
  shows "\<exists>m'. block_bitmap_image b len m = Inr m' \<and>
    (\<forall>j < 2147483648. m' (off b j) =
       (if j = k then 0xff AND NOT (mask (Suc (unat len mod 8))) else if k < j \<and> j < k + n then 0xff
        else if j = 0 then m b OR 1 else m (off b j)))"
proof -
  let ?m1 = "m(b := m b OR 0x01)" and ?p = "off b k"
  have p: "b + len div 8 = ?p" using word_of_nat_div_u32 [of 8 len] by (simp add: k_def)
  have n: "unat (SECTOR_SIZE - len div 8 mod SECTOR_SIZE) = n"
  proof -
    have "unat (len div 8 mod SECTOR_SIZE) = unat len div 8 mod 512" by (simp add: unat_mod_u32 unat_div_u32 SECTOR_SIZE_def)
    moreover have "len div 8 mod SECTOR_SIZE \<le> SECTOR_SIZE" by (simp add: word_le_nat_alt unat_mod_u32 SECTOR_SIZE_def)
    ultimately show ?thesis by (simp add: unat_sub n_def) (simp add: SECTOR_SIZE_def)
  qed
  let ?m2 = "\<lambda>a. if a \<in> rng ?p n then 0xff else ?m1 a"
  let ?m3 = "?m2(?p := ?m2 ?p AND NOT (mask (Suc (unat len mod 8))))"
  have "block_bitmap_image b len m = Inr ?m3"
    using assms(1) unfolding block_bitmap_image_def Let_def p k_def [symmetric]
    unfolding memset_eq [OF assms(1) [folded k_def]] n kbind_Inr fold_clear_bits by (simp add: unat_mod_u32)
  moreover have "?m3 (off b j) = (if j = k then 0xff AND NOT (mask (Suc (unat len mod 8))) else if k < j \<and> j < k + n then 0xff
        else if j = 0 then m b OR 1 else m (off b j))" if "j < 2147483648" for j
  proof -
    have k: "k < 2147483648" "0 < n" "n \<le> 2147483648" using assms(2) by (simp_all add: k_def n_def)
    have "off b j = ?p \<longleftrightarrow> j = k" using that k by (intro off_eq_iff) simp_all
    moreover have "off b j = b \<longleftrightarrow> j = 0" using that off_eq_iff [of j 0 b] by simp
    ultimately show ?thesis using off_in_rng_off [OF that k(1,3)] off_in_rng_off [OF k(1) k(1,3)] k(2) by auto
  qed
  ultimately show ?thesis by blast
qed

text \<open>
  C34: The block bitmap that \<^verbatim>\<open>partition_format\<close> writes, for a partition of at least eight data blocks and a
  buffer of zeros: block 0, the root directory's, is taken and so are the bits behind the last
  block, except the first of them. The loop \<^verbatim>\<open>while(bit_idx <= block_bitmap_last_bit)\<close> clears one bit too
  many, so a block that does not exist is free.
\<close>
theorem format_bitmap_one_too_many:
  assumes "8 \<le> unat len" "unat len < 2147479552" "sects = (unat len + 4095) div 4096"
    and "off b (unat len div 8) \<noteq> NULL" "\<And>j. j < 512 * sects \<Longrightarrow> m (off b j) = 0"
  defines "bmp \<equiv> \<lparr>btmp_bytes_len = word_of_nat (512 * sects), bits = b\<rparr>"
  shows "\<exists>m'. block_bitmap_image b len m = Inr m' \<and>
    (\<forall>i. i < 4096 * sects \<longrightarrow> bm_bit m' bmp i = (i = 0 \<or> unat len < i))"
proof -
  let ?k = "unat len div 8" and ?n = "512 - unat len div 8 mod 512"
  obtain m' where m': "block_bitmap_image b len m = Inr m'" and bytes: "\<And>j. j < 2147483648 \<Longrightarrow> m' (off b j) =
      (if j = ?k then 0xff AND NOT (mask (Suc (unat len mod 8))) else if ?k < j \<and> j < ?k + ?n then 0xff
        else if j = 0 then m b OR 1 else m (off b j))"
    using block_bitmap_image_bytes [OF assms(4), of m] assms(2) by auto
  have fin: "512 * sects \<le> ?k + ?n" "512 * sects < 2147483648"
  proof -
    have "sects \<le> (unat len + 4096) div 4096" unfolding assms(3) by (rule div_le_mono) simp
    moreover have "unat len div 8 div 512 = unat len div 4096" by (simp flip: div_mult2_eq)
    ultimately have "sects \<le> ?k div 512 + 1" by simp
    then show "512 * sects \<le> ?k + ?n" using div_mult_mod_eq [of ?k 512] mod_less_divisor [of 512 ?k] by linarith
    have "4096 * sects \<le> unat len + 4095" unfolding assms(3) by simp
    then show "512 * sects < 2147483648" using assms(2) by linarith
  qed
  have "bm_bit m' bmp i = (i = 0 \<or> unat len < i)" if i: "i < 4096 * sects" for i
  proof -
    have j: "i div 8 < 512 * sects" using i by (simp add: less_mult_imp_div_less)
    have v: "bm_bit m' bmp i = bit (m' (off b (i div 8))) (i mod 8)" by (simp add: bm_bit_def bmp_def)
    consider "i div 8 < ?k" | "i div 8 = ?k" | "?k < i div 8" by linarith
    then show ?thesis
    proof cases
      case 1
      then have "m' (off b (i div 8)) = (if i div 8 = 0 then 1 else 0)"
        using bytes [of "i div 8"] assms(5) [OF j] assms(5) [of 0] j fin(2) by auto
      moreover have "\<not> unat len < i" using 1 by (metis div_le_mono less_imp_le not_less)
      ultimately show ?thesis by (auto simp: v bit_1_iff)
    next
      case 2
      then have "m' (off b (i div 8)) = 0xff AND NOT (mask (Suc (unat len mod 8)))" using bytes [of ?k] j fin(2) by auto
      moreover have "bit (0xff :: u8) (i mod 8)" using byte_full_iff [of "0xff"] by simp
      moreover have "unat len mod 8 < i mod 8 \<longleftrightarrow> unat len < i" using 2 by (metis div_mult_mod_eq add_less_cancel_left)
      moreover have "i \<noteq> 0" using 2 assms(1) by auto
      ultimately show ?thesis by (auto simp: v bit_simps)
    next
      case 3
      then have "m' (off b (i div 8)) = 0xff" using bytes [of "i div 8"] j fin by auto
      moreover have "bit (0xff :: u8) (i mod 8)" using byte_full_iff [of "0xff"] by simp
      moreover have "unat len < i" using 3 by (metis div_le_mono not_less)
      ultimately show ?thesis by (simp add: v)
    qed
  qed
  then show ?thesis using m' by blast
qed

theorem format_bitmap_one_too_many_witness:
  "\<exists>m'. block_bitmap_image 0xc0100000 100 (\<lambda>_. 0) = Inr m' \<and> bm_bit m' \<lparr>btmp_bytes_len = 512, bits = 0xc0100000\<rparr> 0 \<and>
    \<not> bm_bit m' \<lparr>btmp_bytes_len = 512, bits = 0xc0100000\<rparr> 100 \<and> bm_bit m' \<lparr>btmp_bytes_len = 512, bits = 0xc0100000\<rparr> 101"
proof -
  obtain m' where "block_bitmap_image 0xc0100000 100 (\<lambda>_. 0) = Inr m'"
    "\<forall>i. i < 4096 * 1 \<longrightarrow> bm_bit m' \<lparr>btmp_bytes_len = word_of_nat (512 * 1), bits = 0xc0100000\<rparr> i = (i = 0 \<or> unat (100 :: u32) < i)"
    using format_bitmap_one_too_many [of 100 1 "0xc0100000" "\<lambda>_. 0"] by auto
  then show ?thesis by (intro exI [of _ m']) simp
qed

end
