(* ===== verification/Inode.thy ===== *)
theory Inode
  imports Fs
begin

text \<open>
  Inodes, \<^verbatim>\<open>fs/inode.c\<close>: where an inode lies in the table on the disk, writing one back, and the list of
  open inodes of a partition with its reference counts. An inode is its 76 bytes in memory, with the one byte
  \<^verbatim>\<open>write_deny\<close> at offset 12; its list element is at offset 68.
\<close>

section \<open>The routines\<close>

definition i_no :: "mem \<Rightarrow> u32 \<Rightarrow> u32" where "i_no m i = load32 m i"
definition i_size :: "mem \<Rightarrow> u32 \<Rightarrow> u32" where "i_size m i = load32 m (i + 4)"
definition i_open_cnts :: "mem \<Rightarrow> u32 \<Rightarrow> u32" where "i_open_cnts m i = load32 m (i + 8)"
definition i_sector_at :: "u32 \<Rightarrow> nat \<Rightarrow> u32" where "i_sector_at i k = i + 16 + 4 * word_of_nat k"
definition i_sectors :: "mem \<Rightarrow> u32 \<Rightarrow> nat \<Rightarrow> u32" where "i_sectors m i k = load32 m (i_sector_at i k)"
definition inode_tag :: "u32 \<Rightarrow> u32" where "inode_tag i = i + 68"

definition part_sb :: "u32 \<Rightarrow> 'a fssys_scheme \<Rightarrow> super_block" where
  "part_sb part s = load_sb (kmem s) (sb (partitions s part))"

record inode_position =
  two_sec :: bool
  sec_lba :: u32
  off_size :: u32

definition inode_locate :: "u32 \<Rightarrow> u32 \<Rightarrow> 'a fssys_scheme \<Rightarrow> inode_position res" where
  "inode_locate part inode_no s =
     ASSERT (inode_no < 4096)
       (let off_size = inode_no * inode_size;
            off_sec = off_size div 512;
            off_size_in_sec = off_size mod 512;
            left_in_sec = 512 - off_size_in_sec
        in Inr \<lparr>two_sec = left_in_sec < inode_size, sec_lba = inode_table_lba (part_sb part s) + off_sec, off_size = off_size_in_sec\<rparr>)"

text \<open>The number of the inode passes through a \<^verbatim>\<open>uint8_t\<close>.\<close>

definition sync_position :: "u32 \<Rightarrow> u32 \<Rightarrow> 'a fssys_scheme \<Rightarrow> inode_position res" where
  "sync_position part inode s = inode_locate part (ucast (ucast (i_no (kmem s) inode) :: u8)) s"

definition pure_copy :: "u32 \<Rightarrow> u32 \<Rightarrow> mem \<Rightarrow> mem res" where
  "pure_copy pure_inode inode m =
     kbind (memcpy m pure_inode inode inode_size) (\<lambda>m.
       let m = (store32 m (pure_inode + 8) 0)(pure_inode + 12 := 0)
       in Inr (store32 (store32 m (pure_inode + 72) 0) (pure_inode + 68) 0))"

definition sync_write :: "u32 \<Rightarrow> u32 \<Rightarrow> u32 \<Rightarrow> inode_position \<Rightarrow> u32 \<Rightarrow> 'a fssys_scheme \<Rightarrow> (unit option \<times> 'a fssys_scheme) res" where
  "sync_write d io_buf pure_inode pos n s =
     kbind (mem_step (\<lambda>m. memcpy m (io_buf + off_size pos) pure_inode inode_size) s) (ide_write d (sec_lba pos) io_buf n)"

definition inode_sync :: "u32 \<Rightarrow> u32 \<Rightarrow> u32 \<Rightarrow> 'a fssys_scheme \<Rightarrow> (unit option \<times> 'a fssys_scheme) res" where
  "inode_sync part inode io_buf s =
     kbind (sync_position part inode s) (\<lambda>pos.
       let p = partitions s part; d = my_disk p; pure_inode = local_addr s ''pure_inode''; n = (if two_sec pos then 2 else 1) in
       ASSERT (sec_lba pos \<le> start_lba p + sec_cnt p)
         (kbind (mem_step (pure_copy pure_inode inode) s)
           (after_call (F_at ''inode_sync'' [part, inode, io_buf]) (ide_read d (sec_lba pos) io_buf n) (\<lambda>_. sync_write d io_buf pure_inode pos n))))"

text \<open>The search in the list of open inodes: the inode found, if any; a list that never ends spins.\<close>

partial_function (option) find_open :: "lheap \<Rightarrow> mem \<Rightarrow> u32 \<Rightarrow> u32 \<Rightarrow> u32 \<Rightarrow> u32 option option" where
  "find_open h m stop inode_no elem =
     (if elem \<noteq> stop then
        if i_no m (elem - 68) = inode_no then Some (Some (elem - 68)) else find_open h m stop inode_no (next (h elem))
      else Some None)"

text \<open>\<^verbatim>\<open>cur->pgdir\<close> is NULL during the allocation and the release, so that the kernel's heap is used.\<close>

definition set_pgdir :: "u32 \<Rightarrow> u32 \<Rightarrow> 'a tsys_scheme \<Rightarrow> 'a tsys_scheme" where
  "set_pgdir t v s = task_upd t (pgdir_update (\<lambda>_. v)) s"

definition inode_loaded :: "u32 \<Rightarrow> u32 \<Rightarrow> u32 \<Rightarrow> u32 \<Rightarrow> 'a fssys_scheme \<Rightarrow> (u32 option \<times> 'a fssys_scheme) res" where
  "inode_loaded part inode_found inode_buf off_sz s =
     kbind (mem_step (\<lambda>m. memcpy m inode_found (inode_buf + off_sz) inode_size) s) (\<lambda>s.
       let s = list_push (open_inodes part) (inode_tag inode_found) s;
           s = s\<lparr>kmem := store32 (kmem s) (inode_found + 8) 1\<rparr>
       in after_call (F_at ''inode_open'' [part, inode_found, inode_buf]) (sys_free inode_buf) (\<lambda>_ s. Inr (Some inode_found, s)) s)"

definition inode_load :: "u32 \<Rightarrow> inode_position \<Rightarrow> u32 \<Rightarrow> u32 \<Rightarrow> u32 \<Rightarrow> 'a fssys_scheme \<Rightarrow> (u32 option \<times> 'a fssys_scheme) res" where
  "inode_load part pos cur cur_pagedir_bak inode_found s =
     (let n = (if two_sec pos then 2 else 1); fr = F_at ''inode_open'' [part, inode_found] in
      after_call fr (sys_malloc (512 * n))
        (\<lambda>inode_buf s. after_call fr (ide_read (my_disk (partitions s part)) (sec_lba pos) inode_buf n)
          (\<lambda>_. inode_loaded part inode_found inode_buf (off_size pos)) s)
        (set_pgdir cur cur_pagedir_bak s))"

definition inode_open :: "u32 \<Rightarrow> u32 \<Rightarrow> 'a fssys_scheme \<Rightarrow> (u32 option \<times> 'a fssys_scheme) res" where
  "inode_open part inode_no s =
     (let l = open_inodes part in
      kbind (of_loop (find_open (lheap s) (kmem s) (list_tail l) inode_no (next (lheap s (list_head l))))) (\<lambda>found.
        case found of
          Some i \<Rightarrow> Inr (Some i, s\<lparr>kmem := store32 (kmem s) (i + 8) (i_open_cnts (kmem s) i + 1)\<rparr>)
        | None \<Rightarrow>
            kbind (inode_locate part inode_no s) (\<lambda>pos.
              let cur = running_thread s; cur_pagedir_bak = pgdir (tasks s cur) in
              after_call (F_at ''inode_open'' [part, inode_no]) (sys_malloc inode_size) (inode_load part pos cur cur_pagedir_bak)
                (set_pgdir cur NULL s))))"

definition inode_close :: "u32 \<Rightarrow> 'a fssys_scheme \<Rightarrow> (unit option \<times> 'a fssys_scheme) res" where
  "inode_close inode s =
     (let (old_status, s) = intr_disable s;
          s = s\<lparr>kmem := store32 (kmem s) (inode + 8) (i_open_cnts (kmem s) inode - 1)\<rparr>
      in if i_open_cnts (kmem s) inode = 0 then
           let s = list_remove (inode_tag inode) s; cur = running_thread s; cur_pagedir_bak = pgdir (tasks s cur) in
           after_call (F_at ''inode_close'' [inode]) (sys_free inode)
             (\<lambda>_ s. Inr (Some (), snd (intr_set_status old_status (set_pgdir cur cur_pagedir_bak s)))) (set_pgdir cur NULL s)
         else Inr (Some (), snd (intr_set_status old_status s)))"

definition inode_init :: "u32 \<Rightarrow> u32 \<Rightarrow> mem \<Rightarrow> mem" where
  "inode_init inode_no new_inode m =
     (let m = (store32 (store32 (store32 m new_inode inode_no) (new_inode + 4) 0) (new_inode + 8) 0)(new_inode + 12 := 0)
      in fold (\<lambda>sec_idx m. store32 m (i_sector_at new_inode sec_idx) 0) [0..<13] m)"

section \<open>Open inodes\<close>

lemma find_open_links:
  assumes "links h (inode_tag i # map inode_tag is @ [t])" "t \<notin> inode_tag ` set (i # is)"
  shows "find_open h m t no (inode_tag i) = Some (find (\<lambda>i. i_no m i = no) (i # is))"
  using assms
proof (induction "is" arbitrary: i)
  case Nil
  then show ?case by (subst find_open.simps, subst find_open.simps) (auto simp: inode_tag_def)
next
  case (Cons j js)
  then have "next (h (inode_tag i)) = inode_tag j" "inode_tag i \<noteq> t" by auto
  with Cons show ?case by (subst find_open.simps) (auto simp: inode_tag_def)
qed

lemma find_open_dlist:
  assumes "dlist h l (map inode_tag is)"
  shows "find_open h m (list_tail l) no (next (h (list_head l))) = Some (find (\<lambda>i. i_no m i = no) is)"
proof (cases "is")
  case Nil
  with assms show ?thesis by (simp add: dlist_def find_open.simps)
next
  case (Cons i js)
  with assms have "links h (inode_tag i # map inode_tag js @ [list_tail l])" "list_tail l \<notin> inode_tag ` set (i # js)"
    "next (h (list_head l)) = inode_tag i" by (auto simp: dlist_def)
  then show ?thesis using find_open_links [of h i js "list_tail l" m no] Cons by simp
qed

lemma restore_kmem: "snd (intr_set_status (fst (intr_disable s)) ((snd (intr_disable s))\<lparr>kmem := x\<rparr>)) = s\<lparr>kmem := x\<rparr>"
proof -
  have "(snd (intr_disable s))\<lparr>kmem := x\<rparr> = snd (intr_disable (s\<lparr>kmem := x\<rparr>))" "intr_get_status s = intr_get_status (s\<lparr>kmem := x\<rparr>)"
    by (simp_all add: intr_disable_def cli_def intr_get_status_def)
  then show ?thesis using intr_restore [of "s\<lparr>kmem := x\<rparr>"] by simp
qed

section \<open>Properties\<close>

text \<open>
  C35: Opening an inode that is already open finds it in the partition's list, returns the one copy in
  memory with its count one higher and reads nothing from the disk; closing it again gives back the
  state before, exactly.
\<close>
theorem inode_open_close:
  assumes "dlist (lheap s) (open_inodes part) (map inode_tag is)" "find (\<lambda>i. i_no (kmem s) i = no) is = Some i"
    and "i_open_cnts (kmem s) i \<noteq> 0"
  shows "\<exists>s'. inode_open part no s = Inr (Some i, s') \<and> i_open_cnts (kmem s') i = i_open_cnts (kmem s) i + 1 \<and>
    io_log s' = io_log s \<and> inode_close i s' = Inr (Some (), s)"
proof -
  let ?c = "i_open_cnts (kmem s) i" and ?t = "s\<lparr>kmem := store32 (kmem s) (i + 8) (i_open_cnts (kmem s) i + 1)\<rparr>"
  have o: "inode_open part no s = Inr (Some i, ?t)"
    using assms(2) by (simp add: inode_open_def find_open_dlist [OF assms(1)] Let_def)
  have c: "i_open_cnts (kmem ?t) i = ?c + 1" by (simp add: i_open_cnts_def)
  have r: "store32 (kmem ?t) (i + 8) ?c = kmem s" by (simp add: i_open_cnts_def store32_load32)
  have d: "kmem (snd (intr_disable ?t)) = kmem ?t" by (simp add: intr_disable_def cli_def)
  have "inode_close i ?t = Inr (Some (), snd (intr_set_status (fst (intr_disable ?t)) ((snd (intr_disable ?t))\<lparr>kmem := kmem s\<rparr>)))"
    using assms(3) unfolding inode_close_def split_beta Let_def d c add_diff_cancel_right' r by simp
  then have "inode_close i ?t = Inr (Some (), s)" unfolding restore_kmem by simp
  then show ?thesis using o c by (intro exI [of _ ?t]) simp
qed

text \<open>
  A partition at 0xc0040000 with its super block at 0xc0050000 (the inode table at sector 100) and the inode
  number 7 open once, at 0xc0051000.
\<close>

definition demo_fs :: fssys where
  "demo_fs = idesys.extend
     (demo_ide\<lparr>partitions := \<lambda>_. \<lparr>start_lba = 0, sec_cnt = 20000, my_disk = 0xc0020040, sb = 0xc0050000, block_bitmap = \<lparr>btmp_bytes_len = 512, bits = 0xc0052000\<rparr>,
        inode_bitmap = \<lparr>btmp_bytes_len = 512, bits = 0xc0053000\<rparr>\<rparr>,
      kmem := store32 (store32 (store32 (store32 (\<lambda>_. 0) 0xc0050020 100) 0xc0050028 708) 0xc0051000 7) 0xc0051008 1,
      lheap := ((lheap demo_ide)(0xc0040030 := \<lparr>prev = NULL, next = 0xc0051044\<rparr>))
        (0xc0051044 := \<lparr>prev = 0xc0040030, next = 0xc0040038\<rparr>, 0xc0040038 := \<lparr>prev = 0xc0051044, next = NULL\<rparr>)\<rparr>)
     \<lparr>cur_part = 0xc0040000\<rparr>"

lemma demo_fs_facts:
  "dlist (lheap demo_fs) (open_inodes 0xc0040000) (map inode_tag [0xc0051000])"
  "i_no (kmem demo_fs) 0xc0051000 = 7" "i_open_cnts (kmem demo_fs) 0xc0051000 = 1"
  "inode_table_lba (part_sb 0xc0040000 demo_fs) = 100" "data_start_lba (part_sb p demo_fs) = 708"
  "block_bitmap (partitions demo_fs p) = \<lparr>btmp_bytes_len = 512, bits = 0xc0052000\<rparr>" "sb (partitions demo_fs p) = 0xc0050000"
  by (simp_all add: demo_fs_def idesys.defs dlist_def open_inodes_def inode_tag_def i_no_def i_open_cnts_def part_sb_def load_sb_def
      load32_def store32_def)

theorem inode_open_close_witness:
  "\<exists>s'. inode_open 0xc0040000 7 demo_fs = Inr (Some 0xc0051000, s') \<and> i_open_cnts (kmem s') 0xc0051000 = 2 \<and>
    inode_close 0xc0051000 s' = Inr (Some (), demo_fs)"
  using inode_open_close [OF demo_fs_facts(1), of 7 "0xc0051000"] by (simp add: demo_fs_facts) blast

text \<open>
  C36: \<^verbatim>\<open>inode_locate\<close> gives every inode number its own 76 bytes of the table that \<^verbatim>\<open>partition_format\<close> reserves: the
  sector and the offset are those of byte 76 times the number, the bytes lie within the one or two
  sectors that are read and written, two exactly when the inode crosses a sector, and these sectors
  belong to the table.
\<close>
theorem inode_locate_slot:
  assumes "unat inode_no < 4096" "lba = inode_table_lba (part_sb part s)" "unat lba + 608 < 4294967296"
  shows "\<exists>pos. inode_locate part inode_no s = Inr pos \<and>
    512 * unat (sec_lba pos) + unat (off_size pos) = 512 * unat lba + 76 * unat inode_no \<and>
    unat (off_size pos) + 76 \<le> 512 * (if two_sec pos then 2 else 1) \<and> (two_sec pos \<longleftrightarrow> 512 < unat (off_size pos) + 76) \<and>
    unat (sec_lba pos) + (if two_sec pos then 2 else 1) \<le> unat lba + 608"
proof -
  let ?n = "76 * unat inode_no"
  have o: "unat (inode_no * inode_size) = ?n" using assms(1) by (subst unat_mult_u32) (simp_all add: inode_size_def)
  have n: "?n + 76 \<le> 311296" using assms(1) by simp
  have m: "unat (inode_no * inode_size mod 512) = ?n mod 512" "unat (inode_no * inode_size div 512) = ?n div 512"
    by (simp_all add: unat_mod_u32 unat_div_u32 o)
  have l: "unat (512 - inode_no * inode_size mod 512) = 512 - ?n mod 512"
    using m(1) by (subst unat_sub) (simp_all add: word_le_nat_alt)
  have two: "(512 - inode_no * inode_size mod 512 < inode_size) \<longleftrightarrow> 512 < ?n mod 512 + 76"
    using mod_less_divisor [of 512 ?n] unfolding word_less_nat_alt l by (simp add: inode_size_def) linarith
  have div: "?n div 512 \<le> 607" using n by simp
  have s: "unat (lba + inode_no * inode_size div 512) = unat lba + ?n div 512"
    using assms(3) div m(2) by (subst unat_add_u32) linarith+
  have cross: "?n div 512 + 2 \<le> 608" if "512 < ?n mod 512 + 76"
  proof -
    have "512 * (?n div 512) + ?n mod 512 = ?n" by (rule mult_div_mod_eq)
    then show ?thesis using n that by linarith
  qed
  have "?n mod 512 < 512" by simp
  then have "?n mod 512 + 76 \<le> 1024" by linarith
  moreover have "512 * (unat lba + ?n div 512) + ?n mod 512 = 512 * unat lba + ?n"
    using mult_div_mod_eq [of 512 ?n] unfolding add_mult_distrib2 by linarith
  moreover have "inode_no < 4096" using assms(1) by (simp add: word_less_nat_alt)
  ultimately show ?thesis using two cross div unfolding inode_locate_def Let_def assms(2) [symmetric]
    by (auto simp: m s)
qed

theorem inode_locate_slot_witness:
  "\<exists>pos. inode_locate 0xc0040000 6 demo_fs = Inr pos \<and> 512 * unat (sec_lba pos) + unat (off_size pos) = 51656 \<and> two_sec pos"
proof -
  have "\<exists>pos. inode_locate 0xc0040000 6 demo_fs = Inr pos \<and> 512 * unat (sec_lba pos) + unat (off_size pos) = 51656 \<and>
      unat (off_size pos) + 76 \<le> 512 * (if two_sec pos then 2 else 1) \<and> unat (sec_lba pos) \<le> 707"
    using inode_locate_slot [of 6 100 "0xc0040000" demo_fs] by (simp add: demo_fs_facts) (force split: if_splits)
  moreover have "inode_locate 0xc0040000 6 demo_fs = Inr \<lparr>two_sec = True, sec_lba = 100, off_size = 456\<rparr>"
    by (simp add: inode_locate_def Let_def demo_fs_facts inode_size_def)
  ultimately show ?thesis by auto
qed

text \<open>An inode whose number does not fit into a byte is written to the place of another inode.\<close>

lemma unat_offset: "unat a < 4096 \<Longrightarrow> unat (a * inode_size) = 76 * unat a"
  by (subst unat_mult_u32) (simp_all add: inode_size_def)

lemma inode_locate_inj:
  assumes "unat a < 4096" "unat b < 4096" "inode_locate part a s = inode_locate part b s"
  shows "a = b"
proof -
  have "a < 4096" "b < 4096" using assms(1,2) by (simp_all add: word_less_nat_alt)
  then have "a * inode_size div 512 = b * inode_size div 512" "a * inode_size mod 512 = b * inode_size mod 512"
    using assms(3) by (simp_all add: inode_locate_def Let_def)
  then have "unat (a * inode_size) = unat (b * inode_size)" by (metis div_mult_mod_eq)
  then have "unat a = unat b" using unat_offset [OF assms(1)] unat_offset [OF assms(2)] by simp
  then show ?thesis by (simp add: word_unat_eq_iff)
qed

lemma sync_wrong_slot:
  assumes "256 \<le> unat (i_no (kmem s) inode)" "unat (i_no (kmem s) inode) < 4096"
  shows "sync_position part inode s = inode_locate part (i_no (kmem s) inode mod 256) s"
    "sync_position part inode s \<noteq> inode_locate part (i_no (kmem s) inode) s"
proof -
  let ?n = "i_no (kmem s) inode"
  have "ucast (ucast ?n :: u8) = take_bit 8 ?n" by (rule bit_word_eqI) (auto simp: bit_simps)
  then have e: "ucast (ucast ?n :: u8) = ?n mod 256" by (simp add: take_bit_eq_mod)
  then show p: "sync_position part inode s = inode_locate part (?n mod 256) s" by (simp add: sync_position_def)
  have u: "unat (?n mod 256) = unat ?n mod 256" by (simp add: unat_mod_u32)
  then have "unat (?n mod 256) < 4096" "?n mod 256 \<noteq> ?n" using assms(1) mod_less_divisor [of 256 "unat ?n"] by (auto simp: not_le)
  then show "sync_position part inode s \<noteq> inode_locate part ?n s"
    using inode_locate_inj [of "?n mod 256" ?n part s] assms(2) unfolding p by blast
qed

end
