(* ===== verification/File.thy ===== *)
theory File
  imports Inode
begin

text \<open>
  Open files and the allocation of inodes and blocks, \<^verbatim>\<open>fs/file.c\<close>: the global table of open files, the
  table of descriptors of a task, and the two bitmaps of a partition with their copies on the disk.
  The \<^verbatim>\<open>int32_t\<close> results are words, \<^verbatim>\<open>-1\<close> the word of all ones.
\<close>

section \<open>The routines\<close>

record open_file =
  fd_pos :: u32
  fd_flag :: u32
  fd_inode :: u32

datatype bitmap_type = INODE_BITMAP | BLOCK_BITMAP

definition MAX_FILE_OPEN :: nat where "MAX_FILE_OPEN = 32"

record filesys = fssys +
  file_table :: "open_file list"

text \<open>The first index from \<open>i\<close> on below \<open>n\<close> that \<open>is_free\<close>, or \<open>n\<close>: the search loop of both tables.\<close>

function free_slot :: "(nat \<Rightarrow> bool) \<Rightarrow> nat \<Rightarrow> nat \<Rightarrow> nat" where
  "free_slot is_free n i = (if i < n \<and> \<not> is_free i then free_slot is_free n (Suc i) else i)"
  by pat_completeness auto
termination by (relation "measure (\<lambda>(_, n, i). n - i)") auto

declare free_slot.simps [simp del]

definition get_free_slot_in_global :: "'a filesys_scheme \<Rightarrow> (u32 option \<times> 'a filesys_scheme) res" where
  "get_free_slot_in_global s =
     (let fd_idx = free_slot (\<lambda>i. fd_inode (file_table s ! i) = NULL) MAX_FILE_OPEN 3 in
      if fd_idx = MAX_FILE_OPEN then
        after_call (F_at ''get_free_slot_in_global'' []) (printk_lit ''exceed max open files\<newline>'' []) (\<lambda>_ s. Inr (Some (-1), s)) s
      else Inr (Some (word_of_nat fd_idx), s))"

definition pcb_fd_install :: "u32 \<Rightarrow> 'a filesys_scheme \<Rightarrow> (u32 option \<times> 'a filesys_scheme) res" where
  "pcb_fd_install globa_fd_idx s =
     (let cur = running_thread s;
          local_fd_idx = free_slot (\<lambda>i. fd_table (tasks s cur) ! i = -1) MAX_FILES_OPEN_PER_PROC 3
      in if local_fd_idx = MAX_FILES_OPEN_PER_PROC then
           after_call (F_at ''pcb_fd_install'' []) (printk_lit ''ecceed max open files_per_proc\<newline>'' []) (\<lambda>_ s. Inr (Some (-1), s)) s
         else Inr (Some (word_of_nat local_fd_idx),
                   task_upd cur (\<lambda>t. t\<lparr>fd_table := (fd_table t)[local_fd_idx := globa_fd_idx]\<rparr>) s))"

definition inode_bitmap_alloc :: "u32 \<Rightarrow> 'a filesys_scheme \<Rightarrow> (u32 \<times> 'a filesys_scheme) res" where
  "inode_bitmap_alloc part s =
     (let b = inode_bitmap (partitions s part) in
      kbind (bitmap_scan (kmem s) b 1) (\<lambda>bit_idx.
        if bit_idx = -1 then Inr (-1, s)
        else kbind (bitmap_set (kmem s) b bit_idx 1) (\<lambda>m. Inr (bit_idx, s\<lparr>kmem := m\<rparr>))))"

definition block_bitmap_alloc :: "u32 \<Rightarrow> 'a filesys_scheme \<Rightarrow> (u32 \<times> 'a filesys_scheme) res" where
  "block_bitmap_alloc part s =
     (let b = block_bitmap (partitions s part) in
      kbind (bitmap_scan (kmem s) b 1) (\<lambda>bit_idx.
        if bit_idx = -1 then Inr (-1, s)
        else kbind (bitmap_set (kmem s) b bit_idx 1) (\<lambda>m.
          let s = s\<lparr>kmem := m\<rparr> in Inr (data_start_lba (part_sb part s) + bit_idx, s))))"

text \<open>The \<^verbatim>\<open>switch\<close> names \<^verbatim>\<open>btmap\<close>, which is declared nowhere; it is read as the parameter \<^verbatim>\<open>btmp\<close>.\<close>

definition sync_sector :: "u32 \<Rightarrow> u32 \<Rightarrow> bitmap_type \<Rightarrow> 'a filesys_scheme \<Rightarrow> u32 \<times> u32" where
  "sync_sector part bit_idx btmp s =
     (let off_sec = bit_idx div 4096; off_bytes = off_sec * BLOCK_SIZE; x = part_sb part s; p = partitions s part in
      case btmp of
        INODE_BITMAP \<Rightarrow> (inode_bitmap_lba x + off_sec, bits (inode_bitmap p) + off_bytes)
      | BLOCK_BITMAP \<Rightarrow> (block_bitmap_lba x + off_sec, bits (block_bitmap p) + off_bytes))"

definition bitmap_sync :: "u32 \<Rightarrow> u32 \<Rightarrow> bitmap_type \<Rightarrow> 'a filesys_scheme \<Rightarrow> (unit option \<times> 'a filesys_scheme) res" where
  "bitmap_sync part bit_idx btmp s =
     (let (lba, bitmap_off) = sync_sector part bit_idx btmp s in ide_write (my_disk (partitions s part)) lba bitmap_off 1 s)"

section \<open>Descriptors\<close>

lemma free_slot_least:
  assumes "i \<le> n"
  shows "i \<le> free_slot P n i \<and> free_slot P n i \<le> n \<and> (free_slot P n i < n \<longrightarrow> P (free_slot P n i)) \<and>
    (\<forall>k. i \<le> k \<longrightarrow> k < free_slot P n i \<longrightarrow> \<not> P k)"
  using assms
proof (induction P n i rule: free_slot.induct)
  case (1 P n i)
  show ?case
  proof (cases "i < n \<and> \<not> P i")
    case True
    then have e: "free_slot P n i = free_slot P n (Suc i)" by (subst free_slot.simps) simp
    have "Suc i \<le> n" using True by simp
    note ih = "1.IH" [OF True this]
    have "\<not> P k" if "i \<le> k" "k < free_slot P n (Suc i)" for k using ih that True by (cases "k = i") auto
    with ih show ?thesis unfolding e by simp
  next
    case False
    then have "free_slot P n i = i" by (subst free_slot.simps) auto
    then show ?thesis using "1.prems" False by auto
  qed
qed

text \<open>A descriptor that is installed is the least free one, never one of the standard three, and reads back.\<close>

lemma pcb_fd_install_ok:
  assumes "cur = running_thread s" "length (fd_table (tasks s cur)) = MAX_FILES_OPEN_PER_PROC"
    and "3 \<le> k" "k < MAX_FILES_OPEN_PER_PROC" "fd_table (tasks s cur) ! k = -1"
  shows "\<exists>i s'. pcb_fd_install g s = Inr (Some (word_of_nat i), s') \<and> 3 \<le> i \<and> i \<le> k \<and> fd_table (tasks s cur) ! i = -1 \<and>
    fd_table (tasks s' cur) = (fd_table (tasks s cur))[i := g] \<and> fd_table (tasks s' cur) ! i = g"
proof -
  let ?P = "\<lambda>i. fd_table (tasks s cur) ! i = -1"
  let ?i = "free_slot ?P MAX_FILES_OPEN_PER_PROC 3"
  have f: "3 \<le> ?i" "?i \<le> k" "?P ?i" "?i < MAX_FILES_OPEN_PER_PROC"
    using free_slot_least [of 3 MAX_FILES_OPEN_PER_PROC ?P] assms(3-5) by (auto simp: not_le [symmetric])
  then have "pcb_fd_install g s = Inr (Some (word_of_nat ?i), task_upd cur (\<lambda>t. t\<lparr>fd_table := (fd_table t)[?i := g]\<rparr>) s)"
    unfolding pcb_fd_install_def Let_def assms(1) by simp
  then show ?thesis using f assms(2) by (intro exI [of _ ?i] exI) (auto simp: task_upd_def)
qed

section \<open>Allocation\<close>

lemma block_alloc_free:
  assumes "b = block_bitmap (partitions s part)" "bm_ok b" "k < nbits b" "\<not> bm_bit (kmem s) b k"
    and "rng (sb (partitions s part) + 40) 4 \<inter> rng (bits b) (unat (btmp_bytes_len b)) = {}"
  obtains j where "unat j < nbits b" "\<not> bm_bit (kmem s) b (unat j)" "\<forall>k. k < unat j \<longrightarrow> bm_bit (kmem s) b k"
    "block_bitmap_alloc part s = Inr (data_start_lba (part_sb part s) + j, s\<lparr>kmem := set_bit_at (kmem s) b (unat j) True\<rparr>)"
proof (cases rule: bm.scan1_cases [OF assms(2), of "kmem s"])
  case 1
  then show ?thesis using assms(3,4) by blast
next
  case (2 j)
  let ?m = "set_bit_at (kmem s) b (unat j) True"
  have m: "bitmap_set (kmem s) b j 1 = Inr ?m" using bitmap_set_eq [of 1 "kmem s" b j] by simp
  have j: "j \<noteq> -1" using bm.scan1_not_minus_one [OF assms(2) 2(1)] .
  have "?m a = kmem s a" if "a \<in> rng (sb (partitions s part) + 40) 4" for a
    using set_bit_at_frame [of a b "unat (btmp_bytes_len b)" "unat j" "kmem s" True] 2(2) that assms(5) by auto
  then have "load32 ?m (sb (partitions s part) + 40) = load32 (kmem s) (sb (partitions s part) + 40)" by (rule load32_cong)
  then have "data_start_lba (part_sb part (s\<lparr>kmem := ?m\<rparr>)) = data_start_lba (part_sb part s)" by (simp add: part_sb_def load_sb_def)
  then have "block_bitmap_alloc part s = Inr (data_start_lba (part_sb part s) + j, s\<lparr>kmem := ?m\<rparr>)"
    unfolding block_bitmap_alloc_def Let_def assms(1) [symmetric] 2(1) kbind_Inr m using j by simp
  then show ?thesis using that 2(2-4) by blast
qed

text \<open>
  C37: \<^verbatim>\<open>block_bitmap_alloc\<close> on a partition with a free block takes the one with the least number, marks
  exactly it as taken and returns its sector, the number counted from the start of the data area;
  when no block is free the kernel panics in \<^verbatim>\<open>bitmap_scan\<close> instead of returning -1.
\<close>
theorem block_alloc_least:
  assumes "b = block_bitmap (partitions s part)" "bm_ok b"
    and "rng (sb (partitions s part) + 40) 4 \<inter> rng (bits b) (unat (btmp_bytes_len b)) = {}"
  shows "if \<forall>i. i < nbits b \<longrightarrow> bm_bit (kmem s) b i then block_bitmap_alloc part s = Inl PANIC
    else \<exists>j s'. block_bitmap_alloc part s = Inr (data_start_lba (part_sb part s) + j, s') \<and> unat j < nbits b \<and>
      \<not> bm_bit (kmem s) b (unat j) \<and> (\<forall>k. k < unat j \<longrightarrow> bm_bit (kmem s) b k) \<and>
      (\<forall>k. k < nbits b \<longrightarrow> bm_bit (kmem s') b k = (k = unat j \<or> bm_bit (kmem s) b k)) \<and> s' = s\<lparr>kmem := kmem s'\<rparr>"
proof (cases "\<forall>i. i < nbits b \<longrightarrow> bm_bit (kmem s) b i")
  case True
  have "bitmap_scan (kmem s) b 1 = Inl PANIC" using True by (cases rule: bm.scan1_cases [OF assms(2), of "kmem s"]) auto
  then show ?thesis using True by (simp add: block_bitmap_alloc_def Let_def flip: assms(1))
next
  case False
  then obtain k where "k < nbits b" "\<not> bm_bit (kmem s) b k" by blast
  from block_alloc_free [OF assms(1,2) this assms(3)] obtain j where j: "unat j < nbits b" "\<not> bm_bit (kmem s) b (unat j)"
    "\<forall>k. k < unat j \<longrightarrow> bm_bit (kmem s) b k"
    "block_bitmap_alloc part s = Inr (data_start_lba (part_sb part s) + j, s\<lparr>kmem := set_bit_at (kmem s) b (unat j) True\<rparr>)" by metis
  have "bm_bit (set_bit_at (kmem s) b (unat j) True) b k = (k = unat j \<or> bm_bit (kmem s) b k)" if "k < nbits b" for k
    using that j(1) nbits_lt [OF assms(2)] by (subst bm_bit_set_bit_at) auto
  then show ?thesis unfolding if_not_P [OF False] using j by (intro exI [of _ j] exI [of _ "s\<lparr>kmem := set_bit_at (kmem s) b (unat j) True\<rparr>"]) auto
qed

definition demo_files :: filesys where
  "demo_files = fssys.extend demo_fs \<lparr>file_table = replicate 32 \<lparr>fd_pos = 0, fd_flag = 0, fd_inode = NULL\<rparr>\<rparr>"

theorem block_alloc_least_witness:
  "\<exists>s'. block_bitmap_alloc 0xc0040000 demo_files = Inr (708, s') \<and> bm_bit (kmem s') \<lparr>btmp_bytes_len = 512, bits = 0xc0052000\<rparr> 0"
proof -
  let ?b = "\<lparr>btmp_bytes_len = 512, bits = 0xc0052000\<rparr> :: bitmap"
  have f: "partitions demo_files = partitions demo_fs" "kmem demo_files = kmem demo_fs" "part_sb p demo_files = part_sb p demo_fs" for p
    by (simp_all add: demo_files_def fssys.defs part_sb_def)
  have z: "\<not> bm_bit (kmem demo_files) ?b 0" unfolding f by (simp add: bm_bit_def demo_fs_def idesys.defs store32_def)
  have "rng (0xc0050000 + 40) 4 \<inter> rng 0xc0052000 512 = {}" by (rule rng_disjoint) simp_all
  then have d: "rng (sb (partitions demo_files 0xc0040000) + 40) 4 \<inter> rng (bits ?b) (unat (btmp_bytes_len ?b)) = {}"
    by (simp add: f demo_fs_facts)
  have ok: "?b = block_bitmap (partitions demo_files 0xc0040000)" "bm_ok ?b" by (simp_all add: f demo_fs_facts bm_ok_def)
  have n: "\<not> (\<forall>i. i < nbits ?b \<longrightarrow> bm_bit (kmem demo_files) ?b i)" using z by (auto intro!: exI [of _ 0])
  obtain j s' where r: "block_bitmap_alloc 0xc0040000 demo_files = Inr (data_start_lba (part_sb 0xc0040000 demo_files) + j, s')"
    "\<forall>k. k < unat j \<longrightarrow> bm_bit (kmem demo_files) ?b k" "\<forall>k. k < nbits ?b \<longrightarrow> bm_bit (kmem s') ?b k = (k = unat j \<or> bm_bit (kmem demo_files) ?b k)"
    using block_alloc_least [OF ok d] unfolding if_not_P [OF n] by blast
  have "unat j = 0" using r(2) z by (metis gr0I)
  then have "j = 0" by (simp add: unat_eq_zero)
  then show ?thesis using r(1,3) by (intro exI [of _ s']) (simp add: f demo_fs_facts)
qed

end
