(* ===== verification/Dir.thy ===== *)
theory Dir
  imports File
begin

text \<open>
  Directories, \<^verbatim>\<open>fs/dir.c\<close>: opening and closing, the search for a name, and the making of an entry. A
  \<^verbatim>\<open>struct dir\<close> is in memory, its inode pointer at offset 0 and its position at 4; the header spells the
  member \<^verbatim>\<open>ionde\<close>, the code \<^verbatim>\<open>inode\<close>. An entry is the name in 16 bytes, the inode number at 16 and the
  type at 20.
\<close>

section \<open>The routines\<close>

record dirsys = filesys +
  root_dir :: u32

definition MAX_FILE_NAME_LEN :: u32 where "MAX_FILE_NAME_LEN = 16"
definition sizeof_dir :: u32 where "sizeof_dir = 2056"

definition dir_inode :: "mem \<Rightarrow> u32 \<Rightarrow> u32" where "dir_inode m p = load32 m p"

definition set_dir :: "u32 \<Rightarrow> u32 \<Rightarrow> 'a dirsys_scheme \<Rightarrow> 'a dirsys_scheme" where
  "set_dir pdir i s = s\<lparr>kmem := store32 (store32 (kmem s) pdir i) (pdir + 4) 0\<rparr>"

definition open_root_dir :: "u32 \<Rightarrow> 'a dirsys_scheme \<Rightarrow> (unit option \<times> 'a dirsys_scheme) res" where
  "open_root_dir part s =
     after_call (F_at ''open_root_dir'' [part]) (inode_open part (root_inode_no (part_sb part s)))
       (\<lambda>i s. Inr (Some (), set_dir (root_dir s) i s)) s"

definition dir_open :: "u32 \<Rightarrow> u32 \<Rightarrow> 'a dirsys_scheme \<Rightarrow> (u32 option \<times> 'a dirsys_scheme) res" where
  "dir_open part inode_no s =
     after_call (F_at ''dir_open'' [part, inode_no]) (sys_malloc sizeof_dir)
       (\<lambda>pdir. after_call (F_at ''dir_open'' [part, inode_no, pdir]) (inode_open part inode_no)
         (\<lambda>i s. Inr (Some pdir, set_dir pdir i s))) s"

definition dir_close :: "u32 \<Rightarrow> 'a dirsys_scheme \<Rightarrow> (unit option \<times> 'a dirsys_scheme) res" where
  "dir_close dir s =
     (if dir = root_dir s then Inr (Some (), s)
      else after_call (F_at ''dir_close'' [dir]) (inode_close (dir_inode (kmem s) dir)) (\<lambda>_. sys_free dir) s)"

text \<open>The entry with the name among the \<open>n\<close> entries from \<open>p_de\<close> on.\<close>

primrec search_sector :: "nat \<Rightarrow> mem \<Rightarrow> u32 \<Rightarrow> u32 \<Rightarrow> u32 option res" where
  "search_sector 0 m fname p_de = Inr None"
| "search_sector (Suc n) m fname p_de =
     kbind (strcmp m p_de fname) (\<lambda>order. if order = 0 then Inr (Some p_de) else search_sector n m fname (p_de + sizeof_dir_entry))"

definition search_end :: "u32 \<Rightarrow> u32 \<Rightarrow> bool \<Rightarrow> 'a dirsys_scheme \<Rightarrow> (bool option \<times> 'a dirsys_scheme) res" where
  "search_end b all_blocks found s =
     (let fr = F_at ''search_dir_entry'' [b, all_blocks] in
      after_call fr (sys_free b) (\<lambda>_. after_call fr (sys_free all_blocks) (\<lambda>_ s. Inr (Some found, s))) s)"

text \<open>The blocks from number \<open>140 - n\<close> on; \<open>k\<close> entries are in a sector.\<close>

primrec search_blocks :: "nat \<Rightarrow> u32 \<Rightarrow> u32 \<Rightarrow> u32 \<Rightarrow> u32 \<Rightarrow> u32 \<Rightarrow> u32 \<Rightarrow> 'a dirsys_scheme \<Rightarrow> (bool option \<times> 'a dirsys_scheme) res" where
  "search_blocks 0 part fname dir_e entry_size b all_blocks s = search_end b all_blocks False s"
| "search_blocks (Suc n) part fname dir_e entry_size b all_blocks s =
     (let lba = load32 (kmem s) (all_blocks + 4 * word_of_nat (140 - Suc n)) in
      if lba = 0 then search_blocks n part fname dir_e entry_size b all_blocks s
      else after_call (F_at ''search_dir_entry'' [part, fname, dir_e, b, all_blocks, word_of_nat n]) (ide_read (my_disk (partitions s part)) lba b 1)
        (\<lambda>_ s. kbind (search_sector (unat (SECTOR_SIZE div entry_size)) (kmem s) fname b) (\<lambda>found.
          case found of
            Some p_de \<Rightarrow> kbind (mem_step (\<lambda>m. memcpy m dir_e p_de entry_size) s) (search_end b all_blocks True)
          | None \<Rightarrow> kbind (mem_step (\<lambda>m. memset m b 0 SECTOR_SIZE) s) (search_blocks n part fname dir_e entry_size b all_blocks))) s)"

text \<open>A division by zero is an exception, and the handler of exceptions spins.\<close>

definition search_buffer :: "u32 \<Rightarrow> u32 \<Rightarrow> u32 \<Rightarrow> u32 \<Rightarrow> 'a dirsys_scheme \<Rightarrow> (bool option \<times> 'a dirsys_scheme) res" where
  "search_buffer part fname dir_e all_blocks s =
     after_call (F_at ''search_dir_entry'' [part, fname, dir_e, all_blocks]) (sys_malloc SECTOR_SIZE)
       (\<lambda>b s. let entry_size = dir_entry_size (part_sb part s) in
         if entry_size = 0 then Inl SPIN else search_blocks 140 part fname dir_e entry_size b all_blocks s) s"

definition copy_blocks :: "u32 \<Rightarrow> u32 \<Rightarrow> mem \<Rightarrow> mem" where
  "copy_blocks all_blocks i m = fold (\<lambda>k m. store32 m (all_blocks + 4 * word_of_nat k) (i_sectors m i k)) [0..<12] m"

definition search_dir_entry :: "u32 \<Rightarrow> u32 \<Rightarrow> u32 \<Rightarrow> u32 \<Rightarrow> 'a dirsys_scheme \<Rightarrow> (bool option \<times> 'a dirsys_scheme) res" where
  "search_dir_entry part pdir fname dir_e s =
     after_call (F_at ''search_dir_entry'' [part, pdir, fname, dir_e]) (sys_malloc (48 + 512))
       (\<lambda>all_blocks s.
          if all_blocks = NULL then
            after_call (F_at ''search_dir_entry'' []) (printk_lit ''search_dir_entry: sys_malloc for all_blocks failed.'' []) (\<lambda>_ s. Inr (Some False, s)) s
          else
            let i = dir_inode (kmem s) pdir;
                s = s\<lparr>kmem := copy_blocks all_blocks i (kmem s)\<rparr>;
                indirect = i_sectors (kmem s) i 12
            in if indirect \<noteq> 0 then
                 after_call (F_at ''search_dir_entry'' [part, fname, dir_e, all_blocks])
                   (ide_read (my_disk (partitions s part)) indirect (all_blocks + 48) 1) (\<lambda>_. search_buffer part fname dir_e all_blocks) s
               else search_buffer part fname dir_e all_blocks s) s"

definition create_dir_entry :: "u32 \<Rightarrow> u32 \<Rightarrow> u8 \<Rightarrow> u32 \<Rightarrow> mem \<Rightarrow> mem res" where
  "create_dir_entry filename inode_no file_type p_de m =
     kbind (strlen m filename) (\<lambda>n. ASSERT (n \<le> MAX_FILE_NAME_LEN)
       (kbind (strlen m filename) (\<lambda>n. kbind (memcpy m p_de filename n) (\<lambda>m.
         Inr (store32 (store32 m (p_de + 16) inode_no) (p_de + 20) (ucast file_type))))))"

section \<open>Making and finding entries\<close>

lemma cstr_move:
  assumes "cstr m q xs" "\<And>i. i \<le> length xs \<Longrightarrow> m' (off p i) = m (off q i)"
  shows "cstr m' p xs"
  using assms
proof (induction xs arbitrary: p q)
  case Nil
  from Nil.prems(2) [of 0] Nil.prems(1) show ?case by simp
next
  case (Cons x xs)
  have "cstr m' (p + 1) xs"
  proof (rule Cons.IH)
    show "cstr m (q + 1) xs" using Cons.prems(1) by simp
    show "m' (off (p + 1) i) = m (off (q + 1) i)" if "i \<le> length xs" for i
      using Cons.prems(2) [of "Suc i"] that by (simp only: off_Suc) simp
  qed
  with Cons.prems(1) Cons.prems(2) [of 0] show ?case by simp
qed

text \<open>The search stops at the first entry whose name is the one looked for.\<close>

lemma search_sector_first:
  assumes "\<And>i. i \<le> k \<Longrightarrow> cstr m (off p (24 * i)) (ns i) \<and> off p (24 * i) \<noteq> NULL" "cstr m fname xs" "fname \<noteq> NULL"
    and "k < n" "ns k = xs" "\<And>i. i < k \<Longrightarrow> ns i \<noteq> xs"
  shows "search_sector n m fname p = Inr (Some (off p (24 * k)))"
  using assms
proof (induction n arbitrary: p k ns)
  case (Suc n)
  have c: "strcmp m p fname = Inr (str_order (ns 0) xs)" "str_order (ns 0) xs = 0 \<longleftrightarrow> ns 0 = xs"
    using Suc.prems(1) [of 0] Suc.prems(2,3) strcmp_correct [of m p "ns 0" fname xs] by auto
  show ?case
  proof (cases k)
    case 0
    then show ?thesis using c Suc.prems(5) by simp
  next
    case (Suc j)
    have o: "off p (24 * Suc i) = off (p + 24) (24 * i)" for i by (simp add: algebra_simps)
    have "search_sector n m fname (p + 24) = Inr (Some (off (p + 24) (24 * j)))"
    proof (rule Suc.IH [where ns = "\<lambda>i. ns (Suc i)"])
      show "cstr m (off (p + 24) (24 * i)) (ns (Suc i)) \<and> off (p + 24) (24 * i) \<noteq> NULL" if "i \<le> j" for i
        using Suc.prems(1) [of "Suc i"] that Suc unfolding o by simp
    qed (use Suc.prems Suc in auto)
    moreover have "ns 0 \<noteq> xs" using Suc.prems(6) [of 0] Suc by simp
    ultimately show ?thesis using c Suc by (simp add: sizeof_dir_entry_def o del: mult_Suc_right)
  qed
qed simp

text \<open>The entry at \<open>p\<close> after \<^verbatim>\<open>create_dir_entry\<close>, with a name apart from it.\<close>

lemma create_dir_entry_ok:
  assumes "cstr m filename xs" "filename \<noteq> NULL" "p \<noteq> NULL" "length xs \<le> 16"
    and "rng filename (Suc (length xs)) \<inter> rng p 24 = {}"
  shows "\<exists>m'. create_dir_entry filename no t p m = Inr m' \<and> (\<forall>i < length xs. m' (off p i) = m (off filename i)) \<and>
    (\<forall>i. length xs \<le> i \<longrightarrow> i < 16 \<longrightarrow> m' (off p i) = m (off p i)) \<and>
    load32 m' (p + 16) = no \<and> load32 m' (p + 20) = ucast t \<and> (\<forall>a. a \<notin> rng p 24 \<longrightarrow> m' a = m a)"
proof -
  let ?n = "length xs"
  let ?m1 = "\<lambda>a. if a \<in> rng p ?n then m (filename + (a - p)) else m a"
  let ?m2 = "store32 ?m1 (p + 16) no"
  let ?m3 = "store32 ?m2 (p + 20) (ucast t)"
  have len: "strlen m filename = Inr (word_of_nat ?n)" using strlen_cstr [OF assms(1,2)] .
  have u: "unat (word_of_nat ?n :: u32) = ?n" using assms(4) by (simp add: unat_word_of_nat_u32)
  have "p \<notin> rng filename (Suc ?n)" using assms(5) by (auto simp: rng_def)
  then have "?n \<le> unat (p - filename)" by (simp add: rng_def)
  then have "memcpy m p filename (word_of_nat ?n) = Inr ?m1"
    using memcpy_loop_eq [of ?n p filename m] assms(2-4) u by (simp add: memcpy_def)
  moreover have "(word_of_nat ?n :: u32) \<le> MAX_FILE_NAME_LEN" using u assms(4) by (simp add: word_le_nat_alt MAX_FILE_NAME_LEN_def)
  ultimately have c: "create_dir_entry filename no t p m = Inr ?m3" by (simp add: create_dir_entry_def len)
  have far: "off p i \<notin> rng (p + 16) 4" "off p i \<notin> rng (p + 20) 4" if "i < 16" for i
    using off_in_rng_off [of i 16 4 p] off_in_rng_off [of i 20 4 p] that by auto
  have b: "?m3 (off p i) = ?m1 (off p i)" if "i < 16" for i using store32_outside far [OF that] by simp
  have in1: "off p i \<in> rng p ?n \<longleftrightarrow> i < ?n" if "i < 16" for i using that by (simp add: rng_def unat_word_of_nat_u32)
  have "load32 ?m3 (p + 16) = load32 ?m2 (p + 16)"
  proof (rule load32_cong)
    fix a assume "a \<in> rng (p + 16) 4"
    then have "a \<notin> rng (p + 20) 4" using rng_disjoint [of 4 "p + 20" "p + 16" 4] by auto
    then show "?m3 a = ?m2 a" by (rule store32_outside)
  qed
  then have "load32 ?m3 (p + 16) = no" by simp
  moreover have "?m3 a = m a" if "a \<notin> rng p 24" for a
  proof -
    have "a \<notin> rng (p + 16) 4" "a \<notin> rng (p + 20) 4" "a \<notin> rng p ?n"
      using that assms(4) rng_within [of 16 4 24 a p] rng_within [of 20 4 24 a p] rng_within [of 0 ?n 24 a p] by auto
    then show ?thesis using store32_outside by simp
  qed
  ultimately show ?thesis using c b in1 assms(4) by (intro exI [of _ ?m3]) auto
qed

section \<open>Property\<close>

text \<open>
  C38: An entry that \<^verbatim>\<open>create_dir_entry\<close> makes in an empty sector of entries, for a name of one to fifteen
  characters, is found by the search of \<^verbatim>\<open>search_dir_entry\<close> in that sector under its name, with its inode
  number and type, and nothing outside the entry has changed. (A name of sixteen characters passes
  the assertion but fills its field without a NUL byte.)
\<close>
theorem create_then_search:
  assumes "cstr m filename xs" "filename \<noteq> NULL" "xs \<noteq> []" "length xs < 16" "k < n" "n \<le> 21"
    and "\<And>a. a \<in> rng b 512 \<Longrightarrow> m a = 0" "NULL \<notin> rng b 512" "rng filename (Suc (length xs)) \<inter> rng b 512 = {}"
  shows "\<exists>m'. create_dir_entry filename no t (off b (24 * k)) m = Inr m' \<and>
    search_sector n m' filename b = Inr (Some (off b (24 * k))) \<and>
    load32 m' (off b (24 * k) + 16) = no \<and> load32 m' (off b (24 * k) + 20) = ucast t \<and>
    (\<forall>a. a \<notin> rng (off b (24 * k)) 24 \<longrightarrow> m' a = m a)"
proof -
  let ?p = "off b (24 * k)"
  have sub: "a \<in> rng ?p 24 \<Longrightarrow> a \<in> rng b 512" for a using rng_within [of "24 * k" 24 512 a b] assms(5,6) by auto
  have inb: "off b (24 * i) \<in> rng b 512" if "i \<le> k" for i using that assms(5,6) by (intro off_in_rng) auto
  then have nz: "off b (24 * i) \<noteq> NULL" if "i \<le> k" for i using that assms(8) by metis
  have d: "rng filename (Suc (length xs)) \<inter> rng ?p 24 = {}" using sub assms(9) by blast
  obtain m' where m': "create_dir_entry filename no t ?p m = Inr m'" "\<forall>i < length xs. m' (off ?p i) = m (off filename i)"
    "\<forall>i. length xs \<le> i \<longrightarrow> i < 16 \<longrightarrow> m' (off ?p i) = m (off ?p i)"
    "load32 m' (?p + 16) = no" "load32 m' (?p + 20) = ucast t" "\<forall>a. a \<notin> rng ?p 24 \<longrightarrow> m' a = m a"
    using create_dir_entry_ok [OF assms(1,2) nz [OF order_refl] less_imp_le [OF assms(4)] d, of no t] by auto
  have tail: "m (off filename (length xs)) = 0" using assms(1) by (rule cstr_nth_end)
  have "m (off ?p (length xs)) = 0" using sub [OF off_in_rng [of "length xs" 24 ?p]] assms(4,7) by simp
  then have e: "m' (off ?p (length xs)) = m (off filename (length xs))" using m'(3) assms(4) tail by simp
  have name: "cstr m' ?p xs"
    by (rule cstr_move [OF assms(1)]) (use m'(2) e in \<open>auto simp: le_less\<close>)
  have "cstr m' filename xs"
    by (rule cstr_outside [OF assms(1) d]) (use assms(4) m'(6) in auto)
  moreover have "cstr m' (off b (24 * i)) []" if "i < k" for i
  proof -
    have "off b (24 * i) \<notin> rng ?p 24" using off_in_rng_off [of "24 * i" "24 * k" 24 b] that assms(5,6) by auto
    then show ?thesis using m'(6) assms(7) [OF inb] that by simp
  qed
  ultimately have "search_sector n m' filename b = Inr (Some ?p)"
    using name nz assms(2,3,5) by (intro search_sector_first [where ns = "\<lambda>i. if i = k then xs else []" and xs = xs]) auto
  then show ?thesis using m' by blast
qed

theorem create_then_search_witness:
  "\<exists>m'. create_dir_entry 0x1000 7 1 0x2018 ((\<lambda>_. 0)(0x1000 := 0x61)) = Inr m' \<and>
    search_sector 21 m' 0x1000 0x2000 = Inr (Some 0x2018) \<and> load32 m' 0x2028 = 7"
proof -
  let ?m = "(\<lambda>_. 0)(0x1000 := 0x61) :: mem"
  have d: "rng 0x1000 (Suc (length [0x61 :: u8])) \<inter> rng 0x2000 512 = {}" by (rule rng_disjoint) simp_all
  have "(0x1000 :: u32) \<in> rng 0x1000 (Suc (length [0x61 :: u8]))" by (simp add: rng_def)
  then have z: "?m a = 0" if "a \<in> rng 0x2000 512" for a using that d by auto
  have "NULL \<notin> rng 0x2000 512" by (simp add: rng_def)
  from create_then_search [of ?m "0x1000" "[0x61]" 1 21 "0x2000" 7 1, OF _ _ _ _ _ _ z this d] show ?thesis by auto
qed

end
