(* ===== verification/DirSync.thy ===== *)
theory DirSync
  imports Dir
begin

text \<open>
  \<^verbatim>\<open>sync_dir_entry\<close> of \<^verbatim>\<open>fs/dir.c\<close>, which puts an entry into a directory on the disk: into the first free place
  of a block the directory has, or into a new block.

  The file is not compiled and the routine does not compile. The misspelt names \<^verbatim>\<open>mydisk\<close> and \<^verbatim>\<open>mu_disk\<close> are read
  as \<^verbatim>\<open>my_disk\<close>, \<^verbatim>\<open>i_siez\<close> as \<^verbatim>\<open>i_size\<close> and \<^verbatim>\<open>block_ide\<close> as \<^verbatim>\<open>block_idx\<close>, the only names they can stand for. The call
  of \<^verbatim>\<open>ASSERT\<close> with three arguments has no meaning in C: it is the parameter \<open>assert3\<close>, a routine called with these
  arguments, of which nothing is assumed. The theorem is about the way that does not come to it: the
  entry goes into a free place of a block that the directory already has.
\<close>

section \<open>The routine\<close>

definition FT_UNKNOWN :: u32 where "FT_UNKNOWN = 0"

definition cur_disk :: "'a dirsys_scheme \<Rightarrow> u32" where
  "cur_disk s = my_disk (partitions s (cur_part s))"

definition printk_false :: "string \<Rightarrow> 'a dirsys_scheme \<Rightarrow> (bool option \<times> 'a dirsys_scheme) res" where
  "printk_false str s = after_call (F_at ''sync_dir_entry'' []) (printk_lit str []) (\<lambda>_ s. Inr (Some False, s)) s"

text \<open>The last step of both successful ways: the sector is written and the size grows.\<close>

definition write_and_grow :: "u32 \<Rightarrow> u32 \<Rightarrow> u32 \<Rightarrow> u32 \<Rightarrow> 'a dirsys_scheme \<Rightarrow> (bool option \<times> 'a dirsys_scheme) res" where
  "write_and_grow inode dir_entry_sz lba io_buf s =
     after_call (F_at ''sync_dir_entry'' [inode, dir_entry_sz]) (ide_write (cur_disk s) lba io_buf 1)
       (\<lambda>_ s. Inr (Some True, s\<lparr>kmem := store32 (kmem s) (inode + 4) (i_size (kmem s) inode + dir_entry_sz)\<rparr>)) s"

definition new_block_entry :: "u32 \<Rightarrow> u32 \<Rightarrow> u32 \<Rightarrow> nat \<Rightarrow> u32 \<Rightarrow> u32 \<Rightarrow> 'a dirsys_scheme \<Rightarrow> (bool option \<times> 'a dirsys_scheme) res" where
  "new_block_entry inode dir_entry_sz all_blocks block_idx p_de io_buf s =
     kbind (mem_step (\<lambda>m. memset m io_buf 0 512) s) (\<lambda>s.
     kbind (mem_step (\<lambda>m. memcpy m io_buf p_de dir_entry_sz) s) (\<lambda>s.
       write_and_grow inode dir_entry_sz (load32 (kmem s) (all_blocks + 4 * word_of_nat block_idx)) io_buf s))"

text \<open>\<^verbatim>\<open>all_blocks[block_idx] = block_lba\<close> and \<^verbatim>\<open>dir_inode->i_sectors[block_idx] = block_lba\<close>.\<close>

definition set_block :: "u32 \<Rightarrow> nat \<Rightarrow> u32 \<Rightarrow> 'a dirsys_scheme \<Rightarrow> 'a dirsys_scheme" where
  "set_block all_blocks block_idx lba s = s\<lparr>kmem := store32 (kmem s) (all_blocks + 4 * word_of_nat block_idx) lba\<rparr>"

definition set_i_sector :: "u32 \<Rightarrow> nat \<Rightarrow> u32 \<Rightarrow> 'a dirsys_scheme \<Rightarrow> 'a dirsys_scheme" where
  "set_i_sector inode k lba s = s\<lparr>kmem := store32 (kmem s) (i_sector_at inode k) lba\<rparr>"

text \<open>The block that holds the addresses of the indirect blocks is written from \<^verbatim>\<open>all_blocks + 12\<close>.\<close>

definition write_table :: "u32 \<Rightarrow> u32 \<Rightarrow> u32 \<Rightarrow> nat \<Rightarrow> u32 \<Rightarrow> u32 \<Rightarrow> 'a dirsys_scheme \<Rightarrow> (bool option \<times> 'a dirsys_scheme) res" where
  "write_table inode dir_entry_sz all_blocks block_idx p_de io_buf s =
     after_call (F_at ''sync_dir_entry'' [inode, dir_entry_sz, all_blocks, word_of_nat block_idx, p_de, io_buf])
       (ide_write (cur_disk s) (i_sectors (kmem s) inode 12) (all_blocks + 48) 1)
       (\<lambda>_. new_block_entry inode dir_entry_sz all_blocks block_idx p_de io_buf) s"

text \<open>Block 12 is the first indirect one: a second block is taken for it, the first holds the addresses.\<close>

definition first_indirect :: "u32 \<Rightarrow> u32 \<Rightarrow> u32 \<Rightarrow> u32 \<Rightarrow> u32 \<Rightarrow> u32 \<Rightarrow> 'a dirsys_scheme \<Rightarrow> (bool option \<times> 'a dirsys_scheme) res" where
  "first_indirect inode dir_entry_sz all_blocks p_de io_buf block_lba s =
     kbind (block_bitmap_alloc (cur_part s) (set_i_sector inode 12 block_lba s)) (\<lambda>(block_lba, s).
       let start = data_start_lba (part_sb (cur_part s) s) in
       if block_lba = -1 then
         kbind (mem_step (\<lambda>m. bitmap_set m (block_bitmap (partitions s (cur_part s))) (i_sectors m inode 12 - start) 0) s) (\<lambda>s.
           printk_false ''alloc block bitmap for sync_dir_entry failed\<newline>'' (set_i_sector inode 12 0 s))
       else let block_bitmap_idx = block_lba - start in
         ASSERT (block_bitmap_idx \<noteq> -1)
           (after_call (F_at ''sync_dir_entry'' [inode, dir_entry_sz, all_blocks, p_de, io_buf, block_lba])
              (bitmap_sync (cur_part s) block_bitmap_idx BLOCK_BITMAP)
              (\<lambda>_ s. write_table inode dir_entry_sz all_blocks 12 p_de io_buf (set_block all_blocks 12 block_lba s)) s))"

type_synonym 'a assert3 = "u32 \<Rightarrow> u32 \<Rightarrow> bitmap_type \<Rightarrow> 'a dirsys_scheme \<Rightarrow> (unit option \<times> 'a dirsys_scheme) res"

definition sync_new_block :: "'a assert3 \<Rightarrow> u32 \<Rightarrow> u32 \<Rightarrow> u32 \<Rightarrow> nat \<Rightarrow> u32 \<Rightarrow> u32 \<Rightarrow> 'a dirsys_scheme \<Rightarrow> (bool option \<times> 'a dirsys_scheme) res" where
  "sync_new_block assert3 inode dir_entry_sz all_blocks block_idx p_de io_buf s =
     kbind (block_bitmap_alloc (cur_part s) s) (\<lambda>(block_lba, s).
       if block_lba = -1 then printk_false ''alloc block bitmap for sync_dir_entry failed\<newline>'' s
       else after_call (F_at ''sync_dir_entry'' [inode, dir_entry_sz, all_blocks, word_of_nat block_idx, p_de, io_buf, block_lba])
         (assert3 (cur_part s) (block_lba - data_start_lba (part_sb (cur_part s) s)) BLOCK_BITMAP)
         (\<lambda>_ s.
            if block_idx < 12 then
              new_block_entry inode dir_entry_sz all_blocks block_idx p_de io_buf
                (set_i_sector inode block_idx block_lba (set_block all_blocks block_idx block_lba s))
            else if block_idx = 12 then first_indirect inode dir_entry_sz all_blocks p_de io_buf block_lba s
            else write_table inode dir_entry_sz all_blocks block_idx p_de io_buf (set_block all_blocks block_idx block_lba s)) s)"

text \<open>
  The first free entry of the sector in \<^verbatim>\<open>io_buf\<close>. The index is a \<^verbatim>\<open>uint8_t\<close>: with 256 or more entries in a
  sector and none of the first 256 free, the loop does not end.
\<close>

definition free_entry :: "nat \<Rightarrow> mem \<Rightarrow> u32 \<Rightarrow> u32 option res" where
  "free_entry dir_entrys_per_sec m io_buf =
     (let n = min dir_entrys_per_sec 256;
          k = free_slot (\<lambda>i. load32 m (io_buf + sizeof_dir_entry * word_of_nat i + 20) = FT_UNKNOWN) n 0
      in if k < n then Inr (Some (io_buf + sizeof_dir_entry * word_of_nat k)) else if dir_entrys_per_sec < 256 then Inr None else Inl SPIN)"

text \<open>The blocks from number \<open>140 - n\<close> on.\<close>

primrec sync_blocks :: "nat \<Rightarrow> 'a assert3 \<Rightarrow> u32 \<Rightarrow> u32 \<Rightarrow> u32 \<Rightarrow> u32 \<Rightarrow> u32 \<Rightarrow> 'a dirsys_scheme \<Rightarrow> (bool option \<times> 'a dirsys_scheme) res" where
  "sync_blocks 0 assert3 inode dir_entry_sz all_blocks p_de io_buf s = printk_false ''directory is full!\<newline>'' s"
| "sync_blocks (Suc n) assert3 inode dir_entry_sz all_blocks p_de io_buf s =
     (let block_idx = 140 - Suc n; lba = load32 (kmem s) (all_blocks + 4 * word_of_nat block_idx) in
      if lba = 0 then sync_new_block assert3 inode dir_entry_sz all_blocks block_idx p_de io_buf s
      else after_call (F_at ''sync_dir_entry'' [inode, dir_entry_sz, all_blocks, word_of_nat block_idx, p_de, io_buf])
        (ide_read (cur_disk s) lba io_buf 1)
        (\<lambda>_ s. kbind (free_entry (unat (512 div dir_entry_sz)) (kmem s) io_buf) (\<lambda>found.
          case found of
            Some dir_e \<Rightarrow> kbind (mem_step (\<lambda>m. memcpy m dir_e p_de dir_entry_sz) s)
              (\<lambda>s. write_and_grow inode dir_entry_sz (load32 (kmem s) (all_blocks + 4 * word_of_nat block_idx)) io_buf s)
          | None \<Rightarrow> sync_blocks n assert3 inode dir_entry_sz all_blocks p_de io_buf s)) s)"

definition load_blocks :: "u32 \<Rightarrow> u32 \<Rightarrow> mem \<Rightarrow> mem" where
  "load_blocks all_blocks inode m = copy_blocks all_blocks inode (memset_loop m all_blocks 0 560)"

text \<open>A remainder by zero is an exception, and the handler of exceptions spins.\<close>

definition sync_dir_entry :: "'a assert3 \<Rightarrow> u32 \<Rightarrow> u32 \<Rightarrow> u32 \<Rightarrow> 'a dirsys_scheme \<Rightarrow> (bool option \<times> 'a dirsys_scheme) res" where
  "sync_dir_entry assert3 parent_dir p_de io_buf s =
     (let i = dir_inode (kmem s) parent_dir;
          entry_size = dir_entry_size (part_sb (cur_part s) s);
          all_blocks = local_addr s ''all_blocks''
      in if entry_size = 0 then Inl SPIN
         else ASSERT (i_size (kmem s) i mod entry_size = 0)
           (sync_blocks 140 assert3 i entry_size all_blocks p_de io_buf (s\<lparr>kmem := load_blocks all_blocks i (kmem s)\<rparr>)))"

section \<open>Calls that return\<close>

text \<open>A disk that executes the next command at once.\<close>

definition disk_ready :: "u32 \<Rightarrow> 'a idesys_scheme \<Rightarrow> bool" where
  "disk_ready d s \<longleftrightarrow> lock_free (channel_lock (chan d s)) s \<and> running_thread s \<noteq> NULL \<and> sema_value s (disk_done (chan d s)) = 1 \<and>
     status_read (chan d s) 0 s AND BIT_ALT_STAT_BSY = 0 \<and> status_read (chan d s) 1 s AND BIT_ALT_STAT_DRQ \<noteq> 0"

lemma disk_ready_kmem [simp]: "disk_ready d (s\<lparr>kmem := m\<rparr>) = disk_ready d s"
  by (simp add: disk_ready_def chan_def status_read_def reg_status_def lock_free_def list_empty_def running_thread_def)

lemma kmem_ide:
  "cur_disk (s\<lparr>kmem := m\<rparr>) = cur_disk s" "chan d (t\<lparr>kmem := m\<rparr>) = chan d t" "reg_data c (t\<lparr>kmem := m\<rparr>) = reg_data c t"
  "reg_dev c (t\<lparr>kmem := m\<rparr>) = reg_dev c t" "reg_cmd c (t\<lparr>kmem := m\<rparr>) = reg_cmd c t" "device_bits d (t\<lparr>kmem := m\<rparr>) = device_bits d t"
  "sector_regs d lba n (t\<lparr>kmem := m\<rparr>) = sector_regs d lba n t"
  by (simp_all add: cur_disk_def chan_def reg_defs device_bits_def sector_regs_def)

lemma push_frame_ide:
  "chan d (push_frame t f s) = chan d s" "status_read c i (push_frame t f s) = status_read c i s" "lock_free l (push_frame t f s) = lock_free l s"
  by (simp_all add: chan_def status_read_def reg_status_def lock_free_def list_empty_def) (simp_all add: push_frame_def task_upd_def)

lemma wrote_push: "wrote d lba b n (push_frame t f s) = push_frame t f (wrote d lba b n s)"
proof -
  have "reg_data c (push_frame t f s) = reg_data c s" "reg_status c (push_frame t f s) = reg_status c s"
    "reg_cmd c (push_frame t f s) = reg_cmd c s" "reg_dev c (push_frame t f s) = reg_dev c s" "device_bits d (push_frame t f s) = device_bits d s" for c
    by (simp_all add: push_frame_def task_upd_def reg_defs device_bits_def)
  then show ?thesis
    by (simp add: wrote_def write_once_def select_disk_eq Let_def sector_regs_def device_bits_def reg_defs chan_def)
      (simp add: push_frame_def task_upd_def)
qed

lemma wrote_fields:
  "kmem (wrote d lba b n s) = kmem s" "running_thread (wrote d lba b n s) = running_thread s"
  "data_out (wrote d lba b n s) = data_out s @ map (Pair (reg_data (chan d s) s)) (words_at (kmem s) b (size_in_byte (ucast n) div 2))"
  "io_log (wrote d lba b n s) = io_log s @ (reg_dev (chan d s) s, device_bits d s) # sector_regs d lba (ucast n) s @ [(reg_cmd (chan d s) s, CMD_WRITE_SECTOR)]"
  by (simp_all add: wrote_def write_once_def select_disk_eq Let_def running_thread_def chan_def reg_defs sector_regs_def device_bits_def)

lemma after_write:
  assumes "disk_ready d s" "lba \<le> max_lba"
  shows "after_call fr (ide_write d lba b 1) k s = k () (wrote d lba b 1 s)"
proof -
  let ?p = "push_frame (running_thread s) fr s"
  have "ide_write d lba b 1 ?p = Inr (Some (), wrote d lba b 1 ?p)"
    using assms by (intro ide_write_one_command [OF _ _ _ refl]) (simp_all add: disk_ready_def push_frame_ide)
  then have e: "ide_write d lba b 1 ?p = Inr (Some (), push_frame (running_thread s) fr (wrote d lba b 1 s))" by (simp only: wrote_push)
  show ?thesis by (rule after_call_returns [where f = "ide_write d lba b 1", OF e]) (simp add: wrote_fields)
qed

text \<open>The same for a read.\<close>

lemma did_read_push: "did_read d lba b n (push_frame t f s) = push_frame t f (did_read d lba b n s)"
proof -
  have "reg_data c (push_frame t f s) = reg_data c s" "reg_status c (push_frame t f s) = reg_status c s"
    "reg_cmd c (push_frame t f s) = reg_cmd c s" "reg_dev c (push_frame t f s) = reg_dev c s" "device_bits d (push_frame t f s) = device_bits d s" for c
    by (simp_all add: push_frame_def task_upd_def reg_defs device_bits_def)
  then show ?thesis
    by (simp add: did_read_def read_once_def select_disk_eq Let_def sector_regs_def device_bits_def reg_defs chan_def port_words_def)
      (simp add: push_frame_def task_upd_def)
qed

lemma after_read:
  assumes "disk_ready d s" "lba \<le> max_lba"
  shows "after_call fr (ide_read d lba b 1) k s = k () (did_read d lba b 1 s)"
proof -
  let ?p = "push_frame (running_thread s) fr s"
  have "ide_read d lba b 1 ?p = Inr (Some (), did_read d lba b 1 ?p)"
    using assms by (intro ide_read_returns [OF _ _ _ refl]) (simp_all add: disk_ready_def push_frame_ide)
  then have e: "ide_read d lba b 1 ?p = Inr (Some (), push_frame (running_thread s) fr (did_read d lba b 1 s))" by (simp only: did_read_push)
  show ?thesis
    by (rule after_call_returns [where f = "ide_read d lba b 1", OF e]) (simp add: did_read_def read_once_def select_disk_eq Let_def running_thread_def)
qed

text \<open>
  A disk that has been read from is ready for the next command once its interrupt has come: the interrupt takes one status, the
  command the two behind it.
\<close>

lemma ready_after_interrupt:
  assumes "disk_ready d s" "c = chan d s" "status_read c 3 s AND BIT_ALT_STAT_BSY = 0" "status_read c 4 s AND BIT_ALT_STAT_DRQ \<noteq> 0"
    and "n < 2" "c = channel_at n s" "irq_no (ide_channels s c) = 0x2e + word_of_nat n" "list_empty (sema_waiters (disk_done c)) s"
  shows "\<exists>v. intr_hd_handler (0x2e + word_of_nat n) ((did_read d lba b 1 s)\<lparr>kmem := m\<rparr>) = Inr v \<and> disk_ready d v \<and> kmem v = m \<and>
    io_log v = io_log (did_read d lba b 1 s) \<and> data_out v = data_out s \<and> partitions v = partitions s \<and> disks v = disks s \<and>
    port_base (ide_channels v c) = port_base (ide_channels s c) \<and> idesys.more v = idesys.more s"
proof -
  let ?u = "(did_read d lba b 1 s)\<lparr>kmem := m\<rparr>"
  note f = did_read_fields [OF assms(2), of lba b 1]
  have g: "channels ?u = channels s" "port_in ?u = port_in s" "in_pos ?u (reg_status c s) = in_pos s (reg_status c s) + 2" "reg_status c ?u = reg_status c s"
    "disks ?u = disks s" "data_out ?u = data_out s" "partitions ?u = partitions s" "running_thread ?u = running_thread s"
    "lock_holder ?u = lock_holder s" "lock_repeat ?u = lock_repeat s" "idesys.more ?u = idesys.more s"
    using reg_status_data [of c s] unfolding assms(2)
    by (simp_all add: did_read_def read_once_def select_disk_eq Let_def running_thread_def) (auto simp: chan_def reg_defs)
  let ?v = "?u\<lparr>ide_channels := (ide_channels ?u)(c := (ide_channels ?u c)\<lparr>expecting_intr := False\<rparr>), sema_value := (sema_value ?u)(disk_done c := 1),
    in_pos := (in_pos ?u)(reg_status c ?u := in_pos ?u (reg_status c ?u) + 1)\<rparr>"
  have "intr_hd_handler (0x2e + word_of_nat n) ?u = Inr ?v"
    using assms(5-8) by (intro disk_interrupt) (simp_all add: channel_at_def g(1) f list_empty_def)
  moreover have "chan d ?v = c" using assms(2) g(5) by (simp add: chan_def)
  moreover have "status_read c i ?v = status_read c (3 + i) s" for i
  proof -
    have "reg_status c ?v = reg_status c s" using g(4) by (simp add: reg_status_def)
    then show ?thesis using g(2-4) by (simp add: status_read_def add.assoc numeral_3_eq_3)
  qed
  then have "status_read c 0 ?v = status_read c 3 s" "status_read c 1 ?v = status_read c 4 s" by simp_all
  moreover have "lock_free (channel_lock c) ?v"
    using assms(1,2) lock_not_done [of c] g(9,10) by (auto simp: disk_ready_def lock_free_def list_empty_def f)
  moreover have "running_thread ?v = running_thread s" using g(8) by (simp add: running_thread_def)
  ultimately have "disk_ready d ?v" using assms(1,3,4) by (simp add: disk_ready_def)
  then show ?thesis using \<open>intr_hd_handler _ ?u = Inr ?v\<close> g f by (intro exI [of _ ?v]) simp
qed

section \<open>The table of blocks\<close>

text \<open>
  The local table holds the twelve direct blocks and zero for all others: the addresses of the indirect blocks are not
  read from the disk.
\<close>

lemma copy_fold_outside:
  assumes "a \<notin> rng p 48" "set ks \<subseteq> {0..<12}"
  shows "fold (\<lambda>k m. store32 m (off p (4 * k)) (i_sectors m i k)) ks m a = m a"
  using assms(2)
proof (induction ks arbitrary: m)
  case (Cons k ks)
  then have "a \<notin> rng (off p (4 * k)) 4" using rng_within [of "4 * k" 4 48 a p] assms(1) by auto
  then show ?case using Cons by (simp add: store32_outside del: of_nat_mult)
qed simp

lemma load_blocks_outside:
  assumes "a \<notin> rng all_blocks 560"
  shows "load_blocks all_blocks i m a = m a"
proof -
  have "a \<notin> rng all_blocks 48" using assms rng_mono [of 48 560 all_blocks] by auto
  then show ?thesis using assms copy_fold_outside [of a all_blocks "[0..<12]" i] by (simp add: load_blocks_def copy_blocks_def memset_loop_eq)
qed

lemma word_apart:
  assumes "j < 140" "k < 140" "j \<noteq> k" "a \<in> rng (off p (4 * j)) 4"
  shows "a \<notin> rng (off p (4 * k)) 4"
proof -
  obtain n where n: "n < 4" "a = off (off p (4 * j)) n" using assms(4) by (auto simp: rng_mem_off)
  then have "a = off p (4 * j + n)" by (simp add: algebra_simps)
  moreover have "\<not> (4 * k \<le> 4 * j + n \<and> 4 * j + n < 4 * k + 4)" using assms(3) n(1) by linarith
  ultimately show ?thesis using off_in_rng_off [of "4 * j + n" "4 * k" 4 p] assms(1,2) n(1) by simp
qed

lemma load32_store32_apart:
  "j < 140 \<Longrightarrow> k < 140 \<Longrightarrow> j \<noteq> k \<Longrightarrow> load32 (store32 m (off p (4 * k)) w) (off p (4 * j)) = load32 m (off p (4 * j))"
  by (intro load32_cong store32_outside word_apart [of j k])

lemma i_sectors_cong:
  assumes "\<And>a. a \<in> rng i 76 \<Longrightarrow> m a = m' a" "k < 13"
  shows "i_sectors m i k = i_sectors m' i k"
  unfolding i_sectors_def
proof (rule load32_cong)
  fix a assume "a \<in> rng (i_sector_at i k) 4"
  moreover have "i_sector_at i k = off i (16 + 4 * k)" by (simp add: i_sector_at_def)
  ultimately have "a \<in> rng i 76" using rng_within [of "16 + 4 * k" 4 76 a i] assms(2) by simp
  then show "m a = m' a" by (rule assms(1))
qed

lemma copy_step:
  assumes "rng i 76 \<inter> rng p 48 = {}" "n \<le> 12" "k < 140"
  shows "load32 (fold (\<lambda>k m. store32 m (off p (4 * k)) (i_sectors m i k)) [0..<n] m) (off p (4 * k)) =
    (if k < n then i_sectors m i k else load32 m (off p (4 * k)))"
  using assms(2)
proof (induction n)
  case (Suc n)
  let ?m = "fold (\<lambda>k m. store32 m (off p (4 * k)) (i_sectors m i k)) [0..<n] m"
  have "i_sectors ?m i n = i_sectors m i n"
    using copy_fold_outside [of _ p "[0..<n]"] assms(1) Suc.prems by (intro i_sectors_cong) auto
  then show ?case using Suc assms(3) by (cases "k = n") (auto simp: load32_store32_apart simp del: of_nat_mult)
qed simp

lemma load_blocks_nth:
  assumes "rng i 76 \<inter> rng all_blocks 560 = {}" "k < 140"
  shows "load32 (load_blocks all_blocks i m) (all_blocks + 4 * word_of_nat k) = (if k < 12 then i_sectors m i k else 0)"
proof -
  let ?m = "memset_loop m all_blocks 0 560"
  have d: "rng i 76 \<inter> rng all_blocks 48 = {}" using assms(1) rng_mono [of 48 560 all_blocks] by auto
  have "i_sectors ?m i k = i_sectors m i k" if "k < 12" using that assms(1) by (intro i_sectors_cong) (auto simp: memset_loop_eq)
  moreover have "load32 ?m (off all_blocks (4 * k)) = 0"
  proof -
    have "load32 ?m (off all_blocks (4 * k)) = load32 (\<lambda>_. 0) (off all_blocks (4 * k))"
    proof (rule load32_cong)
      fix a assume "a \<in> rng (off all_blocks (4 * k)) 4"
      then have "a \<in> rng all_blocks 560" using rng_within [of "4 * k" 4 560 a all_blocks] assms(2) by simp
      then show "?m a = 0" by (simp add: memset_loop_eq)
    qed
    then show ?thesis by (simp add: load32_def)
  qed
  ultimately show ?thesis using copy_step [OF d order_refl assms(2), of ?m] by (simp add: load_blocks_def copy_blocks_def)
qed

section \<open>A new block\<close>

text \<open>
  The memory after the entry at \<open>q\<close> has been copied to the front of the zeroed sector buffer \<open>io\<close>.
\<close>

definition entry_sector :: "u32 \<Rightarrow> u32 \<Rightarrow> mem \<Rightarrow> mem" where
  "entry_sector io q m = (\<lambda>a. if a \<in> rng io 24 then m (q + (a - io)) else if a \<in> rng io 512 then 0 else m a)"

lemma entry_sector_eq:
  assumes "rng io 512 \<inter> rng q 24 = {}" "io \<noteq> NULL" "q \<noteq> NULL"
  shows "kbind (mem_step (\<lambda>m. memset m io 0 512) s) (\<lambda>s. kbind (mem_step (\<lambda>m. memcpy m io q 24) s) k) = k (s\<lparr>kmem := entry_sector io q (kmem s)\<rparr>)"
proof -
  let ?m = "\<lambda>a. if a \<in> rng io 512 then 0 else kmem s a"
  have "io \<in> rng io 512" by (simp add: rng_def)
  then have "io \<notin> rng q 24" using assms(1) by blast
  then have "24 \<le> unat (io - q)" by (simp add: rng_def)
  then have "memcpy ?m io q 24 = Inr (\<lambda>a. if a \<in> rng io 24 then ?m (q + (a - io)) else ?m a)"
    using assms(2,3) memcpy_loop_eq [of 24 io q ?m] by (simp add: memcpy_def)
  moreover have "?m (q + (a - io)) = kmem s (q + (a - io))" if "a \<in> rng io 24" for a
  proof -
    have "q + (a - io) \<in> rng q 24" using that by (simp add: rng_def)
    then show ?thesis using assms(1) by auto
  qed
  then have "(\<lambda>a. if a \<in> rng io 24 then ?m (q + (a - io)) else ?m a) = entry_sector io q (kmem s)"
    unfolding entry_sector_def by (intro ext) (auto split: if_splits)
  ultimately have "memcpy ?m io q 24 = Inr (entry_sector io q (kmem s))" by simp
  then show ?thesis using assms(2) by (simp add: mem_step_def memset_def memset_loop_eq)
qed

lemma entry_sector_bytes: "k < 512 \<Longrightarrow> entry_sector io q m (off io k) = (if k < 24 then m (off q k) else 0)"
  by (simp add: entry_sector_def rng_def unat_word_of_nat_u32)

lemma entry_sector_outside: "a \<notin> rng io 512 \<Longrightarrow> entry_sector io q m a = m a"
  using rng_mono [of 24 512 io] by (auto simp: entry_sector_def)

text \<open>Two places of an inode, and a word apart from a range.\<close>

lemma i_sector_0: "i_sector_at i 0 = off i 16" by (simp add: i_sector_at_def)

lemma inode_word: "k + 4 \<le> 76 \<Longrightarrow> a \<in> rng (off i k) 4 \<Longrightarrow> a \<in> rng i 76"
  using rng_within [of k 4 76 a i] by simp

lemma words_at_cong:
  assumes "\<And>k. k < 2 * n \<Longrightarrow> m (off a k) = m' (off a k)"
  shows "words_at m a n = words_at m' a n"
  unfolding words_at_def
proof (rule map_cong [OF refl])
  fix i assume "i \<in> set [0..<n]"
  then show "word_at m (off a (2 * i)) = word_at m' (off a (2 * i))"
    using assms [of "2 * i"] assms [of "2 * i + 1"] by (simp add: word_at_def algebra_simps)
qed

text \<open>
  The part behind the allocation: the block \<open>lba\<close> becomes the first of the directory, the entry at \<open>q\<close> is written to
  its sector and the size grows by the entry.
\<close>

lemma new_block_entry_ok:
  assumes "disk_ready (cur_disk s) s" "lba \<le> max_lba" "io \<noteq> NULL" "q \<noteq> NULL"
    and sep: "rng ab 4 \<inter> (rng i 76 \<union> rng io 512 \<union> rng q 24) = {}" "rng i 76 \<inter> (rng io 512 \<union> rng q 24) = {}" "rng io 512 \<inter> rng q 24 = {}"
  shows "\<exists>s'. new_block_entry i 24 ab 0 q io (set_i_sector i 0 lba (set_block ab 0 lba s)) = Inr (Some True, s') \<and>
    i_sectors (kmem s') i 0 = lba \<and> i_size (kmem s') i = i_size (kmem s) i + 24 \<and>
    (\<forall>a. a \<notin> rng ab 4 \<union> rng i 76 \<union> rng io 512 \<longrightarrow> kmem s' a = kmem s a) \<and>
    data_out s' = data_out s @ map (Pair (reg_data (chan (cur_disk s) s) s)) (words_at (entry_sector io q (kmem s)) io 256) \<and>
    io_log s' = io_log s @ (reg_dev (chan (cur_disk s) s) s, device_bits (cur_disk s) s) # sector_regs (cur_disk s) lba 1 s @
      [(reg_cmd (chan (cur_disk s) s) s, CMD_WRITE_SECTOR)]"
proof -
  let ?d = "cur_disk s"
  define m1 where "m1 = store32 (store32 (kmem s) ab lba) (off i 16) lba"
  define m2 where "m2 = entry_sector io q m1"
  define w where "w = wrote ?d lba io 1 (s\<lparr>kmem := m2\<rparr>)"
  have in4: "a \<in> rng (off i 16) 4 \<Longrightarrow> a \<in> rng i 76" "a \<in> rng (off i 4) 4 \<Longrightarrow> a \<in> rng i 76" for a
    using inode_word [of 16 a i] inode_word [of 4 a i] by simp_all
  have m1: "m1 a = kmem s a" if "a \<notin> rng ab 4" "a \<notin> rng (off i 16) 4" for a using that by (simp add: m1_def store32_outside)
  have m2: "m2 a = m1 a" if "a \<notin> rng io 512" for a using that by (simp add: m2_def entry_sector_outside)
  have "load32 m2 ab = load32 m1 ab" using sep by (intro load32_cong m2) blast
  also have "\<dots> = load32 (store32 (kmem s) ab lba) ab" unfolding m1_def using sep(1) in4 by (intro load32_cong store32_outside) blast
  finally have lba: "load32 m2 ab = lba" by simp
  have ready: "disk_ready ?d (s\<lparr>kmem := m2\<rparr>)" using assms(1) by simp
  have "m2 a = kmem s a" if "a \<in> rng (off i (4 * 1)) 4" for a
  proof -
    have a: "a \<in> rng i 76" "a \<notin> rng (off i 16) 4" using that word_apart [of 1 4 a i] in4(2) [of a] by simp_all
    then have "a \<notin> rng ab 4" "a \<notin> rng io 512" using sep by blast+
    then show ?thesis using a m1 m2 by simp
  qed
  then have size2: "i_size m2 i = i_size (kmem s) i" unfolding i_size_def by (intro load32_cong) simp
  have "new_block_entry i 24 ab 0 q io (set_i_sector i 0 lba (set_block ab 0 lba s)) =
    Inr (Some True, w\<lparr>kmem := store32 m2 (off i 4) (i_size (kmem s) i + 24)\<rparr>)"
  proof -
    have k: "set_i_sector i 0 lba (set_block ab 0 lba s) = s\<lparr>kmem := m1\<rparr>"
      by (simp add: set_i_sector_def set_block_def i_sector_0 m1_def)
    have "kmem w = m2" by (simp add: w_def wrote_fields)
    then show ?thesis unfolding new_block_entry_def k entry_sector_eq [OF sep(3) assms(3,4)]
      using lba size2 by (simp add: write_and_grow_def cur_disk_def w_def after_write [OF ready [unfolded cur_disk_def] assms(2)] flip: m2_def)
  qed
  moreover have "i_sectors (store32 m2 (off i 4) x) i 0 = lba" for x
  proof -
    have "i_sectors (store32 m2 (off i 4) x) i 0 = load32 m2 (off i 16)"
      using load32_store32_apart [of 4 1 m2 i x] by (simp add: i_sectors_def i_sector_0)
    also have "\<dots> = load32 m1 (off i 16)" using sep in4 by (intro load32_cong m2) blast
    finally show ?thesis by (simp add: m1_def)
  qed
  moreover have "i_size (store32 m2 (off i 4) x) i = x" for x by (simp add: i_size_def)
  moreover have "store32 m2 (off i 4) x a = kmem s a" if "a \<notin> rng ab 4 \<union> rng i 76 \<union> rng io 512" for a x
    using that in4 m1 m2 by (subst store32_outside) auto
  moreover have "words_at m2 io 256 = words_at (entry_sector io q (kmem s)) io 256"
  proof (rule words_at_cong)
    fix k assume "k < 2 * (256 :: nat)"
    moreover have "m1 (off q k) = kmem s (off q k)" if "k < 24"
      using that off_in_rng [of k 24 q] sep in4 by (intro m1) auto
    ultimately show "m2 (off io k) = entry_sector io q (kmem s) (off io k)" by (simp add: m2_def entry_sector_bytes)
  qed
  moreover have "size_in_byte (ucast (1 :: u32)) div 2 = 256" by (simp add: size_in_byte_def)
  ultimately show ?thesis
    by (intro exI [of _ "w\<lparr>kmem := store32 m2 (off i 4) (i_size (kmem s) i + 24)\<rparr>"])
      (simp add: w_def wrote_fields chan_def reg_defs sector_regs_def device_bits_def)
qed

section \<open>A free place in a block\<close>

text \<open>The type of entry number \<open>j\<close> in the bytes of a sector.\<close>

definition entry_type :: "u8 list \<Rightarrow> nat \<Rightarrow> u32" where
  "entry_type xs j = load32 (\<lambda>a. xs ! unat a) (word_of_nat (24 * j + 20))"

lemma entry_type_mem:
  assumes "\<And>t. t < 512 \<Longrightarrow> m (off io t) = xs ! t" "j < 21"
  shows "load32 m (off io (24 * j + 20)) = entry_type xs j"
proof -
  have "m (off io (24 * j + 20) + word_of_nat r) = xs ! unat (word_of_nat (24 * j + 20) + word_of_nat r :: u32)" if "r < 4" for r
  proof -
    have a: "off io (24 * j + 20) + word_of_nat r = off io (24 * j + 20 + r)" by (simp add: algebra_simps)
    have u: "unat (word_of_nat (24 * j + 20) + word_of_nat r :: u32) = 24 * j + 20 + r"
      using that assms(2) unat_word_of_nat_u32 [of "24 * j + 20 + r"] by (simp flip: of_nat_add)
    show ?thesis unfolding a u by (rule assms(1)) (use that assms(2) in simp)
  qed
  from this [of 0] this [of 1] this [of 2] this [of 3] show ?thesis by (simp add: load32_def entry_type_def)
qed

lemma free_slot_at:
  assumes "k < n" "P k" "\<And>j. j < k \<Longrightarrow> \<not> P j"
  shows "free_slot P n 0 = k"
proof -
  have f: "free_slot P n 0 < n \<Longrightarrow> P (free_slot P n 0)" "\<And>j. j < free_slot P n 0 \<Longrightarrow> \<not> P j" using free_slot_least [of 0 n P] by auto
  show ?thesis using f assms by (metis less_trans linorder_neqE_nat)
qed

lemma free_entry_first:
  assumes "\<And>t. t < 512 \<Longrightarrow> m (off io t) = xs ! t" "k < 21" "entry_type xs k = FT_UNKNOWN" "\<And>j. j < k \<Longrightarrow> entry_type xs j \<noteq> FT_UNKNOWN"
  shows "free_entry 21 m io = Inr (Some (off io (24 * k)))"
proof -
  let ?f = "\<lambda>i. load32 m (io + sizeof_dir_entry * word_of_nat i + 20) = FT_UNKNOWN"
  have f: "?f j \<longleftrightarrow> entry_type xs j = FT_UNKNOWN" if "j < 21" for j
    using entry_type_mem [OF assms(1) that] by (simp add: sizeof_dir_entry_def add.assoc)
  have "free_slot ?f 21 0 = k" using assms(2-4) f by (intro free_slot_at) auto
  then show ?thesis using assms(2) by (simp add: free_entry_def Let_def sizeof_dir_entry_def)
qed

text \<open>The memory after the entry at \<open>q\<close> has been copied to \<open>e\<close>.\<close>

definition with_entry :: "u32 \<Rightarrow> u32 \<Rightarrow> mem \<Rightarrow> mem" where
  "with_entry e q m = (\<lambda>a. if a \<in> rng e 24 then m (q + (a - e)) else m a)"

lemma with_entry_eq:
  assumes "e \<notin> rng q 24" "e \<noteq> NULL" "q \<noteq> NULL"
  shows "memcpy m e q 24 = Inr (with_entry e q m)"
proof -
  have "24 \<le> unat (e - q)" using assms(1) by (simp add: rng_def)
  then show ?thesis using assms(2,3) memcpy_loop_eq [of 24 e q m] by (simp add: memcpy_def with_entry_def)
qed

lemma with_entry_bytes:
  assumes "k < 21" "t < 512"
  shows "with_entry (off io (24 * k)) q m (off io t) = (if 24 * k \<le> t \<and> t < 24 * k + 24 then m (off q (t - 24 * k)) else m (off io t))"
proof -
  have "off io t \<in> rng (off io (24 * k)) 24 \<longleftrightarrow> 24 * k \<le> t \<and> t < 24 * k + 24" using assms by (intro off_in_rng_off) simp_all
  moreover have "off io t - off io (24 * k) = word_of_nat (t - 24 * k)" if "24 * k \<le> t" using that by (simp add: of_nat_diff)
  ultimately show ?thesis by (simp add: with_entry_def del: of_nat_mult)
qed

text \<open>The sector with the entry in place \<open>k\<close>.\<close>

definition put_entry :: "nat \<Rightarrow> u8 list \<Rightarrow> u8 list \<Rightarrow> u8 list" where
  "put_entry k es xs = take (24 * k) xs @ es @ drop (24 * k + 24) xs"

lemma put_entry_nth:
  assumes "k < 21" "length xs = 512" "length es = 24" "t < 512"
  shows "put_entry k es xs ! t = (if 24 * k \<le> t \<and> t < 24 * k + 24 then es ! (t - 24 * k) else xs ! t)" "length (put_entry k es xs) = 512"
  using assms by (auto simp: put_entry_def nth_append)

lemma le_bytes_nth: "j < length ws \<Longrightarrow> le_bytes ws ! (2 * j) = ucast (ws ! j) \<and> le_bytes ws ! (2 * j + 1) = ucast (drop_bit 8 (ws ! j))"
proof (induction ws arbitrary: j)
  case (Cons w ws)
  then show ?case by (cases j) (simp_all add: le_bytes_def)
qed simp

lemma sector_with_entry:
  assumes "\<And>t. t < 512 \<Longrightarrow> m (off io t) = xs ! t" "k < 21" "length xs = 512"
  shows "le_bytes (words_at (with_entry (off io (24 * k)) q m) io 256) = put_entry k (map (\<lambda>t. m (off q t)) [0..<24]) xs"
proof (rule nth_equalityI)
  let ?es = "map (\<lambda>t. m (off q t)) [0..<24]"
  have l: "length (put_entry k ?es xs) = 512" using assms(2,3) put_entry_nth(2) [of k xs ?es 0] by simp
  then show "length (le_bytes (words_at (with_entry (off io (24 * k)) q m) io 256)) = length (put_entry k ?es xs)" by (simp add: words_at_def)
  fix t assume "t < length (le_bytes (words_at (with_entry (off io (24 * k)) q m) io 256))"
  then have t: "t < 512" by (simp add: words_at_def)
  have e: "?es ! (t - 24 * k) = m (off q (t - 24 * k))" if "24 * k \<le> t" "t < 24 * k + 24"
    using that by (subst nth_map) (auto simp del: of_nat_diff of_nat_mult)
  have "le_bytes (words_at (with_entry (off io (24 * k)) q m) io 256) ! t = with_entry (off io (24 * k)) q m (off io t)"
    using t by (simp add: words_bytes del: of_nat_mult)
  also have "\<dots> = put_entry k ?es xs ! t"
    using e t assms(1) [OF t] put_entry_nth(1) [OF assms(2,3), of ?es t] unfolding with_entry_bytes [OF assms(2) t] by (auto simp del: of_nat_mult of_nat_diff)
  finally show "le_bytes (words_at (with_entry (off io (24 * k)) q m) io 256) ! t = put_entry k ?es xs ! t" .
qed

lemma cur_part_more: "idesys.more s' = idesys.more s \<Longrightarrow> cur_part s' = cur_part s" for s :: "'a dirsys_scheme"
  by (cases s; cases s') simp

section \<open>Property\<close>

text \<open>
  C39: \<^verbatim>\<open>sync_dir_entry\<close> on a directory whose first block has a free place, whatever the three-argument assertion does:
  the routine reads the block with one command, puts the entry into the first free place of the sector in memory and goes on to
  write the sector back. When the interrupt of the read has come, the write returns: the controller has got one more command,
  for the same sector, and the sector it got is the one it delivered with the entry in this place and no other byte changed;
  the size of the directory has grown by the entry, and memory has changed only in the size, in the sector buffer and in the
  table on the stack.
\<close>
theorem sync_dir_entry_free_place:
  assumes i: "i = dir_inode (kmem s) parent_dir" "dir_entry_size (part_sb (cur_part s) s) = 24" "i_size (kmem s) i mod 24 = 0"
    and lba: "lba = i_sectors (kmem s) i 0" "lba \<noteq> 0" "lba \<le> max_lba"
    and disk: "d = cur_disk s" "c = chan d s" "disk_ready d s" "status_read c 3 s AND BIT_ALT_STAT_BSY = 0" "status_read c 4 s AND BIT_ALT_STAT_DRQ \<noteq> 0"
    and irq: "n < 2" "c = channel_at n s" "irq_no (ide_channels s c) = 0x2e + word_of_nat n" "list_empty (sema_waiters (disk_done c)) s"
    and xs: "xs = le_bytes (port_words (reg_data c s) 256 s)" "k < 21" "entry_type xs k = FT_UNKNOWN" "\<And>j. j < k \<Longrightarrow> entry_type xs j \<noteq> FT_UNKNOWN"
    and sep: "ab = local_addr s ''all_blocks''" "rng ab 560 \<inter> (rng i 76 \<union> rng io 512 \<union> rng p_de 24) = {}"
      "rng i 76 \<inter> (rng io 512 \<union> rng p_de 24) = {}" "rng io 512 \<inter> rng p_de 24 = {}" "NULL \<notin> rng io 512" "p_de \<noteq> NULL"
  shows "\<exists>u v s'. sync_dir_entry assert3 parent_dir p_de io s = write_and_grow i 24 lba io u \<and>
    intr_hd_handler (0x2e + word_of_nat n) u = Inr v \<and> write_and_grow i 24 lba io v = Inr (Some True, s') \<and>
    io_log s' = io_log s @ (reg_dev c s, device_bits d s) # sector_regs d lba 1 s @ (reg_cmd c s, CMD_READ_SECTOR) #
      (reg_dev c s, device_bits d s) # sector_regs d lba 1 s @ [(reg_cmd c s, CMD_WRITE_SECTOR)] \<and>
    le_bytes (map snd (drop (length (data_out s)) (data_out s'))) = put_entry k (map (\<lambda>t. kmem s (off p_de t)) [0..<24]) xs \<and>
    i_size (kmem s') i = i_size (kmem s) i + 24 \<and> (\<forall>a. a \<notin> rng ab 560 \<union> rng (i + 4) 4 \<union> rng io 512 \<longrightarrow> kmem s' a = kmem s a)"
proof -
  define m0 where "m0 = load_blocks ab i (kmem s)"
  define m1 where "m1 = put_bytes m0 io xs"
  define m2 where "m2 = with_entry (off io (24 * k)) p_de m1"
  let ?s0 = "s\<lparr>kmem := m0\<rparr>"
  let ?s1 = "did_read d lba io 1 ?s0"
  have lx: "length xs = 512" by (simp add: xs(1) port_words_def)
  have m0: "m0 a = kmem s a" if "a \<notin> rng ab 560" for a using that by (simp add: m0_def load_blocks_outside)
  have m1: "m1 a = m0 a" if "a \<notin> rng io 512" for a using that lx by (simp add: m1_def put_bytes_outside)
  have sec: "m1 (off io t) = xs ! t" if "t < 512" for t using that lx put_bytes_nth [of t xs m0 io] by (simp add: m1_def)
  have e: "off io (24 * k) \<in> rng io 512" using xs(2) by (intro off_in_rng) simp_all
  have "rng (off io (24 * k)) 24 \<subseteq> rng io 512" using rng_within [of "24 * k" 24 512 _ io] xs(2) by auto
  then have m2: "m2 a = m1 a" if "a \<notin> rng io 512" for a using that by (auto simp: m2_def with_entry_def)
  have l0: "load32 m0 ab = lba" using load_blocks_nth [of i ab 0 "kmem s"] sep(2) lba(1) by (auto simp: m0_def)
  have ab4: "rng ab 4 \<subseteq> rng ab 560" by (rule rng_mono) simp
  have l2: "load32 m2 ab = lba"
    unfolding l0 [symmetric] using sep(2) ab4 m1 m2 by (intro load32_cong) fastforce
  have c0: "chan d ?s0 = c" "disk_ready d ?s0" using disk by (simp_all add: kmem_ide)
  have kr: "kmem ?s1 = m1" "size_in_byte (ucast (1 :: u32)) div 2 = 256"
    by (simp_all add: did_read_fields [OF c0(1) [symmetric]] kmem_ide m1_def xs(1) size_in_byte_def port_words_def)
  define u where "u = ?s1\<lparr>kmem := m2\<rparr>"
  have run: "sync_dir_entry assert3 parent_dir p_de io s = write_and_grow i 24 lba io u"
  proof -
    have z: "lba \<noteq> 0" "unat (512 div 24 :: u32) = 21" using lba(2) by simp_all
    have mc: "memcpy m1 (off io (24 * k)) p_de 24 = Inr m2"
      unfolding m2_def using e sep(4-6) by (intro with_entry_eq) auto
    have d0: "cur_disk ?s0 = d" using disk(1) by (simp add: kmem_ide)
    have "sync_dir_entry assert3 parent_dir p_de io s = sync_blocks (Suc 139) assert3 i 24 ab p_de io ?s0"
      using i sep(1) by (simp add: sync_dir_entry_def Let_def m0_def del: sync_blocks.simps)
    also have "\<dots> = write_and_grow i 24 lba io u"
      unfolding sync_blocks.simps using z l0 l2 d0 mc free_entry_first [of m1 io xs k, OF sec xs(2-4)]
      by (simp add: after_read [OF c0(2) lba(3)] kr mem_step_def u_def del: of_nat_mult)
    finally show ?thesis .
  qed
  obtain v where v: "intr_hd_handler (0x2e + word_of_nat n) u = Inr v" "disk_ready d v" "kmem v = m2" "io_log v = io_log ?s1" "data_out v = data_out s"
    "partitions v = partitions s" "disks v = disks s" "port_base (ide_channels v c) = port_base (ide_channels s c)" "idesys.more v = idesys.more s"
    using ready_after_interrupt [OF c0(2) c0(1) [symmetric], where n = n and lba = lba and b = io and m = m2] disk(4,5) irq unfolding u_def
    by (auto simp: status_read_def reg_status_def channel_at_def list_empty_def)
  have cv: "cur_disk v = d" "chan d v = c" using disk(1,2) v(6,7) cur_part_more [OF v(9)] by (simp_all add: cur_disk_def chan_def)
  have rv: "reg_dev c v = reg_dev c s" "reg_cmd c v = reg_cmd c s" "device_bits d v = device_bits d s" "sector_regs d lba 1 v = sector_regs d lba 1 s"
    using v(7,8) cv(2) disk(2) by (simp_all add: reg_defs device_bits_def sector_regs_def)
  define s' where "s' = (wrote d lba io 1 v)\<lparr>kmem := store32 m2 (i + 4) (i_size m2 i + 24)\<rparr>"
  have "write_and_grow i 24 lba io v = Inr (Some True, s')"
    by (simp add: write_and_grow_def cv(1) after_write [OF v(2) lba(3)] wrote_fields v(3) s'_def)
  moreover have "io_log s' = io_log v @ (reg_dev c s, device_bits d s) # sector_regs d lba 1 s @ [(reg_cmd c s, CMD_WRITE_SECTOR)]"
    by (simp add: s'_def wrote_fields cv(2) rv)
  then have "io_log s' = io_log s @ (reg_dev c s, device_bits d s) # sector_regs d lba 1 s @ (reg_cmd c s, CMD_READ_SECTOR) #
      (reg_dev c s, device_bits d s) # sector_regs d lba 1 s @ [(reg_cmd c s, CMD_WRITE_SECTOR)]"
    by (simp add: v(4) did_read_fields [OF c0(1) [symmetric]] kmem_ide)
  moreover have "le_bytes (map snd (drop (length (data_out s)) (data_out s'))) = put_entry k (map (\<lambda>t. kmem s (off p_de t)) [0..<24]) xs"
  proof -
    have "m1 (off p_de t) = kmem s (off p_de t)" if "t < 24" for t
    proof -
      have "off p_de t \<in> rng p_de 24" using that by (intro off_in_rng) simp_all
      then have "off p_de t \<notin> rng ab 560" "off p_de t \<notin> rng io 512" using sep(2,4) by blast+
      then show ?thesis using m0 m1 by simp
    qed
    then have a: "map (\<lambda>t. m1 (off p_de t)) [0..<24] = map (\<lambda>t. kmem s (off p_de t)) [0..<24]" by (intro map_cong) simp_all
    have b: "map snd (drop (length (data_out s)) (data_out s')) = words_at m2 io 256"
      by (simp add: s'_def wrote_fields v(3,5) size_in_byte_def o_def)
    show ?thesis unfolding b a [symmetric] m2_def by (rule sector_with_entry [OF sec xs(2) lx])
  qed
  moreover have "i_size (kmem s') i = i_size (kmem s) i + 24"
  proof -
    have "m2 a = kmem s a" if "a \<in> rng (off i 4) 4" for a
    proof -
      have "a \<in> rng i 76" using inode_word [of 4 a i] that by simp
      then have "a \<notin> rng ab 560" "a \<notin> rng io 512" using sep(2,3) by blast+
      then show ?thesis using m0 m1 m2 by simp
    qed
    then have "i_size m2 i = i_size (kmem s) i" unfolding i_size_def by (intro load32_cong) simp
    then show ?thesis by (simp add: s'_def i_size_def)
  qed
  moreover have "kmem s' a = kmem s a" if "a \<notin> rng ab 560 \<union> rng (i + 4) 4 \<union> rng io 512" for a
    using that m0 m1 m2 by (simp add: s'_def store32_outside)
  ultimately show ?thesis using run v(1) by (intro exI [of _ u] exI [of _ v] exI [of _ s']) blast
qed

text \<open>
  A directory at 0xc0060000 whose inode at 0xc0051000 has the block 708, and an entry at 0xc0061000. In the sector that the disk delivers
  only the second entry is free.
\<close>

definition demo_dirs :: dirsys where
  "demo_dirs = filesys.extend
     (demo_files\<lparr>kmem := store32 (store32 (store32 (store32 (store32 (kmem demo_files) 0xc0050030 24) 0xc0060000 0xc0051000) 0xc0061010 9) 0xc0061014 1)
          0xc0051010 708,
        port_in := (\<lambda>port i. if port = 0x1f7 then 8 else if i \<in> {22, 23} then 0 else word_of_nat i)\<rparr>)
     \<lparr>root_dir = 0xc0063000\<rparr>"

lemma demo_dirs_disk:
  "chan 0xc0020040 demo_dirs = 0xc0020000" "ide_channels demo_dirs = ide_channels demo_ide" "channel_at 0 demo_dirs = 0xc0020000"
  "in_pos demo_dirs = in_pos demo_ide" "port_in demo_dirs = (\<lambda>port i. if port = 0x1f7 then 8 else if i \<in> {22, 23} then 0 else word_of_nat i)"
  "running_thread demo_dirs = running_thread demo_ide" "sema_value demo_dirs = sema_value demo_ide" "lock_holder demo_dirs = lock_holder demo_ide"
  "lock_repeat demo_dirs = lock_repeat demo_ide" "lheap demo_dirs = lheap demo_fs"
  using demo_ide_facts(1)
  by (simp_all add: demo_dirs_def demo_files_def demo_fs_def filesys.defs fssys.defs idesys.defs chan_def channel_at_def running_thread_def)
    (subst demo_ide_eq, simp add: demo_disks_def callsys.defs)

lemma demo_dirs_ready: "disk_ready 0xc0020040 demo_dirs" "list_empty (sema_waiters (disk_done 0xc0020000)) demo_dirs"
  "status_read 0xc0020000 i demo_dirs = 8" "in_pos demo_dirs 0x1f0 = 0" "reg_data 0xc0020000 demo_dirs = 0x1f0" "irq_no (ide_channels demo_dirs 0xc0020000) = 0x2e"
proof -
  have p: "ide_channels demo_ide c = \<lparr>port_base = 0x1f0, irq_no = 0x2e, expecting_intr = False\<rparr>" "in_pos demo_ide q = 0" for c q
    by (subst demo_ide_eq, simp add: demo_disks_def callsys.defs)+
  show st: "status_read 0xc0020000 i demo_dirs = 8" "in_pos demo_dirs 0x1f0 = 0" "reg_data 0xc0020000 demo_dirs = 0x1f0"
      "irq_no (ide_channels demo_dirs 0xc0020000) = 0x2e" for i
    by (simp_all add: status_read_def reg_defs demo_dirs_disk p)
  have l: "lheap demo_fs x = lheap demo_ide x" if "x \<notin> {0xc0040030, 0xc0051044, 0xc0040038}" for x
    using that by (simp add: demo_fs_def idesys.defs)
  then show "list_empty (sema_waiters (disk_done 0xc0020000)) demo_dirs"
    using demo_ide_facts(8) by (simp add: list_empty_def demo_dirs_disk disk_done_def sema_waiters_def)
  show "disk_ready 0xc0020040 demo_dirs" using demo_ide_facts(2-4) l
    by (simp add: disk_ready_def demo_dirs_disk st lock_free_def list_empty_def channel_lock_def lock_semaphore_def sema_waiters_def
        BIT_ALT_STAT_BSY_def BIT_ALT_STAT_DRQ_def)
qed

lemma demo_dirs_facts:
  "dir_inode (kmem demo_dirs) 0xc0060000 = 0xc0051000" "cur_part demo_dirs = 0xc0040000"
  "dir_entry_size (part_sb p demo_dirs) = 24" "data_start_lba (part_sb p demo_dirs) = 708"
  "i_size (kmem demo_dirs) 0xc0051000 = 0" "i_sectors (kmem demo_dirs) 0xc0051000 0 = 708"
  "cur_disk demo_dirs = 0xc0020040" "local_addr demo_dirs str = 0xc0023000"
  "block_bitmap (partitions demo_dirs p) = \<lparr>btmp_bytes_len = 512, bits = 0xc0052000\<rparr>" "sb (partitions demo_dirs p) = 0xc0050000"
  "\<not> bm_bit (kmem demo_dirs) \<lparr>btmp_bytes_len = 512, bits = 0xc0052000\<rparr> 0"
proof -
  have l: "local_addr demo_ide str = 0xc0023000" by (subst demo_ide_eq) (simp add: demo_disks_def callsys.defs)
  note defs = demo_dirs_def demo_files_def demo_fs_def filesys.defs fssys.defs idesys.defs
  show "local_addr demo_dirs str = 0xc0023000" "cur_part demo_dirs = 0xc0040000" "cur_disk demo_dirs = 0xc0020040"
    "block_bitmap (partitions demo_dirs p) = \<lparr>btmp_bytes_len = 512, bits = 0xc0052000\<rparr>" "sb (partitions demo_dirs p) = 0xc0050000"
    using l by (simp_all add: defs cur_disk_def)
  show "dir_inode (kmem demo_dirs) 0xc0060000 = 0xc0051000" "dir_entry_size (part_sb p demo_dirs) = 24" "data_start_lba (part_sb p demo_dirs) = 708"
    "i_size (kmem demo_dirs) 0xc0051000 = 0" "i_sectors (kmem demo_dirs) 0xc0051000 0 = 708"
    "\<not> bm_bit (kmem demo_dirs) \<lparr>btmp_bytes_len = 512, bits = 0xc0052000\<rparr> 0"
    by (simp_all add: defs dir_inode_def part_sb_def load_sb_def i_size_def i_sectors_def i_sector_at_def bm_bit_def load32_def store32_def)
qed

lemma demo_dirs_sector:
  defines "xs \<equiv> le_bytes (port_words 0x1f0 256 demo_dirs)"
  shows "entry_type xs 1 = FT_UNKNOWN" "entry_type xs 0 \<noteq> FT_UNKNOWN"
proof -
  have b: "xs ! (2 * j) = ucast (if j \<in> {22, 23} then 0 else word_of_nat j :: u16)" "xs ! (2 * j + 1) = ucast (drop_bit 8 (if j \<in> {22, 23} then 0 else word_of_nat j :: u16))"
    if "j < 256" for j
    using that le_bytes_nth [of j "port_words 0x1f0 256 demo_dirs"] demo_dirs_ready(4) by (simp_all add: xs_def port_words_def demo_dirs_disk(5))
  from b [of 10] b [of 11] b [of 22] b [of 23] show "entry_type xs 1 = FT_UNKNOWN" "entry_type xs 0 \<noteq> FT_UNKNOWN"
    by (simp_all add: entry_type_def load32_def FT_UNKNOWN_def)
qed

theorem sync_dir_entry_free_place_witness:
  "\<exists>u v s'. sync_dir_entry (\<lambda>_ _ _ _. Inl PANIC) 0xc0060000 0xc0061000 0xc0062000 demo_dirs = write_and_grow 0xc0051000 24 708 0xc0062000 u \<and>
    intr_hd_handler (0x2e + word_of_nat 0) u = Inr v \<and> write_and_grow 0xc0051000 24 708 0xc0062000 v = Inr (Some True, s') \<and>
    i_size (kmem s') 0xc0051000 = i_size (kmem demo_dirs) 0xc0051000 + 24"
proof -
  define xs where "xs = le_bytes (port_words (reg_data 0xc0020000 demo_dirs) 256 demo_dirs)"
  have i: "0xc0051000 = dir_inode (kmem demo_dirs) 0xc0060000" "dir_entry_size (part_sb (cur_part demo_dirs) demo_dirs) = 24"
    "i_size (kmem demo_dirs) 0xc0051000 mod 24 = 0" "708 = i_sectors (kmem demo_dirs) 0xc0051000 0" "0xc0020040 = cur_disk demo_dirs"
    "0xc0023000 = local_addr demo_dirs ''all_blocks''" by (simp_all add: demo_dirs_facts)
  have l: "(708 :: u32) \<noteq> 0" "(708 :: u32) \<le> max_lba" by (simp_all add: max_lba_def)
  have d: "0xc0020000 = chan 0xc0020040 demo_dirs" "0xc0020000 = channel_at 0 demo_dirs" "irq_no (ide_channels demo_dirs 0xc0020000) = 0x2e + word_of_nat 0"
    "status_read 0xc0020000 3 demo_dirs AND BIT_ALT_STAT_BSY = 0" "status_read 0xc0020000 4 demo_dirs AND BIT_ALT_STAT_DRQ \<noteq> 0" "0 < (2 :: nat)"
    by (simp_all add: demo_dirs_disk(1,3) demo_dirs_ready(3,6) BIT_ALT_STAT_BSY_def BIT_ALT_STAT_DRQ_def)
  have x: "(1 :: nat) < 21" "entry_type xs 1 = FT_UNKNOWN" "\<And>j. j < 1 \<Longrightarrow> entry_type xs j \<noteq> FT_UNKNOWN"
    using demo_dirs_sector by (simp_all add: xs_def demo_dirs_ready(5))
  have sep: "rng 0xc0023000 560 \<inter> (rng 0xc0051000 76 \<union> rng 0xc0062000 512 \<union> rng 0xc0061000 24) = {}"
    "rng 0xc0051000 76 \<inter> (rng 0xc0062000 512 \<union> rng 0xc0061000 24) = {}" "rng 0xc0062000 512 \<inter> rng 0xc0061000 24 = {}"
    "NULL \<notin> rng 0xc0062000 512" "0xc0061000 \<noteq> NULL"
    by (auto simp: rng_interval)
  show ?thesis
    using sync_dir_entry_free_place [OF i(1-4) l i(5) d(1) demo_dirs_ready(1) d(4-6) d(2,3) demo_dirs_ready(2) xs_def x i(6) sep] by blast
qed

end
