(* ===== verification/Init.thy ===== *)
theory Init
  imports Timer Dir
begin

text \<open>
  The start of the kernel: \<^verbatim>\<open>init_all\<close> of \<^verbatim>\<open>kernel/init.c\<close>, which runs the initialisation of every component
  in order, and \<^verbatim>\<open>main\<close> of \<^verbatim>\<open>kernel/main.c\<close> up to its endless loop; before them the ends of a failed kernel, the handler of
  exceptions and \<^verbatim>\<open>panic_spin\<close>.
\<close>

section \<open>Exceptions\<close>

text \<open>
  \<^verbatim>\<open>general_intr_handler\<close> of \<^verbatim>\<open>kernel/interrupt.c\<close>. A general protection fault prints the saved EIP and
  returns; any other vector prints its name, a page fault also the address in CR2, and spins.
  \<open>exception_screen\<close> is the state in which it spins; the cursor is moved in \<open>exception_vga\<close> of \<open>Screen\<close>.
\<close>

definition exception_screen :: "u8 \<Rightarrow> u32 \<Rightarrow> 'a devsys_scheme \<Rightarrow> 'a devsys_scheme" where
  "exception_screen vec_nr cr2 s =
     (let s = put_lit (replicate 320 CHR '' '') s;
          s = put_lit ''!!!!!!    exception message begin    !!!!!\<newline>'' s;
          s = put_lit (intr_name s ! unat vec_nr) s;
          s = (if vec_nr = 14 then put_int cr2 (put_lit ''\<newline>page fault addr is '' s) else s)
      in put_lit ''\<newline>!!!!!   exception message end !!!!!!\<newline>'' s)"

definition general_intr_handler :: "u8 \<Rightarrow> 'a devsys_scheme \<Rightarrow> 'a devsys_scheme res" where
  "general_intr_handler vec_nr s =
     (if vec_nr = 0xd then
        Inr (put_lit ''\<newline>'' (put_int (load32 (kmem s) 0xc009efd4) (put_lit ''The mistake's occured address(eip) is : '' s)))
      else Inl SPIN)"

text \<open>
  \<^verbatim>\<open>panic_spin\<close> of \<^verbatim>\<open>kernel/debug.c\<close>, where \<^verbatim>\<open>PANIC\<close> and a failed \<^verbatim>\<open>ASSERT\<close> end: the state in which it spins, with
  interrupts off and the place of the failure on the screen.
\<close>

definition panic_spin :: "u32 \<Rightarrow> u32 \<Rightarrow> u32 \<Rightarrow> u32 \<Rightarrow> 'a devsys_scheme \<Rightarrow> 'a devsys_scheme res" where
  "panic_spin filename line func condition s =
     (let s = put_lit ''\<newline>\<newline>\<newline>!!!error!!!\<newline>'' (snd (intr_disable s)) in
      kbind (put_str filename (put_lit ''filename:'' s)) (\<lambda>s.
      let s = put_lit ''\<newline>'' (put_int line (put_lit ''line:0x'' (put_lit ''\<newline>'' s))) in
      kbind (put_str func (put_lit ''function:'' s)) (\<lambda>s.
      kbind (put_str condition (put_lit ''condition:'' (put_lit ''\<newline>'' s))) (\<lambda>s. Inr (put_lit ''\<newline>'' s)))))"

lemma panic_spin_shows:
  assumes "cstr (kmem s) filename f" "cstr (kmem s) func g" "cstr (kmem s) condition c"
  shows "\<exists>s'. panic_spin filename line func condition s = Inr s' \<and> intr_get_status s' = INTR_OFF \<and> kmem s' = kmem s \<and>
    screen s' = screen s @ map of_char ''\<newline>\<newline>\<newline>!!!error!!!\<newline>filename:'' @ f @ map of_char ''\<newline>line:0x'' @ hex_digits line @
      map of_char ''\<newline>function:'' @ g @ map of_char ''\<newline>condition:'' @ c @ [0x0a]"
proof -
  have "screen (snd (intr_disable s)) = screen s" "kmem (snd (intr_disable s)) = kmem s" by (simp_all add: intr_disable_def cli_def Let_def)
  moreover have "intr_get_status (snd (intr_disable s)) = INTR_OFF" by simp
  ultimately show ?thesis using str_at_cstr [OF assms(1)] str_at_cstr [OF assms(2)] str_at_cstr [OF assms(3)]
    by (simp add: panic_spin_def put_lit_def put_str_def put_int_def Let_def intr_get_status_def)
qed

section \<open>Starting the components\<close>

text \<open>The addresses of the routines that are entered through tables and stacks.\<close>

record entry_points =
  intr_entry_table :: "nat \<Rightarrow> intr_handler"
  syscall_entry :: intr_handler
  general_entry :: intr_handler
  timer_entry :: intr_handler
  keyboard_entry :: intr_handler
  hd_entry :: intr_handler
  idle_entry :: u32

text \<open>
  The part before the disk, with the scheduler between: \<^verbatim>\<open>idt_init\<close> to \<^verbatim>\<open>mem_init\<close>, then \<^verbatim>\<open>thread_init\<close>,
  then \<^verbatim>\<open>console_init\<close> to \<^verbatim>\<open>syscall_init\<close>.
\<close>

definition init_machine :: "entry_points \<Rightarrow> 'a dirsys_scheme \<Rightarrow> 'a dirsys_scheme res" where
  "init_machine e s =
     kbind (timer_init (timer_entry e) (idt_init (intr_entry_table e) (syscall_entry e) (general_entry e) (put_lit ''init_all\<newline>'' s))) mem_init"

definition init_devices :: "entry_points \<Rightarrow> 'a dirsys_scheme \<Rightarrow> 'a dirsys_scheme res" where
  "init_devices e s = kbind (keyboard_init (keyboard_entry e) (console_init s)) (\<lambda>s. Inr (syscall_init (tss_init s)))"

definition init_all :: "entry_points \<Rightarrow> 'a dirsys_scheme \<Rightarrow> (unit option \<times> 'a dirsys_scheme) res" where
  "init_all e s =
     kbind (init_machine e s)
       (after_call (F_at ''init_all'' []) (thread_init (idle_entry e))
         (\<lambda>_ s. kbind (init_devices e s)
           (after_call (F_at ''init_all'' []) (ide_init (hd_entry e)) (\<lambda>_. filesys_init))))"

definition kernel_main :: "entry_points \<Rightarrow> 'a dirsys_scheme \<Rightarrow> (unit option \<times> 'a dirsys_scheme) res" where
  "kernel_main e s =
     after_call (F_at ''main'' []) (init_all e) (\<lambda>_ s. Inr (Some (), snd (intr_enable s))) (put_lit ''I am kernel\<newline>'' s)"

text \<open>After the device initialisation the console is free, the system calls are in place and the keyboard has its handler.\<close>

lemma console_init_free: "lock_free (console_lock s) (console_init s)"
  by (simp add: console_init_def lock_free_def lock_init_def sema_init_def list_init_def list_empty_def set_next_def set_prev_def
      set_sema_def set_repeat_def set_holder_def)

lemma init_devices_ok:
  assumes "length (syscall_table s) = syscall_nr" "length (idt_table s) = IDT_DESC_CNT"
  shows "\<exists>s'. init_devices e s = Inr s' \<and> table_ok s' \<and> idt_table s' ! 0x21 = keyboard_entry e"
proof -
  let ?s1 = "ioqueue_init (kbd_buf (console_init s)) (put_lit ''keyboard init start\<newline>'' (console_init s))"
  obtain s2 where k: "keyboard_init (keyboard_entry e) (console_init s) = Inr s2" "idt_table s2 = (idt_table ?s1)[0x21 := keyboard_entry e]"
    "syscall_table s2 = syscall_table ?s1"
    by (auto simp: keyboard_init_def register_handler_def IDT_DESC_CNT_def put_lit_def)
  have "syscall_table ?s1 = syscall_table s" "idt_table ?s1 = idt_table s"
    by (simp_all add: console_init_def lock_init_def sema_init_def list_init_def set_sema_def set_repeat_def set_holder_def put_lit_def ioqueue_init_def ioq_upd_def)
  then have "length (syscall_table (tss_init s2)) = syscall_nr" "idt_table (syscall_init (tss_init s2)) = (idt_table s)[0x21 := keyboard_entry e]"
    using k assms by (simp_all add: tss_init_def put_lit_def Let_def syscall_init_def)
  then show ?thesis using syscall_init_table [of "tss_init s2"] k(1) assms(2) by (auto simp: init_devices_def IDT_DESC_CNT_def)
qed

end
