(* ===== verification/Programs.thy ===== *)
theory Programs
  imports Init Heap
begin

text \<open>
  The threads and user programs at the end of \<^verbatim>\<open>kernel/main.c\<close>, which exercise the heap: each takes three blocks, shows
  their addresses and returns them. \<^verbatim>\<open>main\<close> starts none of them at this commit. The counting loop
  before the release has no effect on the state; the value is the state in which the final loop spins.
\<close>

section \<open>The programs\<close>

text \<open>Calls without a result, one after the other.\<close>

primrec calls :: "kframe \<Rightarrow> ('s tsys_scheme \<Rightarrow> (unit option \<times> 's tsys_scheme) res) list \<Rightarrow> 's tsys_scheme \<Rightarrow> (unit option \<times> 's tsys_scheme) res" where
  "calls fr [] s = Inr (Some (), s)"
| "calls fr (f # fs) s = after_call fr f (\<lambda>_. calls fr fs) s"

definition show_and_free :: "string \<Rightarrow> string \<Rightarrow> u32 \<Rightarrow> u32 \<Rightarrow> u32 \<Rightarrow> 'a dirsys_scheme \<Rightarrow> (unit option \<times> 'a dirsys_scheme) res" where
  "show_and_free self str addr1 addr2 addr3 s =
     calls (F_at self [addr1, addr2, addr3])
       [console_put_str (lit_addr s str), console_put_int addr1, console_put_char 0x2c,
        console_put_int addr2, console_put_char 0x2c,
        console_put_int addr3, console_put_char 0x0a,
        sys_free addr1, sys_free addr2, sys_free addr3] s"

definition malloc_thread :: "string \<Rightarrow> string \<Rightarrow> 'a dirsys_scheme \<Rightarrow> (unit option \<times> 'a dirsys_scheme) res" where
  "malloc_thread self str s =
     after_call (F_at self []) (sys_malloc 256) (\<lambda>addr1.
     after_call (F_at self [addr1]) (sys_malloc 255) (\<lambda>addr2.
     after_call (F_at self [addr1, addr2]) (sys_malloc 254) (show_and_free self str addr1 addr2))) s"

definition k_thread_a :: "u32 \<Rightarrow> 'a dirsys_scheme \<Rightarrow> (unit option \<times> 'a dirsys_scheme) res" where
  "k_thread_a arg = malloc_thread ''k_thread_a'' '' thread_a malloc addr:0x''"

definition k_thread_b :: "u32 \<Rightarrow> 'a dirsys_scheme \<Rightarrow> (unit option \<times> 'a dirsys_scheme) res" where
  "k_thread_b arg = malloc_thread ''k_thread_b'' '' thread_b malloc addr:0x''"

text \<open>The user programs do the same through system calls.\<close>

definition malloc_prog :: "string \<Rightarrow> string \<Rightarrow> 'a dirsys_scheme \<Rightarrow> (unit option \<times> 'a dirsys_scheme) res" where
  "malloc_prog self format s =
     after_call (F_at self []) (malloc 256) (\<lambda>addr1.
     after_call (F_at self [addr1]) (malloc 255) (\<lambda>addr2.
     after_call (F_at self [addr1, addr2]) (malloc 254) (\<lambda>addr3.
     after_call (F_at self [addr1, addr2, addr3]) (printf_lit format [addr1, addr2, addr3]) (\<lambda>_.
       calls (F_at self [addr1, addr2, addr3]) [free addr1, free addr2, free addr3])))) s"

definition u_prog_a :: "'a dirsys_scheme \<Rightarrow> (unit option \<times> 'a dirsys_scheme) res" where
  "u_prog_a = malloc_prog ''u_prog_a'' '' prog_a malloc addr:0x%x, 0x%x, 0x%x\<newline>''"

definition u_prog_b :: "'a dirsys_scheme \<Rightarrow> (unit option \<times> 'a dirsys_scheme) res" where
  "u_prog_b = malloc_prog ''u_prog_b'' '' prog_b malloc addr:0x%x, 0x%x, 0x%x\<newline>''"

section \<open>Showing\<close>

lemma console_put_free:
  assumes "lock_free (console_lock s) s" "running_thread s \<noteq> NULL"
  shows "console_put_char c s = Inr (Some (), s\<lparr>screen := screen s @ [c]\<rparr>)"
    "console_put_int num s = Inr (Some (), s\<lparr>screen := screen s @ hex_digits num\<rparr>)"
  using assms(1)
  by (simp_all add: console_put_char_def console_put_int_def after_lock_free [OF assms] console_put_char_locked_def console_put_int_locked_def
      put_char_def put_int_def console_release_def console_fields screen_locked locked_screen release_locked lock_free_screen)

lemma after_show:
  assumes "\<And>t. lock_free (console_lock t) t \<Longrightarrow> running_thread t \<noteq> NULL \<Longrightarrow> kmem t = kmem s \<Longrightarrow> f t = Inr (Some (), t\<lparr>screen := screen t @ ys\<rparr>)"
    and "lock_free (console_lock s) s" "running_thread s \<noteq> NULL"
  shows "after_call fr f k s = k () (s\<lparr>screen := screen s @ ys\<rparr>)"
proof -
  let ?p = "push_frame (running_thread s) fr s"
  have e: "f ?p = Inr (Some (), push_frame (running_thread s) fr (s\<lparr>screen := screen s @ ys\<rparr>))"
    using assms(1) [of ?p] assms(2,3) by (simp add: push_fields)
  show ?thesis by (rule after_call_returns [where f = f, OF e]) (simp add: running_thread_def)
qed

section \<open>A thread on the heap\<close>

text \<open>
  The class of 256 bytes at \<open>d\<close>, and the state between the calls: \<open>ts\<close> are the blocks the thread has, \<open>bs\<close> the free ones, all
  of them apart from the lists and from the text \<open>xs\<close> at \<open>p\<close>, which is apart from the lists too.
\<close>

definition class_256 :: "u32 \<Rightarrow> 'a memsys_scheme \<Rightarrow> bool" where
  "class_256 d s \<longleftrightarrow> (\<exists>i < DESC_CNT. d = desc_at (k_block_descs s) i \<and>
     (\<forall>j < i. block_size (block_descs s (desc_at (k_block_descs s) j)) < 254)) \<and> block_size (block_descs s d) = 256 \<and> 256 < pool_size (kernel_pool s)"

definition console_waiters :: "'a consys_scheme \<Rightarrow> u32" where
  "console_waiters s = sema_waiters (lock_semaphore (console_lock s))"

definition apart :: "u32 \<Rightarrow> u32 \<Rightarrow> nat \<Rightarrow> u32 \<Rightarrow> 'a memsys_scheme \<Rightarrow> bool" where
  "apart d p l b s \<longleftrightarrow> in_class 256 b \<and> K_HEAP_START \<le> b \<and> rng (free_list d) 16 \<inter> rng b 256 = {} \<and> rng (pool_waiters s) 8 \<inter> rng b 256 = {} \<and>
     rng (console_waiters s) 8 \<inter> rng b 256 = {} \<and> rng p l \<inter> rng b 256 = {}"

definition thread_ok :: "u32 \<Rightarrow> u32 list \<Rightarrow> u32 list \<Rightarrow> u32 \<Rightarrow> u8 list \<Rightarrow> 'a memsys_scheme \<Rightarrow> bool" where
  "thread_ok d ts bs p xs s \<longleftrightarrow> heap_ready s \<and> class_256 d s \<and> free_blocks d 256 bs s \<and> lock_free (console_lock s) s \<and> cstr (kmem s) p xs \<and>
     length xs < 4294967295 \<and> rng p (Suc (length xs)) \<inter> rng (free_list d) 16 = {} \<and> console_waiters s \<notin> {list_head (free_list d), list_tail (free_list d)} \<and> distinct (ts @ bs) \<and>
     (\<forall>b \<in> set (ts @ bs). apart d p (Suc (length xs)) b s)"

lemma rng_self: "0 < n \<Longrightarrow> x \<in> rng x n"
  by (simp add: rng_def)

lemma apart_neq: "apart d p l b s \<Longrightarrow> console_waiters s \<noteq> b"
  using rng_self [of 8 "console_waiters s"] rng_self [of 256 b] by (auto simp: apart_def)

lemma apart_nodes:
  assumes "apart d p l b s" "b \<notin> set bs"
  shows "b \<notin> nodes (free_list d) bs"
proof -
  have "free_list d \<in> rng (free_list d) 16" "free_list d + 8 \<in> rng (free_list d) 16" "b \<in> rng b 256" by (simp_all add: rng_def)
  then have "b \<noteq> free_list d" "b \<noteq> free_list d + 8" using assms(1) unfolding apart_def by blast+
  then show ?thesis using assms(2) by (simp add: nodes_def)
qed

text \<open>Changes that the predicates do not see, and frames.\<close>

lemma thread_ok_screen [simp]: "thread_ok d ts bs p xs (s\<lparr>screen := y\<rparr>) = thread_ok d ts bs p xs s"
  by (simp add: thread_ok_def heap_ready_def class_256_def free_blocks_def apart_def console_waiters_def pool_waiters_def lock_free_def
      list_empty_def running_thread_def)

lemma push_heap:
  "heap_ready (push_frame r f s) = heap_ready s" "free_blocks d n bs (push_frame r f s) = free_blocks d n bs s"
  "arenas (push_frame r f s) = arenas s" "pool_waiters (push_frame r f s) = pool_waiters s" "block_descs (push_frame r f s) = block_descs s"
  "k_block_descs (push_frame r f s) = k_block_descs s" "kernel_pool (push_frame r f s) = kernel_pool s"
proof -
  have f: "arenas (push_frame r f s) = arenas s" "block_descs (push_frame r f s) = block_descs s"
    "k_block_descs (push_frame r f s) = k_block_descs s" "kernel_pool (push_frame r f s) = kernel_pool s"
    "pgdir (tasks (push_frame r f s) t) = pgdir (tasks s t)" for t
    by (simp_all add: push_frame_def task_upd_def)
  then show "arenas (push_frame r f s) = arenas s" "block_descs (push_frame r f s) = block_descs s"
    "k_block_descs (push_frame r f s) = k_block_descs s" "kernel_pool (push_frame r f s) = kernel_pool s" by simp_all
  show w: "pool_waiters (push_frame r f s) = pool_waiters s" by (simp add: pool_waiters_def f)
  show "heap_ready (push_frame r f s) = heap_ready s" by (simp add: heap_ready_def f lock_free_def list_empty_def)
  show "free_blocks d n bs (push_frame r f s) = free_blocks d n bs s" by (simp add: free_blocks_def f w push_fields)
qed

lemma push_update:
  "(push_frame r f s)\<lparr>lheap := h, kmem := m, arenas := x\<rparr> = push_frame r f (s\<lparr>lheap := h, kmem := m, arenas := x\<rparr>)"
  by (simp add: push_frame_def task_upd_def)

lemma thread_ok_cong:
  assumes "thread_ok d ts bs p xs s" "s' = s\<lparr>lheap := h, kmem := m, arenas := x\<rparr>" "heap_ready s'" "free_blocks d 256 bs' s'"
    and "h (console_waiters s) = lheap s (console_waiters s)" "cstr m p xs" "distinct (ts' @ bs')" "set (ts' @ bs') = set (ts @ bs)"
  shows "thread_ok d ts' bs' p xs s'"
proof -
  have "apart d p l b s' = apart d p l b s" "class_256 d s' = class_256 d s" "console_waiters s' = console_waiters s" for l b
    by (simp_all add: assms(2) apart_def class_256_def console_waiters_def pool_waiters_def)
  moreover have "lock_free (console_lock s') s'"
    using assms(1,5) by (simp add: assms(2) thread_ok_def lock_free_def list_empty_def console_waiters_def)
  ultimately show ?thesis using assms(1,3,4,6-8) by (simp add: thread_ok_def) (simp add: assms(2))
qed

lemma thread_ok_waiters:
  assumes "thread_ok d ts bs p xs s"
  shows "console_waiters s \<notin> nodes (free_list d) bs"
proof -
  have "console_waiters s \<noteq> x" if "x \<in> set bs" for x
    using assms that by (intro apart_neq [of d p "Suc (length xs)"]) (simp add: thread_ok_def)
  then show ?thesis using assms by (auto simp: thread_ok_def nodes_def)
qed

text \<open>The bytes that the heap writes are apart from the text: the links of free blocks and those of the thread.\<close>

lemma links_off_text:
  assumes "thread_ok d ts bs p xs s" "set cs \<subseteq> set (ts @ bs)"
  shows "rng p (Suc (length xs)) \<inter> link_area (free_list d) cs = {}"
proof -
  have "rng p (Suc (length xs)) \<inter> rng y 8 = {}" if y: "y \<in> nodes (free_list d) cs" for y
  proof (cases "y \<in> set cs")
    case True
    then have "apart d p (Suc (length xs)) y s" using assms by (auto simp: thread_ok_def)
    then show ?thesis using rng_mono [of 8 256 y] by (auto simp: apart_def)
  next
    case False
    have "rng p (Suc (length xs)) \<inter> rng (free_list d) 16 = {}" using assms(1) by (simp add: thread_ok_def)
    then show ?thesis using False y ends_apart(1) [of "free_list d"] by (auto simp: nodes_def)
  qed
  then show ?thesis by (auto simp: link_area_def)
qed

lemma thread_malloc:
  assumes ok: "thread_ok d ts (b # bs) p xs s" and sz: "254 \<le> sz" "sz \<le> 256"
  shows "\<exists>s'. after_call fr (sys_malloc sz) k s = k b s' \<and> thread_ok d (ts @ [b]) bs p xs s' \<and>
    (\<forall>x \<in> rng b 256. kmem s' x = 0) \<and> (\<forall>x. x \<notin> rng b 256 \<union> link_area (free_list d) bs \<longrightarrow> kmem s' x = kmem s x) \<and>
    screen s' = screen s \<and> block_descs s' = block_descs s \<and>
    arenas s' = (arenas s)(block2arena b := (arenas s (block2arena b))\<lparr>cnt := cnt (arenas s (block2arena b)) - 1\<rparr>) \<and>
    memsys.more s' = memsys.more s"
proof -
  let ?r = "running_thread s" and ?a = "block2arena b"
  let ?p = "push_frame ?r fr s"
  obtain i where i: "i < DESC_CNT" "d = desc_at (k_block_descs s) i" "block_size (block_descs s d) = 256"
    "\<And>j. j < i \<Longrightarrow> block_size (block_descs s (desc_at (k_block_descs s) j)) < 254" "256 < pool_size (kernel_pool s)"
    using ok by (auto simp: thread_ok_def class_256_def)
  have t: "heap_ready s" "free_blocks d 256 (b # bs) s" "apart d p (Suc (length xs)) b s" "K_HEAP_START \<le> b" "length xs < 4294967295"
    "cstr (kmem s) p xs" "distinct (ts @ b # bs)"
    using ok by (auto simp: thread_ok_def apart_def)
  have z: "0 < sz" "sz \<le> 1024" "sz < pool_size (kernel_pool ?p)" "sz \<le> block_size (block_descs ?p d)"
    "\<And>j. j < i \<Longrightarrow> block_size (block_descs ?p (desc_at (k_block_descs ?p) j)) < sz"
    using sz i(3,5) less_le_trans [OF i(4) sz(1)] by (simp_all add: push_heap word_le_nat_alt word_less_nat_alt)
  obtain h m where m: "sys_malloc sz ?p = Inr (Some b, ?p\<lparr>lheap := h, kmem := m, arenas := (arenas ?p)(?a := (arenas ?p ?a)\<lparr>cnt := cnt (arenas ?p ?a) - 1\<rparr>)\<rparr>)"
    "heap_ready (?p\<lparr>lheap := h, kmem := m, arenas := (arenas ?p)(?a := (arenas ?p ?a)\<lparr>cnt := cnt (arenas ?p ?a) - 1\<rparr>)\<rparr>)"
    "free_blocks d 256 bs (?p\<lparr>lheap := h, kmem := m, arenas := (arenas ?p)(?a := (arenas ?p ?a)\<lparr>cnt := cnt (arenas ?p ?a) - 1\<rparr>)\<rparr>)"
    "\<forall>x \<in> rng b 256. m x = 0" "\<forall>x. x \<notin> rng b 256 \<longrightarrow> x \<notin> link_area (free_list d) bs \<longrightarrow> m x = kmem ?p x"
    "\<forall>x. x \<notin> nodes (free_list d) (b # bs) \<longrightarrow> rng x 8 \<inter> rng b 256 = {} \<longrightarrow> h x = lheap ?p x"
    using malloc_small_step [of ?p sz i d 256 b bs ?a] t i z by (auto simp: push_heap)
  define s' where "s' = s\<lparr>lheap := h, kmem := m, arenas := (arenas s)(?a := (arenas s ?a)\<lparr>cnt := cnt (arenas s ?a) - 1\<rparr>)\<rparr>"
  note m' = m [unfolded push_update push_heap, folded s'_def]
  have c: "after_call fr (sys_malloc sz) k s = k b s'"
    by (rule after_call_returns [where f = "sys_malloc sz", OF m'(1)]) (simp add: s'_def running_thread_def)
  have "h (console_waiters s) = lheap s (console_waiters s)"
    using m'(6) t(3) thread_ok_waiters [OF ok] by (auto simp: apart_def)
  moreover have "cstr m p xs"
  proof (rule cstr_outside [OF t(6) _ t(5)])
    show "rng p (Suc (length xs)) \<inter> (rng b 256 \<union> link_area (free_list d) bs) = {}"
      using t(3) links_off_text [OF ok, of bs] by (auto simp: apart_def)
  qed (simp add: m'(5) push_fields)
  moreover have "heap_ready s'" "free_blocks d 256 bs s'" using m'(2,3) by (simp_all add: push_heap)
  ultimately have "thread_ok d (ts @ [b]) bs p xs s'" using t(7) by (intro thread_ok_cong [OF ok s'_def]) auto
  with c m'(4,5) show ?thesis by (intro exI [of _ s']) (simp add: s'_def push_fields)
qed

lemma thread_free:
  assumes ok: "thread_ok d (b # ts) bs p xs s" and a: "a = block2arena b" "arenas s a = \<lparr>desc = d, cnt = k, large = False\<rparr>"
    and k: "k + 1 \<noteq> blocks_per_arena (block_descs s d)"
  shows "\<exists>s'. after_call fr (sys_free b) g s = g () s' \<and> thread_ok d ts (bs @ [b]) p xs s' \<and>
    (\<forall>x. x \<notin> link_area (free_list d) (bs @ [b]) \<longrightarrow> kmem s' x = kmem s x) \<and> screen s' = screen s \<and>
    block_descs s' = block_descs s \<and> arenas s' = (arenas s)(a := \<lparr>desc = d, cnt = k + 1, large = False\<rparr>)"
proof -
  let ?p = "push_frame (running_thread s) fr s" and ?x = "(arenas s)(a := \<lparr>desc = d, cnt = k + 1, large = False\<rparr>)"
  have t: "heap_ready s" "free_blocks d 256 bs s" "apart d p (Suc (length xs)) b s" "K_HEAP_START \<le> b" "in_class 256 b"
    "rng (free_list d) 16 \<inter> rng b 256 = {}" "rng (pool_waiters s) 8 \<inter> rng b 256 = {}" "cstr (kmem s) p xs" "distinct (b # ts @ bs)"
    using ok by (auto simp: thread_ok_def apart_def)
  have nb: "b \<notin> nodes (free_list d) bs" using t(9) by (intro apart_nodes [OF t(3)]) simp
  obtain h m where h: "sys_free b ?p = Inr (Some (), ?p\<lparr>lheap := h, kmem := m, arenas := ?x\<rparr>)" "heap_ready (?p\<lparr>lheap := h, kmem := m, arenas := ?x\<rparr>)"
    "free_blocks d 256 (bs @ [b]) (?p\<lparr>lheap := h, kmem := m, arenas := ?x\<rparr>)" "\<forall>x. x \<notin> link_area (free_list d) (bs @ [b]) \<longrightarrow> m x = kmem ?p x"
    "\<forall>x. x \<notin> nodes (free_list d) (bs @ [b]) \<longrightarrow> h x = lheap s x"
    using free_small_step [of ?p d 256 bs b a k] t a k nb by (auto simp: push_heap)
  define s' where "s' = s\<lparr>lheap := h, kmem := m, arenas := ?x\<rparr>"
  note h' = h [unfolded push_update, folded s'_def]
  have c: "after_call fr (sys_free b) g s = g () s'"
    by (rule after_call_returns [where f = "sys_free b", OF h'(1)]) (simp add: s'_def running_thread_def)
  have "h (console_waiters s) = lheap s (console_waiters s)"
    using h'(5) thread_ok_waiters [OF ok] apart_neq [OF t(3)] by (auto simp: nodes_def)
  moreover have "cstr m p xs"
  proof (rule cstr_outside [OF t(8)])
    show "rng p (Suc (length xs)) \<inter> link_area (free_list d) (bs @ [b]) = {}" using links_off_text [OF ok, of "bs @ [b]"] by auto
  qed (use h'(4) ok in \<open>simp_all add: push_fields thread_ok_def\<close>)
  moreover have "heap_ready s'" "free_blocks d 256 (bs @ [b]) s'" using h'(2,3) by (simp_all add: push_heap)
  ultimately have "thread_ok d ts (bs @ [b]) p xs s'" using t(9) by (intro thread_ok_cong [OF ok s'_def]) auto
  with c h'(4) show ?thesis by (intro exI [of _ s']) (simp add: s'_def push_fields)
qed

lemma thread_shows:
  assumes "thread_ok d ts bs p xs s"
  shows "after_call fr (console_put_str p) k s = k () (s\<lparr>screen := screen s @ xs\<rparr>)"
    "after_call fr (console_put_int num) k s = k () (s\<lparr>screen := screen s @ hex_digits num\<rparr>)"
    "after_call fr (console_put_char c) k s = k () (s\<lparr>screen := screen s @ [c]\<rparr>)"
proof -
  have r: "lock_free (console_lock s) s" "running_thread s \<noteq> NULL" "cstr (kmem s) p xs" using assms by (simp_all add: thread_ok_def heap_ready_def)
  show "after_call fr (console_put_str p) k s = k () (s\<lparr>screen := screen s @ xs\<rparr>)"
  proof (rule after_show [OF _ r(1,2)])
    fix t :: "'a memsys_scheme" assume "lock_free (console_lock t) t" "running_thread t \<noteq> NULL" "kmem t = kmem s"
    then show "console_put_str p t = Inr (Some (), t\<lparr>screen := screen t @ xs\<rparr>)" using console_put_str_free [of t p xs] r(3) by simp
  qed
  show "after_call fr (console_put_int num) k s = k () (s\<lparr>screen := screen s @ hex_digits num\<rparr>)"
    "after_call fr (console_put_char c) k s = k () (s\<lparr>screen := screen s @ [c]\<rparr>)"
    by (intro after_show [OF _ r(1,2)] console_put_free; assumption)+
qed

text \<open>Blocks that a thread has or that are free do not overlap.\<close>

lemma thread_ok_disjoint:
  assumes "thread_ok d ts bs p xs s" "b \<in> set (ts @ bs)" "c \<in> set (ts @ bs)" "b \<noteq> c"
  shows "rng b 256 \<inter> rng c 256 = {}"
  using assms by (intro in_class_apart) (auto simp: thread_ok_def apart_def)

lemma link_area_mono: "set cs \<subseteq> set cs' \<Longrightarrow> link_area l cs \<subseteq> link_area l cs'"
  by (auto simp: link_area_def nodes_def)

lemma calls_free3:
  assumes ok: "thread_ok d [b1, b2, b3] bs p xs s" and a: "block2arena b1 = a" "block2arena b2 = a" "block2arena b3 = a"
    "arenas s a = \<lparr>desc = d, cnt = k, large = False\<rparr>" and k: "unat k + 3 < unat (blocks_per_arena (block_descs s d))"
  shows "\<exists>s'. calls fr [sys_free b1, sys_free b2, sys_free b3] s = Inr (Some (), s') \<and> thread_ok d [] (bs @ [b1, b2, b3]) p xs s' \<and>
    (\<forall>x. x \<notin> link_area (free_list d) (bs @ [b1, b2, b3]) \<longrightarrow> kmem s' x = kmem s x) \<and> screen s' = screen s \<and> arenas s' = (arenas s)(a := \<lparr>desc = d, cnt = k + 3, large = False\<rparr>)"
proof -
  let ?n = "blocks_per_arena (block_descs s d)" and ?L = "link_area (free_list d) (bs @ [b1, b2, b3])"
  have ar: "x \<notin> ?L \<Longrightarrow> x \<notin> link_area (free_list d) (bs @ [b1])" "x \<notin> ?L \<Longrightarrow> x \<notin> link_area (free_list d) (bs @ [b1, b2])"
    "x \<notin> ?L \<Longrightarrow> x \<notin> link_area (free_list d) (bs @ [b1, b2, b3])" for x by (erule contra_subsetD [OF link_area_mono, rotated], simp, blast?)+
  have "unat (k + word_of_nat i) = unat k + i" if "i \<le> 3" for i
    using that k less_trans [OF _ unat_u32_lt [of ?n], of "unat k + i"] unat_add_u32 [of k "word_of_nat i"] by (simp add: unat_word_of_nat_u32)
  from this [of 1] this [of 2] this [of 3] have "unat (k + 1) \<noteq> unat ?n" "unat (k + 2) \<noteq> unat ?n" "unat (k + 3) \<noteq> unat ?n" using k by simp_all
  then have ne: "k + 1 \<noteq> ?n" "k + 1 + 1 \<noteq> ?n" "k + 1 + 1 + 1 \<noteq> ?n" by (auto simp: add.assoc)
  obtain s1 where s1: "after_call fr (sys_free b1) (\<lambda>_. calls fr [sys_free b2, sys_free b3]) s = calls fr [sys_free b2, sys_free b3] s1"
    "thread_ok d [b2, b3] (bs @ [b1]) p xs s1" "\<forall>x. x \<notin> ?L \<longrightarrow> kmem s1 x = kmem s x" "screen s1 = screen s" "block_descs s1 = block_descs s"
    "arenas s1 = (arenas s)(a := \<lparr>desc = d, cnt = k + 1, large = False\<rparr>)"
    using thread_free [OF ok a(1) [symmetric] a(4) ne(1), of fr "\<lambda>_. calls fr [sys_free b2, sys_free b3]"] ar(1) by auto
  obtain s2 where s2: "after_call fr (sys_free b2) (\<lambda>_. calls fr [sys_free b3]) s1 = calls fr [sys_free b3] s2"
    "thread_ok d [b3] (bs @ [b1, b2]) p xs s2" "\<forall>x. x \<notin> ?L \<longrightarrow> kmem s2 x = kmem s x" "screen s2 = screen s" "block_descs s2 = block_descs s"
    "arenas s2 = (arenas s)(a := \<lparr>desc = d, cnt = k + 1 + 1, large = False\<rparr>)"
    using thread_free [OF s1(2) a(2) [symmetric], of "k + 1" fr "\<lambda>_. calls fr [sys_free b3]"] s1 ne(2) ar(2) by auto
  obtain s3 where s3: "after_call fr (sys_free b3) (\<lambda>_. calls fr []) s2 = calls fr [] s3"
    "thread_ok d [] (bs @ [b1, b2, b3]) p xs s3" "\<forall>x. x \<notin> ?L \<longrightarrow> kmem s3 x = kmem s x" "screen s3 = screen s"
    "arenas s3 = (arenas s)(a := \<lparr>desc = d, cnt = k + 1 + 1 + 1, large = False\<rparr>)"
    using thread_free [OF s2(2) a(3) [symmetric], of "k + 1 + 1" fr "\<lambda>_. calls fr []"] s2 ne(3) ar(3) by auto
  have "calls fr [sys_free b1, sys_free b2, sys_free b3] s = Inr (Some (), s3)" using s1(1) s2(1) s3(1) by simp
  then show ?thesis using s3 by (intro exI [of _ s3]) (simp add: algebra_simps)
qed

lemma lit_addr_more: "memsys.more s' = memsys.more s \<Longrightarrow> lit_addr s' = lit_addr s"
  by (cases s; cases s') simp

lemma show_and_free_ok:
  assumes ok: "thread_ok d [b1, b2, b3] bs (lit_addr s str) xs s" and a: "block2arena b1 = a" "block2arena b2 = a" "block2arena b3 = a"
    "arenas s a = \<lparr>desc = d, cnt = k, large = False\<rparr>" and k: "unat k + 3 < unat (blocks_per_arena (block_descs s d))"
  shows "\<exists>s'. show_and_free self str b1 b2 b3 s = Inr (Some (), s') \<and> thread_ok d [] (bs @ [b1, b2, b3]) (lit_addr s str) xs s' \<and>
    (\<forall>x. x \<notin> link_area (free_list d) (bs @ [b1, b2, b3]) \<longrightarrow> kmem s' x = kmem s x) \<and>
    screen s' = screen s @ xs @ hex_digits b1 @ [0x2c] @ hex_digits b2 @ [0x2c] @ hex_digits b3 @ [0x0a] \<and>
    arenas s' = (arenas s)(a := \<lparr>desc = d, cnt = k + 3, large = False\<rparr>)"
proof -
  define ys where "ys = screen s @ xs @ hex_digits b1 @ [0x2c] @ hex_digits b2 @ [0x2c] @ hex_digits b3 @ [0x0a]"
  let ?fr = "F_at self [b1, b2, b3]" and ?t = "s\<lparr>screen := ys\<rparr>" and ?p = "lit_addr s str"
  have okk: "thread_ok d [b1, b2, b3] bs ?p xs (s\<lparr>screen := y\<rparr>)" for y using ok by simp
  have "show_and_free self str b1 b2 b3 s = calls ?fr [sys_free b1, sys_free b2, sys_free b3] ?t"
    by (simp add: show_and_free_def thread_shows [OF ok] thread_shows [OF okk] ys_def)
  moreover have "arenas ?t a = \<lparr>desc = d, cnt = k, large = False\<rparr>" "unat k + 3 < unat (blocks_per_arena (block_descs ?t d))" using a(4) k by simp_all
  ultimately show ?thesis using calls_free3 [OF okk [of ys] a(1-3), of k ?fr] unfolding ys_def by auto
qed

lemma malloc_thread_ok:
  assumes ok: "thread_ok d [] (b1 # b2 # b3 # bs) (lit_addr s str) xs s"
    and a: "block2arena b1 = a" "block2arena b2 = a" "block2arena b3 = a" "arenas s a = \<lparr>desc = d, cnt = k, large = False\<rparr>"
    and k: "3 \<le> unat k" "unat k < unat (blocks_per_arena (block_descs s d))"
  shows "\<exists>s'. malloc_thread self str s = Inr (Some (), s') \<and> thread_ok d [] (bs @ [b1, b2, b3]) (lit_addr s str) xs s' \<and> arenas s' = arenas s \<and>
    screen s' = screen s @ xs @ hex_digits b1 @ [0x2c] @ hex_digits b2 @ [0x2c] @ hex_digits b3 @ [0x0a] \<and>
    (\<forall>x. x \<notin> link_area (free_list d) (bs @ [b1, b2, b3]) \<longrightarrow> kmem s' x = (if x \<in> rng b1 256 \<union> rng b2 256 \<union> rng b3 256 then 0 else kmem s x))"
proof -
  let ?L = "link_area (free_list d) (bs @ [b1, b2, b3])"
  have ar: "x \<notin> ?L \<Longrightarrow> x \<notin> link_area (free_list d) (b2 # b3 # bs)" "x \<notin> ?L \<Longrightarrow> x \<notin> link_area (free_list d) (b3 # bs)"
    "x \<notin> ?L \<Longrightarrow> x \<notin> link_area (free_list d) (bs)" for x by (erule contra_subsetD [OF link_area_mono, rotated], simp, blast?)+
  let ?p = "lit_addr s str" and ?f = "\<lambda>ps. F_at self ps" and ?g = "show_and_free self str"
  obtain s1 where s1: "malloc_thread self str s = after_call (?f [b1]) (sys_malloc 255) (\<lambda>addr2. after_call (?f [b1, addr2]) (sys_malloc 254) (?g b1 addr2)) s1"
    "thread_ok d [b1] (b2 # b3 # bs) ?p xs s1" "\<And>x. x \<notin> ?L \<Longrightarrow> kmem s1 x = (if x \<in> rng b1 256 then 0 else kmem s x)" "screen s1 = screen s"
    "block_descs s1 = block_descs s" "arenas s1 = (arenas s)(a := \<lparr>desc = d, cnt = k - 1, large = False\<rparr>)" "memsys.more s1 = memsys.more s"
    using thread_malloc [OF ok, of 256 "?f []" "\<lambda>addr1. after_call (?f [addr1]) (sys_malloc 255) (\<lambda>addr2. after_call (?f [addr1, addr2]) (sys_malloc 254) (?g addr1 addr2))"] a ar(1)
    unfolding malloc_thread_def by auto
  obtain s2 where s2: "malloc_thread self str s = after_call (?f [b1, b2]) (sys_malloc 254) (?g b1 b2) s2"
    "thread_ok d [b1, b2] (b3 # bs) ?p xs s2" "\<And>x. x \<notin> ?L \<Longrightarrow> kmem s2 x = (if x \<in> rng b2 256 then 0 else kmem s1 x)" "screen s2 = screen s"
    "block_descs s2 = block_descs s" "arenas s2 = (arenas s)(a := \<lparr>desc = d, cnt = k - 2, large = False\<rparr>)" "memsys.more s2 = memsys.more s"
    using thread_malloc [OF s1(2), of 255 "?f [b1]" "\<lambda>addr2. after_call (?f [b1, addr2]) (sys_malloc 254) (?g b1 addr2)"] a s1 ar(2) by auto
  obtain s3 where s3: "malloc_thread self str s = ?g b1 b2 b3 s3"
    "thread_ok d [b1, b2, b3] bs ?p xs s3" "\<And>x. x \<notin> ?L \<Longrightarrow> kmem s3 x = (if x \<in> rng b3 256 then 0 else kmem s2 x)" "screen s3 = screen s"
    "block_descs s3 = block_descs s" "arenas s3 = (arenas s)(a := \<lparr>desc = d, cnt = k - 3, large = False\<rparr>)" "memsys.more s3 = memsys.more s"
    using thread_malloc [OF s2(2), of 254 "?f [b1, b2]" "?g b1 b2"] a s2 ar(3) by auto
  have "unat (k - 3) = unat k - 3" using k(1) by (simp add: unat_sub word_le_nat_alt)
  then have "unat (k - 3) + 3 < unat (blocks_per_arena (block_descs s3 d))" using k s3(5) by simp
  moreover have l: "lit_addr s3 str = ?p" using lit_addr_more [OF s3(7)] by simp
  moreover have "arenas s3 a = \<lparr>desc = d, cnt = k - 3, large = False\<rparr>" by (simp add: s3(6))
  ultimately obtain s' where s': "?g b1 b2 b3 s3 = Inr (Some (), s')" "thread_ok d [] (bs @ [b1, b2, b3]) ?p xs s'" "\<forall>x. x \<notin> ?L \<longrightarrow> kmem s' x = kmem s3 x"
    "screen s' = screen s3 @ xs @ hex_digits b1 @ [0x2c] @ hex_digits b2 @ [0x2c] @ hex_digits b3 @ [0x0a]"
    "arenas s' = (arenas s3)(a := \<lparr>desc = d, cnt = k - 3 + 3, large = False\<rparr>)"
    using show_and_free_ok [of d b1 b2 b3 bs s3 str xs a "k - 3" self] s3(2) a(1-3) by auto
  have "arenas s' = arenas s" using a(4) by (auto simp: s'(5) s3(6))
  then show ?thesis using s'(1,2,4) s3(1,4) by (intro exI [of _ s']) (simp add: s'(3) s3(3) s2(3) s1(3))
qed

section \<open>Property\<close>

text \<open>
  C30: The thread \<^verbatim>\<open>k_thread_a\<close>, with a free heap and a free console and three free blocks of 256 bytes in an arena that
  has others in use, gets three blocks that do not overlap, zeroed, for its three different sizes; shows the text and the three addresses
  in hexadecimal; and gives the blocks back: every arena is as before, the blocks are at the end of the free
  list with its links in their first eight bytes and zeros behind, both locks are free again, and outside
  the blocks no byte but those of the list's links has changed.
\<close>
theorem k_thread_a_ok:
  assumes ok: "thread_ok d [] (b1 # b2 # b3 # bs) (lit_addr s '' thread_a malloc addr:0x'') (map of_char '' thread_a malloc addr:0x'') s"
    and a: "block2arena b1 = a" "block2arena b2 = a" "block2arena b3 = a" "arenas s a = \<lparr>desc = d, cnt = k, large = False\<rparr>"
    and k: "3 \<le> unat k" "unat k < unat (blocks_per_arena (block_descs s d))"
  shows "\<exists>s'. k_thread_a arg s = Inr (Some (), s') \<and>
    screen s' = screen s @ map of_char '' thread_a malloc addr:0x'' @ hex_digits b1 @ [0x2c] @ hex_digits b2 @ [0x2c] @ hex_digits b3 @ [0x0a] \<and>
    rng b1 256 \<inter> rng b2 256 = {} \<and> rng b1 256 \<inter> rng b3 256 = {} \<and> rng b2 256 \<inter> rng b3 256 = {} \<and>
    (\<forall>x. x \<notin> link_area (free_list d) (bs @ [b1, b2, b3]) \<longrightarrow> kmem s' x = (if x \<in> rng b1 256 \<union> rng b2 256 \<union> rng b3 256 then 0 else kmem s x)) \<and>
    arenas s' = arenas s \<and> free_blocks d 256 (bs @ [b1, b2, b3]) s' \<and> heap_ready s' \<and> lock_free (console_lock s') s'"
proof -
  obtain s' where s': "k_thread_a arg s = Inr (Some (), s')" "arenas s' = arenas s"
    "thread_ok d [] (bs @ [b1, b2, b3]) (lit_addr s '' thread_a malloc addr:0x'') (map of_char '' thread_a malloc addr:0x'') s'"
    "screen s' = screen s @ map of_char '' thread_a malloc addr:0x'' @ hex_digits b1 @ [0x2c] @ hex_digits b2 @ [0x2c] @ hex_digits b3 @ [0x0a]"
    "\<forall>x. x \<notin> link_area (free_list d) (bs @ [b1, b2, b3]) \<longrightarrow> kmem s' x = (if x \<in> rng b1 256 \<union> rng b2 256 \<union> rng b3 256 then 0 else kmem s x)"
    using malloc_thread_ok [OF assms, of "''k_thread_a''"] unfolding k_thread_a_def by (elim exE conjE)
  have "b1 \<noteq> b2" "b1 \<noteq> b3" "b2 \<noteq> b3" using ok by (simp_all add: thread_ok_def)
  then have "rng b1 256 \<inter> rng b2 256 = {}" "rng b1 256 \<inter> rng b3 256 = {}" "rng b2 256 \<inter> rng b3 256 = {}"
    by (intro thread_ok_disjoint [OF ok]; simp)+
  moreover have "free_blocks d 256 (bs @ [b1, b2, b3]) s'" "heap_ready s'" "lock_free (console_lock s') s'"
    using s'(3) by (simp_all only: thread_ok_def)
  ultimately show ?thesis using s'(1,2,4,5) by blast
qed

text \<open>Three free blocks of 256 bytes in the arena 0xc0100000, and the text of the thread at 0xc0022000.\<close>

definition demo_base :: dirsys where
  "demo_base = filesys.extend (fssys.extend (idesys.extend demo_disks \<lparr>cur_part = 0\<rparr>) \<lparr>file_table = []\<rparr>) \<lparr>root_dir = 0xc0063000\<rparr>"

definition demo_links :: mem where
  "demo_links = fold (\<lambda>(p, w) m. store32 m p w) [(0xc000780c, 0xc010000c), (0xc010000c, 0xc0007808), (0xc0100010, 0xc010010c),
     (0xc010010c, 0xc010000c), (0xc0100110, 0xc010020c), (0xc010020c, 0xc010010c), (0xc0100210, 0xc0007810), (0xc0007810, 0xc010020c)] (\<lambda>_. 0)"

definition demo_prog :: dirsys where
  "demo_prog = (let s = lock_init 0xc0007300 demo_base in
     s\<lparr>block_descs := \<lambda>_. \<lparr>block_size = 256, blocks_per_arena = 15\<rparr>,
       arenas := (arenas s)(0xc0100000 := \<lparr>desc = 0xc0007800, cnt = 14, large = False\<rparr>),
       lheap := (lheap s)(0xc0007808 := \<lparr>prev = NULL, next = 0xc010000c\<rparr>, 0xc010000c := \<lparr>prev = 0xc0007808, next = 0xc010010c\<rparr>,
         0xc010010c := \<lparr>prev = 0xc010000c, next = 0xc010020c\<rparr>, 0xc010020c := \<lparr>prev = 0xc010010c, next = 0xc0007810\<rparr>,
         0xc0007810 := \<lparr>prev = 0xc010020c, next = NULL\<rparr>),
       kmem := put_bytes demo_links 0xc0022000 (map of_char '' thread_a malloc addr:0x'')\<rparr>)"

lemma demo_prog_facts:
  "kernel_pool demo_prog = demo_kpool" "k_block_descs demo_prog = 0xc0007800" "console_lock demo_prog = 0xc0007200" "lit_addr demo_prog str = 0xc0022000"
  "tasks demo_prog = tasks demo_con" "running_thread demo_prog = running_thread demo_con" "block_descs demo_prog d = \<lparr>block_size = 256, blocks_per_arena = 15\<rparr>"
  "arenas demo_prog 0xc0100000 = \<lparr>desc = 0xc0007800, cnt = 14, large = False\<rparr>"
  "kmem demo_prog = put_bytes demo_links 0xc0022000 (map of_char '' thread_a malloc addr:0x'')"
  "lheap demo_prog = (lheap (lock_init 0xc0007300 demo_base))(0xc0007808 := \<lparr>prev = NULL, next = 0xc010000c\<rparr>, 0xc010000c := \<lparr>prev = 0xc0007808, next = 0xc010010c\<rparr>,
         0xc010010c := \<lparr>prev = 0xc010000c, next = 0xc010020c\<rparr>, 0xc010020c := \<lparr>prev = 0xc010010c, next = 0xc0007810\<rparr>,
         0xc0007810 := \<lparr>prev = 0xc010020c, next = NULL\<rparr>)"
  using demo_con_facts(5)
  by (simp_all add: demo_prog_def demo_base_def Let_def lock_init_def sema_init_def list_init_def set_sema_def set_repeat_def set_holder_def
      running_thread_def demo_disks_def demo_call_def syscall_init_def put_lit_def demo_mem_def
      filesys.defs fssys.defs idesys.defs callsys.defs procsys.defs memsys.defs consys.defs)

lemma demo_prog_locks: "lock_free 0xc0007300 demo_prog" "lock_free 0xc0007200 demo_prog"
proof -
  show "lock_free 0xc0007300 demo_prog"
    by (simp add: lock_free_def list_empty_def demo_prog_def Let_def lock_init_def sema_init_def list_init_def set_sema_def set_repeat_def set_holder_def
        set_next_def set_prev_def sema_waiters_def lock_semaphore_def)
  have "lheap demo_base = lheap demo_con" "sema_value demo_base = sema_value demo_con" "lock_holder demo_base = lock_holder demo_con"
    "lock_repeat demo_base = lock_repeat demo_con"
    by (simp_all add: demo_base_def demo_disks_def demo_call_def syscall_init_def put_lit_def demo_mem_def
        filesys.defs fssys.defs idesys.defs callsys.defs procsys.defs memsys.defs consys.defs)
  then show "lock_free 0xc0007200 demo_prog" using demo_con_facts(2)
    by (simp add: lock_free_def list_empty_def demo_prog_def Let_def lock_init_def sema_init_def list_init_def set_sema_def set_repeat_def set_holder_def
        set_next_def set_prev_def sema_waiters_def lock_semaphore_def)
qed

lemma demo_prog_ok:
  "thread_ok 0xc0007800 [] [0xc010000c, 0xc010010c, 0xc010020c] 0xc0022000 (map of_char '' thread_a malloc addr:0x'') demo_prog"
proof -
  let ?xs = "map of_char '' thread_a malloc addr:0x'' :: u8 list"
  have w: "pool_waiters demo_prog = 0xc0007308" "console_waiters demo_prog = 0xc0007208"
    by (simp_all add: pool_waiters_def console_waiters_def demo_prog_facts(1,3) demo_kpool_def sema_waiters_def lock_semaphore_def)
  have "pgdir (tasks demo_con 0xc009e000) = NULL"
    by (simp add: demo_con_def console_init_def lock_init_fields demo_kbd_def demo_dev_def kbdsys.defs devsys.defs tsys.defs demo_tsys_fields demo_task_def)
  then have r: "heap_ready demo_prog" using demo_prog_locks(1) demo_con_facts(6) by (simp add: heap_ready_def demo_prog_facts(1,5,6) demo_kpool_def)
  have c: "class_256 0xc0007800 demo_prog" by (simp add: class_256_def demo_prog_facts(1,2,7) demo_kpool_def DESC_CNT_def desc_at_def exI [of _ 0])
  have cl: "in_class 256 0xc010000c" "in_class 256 0xc010010c" "in_class 256 0xc010020c"
    unfolding in_class_def by (rule exI [of _ 0], simp) (rule exI [of _ 1], simp, rule exI [of _ 2], simp)
  have ap: "apart 0xc0007800 0xc0022000 25 b demo_prog" if "b \<in> {0xc010000c, 0xc010010c, 0xc010020c}" for b
    using that cl by (auto simp: apart_def w free_list_def K_HEAP_START_def rng_interval)
  have dl: "dlist (lheap demo_prog) 0xc0007808 [0xc010000c, 0xc010010c, 0xc010020c]" by (simp add: dlist_def demo_prog_facts(10))
  have "load32 (kmem demo_prog) y = load32 demo_links y" if "unat y < 0xc0022000 - 4 \<or> 0xc0022018 \<le> unat y \<and> unat y < 0xffffff00" for y
    unfolding demo_prog_facts(9)
  proof (rule load32_cong, rule put_bytes_outside)
    fix a assume "a \<in> rng y 4"
    then show "a \<notin> rng 0xc0022000 (length ?xs)" using that by (auto simp: rng_interval)
  qed simp
  moreover have "links_in (nodes 0xc0007808 [0xc010000c, 0xc010010c, 0xc010020c]) (lheap demo_prog) demo_links"
    by (simp add: links_in_def nodes_def demo_prog_facts(10) demo_links_def load32_def store32_def)
  ultimately have "links_in (nodes 0xc0007808 [0xc010000c, 0xc010010c, 0xc010020c]) (lheap demo_prog) (kmem demo_prog)"
    by (simp add: links_in_def nodes_def)
  then have "free_blocks 0xc0007800 256 [0xc010000c, 0xc010010c, 0xc010020c] demo_prog"
    using ap dl by (simp add: free_blocks_def demo_prog_facts(7) w(1) free_list_def apart_def)
  moreover have "cstr (kmem demo_prog) 0xc0022000 ?xs" unfolding demo_prog_facts(9) by (rule cstr_put_bytes) (simp_all add: demo_links_def store32_def)
  moreover have l: "Suc (length ?xs) = 25" by simp
  moreover have "rng 0xc0022000 25 \<inter> rng 0xc0007808 16 = {}" by (auto simp: rng_interval)
  ultimately show ?thesis using r c ap demo_prog_locks(2) unfolding thread_ok_def l by (simp add: demo_prog_facts(3) w(2) free_list_def)
qed

theorem k_thread_a_ok_witness:
  "\<exists>s'. k_thread_a 0 demo_prog = Inr (Some (), s') \<and> arenas s' = arenas demo_prog \<and>
    free_blocks 0xc0007800 256 [0xc010000c, 0xc010010c, 0xc010020c] s'"
proof -
  have "block2arena 0xc010000c = 0xc0100000" "block2arena 0xc010010c = 0xc0100000" "block2arena 0xc010020c = 0xc0100000"
    by (simp_all add: block2arena_def)
  from k_thread_a_ok [OF _ this demo_prog_facts(8), of "[]" 0] show ?thesis
    using demo_prog_ok by (simp add: demo_prog_facts(4,7)) blast
qed

end
