(* ===== verification/Spec2Isabelle.thy ===== *)
theory Spec2Isabelle
  imports KString Bitmap Interrupt KList Paging Thread Sync Mutex Ioqueue Keyboard Stdio Console Timer Screen Memory Pages Heap Tasks Process Syscall Ide Fs Inode File Dir DirSync Init Programs
begin

text \<open>
  HC-OS is a small 32-bit kernel for the PC in C with some assembly: paging and a heap, kernel
  threads with a round-robin scheduler, locks, a keyboard and a console, user processes with a
  handful of system calls, a disk driver and the beginnings of a file system. This development
  models its C code, with the assembly the C code calls, and proves what makes it correct.

  \<^bold>\<open>How the program is modelled.\<close> The state of the machine is one record, extended from theory to
  theory the way the kernel is layered: processor flags and ports (\<open>cpu\<close>), interrupt tables
  (\<open>idt_state\<close>), the heap of list elements (\<open>lstate\<close>), page tables (\<open>vmstate\<close>), tasks, semaphores and
  locks (\<open>tsys\<close>), circular queues, screen and byte memory (\<open>devsys\<close>), keyboard (\<open>kbdsys\<close>), console
  (\<open>consys\<close>), memory manager (\<open>memsys\<close>), segments and interrupt frames (\<open>procsys\<close>), the table of system
  calls (\<open>callsys\<close>), disks and partitions (\<open>idesys\<close>), the mounted partition (\<open>fssys\<close>), the table of open
  files (\<open>filesys\<close>) and the root directory (\<open>dirsys\<close>). Every operation is polymorphic in the extension, so that a lower layer runs
  unchanged inside a higher one. Integers have their width (\<open>u8\<close>, \<open>u16\<close>, \<open>u32\<close>), pointers are \<open>u32\<close>
  addresses. Memory is used through typed views: bytes, list elements, task records, semaphores and
  locks, arena headers, block descriptors and words of page tables. Clearing pages clears what lies on
  them in all of these views; queues, channels, disks and partitions are static data and never on such
  pages. A free block of the heap is bytes and a list element at once, so the routines that link
  blocks write the links into both. Elsewhere a region is used through one view: the tag of an open
  inode, for instance, is a list element only, and the eight bytes of the inode it lies in are
  overwritten where the code clears them.

  An operation returns \<open>Inr\<close> of its result or \<open>Inl\<close> of what stops the kernel: a failed \<^verbatim>\<open>ASSERT\<close> or \<^verbatim>\<open>PANIC\<close>,
  a page fault, an access outside an array, or a loop that does not end (loops whose end depends on
  the data are \<^theory_text>\<open>partial_function (option)\<close>, and every one is shown to return on
  well-formed data). Three recursions whose steps may sleep carry a bound instead: the passes of
  \<^verbatim>\<open>ide_read\<close> and \<^verbatim>\<open>ide_write\<close> (one more than the number of sectors, and a pass handles at least one), the
  depth of \<^verbatim>\<open>partition_scan\<close> (64, at which the kernel stack is used up), and the walk over the list of
  partitions (13, one more than the list can hold). A routine that gives up the processor
  ends in another thread: what the old thread still has to do is the list of frames on its
  kernel stack. Routines that may sleep return \<open>None\<close> in that case; \<open>after_call\<close> and \<open>after_lock\<close> of
  \<open>Sync\<close> compose them.

  \<^bold>\<open>The theories.\<close>
  \<^item> \<open>Prelude\<close>: results, words, macros of \<^verbatim>\<open>kernel/global.h\<close> and \<^verbatim>\<open>kernel/debug.h\<close>.
  \<^item> \<open>KString\<close>: \<^verbatim>\<open>lib/string.c\<close>. Each routine returns on NUL-terminated strings and computes the list
    function it stands for.
  \<^item> \<open>Bitmap\<close>: \<^verbatim>\<open>lib/kernel/bitmap.c\<close>. \<^verbatim>\<open>bitmap_scan\<close> finds the least free run, reads one bit too far, and
    panics on a full map; set and test are inverse.
  \<^item> \<open>Interrupt\<close>: \<^verbatim>\<open>kernel/interrupt.c\<close>, \<^verbatim>\<open>lib/kernel/io.h\<close>.
  \<^item> \<open>KList\<close>: \<^verbatim>\<open>kernel/list.c\<close> on a heap of elements, refined to sequences through the locale of queue
    operations, interpreted on the pointer code.
  \<^item> \<open>Paging\<close>: the two-level translation and the window through which \<^verbatim>\<open>kernel/memory.c\<close> edits tables.
  \<^item> \<open>Thread\<close>: \<^verbatim>\<open>thread/thread.c\<close>, \<^verbatim>\<open>thread/switch.S\<close>, the clock interrupt of \<^verbatim>\<open>device/timer.c\<close>. The scheduler
    refines a round-robin queue, keeps its invariant and never panics.
  \<^item> \<open>Sync\<close> and \<open>Mutex\<close>: \<^verbatim>\<open>thread/sync.c\<close>. A step relation interleaves the statements of all threads with
    clock interrupts; mutual exclusion and the absence of lost wake-ups follow by rule induction.
  \<^item> \<open>Ioqueue\<close>, \<open>Keyboard\<close>, \<open>Console\<close>, \<open>Timer\<close>: the drivers of \<^verbatim>\<open>device/\<close>.
  \<^item> \<open>Screen\<close>: \<^verbatim>\<open>lib/kernel/print.S\<close> on the ports of the display controller and the bytes of video memory. \<^verbatim>\<open>put_char\<close>
    refines a text screen of 25 rows and 80 columns with its scrolling, \<^verbatim>\<open>put_str\<close> and \<^verbatim>\<open>put_int\<close> hand it the bytes that
    the other theories count as shown, and the exception handler leaves its message in the first rows.
  \<^item> \<open>Stdio\<close>: \<^verbatim>\<open>lib/stdio.c\<close>; \<^verbatim>\<open>vsprintf\<close> writes the text its format and arguments stand for.
  \<^item> \<open>Memory\<close> and \<open>Pages\<close>: \<^verbatim>\<open>kernel/memory.c\<close>, and its invariant: allocated pages are mapped to
    allocated frames, no frame twice; release undoes allocation in the tables and the bitmaps, but not
    in what the processor remembers of them.
  \<^item> \<open>Heap\<close>: the blocks of an arena do not overlap; \<^verbatim>\<open>sys_malloc\<close> hands out a whole zeroed block, \<^verbatim>\<open>sys_free\<close>
    puts it at the end of the free list, with the links in its first bytes.
  \<^item> \<open>Tasks\<close>: creation of threads; \<^verbatim>\<open>thread_init\<close> establishes the scheduler's invariant.
  \<^item> \<open>Process\<close>: \<^verbatim>\<open>userprog/process.c\<close> and \<^verbatim>\<open>userprog/tss.c\<close>; new page directories share the kernel's half.
  \<^item> \<open>Syscall\<close>: \<^verbatim>\<open>userprog/syscall-init.c\<close>, \<^verbatim>\<open>lib/user/syscall.c\<close>, the entry of vector 0x80, and \<^verbatim>\<open>printf\<close>
    from end to end.
  \<^item> \<open>Ide\<close>: \<^verbatim>\<open>device/ide.c\<close>. A read programs the controller with one command and stores what the data port
    delivers; sectors written and read back are restored; an early interrupt panics.
  \<^item> \<open>Fs\<close>: \<^verbatim>\<open>fs/fs.c\<close>. The layout of a formatted partition has no gap or overlap; its block bitmap frees one
    block too many.
  \<^item> \<open>Inode\<close>: \<^verbatim>\<open>fs/inode.c\<close>. Every inode has its own place in the table; opening and closing are inverse;
    writing back an inode with a number above 255 hits another one's place.
  \<^item> \<open>File\<close> and \<open>Dir\<close>: \<^verbatim>\<open>fs/file.c\<close> and \<^verbatim>\<open>fs/dir.c\<close>. Blocks and descriptors are given out least first; an
    entry that is made is found again.
  \<^item> \<open>DirSync\<close>: \<^verbatim>\<open>sync_dir_entry\<close> of \<^verbatim>\<open>fs/dir.c\<close>. An entry goes to the first free place of a block the directory has, and
    exactly its sector is written back; the table of indirect blocks is never read from the disk.
  \<^item> \<open>Init\<close>: the handler of exceptions, \<^verbatim>\<open>panic_spin\<close> of \<^verbatim>\<open>kernel/debug.c\<close>,
    \<^verbatim>\<open>kernel/init.c\<close> and \<^verbatim>\<open>main\<close>, the components put together in the order the kernel starts them.
  \<^item> \<open>Programs\<close>: the threads and user programs of \<^verbatim>\<open>main.c\<close>. A thread gets three blocks that do not overlap and
    leaves every arena as it found it.

  \<^bold>\<open>Limits of the model.\<close> The stack use of C functions is balanced and left out of the stack pointer, and
  so is the switch to the stack of \<^verbatim>\<open>tss.esp0\<close> that the processor makes on \<^verbatim>\<open>int 0x80\<close> from user mode. Of the
  processor's own cache of translations the state records which pages may be stale (\<open>stale\<close> in
  \<open>Paging\<close>): the kernel flushes the wrong page when it takes a page away, so a freed page stays stale
  until CR3 is loaded; loads and stores of the model follow the tables. Interrupts arrive
  between the statements of the lock routines and between whole operations elsewhere. Hardware that
  answers (the keyboard controller, the disk) is an argument.

  \<^bold>\<open>Not modelled.\<close> The boot sector and loader (\<^verbatim>\<open>boot/\<close>), which run in real mode before the kernel. Nothing starts the threads and user programs of \<^verbatim>\<open>main.c\<close>, and three files are not built by the
  makefile, \<^verbatim>\<open>fs/inode.c\<close>, \<^verbatim>\<open>fs/file.c\<close> and \<^verbatim>\<open>fs/dir.c\<close>; their slips (\<^verbatim>\<open>ionde\<close> for \<^verbatim>\<open>inode\<close> in \<^verbatim>\<open>fs/dir.h\<close>, \<^verbatim>\<open>btmap\<close> for \<^verbatim>\<open>btmp\<close> in
  \<^verbatim>\<open>fs/file.c\<close>, \<^verbatim>\<open>mydisk\<close>, \<^verbatim>\<open>mu_disk\<close>, \<^verbatim>\<open>i_siez\<close> and \<^verbatim>\<open>block_ide\<close> in \<^verbatim>\<open>sync_dir_entry\<close>) are read as the names they stand for. The one
  statement that cannot be read, an \<^verbatim>\<open>ASSERT\<close> with three arguments in \<^verbatim>\<open>sync_dir_entry\<close>, is a parameter of the model, of which
  nothing is assumed: the theorem is about the way that does not come to it.
\<close>

end
